(* ===== verification/Prelude.thy ===== *)
theory Prelude
  imports Main "HOL-Library.Word"
begin

text \<open>
  Prelude: the vocabulary every component shares.

  \<^item> Names for the machine integers of the source (\<open>u8\<close> to \<open>u64\<close>), with Rust's
    \<open>checked_add\<close> and \<open>checked_sub\<close>, characterised on natural numbers.
  \<^item> \<open>Result\<close>: \<open>Ok\<close> and \<open>Err\<close> name the two injections of a sum, and
    \<open>rbind\<close> is the question mark operator.
  \<^item> The iterator idioms the source uses: \<open>first_some\<close> (a loop that returns from
    inside), \<open>position\<close>, \<open>partition_point\<close>.

  Lemmas that the component proofs rewrite with are collected in \<open>word_nat\<close>
  (reading words as naturals) or declared as simplification rules here.
\<close>

section \<open>Machine integers\<close>

type_synonym u8 = "8 word"
type_synonym u16 = "16 word"
type_synonym u32 = "32 word"
type_synonym u64 = "64 word"

named_theorems word_nat

lemmas [word_nat] = word_less_nat_alt word_le_nat_alt

lemma word_eq_nat [word_nat]: "(a :: 'a::len word) = b \<longleftrightarrow> unat a = unat b"
  by (rule word_unat_eq_iff)

text \<open>Rust's checked arithmetic: \<open>None\<close> when the exact result is not representable.\<close>

definition checked_add :: "'a::len word \<Rightarrow> 'a word \<Rightarrow> 'a word option" where
  "checked_add a b = (if unat a + unat b < 2 ^ LENGTH('a) then Some (a + b) else None)"

definition checked_sub :: "'a::len word \<Rightarrow> 'a word \<Rightarrow> 'a word option" where
  "checked_sub a b = (if b \<le> a then Some (a - b) else None)"

definition checked_mul :: "'a::len word \<Rightarrow> 'a word \<Rightarrow> 'a word option" where
  "checked_mul a b = (if unat a * unat b < 2 ^ LENGTH('a) then Some (a * b) else None)"

lemma unat_add_no_overflow:
  "unat (a :: 'a::len word) + unat b < 2 ^ LENGTH('a) \<Longrightarrow> unat (a + b) = unat a + unat b"
  by (simp add: unat_word_ariths)

lemma checked_add_eq_Some [word_nat]:
  "checked_add a b = Some c \<longleftrightarrow> unat c = unat a + unat b"
proof
  assume "unat c = unat a + unat b"
  then have "unat a + unat b < 2 ^ LENGTH('a)"
    by (metis unsigned_less)
  with \<open>unat c = unat a + unat b\<close> show "checked_add a b = Some c"
    by (simp add: checked_add_def unat_add_no_overflow word_unat_eq_iff)
qed (auto simp: checked_add_def unat_add_no_overflow split: if_splits)

lemma checked_add_eq_None [word_nat]:
  "checked_add a (b :: 'a::len word) = None \<longleftrightarrow> 2 ^ LENGTH('a) \<le> unat a + unat b"
  by (simp add: checked_add_def not_less)

lemma checked_sub_eq_Some [word_nat]:
  "checked_sub a b = Some c \<longleftrightarrow> unat a = unat b + unat c"
proof
  assume "unat a = unat b + unat c"
  then have "b \<le> a" and "unat (a - b) = unat c"
    by (simp_all add: word_le_nat_alt unat_sub_if')
  then show "checked_sub a b = Some c"
    by (simp add: checked_sub_def word_unat_eq_iff)
next
  assume "checked_sub a b = Some c"
  then show "unat a = unat b + unat c"
    by (auto simp: checked_sub_def word_le_nat_alt unat_sub_if' split: if_splits)
qed

lemma checked_sub_eq_None [word_nat]: "checked_sub a b = None \<longleftrightarrow> unat a < unat b"
  by (simp add: checked_sub_def word_le_nat_alt)

lemma checked_mul_eq_Some [word_nat]:
  "checked_mul a (b :: 'a::len word) = Some c \<longleftrightarrow> unat c = unat a * unat b"
proof
  assume eq: "unat c = unat a * unat b"
  then have "unat a * unat b < 2 ^ LENGTH('a)"
    by (metis unsigned_less)
  with eq show "checked_mul a b = Some c"
    by (simp add: checked_mul_def word_unat_eq_iff unat_word_ariths)
qed (auto simp: checked_mul_def unat_word_ariths split: if_splits)


definition saturating_add :: "'a::len word \<Rightarrow> 'a word \<Rightarrow> 'a word" where
  "saturating_add a b = (case checked_add a b of None \<Rightarrow> -1 | Some c \<Rightarrow> c)"

definition saturating_mul :: "'a::len word \<Rightarrow> 'a word \<Rightarrow> 'a word" where
  "saturating_mul a b = (case checked_mul a b of None \<Rightarrow> -1 | Some c \<Rightarrow> c)"

lemma unat_max: "unat (-1 :: 'a::len word) = 2 ^ LENGTH('a) - 1"
  by (simp add: unsigned_minus_1_eq_mask mask_eq_exp_minus_1)

lemma unat_saturating_add: "unat (saturating_add a (b :: 'a::len word)) = min (unat a + unat b) (2 ^ LENGTH('a) - 1)"
  by (auto simp: saturating_add_def checked_add_def unat_add_no_overflow unat_max min_def)

lemma unat_saturating_mul: "unat (saturating_mul a (b :: 'a::len word)) = min (unat a * unat b) (2 ^ LENGTH('a) - 1)"
proof (cases "unat a * unat b < 2 ^ LENGTH('a)")
  case True
  then show ?thesis by (simp add: saturating_mul_def checked_mul_def unat_word_ariths)
next
  case False
  then have "2 ^ LENGTH('a) - 1 \<le> unat a * unat b" by linarith
  then show ?thesis using False by (simp add: saturating_mul_def checked_mul_def unat_max min.absorb2)
qed


section \<open>Results\<close>

abbreviation Ok :: "'a \<Rightarrow> 'e + 'a" where "Ok \<equiv> Inr"
abbreviation Err :: "'e \<Rightarrow> 'e + 'a" where "Err \<equiv> Inl"

fun rbind :: "'e + 'a \<Rightarrow> ('a \<Rightarrow> 'e + 'b) \<Rightarrow> 'e + 'b" where
  "rbind (Inl e) f = Inl e"
| "rbind (Inr a) f = f a"

definition ok_or :: "'a option \<Rightarrow> 'e \<Rightarrow> 'e + 'a" where
  "ok_or x e = (case x of None \<Rightarrow> Err e | Some a \<Rightarrow> Ok a)"

definition map_err :: "('e \<Rightarrow> 'f) \<Rightarrow> 'e + 'a \<Rightarrow> 'f + 'a" where
  "map_err g r = (case r of Inl e \<Rightarrow> Err (g e) | Inr a \<Rightarrow> Ok a)"

lemma rbind_eq_Ok [simp]: "rbind r f = Inr b \<longleftrightarrow> (\<exists>a. r = Inr a \<and> f a = Inr b)"
  by (cases r) auto

lemma rbind_eq_Err [simp]:
  "rbind r f = Inl e \<longleftrightarrow> r = Inl e \<or> (\<exists>a. r = Inr a \<and> f a = Inl e)"
  by (cases r) auto

lemma rbind_cong [fundef_cong]:
  "r = r' \<Longrightarrow> (\<And>a. r' = Inr a \<Longrightarrow> f a = g a) \<Longrightarrow> rbind r f = rbind r' g"
  by (cases r') auto

lemma ok_or_eq_Ok [simp]: "ok_or x e = Inr a \<longleftrightarrow> x = Some a"
  by (cases x) (auto simp: ok_or_def)

lemma ok_or_eq_Err [simp]: "ok_or x e = Inl e' \<longleftrightarrow> x = None \<and> e = e'"
  by (cases x) (auto simp: ok_or_def)

lemma ok_or_simps [simp]: "ok_or None e = Inl e" "ok_or (Some a) e = Inr a"
  by (simp_all add: ok_or_def)

lemma map_err_eq_Ok [simp]: "map_err g r = Inr a \<longleftrightarrow> r = Inr a"
  by (cases r) (auto simp: map_err_def)

lemma map_err_eq_Err [simp]: "map_err g r = Inl e \<longleftrightarrow> (\<exists>e'. r = Inl e' \<and> e = g e')"
  by (cases r) (auto simp: map_err_def)

lemma map_err_simps [simp]: "map_err g (Inl e) = Inl (g e)" "map_err g (Inr a) = Inr a"
  by (simp_all add: map_err_def)

text \<open>A loop whose body may fail, threading a state: the first failure ends it.\<close>

fun rfold :: "('s \<Rightarrow> 'a \<Rightarrow> 'e + 's) \<Rightarrow> 's \<Rightarrow> 'a list \<Rightarrow> 'e + 's" where
  "rfold f s [] = Ok s"
| "rfold f s (x # xs) = rbind (f s x) (\<lambda>s'. rfold f s' xs)"

lemma rfold_append: "rfold f s (xs @ ys) = rbind (rfold f s xs) (\<lambda>s'. rfold f s' ys)"
proof (induction xs arbitrary: s)
  case (Cons x xs)
  then show ?case by (cases "f s x") auto
qed simp

lemma rfold_invariant:
  assumes "rfold f s xs = Ok s'" and "P s"
    and "\<And>s x s'. x \<in> set xs \<Longrightarrow> P s \<Longrightarrow> f s x = Ok s' \<Longrightarrow> P s'"
  shows "P s'"
  using assms
proof (induction xs arbitrary: s)
  case (Cons x xs)
  then show ?case by (auto; blast)
qed simp

text \<open>Collecting an iterator of results: the first error wins.\<close>

fun rcollect :: "('e + 'a) list \<Rightarrow> 'e + 'a list" where
  "rcollect [] = Ok []"
| "rcollect (r # rs) = rbind r (\<lambda>a. rbind (rcollect rs) (\<lambda>as. Ok (a # as)))"

lemma rcollect_map_Ok:
  "rcollect (map f xs) = Inr ys \<longleftrightarrow> list_all2 (\<lambda>x y. f x = Inr y) xs ys"
  by (induction xs arbitrary: ys) (auto simp: list_all2_Cons1)


section \<open>Iterator idioms\<close>

text \<open>A loop that returns from inside at the first element the body accepts.\<close>

fun first_some :: "('a \<Rightarrow> 'b option) \<Rightarrow> 'a list \<Rightarrow> 'b option" where
  "first_some f [] = None"
| "first_some f (x # xs) = (case f x of Some b \<Rightarrow> Some b | None \<Rightarrow> first_some f xs)"

lemma first_some_eq_None [simp]: "first_some f xs = None \<longleftrightarrow> (\<forall>x \<in> set xs. f x = None)"
  by (induction xs) (auto split: option.splits)

lemma first_some_SomeD: "first_some f xs = Some b \<Longrightarrow> \<exists>x \<in> set xs. f x = Some b"
  by (induction xs) (auto split: option.splits)

lemma first_some_append:
  "first_some f (xs @ ys) = (case first_some f xs of Some b \<Rightarrow> Some b | None \<Rightarrow> first_some f ys)"
  by (induction xs) (auto split: option.split simp del: first_some_eq_None)

text \<open>The result of such a loop comes from a first accepted element, with nothing accepted before it.\<close>

lemma first_some_split:
  "first_some f xs = Some b \<Longrightarrow>
     \<exists>ys x zs. xs = ys @ x # zs \<and> f x = Some b \<and> (\<forall>y \<in> set ys. f y = None)"
proof (induction xs)
  case (Cons x xs)
  show ?case
  proof (cases "f x")
    case None
    with Cons.prems have "first_some f xs = Some b" by simp
    from Cons.IH [OF this] obtain ys y zs
      where "xs = ys @ y # zs" "f y = Some b" "\<forall>y \<in> set ys. f y = None" by blast
    with None show ?thesis by (intro exI [of _ "x # ys"]) auto
  next
    case (Some c)
    with Cons.prems show ?thesis by (intro exI [of _ "[]"]) auto
  qed
qed simp

lemma first_some_cong: "xs = ys \<Longrightarrow> (\<And>x. x \<in> set ys \<Longrightarrow> f x = g x) \<Longrightarrow> first_some f xs = first_some g ys"
  by (induction ys arbitrary: xs) (auto split: option.split)

lemma first_some_upt:
  "first_some f [0 ..< k] = Some b \<Longrightarrow> \<exists>x < k. f x = Some b \<and> (\<forall>y < x. f y = None)"
proof (induction k)
  case (Suc k)
  then show ?case
    by (cases "first_some f [0 ..< k]")
       (auto simp: first_some_append simp del: first_some_eq_None split: option.splits
         simp: first_some_eq_None [of f "[0 ..< k]"] less_Suc_eq)
qed simp

fun position :: "('a \<Rightarrow> bool) \<Rightarrow> 'a list \<Rightarrow> nat option" where
  "position P [] = None"
| "position P (x # xs) = (if P x then Some 0 else map_option Suc (position P xs))"

lemma position_eq_None [simp]: "position P xs = None \<longleftrightarrow> (\<forall>x \<in> set xs. \<not> P x)"
  by (induction xs) auto

lemma position_SomeD:
  "position P xs = Some i \<Longrightarrow> i < length xs \<and> P (xs ! i) \<and> (\<forall>j < i. \<not> P (xs ! j))"
proof (induction xs arbitrary: i)
  case (Cons x xs)
  then show ?case
    by (auto split: if_splits simp: less_Suc_eq_0_disj nth_Cons split: nat.splits)
qed simp

text \<open>
  The standard library's \<open>partition_point\<close>: the number of leading elements that satisfy the
  predicate, on a slice where every satisfying element precedes every other one.
\<close>

definition partition_point :: "('a \<Rightarrow> bool) \<Rightarrow> 'a list \<Rightarrow> nat" where
  "partition_point P xs = length (takeWhile P xs)"

lemma partition_point_le: "partition_point P xs \<le> length xs"
  by (simp add: partition_point_def length_takeWhile_le)

lemma partition_point_simps [simp]:
  "partition_point P [] = 0"
  "partition_point P (x # xs) = (if P x then Suc (partition_point P xs) else 0)"
  by (simp_all add: partition_point_def)

text \<open>A loop that scans a slice for an element that already occurred before it.\<close>

fun first_duplicate :: "'a list \<Rightarrow> 'a list \<Rightarrow> 'a option" where
  "first_duplicate seen [] = None"
| "first_duplicate seen (x # xs) =
     (if x \<in> set seen then Some x else first_duplicate (seen @ [x]) xs)"

lemma first_duplicate_None:
  "first_duplicate seen xs = None \<longleftrightarrow> distinct xs \<and> set seen \<inter> set xs = {}"
  by (induction xs arbitrary: seen) auto

lemma first_duplicate_Nil [simp]: "first_duplicate [] xs = None \<longleftrightarrow> distinct xs"
  by (simp add: first_duplicate_None)

lemma first_duplicate_SomeD: "first_duplicate seen xs = Some x \<Longrightarrow> x \<in> set xs"
  by (induction xs arbitrary: seen) (auto split: if_splits)

text \<open>\<open>sort_unstable\<close> followed by \<open>dedup\<close>.\<close>

lemma distinct_remdups_adj_sorted: "sorted xs \<Longrightarrow> distinct (remdups_adj xs)"
  by (induction xs rule: remdups_adj.induct) (auto simp: le_less)

end
