(* ===== verification/Ids.thy ===== *)
theory Ids
  imports Prelude
begin

text \<open>
  Identity (\<open>src/ids.rs\<close>): node identifiers and their packed durable pair, eras, views,
  slots, ballots, the successor arithmetic that refuses to wrap, the congruence search a primary
  uses to choose its own next view, and the fault taxonomy.

  The transparent newtypes of the source are names for the word they wrap. \<open>Ballot\<close> keeps its
  own type because its derived order is the lexicographic one, which the instance below restates.
\<close>

unbundle bit_operations_syntax

type_synonym node_id = u32
type_synonym era = u32
type_synonym view = u32
type_synonym slot = u64
type_synonym tick = u64

section \<open>The packed node identity\<close>

definition system_id_new :: "u16 \<Rightarrow> u16 option" where
  "system_id_new value = (if value \<noteq> 0 then Some value else None)"

definition crash_counter_new :: "u16 \<Rightarrow> u16 option" where
  "crash_counter_new value = (if value \<noteq> 0 then Some value else None)"

definition node_id_new :: "u16 \<Rightarrow> u16 \<Rightarrow> node_id" where
  "node_id_new system crash = push_bit 16 (ucast system) OR ucast crash"

definition system_id :: "node_id \<Rightarrow> u16 option" where
  "system_id n = system_id_new (ucast (drop_bit 16 n))"

definition crash_counter :: "node_id \<Rightarrow> u16 option" where
  "crash_counter n = crash_counter_new (ucast (n AND 0xffff))"

definition is_lawful :: "node_id \<Rightarrow> bool" where
  "is_lawful n \<longleftrightarrow> drop_bit 16 n \<noteq> 0 \<and> n AND 0xffff \<noteq> 0"

definition next_life :: "node_id \<Rightarrow> node_id option" where
  "next_life n =
     (case system_id n of
        None \<Rightarrow> None
      | Some system \<Rightarrow>
          (case crash_counter n of
             None \<Rightarrow> None
           | Some counter \<Rightarrow>
               (case checked_add counter 1 of
                  None \<Rightarrow> None
                | Some k \<Rightarrow>
                    (case crash_counter_new k of
                       None \<Rightarrow> None
                     | Some next \<Rightarrow> Some (node_id_new system next)))))"

lemma low_half: "(n :: u32) AND 0xffff = take_bit 16 n"
  by (simp add: take_bit_eq_mask mask_eq_exp_minus_1)

lemma node_id_high [simp]: "ucast (drop_bit 16 (node_id_new s c)) = s"
  by (rule bit_word_eqI) (auto simp: node_id_new_def bit_simps dest: bit_imp_le_length)

lemma node_id_low [simp]: "ucast (take_bit 16 (node_id_new s c)) = c"
  by (rule bit_word_eqI) (auto simp: node_id_new_def bit_simps)

lemma node_id_halves: "node_id_new (ucast (drop_bit 16 n)) (ucast (take_bit 16 n)) = n"
  by (rule bit_word_eqI) (auto simp: node_id_new_def bit_simps)

lemma high_half_zero: "ucast (drop_bit 16 (n :: u32)) = (0 :: u16) \<longleftrightarrow> drop_bit 16 n = 0"
proof -
  have "i < 16 \<and> i < 32" if "bit n (16 + i)" for i
    using bit_imp_le_length [OF that] by simp
  then show ?thesis
    by (auto simp: bit_eq_iff bit_simps)
qed

lemma low_half_zero: "ucast (take_bit 16 (n :: u32)) = (0 :: u16) \<longleftrightarrow> take_bit 16 n = 0"
  by (auto simp: bit_eq_iff bit_simps)

lemma node_id_new_inject [simp]: "node_id_new s c = node_id_new s' c' \<longleftrightarrow> s = s' \<and> c = c'"
  by (metis node_id_high node_id_low)

lemma unat_node_id_new: "unat (node_id_new s c) = unat s * 65536 + unat c"
proof -
  have "node_id_new s c = push_bit 16 (ucast s) + ucast c"
    unfolding node_id_new_def
    by (rule disjunctive_add [symmetric]) (auto simp: bit_simps dest: bit_imp_le_length)
  moreover have "unat s < 65536" "unat c < 65536"
    using unsigned_less [of s] unsigned_less [of c] by simp_all
  ultimately show ?thesis
    by (simp add: unat_word_ariths push_bit_eq_mult unsigned_ucast_eq take_bit_nat_eq_self)
qed

lemmas node_id_defs =
  system_id_def crash_counter_def system_id_new_def crash_counter_new_def low_half

text \<open>The two halves of a packed pair are read back, and only lawful patterns are pairs.\<close>

lemma system_id_pack: "system_id (node_id_new s c) = (if s = 0 then None else Some s)"
  by (simp add: node_id_defs)

lemma crash_counter_pack: "crash_counter (node_id_new s c) = (if c = 0 then None else Some c)"
  by (simp add: node_id_defs)

lemma is_lawful_pack: "is_lawful (node_id_new s c) \<longleftrightarrow> s \<noteq> 0 \<and> c \<noteq> 0"
  by (metis is_lawful_def high_half_zero low_half low_half_zero node_id_high node_id_low)

lemma is_lawful_iff: "is_lawful n \<longleftrightarrow> system_id n \<noteq> None \<and> crash_counter n \<noteq> None"
  by (simp add: is_lawful_def node_id_defs high_half_zero low_half_zero)

lemma lawful_eq_pack:
  "system_id n = Some s \<and> crash_counter n = Some c \<longleftrightarrow> s \<noteq> 0 \<and> c \<noteq> 0 \<and> n = node_id_new s c"
  by (auto simp: node_id_defs node_id_halves split: if_splits)

lemma node_id_cases:
  obtains s c where "n = node_id_new s c"
  by (metis node_id_halves)

lemma next_life_pack:
  "next_life (node_id_new s c) =
     (if s = 0 \<or> c = 0 \<or> c = 0xffff then None else Some (node_id_new s (c + 1)))"
proof -
  have "checked_add c 1 = None \<longleftrightarrow> c = 0xffff"
    using unsigned_less [of c, where ?'a = nat] by (auto simp: word_nat)
  moreover have "c \<noteq> 0xffff \<Longrightarrow> checked_add c 1 = Some (c + 1)"
    using unsigned_less [of c, where ?'a = nat] by (auto simp: checked_add_def word_eq_nat)
  moreover have "c \<noteq> 0xffff \<Longrightarrow> c + 1 \<noteq> 0"
    using unsigned_less [of c, where ?'a = nat]
    by (auto simp: word_eq_nat unat_word_ariths mod_Suc split: if_splits)
  ultimately show ?thesis
    by (cases "c = 0xffff") (simp_all add: next_life_def system_id_pack crash_counter_pack
      crash_counter_new_def)
qed


section \<open>Successors\<close>

definition era_next :: "era \<Rightarrow> era option" where
  "era_next e = checked_add e 1"

definition view_next :: "view \<Rightarrow> view option" where
  "view_next v = checked_add v 1"

definition SLOT_NONE :: slot where
  "SLOT_NONE = 0"

definition slot_next :: "slot \<Rightarrow> slot option" where
  "slot_next s = checked_add s 1"

definition slot_prev :: "slot \<Rightarrow> slot option" where
  "slot_prev s = checked_sub s 1"

definition distance_to :: "slot \<Rightarrow> slot \<Rightarrow> u64 option" where
  "distance_to s other = checked_sub other s"

lemma era_next_Some [word_nat]: "era_next e = Some e' \<longleftrightarrow> unat e' = unat e + 1"
  by (simp add: era_next_def checked_add_eq_Some)

lemma view_next_Some [word_nat]: "view_next v = Some v' \<longleftrightarrow> unat v' = unat v + 1"
  by (simp add: view_next_def checked_add_eq_Some)

lemma slot_next_Some [word_nat]: "slot_next s = Some s' \<longleftrightarrow> unat s' = unat s + 1"
  by (simp add: slot_next_def checked_add_eq_Some)

lemma slot_prev_Some [word_nat]: "slot_prev s = Some s' \<longleftrightarrow> unat s = unat s' + 1"
  by (auto simp: slot_prev_def checked_sub_eq_Some)

lemma era_next_None [word_nat]: "era_next e = None \<longleftrightarrow> 2 ^ 32 \<le> unat e + 1"
  by (simp add: era_next_def checked_add_eq_None)

lemma view_next_None [word_nat]: "view_next v = None \<longleftrightarrow> 2 ^ 32 \<le> unat v + 1"
  by (simp add: view_next_def checked_add_eq_None)

lemma slot_next_None [word_nat]: "slot_next s = None \<longleftrightarrow> 2 ^ 64 \<le> unat s + 1"
  by (simp add: slot_next_def checked_add_eq_None)

lemma slot_prev_None [word_nat]: "slot_prev s = None \<longleftrightarrow> unat s = 0"
  by (simp add: slot_prev_def checked_sub_eq_None)


section \<open>Ballots\<close>

datatype ballot = Ballot (b_era: era) (b_view: view)

text \<open>The derived order: lexicographic in the field order, era before view.\<close>

instantiation ballot :: linorder
begin

definition less_ballot :: "ballot \<Rightarrow> ballot \<Rightarrow> bool" where
  "less_ballot a b \<longleftrightarrow> b_era a < b_era b \<or> b_era a = b_era b \<and> b_view a < b_view b"

definition less_eq_ballot :: "ballot \<Rightarrow> ballot \<Rightarrow> bool" where
  "less_eq_ballot a b \<longleftrightarrow> b_era a < b_era b \<or> b_era a = b_era b \<and> b_view a \<le> b_view b"

instance
  by standard (auto simp: less_ballot_def less_eq_ballot_def ballot.expand)

end

definition BALLOT_INITIAL :: ballot where
  "BALLOT_INITIAL = Ballot 0 0"

definition next_in_era :: "ballot \<Rightarrow> ballot option" where
  "next_in_era b = map_option (\<lambda>v. Ballot (b_era b) v) (view_next (b_view b))"

definition next_in_next_era :: "ballot \<Rightarrow> ballot option" where
  "next_in_next_era b =
     (case (era_next (b_era b), view_next (b_view b)) of
        (Some e, Some v) \<Rightarrow> Some (Ballot e v)
      | (_, _) \<Rightarrow> None)"

definition is_legal_successor :: "ballot \<Rightarrow> ballot \<Rightarrow> bool" where
  "is_legal_successor b next \<longleftrightarrow>
     (let view_advances = b_view next > b_view b;
          era_legal = (case era_next (b_era b) of
                         Some era_plus_one \<Rightarrow> b_era next = b_era b \<or> b_era next = era_plus_one
                       | None \<Rightarrow> b_era next = b_era b)
      in view_advances \<and> era_legal)"

lemma is_legal_successor_iff:
  "is_legal_successor b b' \<longleftrightarrow>
     b_view b < b_view b' \<and>
     (unat (b_era b') = unat (b_era b) \<or> unat (b_era b') = unat (b_era b) + 1)"
proof (cases "era_next (b_era b)")
  case None
  then have "2 ^ 32 \<le> unat (b_era b) + 1" by (simp add: era_next_None)
  with unsigned_less [of "b_era b'", where ?'a = nat] show ?thesis
    by (auto simp: is_legal_successor_def None word_eq_nat)
next
  case (Some e)
  then have "unat e = unat (b_era b) + 1" by (simp add: era_next_Some)
  then show ?thesis
    by (auto simp: is_legal_successor_def Some word_eq_nat)
qed

lemma legal_successor_less: "is_legal_successor b b' \<Longrightarrow> b < b'"
  by (auto simp: is_legal_successor_iff less_ballot_def word_nat)

lemma next_in_era_legal: "next_in_era b = Some b' \<Longrightarrow> is_legal_successor b b'"
  by (auto simp: next_in_era_def is_legal_successor_iff word_nat)

lemma next_in_next_era_legal: "next_in_next_era b = Some b' \<Longrightarrow> is_legal_successor b b'"
  by (auto simp: next_in_next_era_def is_legal_successor_iff word_nat split: option.splits)


section \<open>The next view that selects an index\<close>

definition next_view_selecting :: "view \<Rightarrow> u32 \<Rightarrow> u32 \<Rightarrow> view option" where
  "next_view_selecting current index members =
     (if members = 0 \<or> index \<ge> members then None
      else
        (case checked_add current 1 of
           None \<Rightarrow> None
         | Some floor \<Rightarrow>
             (let residue = floor mod members;
                  gap = (if residue \<le> index then index - residue
                         else members - (residue - index))
              in checked_add floor gap)))"

text \<open>The gap is the distance to the next number congruent to the index.\<close>

lemma selecting_gap:
  fixes f m i :: nat
  assumes "i < m"
  defines "r \<equiv> f mod m"
  defines "g \<equiv> (if r \<le> i then i - r else m - (r - i))"
  shows "(f + g) mod m = i" and "g < m" and "\<And>k. k < g \<Longrightarrow> (f + k) mod m \<noteq> i"
proof -
  have r: "r < m" using assms(1) by (simp add: r_def)
  have f: "f = m * (f div m) + r" by (simp add: r_def)
  have step: "(f + k) mod m = (r + k) mod m" for k
    by (simp add: r_def mod_add_left_eq)
  show "g < m" using assms(1) r by (auto simp: g_def)
  show "(f + g) mod m = i"
    unfolding step using assms(1) r by (auto simp: g_def)
  fix k assume k: "k < g"
  have "(r + k) mod m = (if r + k < m then r + k else r + k - m)"
    using k \<open>g < m\<close> r by (simp add: le_mod_geq)
  with k r show "(f + k) mod m \<noteq> i"
    unfolding step by (auto simp: g_def split: if_splits)
qed

lemma selecting_gap_word:
  fixes floor index members :: u32
  assumes "index < members"
  shows "unat (if floor mod members \<le> index then index - floor mod members
               else members - (floor mod members - index)) =
    (let r = unat floor mod unat members
     in if r \<le> unat index then unat index - r else unat members - (r - unat index))"
proof -
  have "unat floor mod unat members < unat members"
    using assms by (simp add: word_nat)
  then have "\<not> unat members < unat floor mod unat members - unat index"
    by linarith
  then show ?thesis
    using assms by (auto simp: Let_def word_nat unat_mod_distrib unat_sub_if' not_le)
qed

lemma next_view_selecting_Some:
  assumes "next_view_selecting current index members = Some v"
  shows "index < members" "current < v" "unat v mod unat members = unat index"
    "\<And>w. current < w \<Longrightarrow> unat w mod unat members = unat index \<Longrightarrow> v \<le> w"
proof -
  from assms have im: "index < members"
    by (auto simp: next_view_selecting_def split: if_splits)
  from assms obtain floor where fl: "checked_add current 1 = Some floor"
    and "checked_add floor (if floor mod members \<le> index then index - floor mod members
               else members - (floor mod members - index)) = Some v"
    by (auto simp: next_view_selecting_def Let_def split: if_splits option.splits)
  then have v: "unat v = unat floor + (let r = unat floor mod unat members
     in if r \<le> unat index then unat index - r else unat members - (r - unat index))"
    by (simp only: checked_add_eq_Some selecting_gap_word [OF im])
  from fl have floor: "unat floor = unat current + 1" by (simp add: checked_add_eq_Some)
  from im have imn: "unat index < unat members" by (simp add: word_nat)
  note gap = selecting_gap [OF imn, where f = "unat floor"]
  show "index < members" by (fact im)
  show "current < v" using floor v by (simp add: word_nat)
  show "unat v mod unat members = unat index" using gap(1) v by (simp add: Let_def)
  fix w assume w: "current < w" "unat w mod unat members = unat index"
  show "v \<le> w"
  proof (rule ccontr)
    assume "\<not> v \<le> w"
    with w(1) v floor have "unat floor \<le> unat w" "unat w < unat v" by (simp_all add: word_nat)
    then have "unat w - unat floor < (if unat floor mod unat members \<le> unat index
        then unat index - unat floor mod unat members
        else unat members - (unat floor mod unat members - unat index))"
      using v unfolding Let_def by linarith
    from gap(3) [OF this] w(2) \<open>unat floor \<le> unat w\<close> show False by simp
  qed
qed

lemma next_view_selecting_None:
  assumes "next_view_selecting current index members = None" "index < members" "current < w"
  shows "unat w mod unat members \<noteq> unat index"
proof -
  from assms(2) have imn: "unat index < unat members" by (simp add: word_nat)
  have cw: "unat current + 1 \<le> unat w" "unat w < 2 ^ 32"
    using assms(3) unsigned_less [of w, where ?'a = nat] by (simp_all add: word_nat)
  then have "checked_add current 1 \<noteq> None" by (simp add: word_nat)
  then obtain floor where floor: "checked_add current 1 = Some floor" by blast
  have ov: "2 ^ 32 \<le> unat floor + (let r = unat floor mod unat members
     in if r \<le> unat index then unat index - r else unat members - (r - unat index))"
    using assms(1,2) floor
    by (auto simp: next_view_selecting_def Let_def checked_add_eq_None
        selecting_gap_word [unfolded Let_def] split: if_splits)
  have "unat floor \<le> unat w" using cw floor by (simp add: checked_add_eq_Some)
  moreover from this have "unat w - unat floor < (if unat floor mod unat members \<le> unat index
        then unat index - unat floor mod unat members
        else unat members - (unat floor mod unat members - unat index))"
    using ov cw(2) unfolding Let_def by linarith
  from selecting_gap(3) [OF imn this] \<open>unat floor \<le> unat w\<close> show ?thesis by simp
qed


section \<open>Faults\<close>

datatype fault =
    IllegalTransition
  | IndeterminatePersistence
  | QuorumObligation
  | ProgressJournalDivergence
  | HostDeclared

fun is_sticky :: "fault \<Rightarrow> bool" where
  "is_sticky IllegalTransition = True"
| "is_sticky IndeterminatePersistence = True"
| "is_sticky QuorumObligation = True"
| "is_sticky ProgressJournalDivergence = True"
| "is_sticky HostDeclared = True"


section \<open>Operations\<close>

record operation_id =
  msb :: u64
  lsb :: u64

record operation =
  op_id :: operation_id
  op_payload :: "u8 list"

end
