(* ===== verification/Configuration.thy ===== *)
theory Configuration
  imports Ids
begin

text \<open>
  Configurations and the reconfiguration fold (\<open>src/configuration.rs\<close>): members and weights, the
  operation alphabet, the fold \<open>apply\<close> with its in-era, batch and per-slot appliers, and the
  checked snapshot. Totals and moved mass are sums of at most \<open>MAX_MEMBERS\<close> small weights, which
  the source proves to fit \<open>u64\<close> by a compile-time assertion; they are naturals here.

  \<open>ConfigPanic\<close> is not a refusal of the source: it stands for the \<open>unreachable!\<close> of the in-era
  applier, a panic of the process, so that its reachability can be stated.
\<close>

section \<open>Data\<close>

definition VOID_SLOT :: slot where "VOID_SLOT = 1"
definition INIT_SLOT :: slot where "INIT_SLOT = 2"
definition MAX_MEMBERS :: nat where "MAX_MEMBERS = 16"
definition MAX_WEIGHT :: u32 where "MAX_WEIGHT = 2"

record member =
  m_node :: node_id
  m_weight :: u32

record configuration =
  cfg_era :: era
  cfg_order :: "member list"

datatype sysop =
    Void
  | Init "node_id list"
  | Increment node_id
  | Decrement node_id
  | Double
  | Halve
  | Join node_id u32
  | Leave node_id
  | Nominate view u32
  | Batch "sysop list"

datatype config_error =
    NotInitialised
  | AlreadyInitialised
  | WrongGenesisSlot slot slot
  | EmptyInitOrder
  | DuplicateNode node_id
  | NotAMember node_id
  | WeightCapExceeded node_id u32
  | WeightUnderflow node_id
  | OddWeight node_id
  | NonZeroWeight node_id
  | PositionOutOfRange u32 u32
  | MembershipCapExceeded nat
  | TotalWouldBeZero
  | SolitaryNomination
  | ZeroNominationOffset
  | EraExhausted
  | EmptyBatch
  | GenesisNotPlannable
  | NestedBatch
  | ScalingNotSolitary
  | BatchMassMoved nat
  | SnapshotVoidWithMembers
  | SnapshotEmptyOrder era
  | SnapshotZeroTotal era
  | ConfigPanic


section \<open>Queries\<close>

definition void_config :: configuration where
  "void_config = \<lparr>cfg_era = 0, cfg_order = []\<rparr>"

definition cfg_len :: "configuration \<Rightarrow> u32" where
  "cfg_len c = fold (\<lambda>_ count. count + 1) (cfg_order c) 0"

definition cfg_is_empty :: "configuration \<Rightarrow> bool" where
  "cfg_is_empty c \<longleftrightarrow> cfg_order c = []"

definition total :: "configuration \<Rightarrow> nat" where
  "total c = sum_list (map (\<lambda>m. unat (m_weight m)) (cfg_order c))"

definition weight_of :: "configuration \<Rightarrow> node_id \<Rightarrow> u32 option" where
  "weight_of c n = map_option m_weight (find (\<lambda>m. m_node m = n) (cfg_order c))"

definition index_of :: "configuration \<Rightarrow> node_id \<Rightarrow> u32 option" where
  "index_of c n = map_option of_nat (position (\<lambda>m. m_node m = n) (cfg_order c))"

definition voters :: "configuration \<Rightarrow> member list" where
  "voters c = filter (\<lambda>m. m_weight m \<noteq> 0) (cfg_order c)"

definition primary :: "configuration \<Rightarrow> view \<Rightarrow> node_id option" where
  "primary c v =
     (let count = length (voters c)
      in if count \<ge> 2 ^ 32 then None
         else if count = 0 then None
         else (let index = unat v mod count
               in if index < length (voters c) then Some (m_node (voters c ! index)) else None))"

fun weight_of_set_from :: "configuration \<Rightarrow> node_id list \<Rightarrow> node_id list \<Rightarrow> nat \<Rightarrow> nat option" where
  "weight_of_set_from c seen [] acc = Some acc"
| "weight_of_set_from c seen (n # ns) acc =
     (if n \<in> set seen then None
      else case weight_of c n of
             None \<Rightarrow> None
           | Some w \<Rightarrow> weight_of_set_from c (seen @ [n]) ns (acc + unat w))"

definition weight_of_set :: "configuration \<Rightarrow> node_id list \<Rightarrow> nat option" where
  "weight_of_set c ns = weight_of_set_from c [] ns 0"

definition nodes :: "configuration \<Rightarrow> node_id list" where
  "nodes c = map m_node (cfg_order c)"


section \<open>The fold\<close>

definition successor_era :: "configuration \<Rightarrow> config_error + era" where
  "successor_era c =
     (if cfg_order c = [] then Err NotInitialised
      else ok_or (era_next (cfg_era c)) EraExhausted)"

definition is_nominate :: "sysop \<Rightarrow> bool" where
  "is_nominate op = (case op of Nominate _ _ \<Rightarrow> True | _ \<Rightarrow> False)"

definition is_genesis :: "sysop \<Rightarrow> bool" where
  "is_genesis op = (case op of Void \<Rightarrow> True | Init _ \<Rightarrow> True | _ \<Rightarrow> False)"

definition is_batch :: "sysop \<Rightarrow> bool" where
  "is_batch op = (case op of Batch _ \<Rightarrow> True | _ \<Rightarrow> False)"

definition is_scaling :: "sysop \<Rightarrow> bool" where
  "is_scaling op = (case op of Double \<Rightarrow> True | Halve \<Rightarrow> True | _ \<Rightarrow> False)"

definition set_weight :: "member list \<Rightarrow> nat \<Rightarrow> u32 \<Rightarrow> member list" where
  "set_weight ms i w = ms[i := (ms ! i)\<lparr>m_weight := w\<rparr>]"

definition insert_at :: "nat \<Rightarrow> 'a \<Rightarrow> 'a list \<Rightarrow> 'a list" where
  "insert_at i x xs = take i xs @ x # drop i xs"

definition remove_at :: "nat \<Rightarrow> 'a list \<Rightarrow> 'a list" where
  "remove_at i xs = take i xs @ drop (Suc i) xs"

definition double_member :: "member \<Rightarrow> config_error + member" where
  "double_member m =
     (case checked_mul (m_weight m) 2 of
        Some w \<Rightarrow> if w \<le> MAX_WEIGHT then Ok (m\<lparr>m_weight := w\<rparr>)
                  else Err (WeightCapExceeded (m_node m) MAX_WEIGHT)
      | None \<Rightarrow> Err (WeightCapExceeded (m_node m) MAX_WEIGHT))"

definition halve_member :: "member \<Rightarrow> config_error + member" where
  "halve_member m =
     (if m_weight m mod 2 = 0 then Ok (m\<lparr>m_weight := m_weight m div 2\<rparr>)
      else Err (OddWeight (m_node m)))"

fun apply_in_era :: "configuration \<Rightarrow> sysop \<Rightarrow> config_error + configuration" where
  "apply_in_era c (Increment n) =
     (case position (\<lambda>m. m_node m = n) (cfg_order c) of
        None \<Rightarrow> Err (NotAMember n)
      | Some index \<Rightarrow>
          if m_weight (cfg_order c ! index) \<ge> MAX_WEIGHT
          then Err (WeightCapExceeded n MAX_WEIGHT)
          else Ok (c\<lparr>cfg_order :=
                 set_weight (cfg_order c) index (m_weight (cfg_order c ! index) + 1)\<rparr>))"
| "apply_in_era c (Decrement n) =
     (case position (\<lambda>m. m_node m = n) (cfg_order c) of
        None \<Rightarrow> Err (NotAMember n)
      | Some index \<Rightarrow>
          (let w = m_weight (cfg_order c ! index)
           in if w = 0 then Err (WeightUnderflow n)
              else if total c = 1 then Err TotalWouldBeZero
              else Ok (c\<lparr>cfg_order := set_weight (cfg_order c) index (w - 1)\<rparr>)))"
| "apply_in_era c Double =
     rbind (rcollect (map double_member (cfg_order c))) (\<lambda>order. Ok (c\<lparr>cfg_order := order\<rparr>))"
| "apply_in_era c Halve =
     rbind (rcollect (map halve_member (cfg_order c))) (\<lambda>order. Ok (c\<lparr>cfg_order := order\<rparr>))"
| "apply_in_era c (Join n pos) =
     (if list_ex (\<lambda>m. m_node m = n) (cfg_order c) then Err (DuplicateNode n)
      else if length (cfg_order c) \<ge> MAX_MEMBERS then Err (MembershipCapExceeded MAX_MEMBERS)
      else if pos > cfg_len c then Err (PositionOutOfRange pos (cfg_len c))
      else Ok (c\<lparr>cfg_order := insert_at (unat pos) \<lparr>m_node = n, m_weight = 0\<rparr> (cfg_order c)\<rparr>))"
| "apply_in_era c (Leave n) =
     (case position (\<lambda>m. m_node m = n) (cfg_order c) of
        None \<Rightarrow> Err (NotAMember n)
      | Some index \<Rightarrow>
          if m_weight (cfg_order c ! index) \<noteq> 0 then Err (NonZeroWeight n)
          else Ok (c\<lparr>cfg_order := remove_at index (cfg_order c)\<rparr>))"
| "apply_in_era c (Nominate from offset) =
     (if offset = 0 then Err ZeroNominationOffset else Ok c)"
| "apply_in_era c Void = Err ConfigPanic"
| "apply_in_era c (Init order) = Err ConfigPanic"
| "apply_in_era c (Batch ops) = Err ConfigPanic"

text \<open>Mass moved per node, over the union of both memberships.\<close>

definition node_weight :: "configuration \<Rightarrow> node_id \<Rightarrow> nat" where
  "node_weight c n = (case weight_of c n of None \<Rightarrow> 0 | Some w \<Rightarrow> unat w)"

definition abs_diff :: "nat \<Rightarrow> nat \<Rightarrow> nat" where
  "abs_diff a b = (if a \<le> b then b - a else a - b)"

definition mass_moved :: "configuration \<Rightarrow> configuration \<Rightarrow> nat" where
  "mass_moved c after =
     (let ns = remdups_adj (sort (nodes c @ nodes after))
      in sum_list (map (\<lambda>n. abs_diff (node_weight c n) (node_weight after n)) ns))"

definition batch_member_error :: "sysop \<Rightarrow> config_error option" where
  "batch_member_error op =
     (case op of
        Void \<Rightarrow> Some GenesisNotPlannable
      | Init _ \<Rightarrow> Some GenesisNotPlannable
      | Batch _ \<Rightarrow> Some NestedBatch
      | _ \<Rightarrow> None)"

definition solitary_scaling :: "sysop list \<Rightarrow> bool" where
  "solitary_scaling ops \<longleftrightarrow> length ops = 1 \<and> is_scaling (ops ! 0)"

definition apply_batch :: "configuration \<Rightarrow> sysop list \<Rightarrow> config_error + configuration" where
  "apply_batch c ops =
     (if ops = [] then Err EmptyBatch
      else case first_some batch_member_error ops of
        Some e \<Rightarrow> Err e
      | None \<Rightarrow>
          if \<not> solitary_scaling ops \<and> list_ex is_scaling ops then Err ScalingNotSolitary
          else rbind (successor_era c) (\<lambda>era.
               rbind (rfold apply_in_era c ops) (\<lambda>current.
               if \<not> solitary_scaling ops \<and> mass_moved c current > 1
               then Err (BatchMassMoved (mass_moved c current))
               else Ok (current\<lparr>cfg_era := era\<rparr>))))"

fun apply_sysop :: "configuration \<Rightarrow> sysop \<Rightarrow> slot \<Rightarrow> config_error + configuration" where
  "apply_sysop c Void at =
     (if cfg_order c \<noteq> [] then Err AlreadyInitialised
      else if at \<noteq> VOID_SLOT then Err (WrongGenesisSlot VOID_SLOT at)
      else Ok void_config)"
| "apply_sysop c (Init order) at =
     (if cfg_order c \<noteq> [] then Err AlreadyInitialised
      else if at \<noteq> INIT_SLOT then Err (WrongGenesisSlot INIT_SLOT at)
      else if order = [] then Err EmptyInitOrder
      else if length order > MAX_MEMBERS then Err (MembershipCapExceeded MAX_MEMBERS)
      else case first_duplicate [] order of
             Some n \<Rightarrow> Err (DuplicateNode n)
           | None \<Rightarrow> Ok \<lparr>cfg_era = 1,
                        cfg_order = map (\<lambda>n. \<lparr>m_node = n, m_weight = 1\<rparr>) order\<rparr>)"
| "apply_sysop c (Batch ops) at = apply_batch c ops"
| "apply_sysop c (Nominate from offset) at = Err SolitaryNomination"
| "apply_sysop c op at =
     rbind (successor_era c) (\<lambda>era.
     rbind (apply_in_era c op) (\<lambda>next. Ok (next\<lparr>cfg_era := era\<rparr>)))"

text \<open>One slot of the per-slot fold of a packed slab: the slot's stamp and the next configuration.\<close>

definition fold_slot :: "era list \<times> configuration \<Rightarrow> sysop \<Rightarrow> config_error + era list \<times> configuration" where
  "fold_slot s op =
     (case s of (eras, current) \<Rightarrow>
        (let stamp = (if is_nominate op
                      then (if eras = [] then cfg_era current else last eras)
                      else cfg_era current)
         in rbind (apply_in_era current op) (\<lambda>next.
              if is_nominate op then Ok (eras @ [stamp], next)
              else rbind (ok_or (era_next (cfg_era next)) EraExhausted) (\<lambda>e.
                     Ok (eras @ [stamp], next\<lparr>cfg_era := e\<rparr>)))))"

definition fold_slots :: "configuration \<Rightarrow> sysop list \<Rightarrow> config_error + era list \<times> configuration" where
  "fold_slots c ops = rfold fold_slot ([], c) ops"


section \<open>Snapshots\<close>

record snapshot =
  snap_era :: era
  snap_order :: "member list"

definition to_snapshot :: "configuration \<Rightarrow> snapshot" where
  "to_snapshot c = \<lparr>snap_era = cfg_era c, snap_order = cfg_order c\<rparr>"

definition inflate :: "snapshot \<Rightarrow> config_error + configuration" where
  "inflate s =
     (case first_duplicate [] (map m_node (snap_order s)) of
        Some n \<Rightarrow> Err (DuplicateNode n)
      | None \<Rightarrow>
          (case find (\<lambda>m. m_weight m > MAX_WEIGHT) (snap_order s) of
             Some m \<Rightarrow> Err (WeightCapExceeded (m_node m) MAX_WEIGHT)
           | None \<Rightarrow>
               if snap_era s = 0
               then (if snap_order s \<noteq> [] then Err SnapshotVoidWithMembers else Ok void_config)
               else if snap_order s = [] then Err (SnapshotEmptyOrder (snap_era s))
               else if sum_list (map (\<lambda>m. unat (m_weight m)) (snap_order s)) = 0
               then Err (SnapshotZeroTotal (snap_era s))
               else Ok \<lparr>cfg_era = snap_era s, cfg_order = snap_order s\<rparr>))"

end
