(* ===== verification/Config_Props.thy ===== *)
theory Config_Props
  imports Configuration
begin

text \<open>
  What the reconfiguration fold of \<open>src/configuration.rs\<close> promises: the invariant \<open>wf_config\<close> of
  every configuration it produces, that an accepted operation establishes exactly the next era, the
  bound on the mass one era moves, that the in-era applier's \<open>unreachable!\<close> is not reached through
  \<open>apply_sysop\<close>, and the answers of the queries on a well-formed configuration.
\<close>

section \<open>The invariant\<close>

definition wf_members :: "member list \<Rightarrow> bool" where
  "wf_members ms \<longleftrightarrow> distinct (map m_node ms) \<and> length ms \<le> MAX_MEMBERS
                    \<and> (\<forall>m \<in> set ms. m_weight m \<le> MAX_WEIGHT)"

definition mass :: "member list \<Rightarrow> nat" where
  "mass ms = sum_list (map (\<lambda>m. unat (m_weight m)) ms)"

text \<open>A live configuration is one an operation after genesis may be applied to.\<close>

definition live :: "configuration \<Rightarrow> bool" where
  "live c \<longleftrightarrow> wf_members (cfg_order c) \<and> total c \<ge> 1"

definition wf_config :: "configuration \<Rightarrow> bool" where
  "wf_config c \<longleftrightarrow> c = void_config \<or> (cfg_era c \<noteq> 0 \<and> live c)"

lemma total_mass: "total c = mass (cfg_order c)"
  by (simp add: total_def mass_def)

lemma total_update [simp]: "total (c\<lparr>cfg_order := ms\<rparr>) = mass ms" "total (c\<lparr>cfg_era := e\<rparr>) = total c"
  by (simp_all add: total_def mass_def)

lemma live_era [simp]: "live (c\<lparr>cfg_era := e\<rparr>) \<longleftrightarrow> live c"
  by (simp add: live_def)

lemma live_order [simp]: "live (c\<lparr>cfg_order := ms\<rparr>) \<longleftrightarrow> wf_members ms \<and> mass ms \<ge> 1"
  by (simp add: live_def)

lemma live_nonempty: "live c \<Longrightarrow> cfg_order c \<noteq> []"
  by (auto simp: live_def total_def)

lemma mass_eq_0_iff: "mass ms = 0 \<longleftrightarrow> (\<forall>m \<in> set ms. m_weight m = 0)"
  by (induction ms) (simp_all add: mass_def unat_eq_zero)

lemma live_voter: "live c \<Longrightarrow> voters c \<noteq> []"
  using mass_eq_0_iff [of "cfg_order c"] by (auto simp: live_def total_mass voters_def filter_empty_conv)

lemma wf_config_nonempty: "wf_config c \<Longrightarrow> cfg_order c \<noteq> [] \<longleftrightarrow> cfg_era c \<noteq> 0"
  by (auto simp: wf_config_def void_config_def dest: live_nonempty)

lemma wf_config_live: "wf_config c \<Longrightarrow> cfg_order c \<noteq> [] \<Longrightarrow> live c \<and> cfg_era c \<noteq> 0"
  by (auto simp: wf_config_def void_config_def)

lemma wf_config_members: "wf_config c \<Longrightarrow> wf_members (cfg_order c)"
  by (auto simp: wf_config_def void_config_def wf_members_def live_def)

lemma fold_count: "fold (\<lambda>_ count. count + 1) xs (n :: 'a :: len word) = n + of_nat (length xs)"
  by (induction xs arbitrary: n) (simp_all add: algebra_simps)

lemma cfg_len_of_nat: "cfg_len c = of_nat (length (cfg_order c))"
  by (simp add: cfg_len_def fold_count)

lemma unat_cfg_len: "wf_members (cfg_order c) \<Longrightarrow> unat (cfg_len c) = length (cfg_order c)"
  by (simp add: cfg_len_of_nat wf_members_def MAX_MEMBERS_def unat_of_nat)

lemma position_node_Some:
  "position (\<lambda>m. m_node m = n) ms = Some i \<Longrightarrow> i < length ms \<and> m_node (ms ! i) = n"
  by (drule position_SomeD) simp

lemma nodes_set_weight [simp]: "map m_node (set_weight ms i w) = map m_node ms"
  by (cases "i < length ms") (simp_all add: set_weight_def map_update list_update_beyond
      list_update_same_conv)

lemma wf_set_weight:
  assumes "wf_members ms" "w \<le> MAX_WEIGHT"
  shows "wf_members (set_weight ms i w)"
proof -
  have "m_weight m \<le> MAX_WEIGHT" if "m \<in> set (set_weight ms i w)" for m
    using that assms set_update_subset_insert [of ms i "(ms ! i)\<lparr>m_weight := w\<rparr>"]
    by (auto simp: set_weight_def wf_members_def)
  then show ?thesis
    using assms by (simp add: wf_members_def) (simp add: set_weight_def)
qed

lemma mass_append [simp]: "mass (xs @ ys) = mass xs + mass ys"
  by (simp add: mass_def)

lemma mass_Cons [simp]: "mass (m # ms) = unat (m_weight m) + mass ms"
  by (simp add: mass_def)

lemma mass_Nil [simp]: "mass [] = 0"
  by (simp add: mass_def)

lemma mass_take_drop: "mass (take i ms) + mass (drop i ms) = mass ms"
  by (metis append_take_drop_id mass_append)

lemma mass_nth:
  "i < length ms \<Longrightarrow> mass (take i ms) + unat (m_weight (ms ! i)) + mass (drop (Suc i) ms) = mass ms"
  by (metis id_take_nth_drop mass_append mass_Cons add.assoc)

lemma mass_insert_at: "mass (insert_at i m ms) = mass ms + unat (m_weight m)"
  using mass_take_drop [of i ms] by (simp add: insert_at_def)

lemma mass_remove_at: "i < length ms \<Longrightarrow> mass (remove_at i ms) + unat (m_weight (ms ! i)) = mass ms"
  using mass_nth [of i ms] by (simp add: remove_at_def)

lemma mass_set_weight:
  "i < length ms \<Longrightarrow> mass (set_weight ms i w) + unat (m_weight (ms ! i)) = mass ms + unat w"
  using mass_nth [of i ms] by (simp add: set_weight_def upd_conv_take_nth_drop)

lemma wf_insert_at:
  assumes "wf_members ms" "m_node m \<notin> m_node ` set ms" "length ms < MAX_MEMBERS" "m_weight m \<le> MAX_WEIGHT"
  shows "wf_members (insert_at i m ms)"
proof -
  have split: "ms = take i ms @ drop i ms" by simp
  show ?thesis
    using assms(1,3,4) assms(2) unfolding insert_at_def
    by (subst (asm) (1 2 3) split) (auto simp: wf_members_def simp del: append_take_drop_id
        dest: in_set_takeD in_set_dropD)
qed

lemma wf_remove_at:
  assumes "wf_members ms" "i < length ms"
  shows "wf_members (remove_at i ms)"
proof -
  have split: "ms = take i ms @ ms ! i # drop (Suc i) ms"
    using assms(2) by (rule id_take_nth_drop)
  have "wf_members (take i ms @ ms ! i # drop (Suc i) ms)"
    using assms(1) split by simp
  then show ?thesis
    by (auto simp: wf_members_def remove_at_def simp del: length_take length_drop)
qed


section \<open>The in-era applier\<close>

lemma unat_small_cases:
  "unat (w :: u32) \<le> Suc 0 \<longleftrightarrow> w = 0 \<or> w = 1" "unat w \<le> 2 \<longleftrightarrow> w = 0 \<or> w = 1 \<or> w = 2"
  by (auto simp: word_eq_nat)

lemma double_small: "w = 0 \<or> w = 1 \<Longrightarrow> 2 * w \<le> (2 :: u32)"
  by auto

lemma halve_small: "w \<le> 2 \<Longrightarrow> w div 2 \<le> (2 :: nat)"
  by auto

lemma double_member_Ok:
  "double_member m = Ok m' \<longleftrightarrow> unat (m_weight m) \<le> Suc 0 \<and> m' = m\<lparr>m_weight := 2 * m_weight m\<rparr>"
proof (cases "unat (m_weight m) \<le> Suc 0")
  case True
  then consider "m_weight m = 0" | "m_weight m = 1" by (auto simp: unat_small_cases)
  then show ?thesis
    by cases (auto simp: double_member_def checked_mul_def MAX_WEIGHT_def)
next
  case False
  then have "\<not> m_weight m * 2 \<le> 2" if "unat (m_weight m) * 2 < 2 ^ 32"
    using that by (simp add: word_le_nat_alt unat_word_ariths)
  with False show ?thesis
    by (auto simp: double_member_def checked_mul_def MAX_WEIGHT_def)
qed

lemma halve_member_Ok:
  "halve_member m = Ok m' \<longleftrightarrow> even (m_weight m) \<and> m' = m\<lparr>m_weight := m_weight m div 2\<rparr>"
  by (auto simp: halve_member_def even_iff_mod_2_eq_zero split: if_splits)

lemma rcollect_map_double:
  "rcollect (map double_member ms) = Ok ms' \<longleftrightarrow>
     (\<forall>m \<in> set ms. unat (m_weight m) \<le> Suc 0) \<and> ms' = map (\<lambda>m. m\<lparr>m_weight := 2 * m_weight m\<rparr>) ms"
  by (induction ms arbitrary: ms') (auto simp: double_member_Ok)

lemma rcollect_map_halve:
  "rcollect (map halve_member ms) = Ok ms' \<longleftrightarrow>
     (\<forall>m \<in> set ms. even (m_weight m)) \<and> ms' = map (\<lambda>m. m\<lparr>m_weight := m_weight m div 2\<rparr>) ms"
  by (induction ms arbitrary: ms') (auto simp: halve_member_Ok)

lemma mass_double:
  "(\<forall>m \<in> set ms. unat (m_weight m) \<le> Suc 0) \<Longrightarrow> mass (map (\<lambda>m. m\<lparr>m_weight := 2 * m_weight m\<rparr>) ms) = 2 * mass ms"
  by (induction ms) (auto simp: unat_small_cases)

lemma mass_halve:
  "\<forall>m \<in> set ms. even (m_weight m) \<Longrightarrow> 2 * mass (map (\<lambda>m. m\<lparr>m_weight := m_weight m div 2\<rparr>) ms) = mass ms"
proof (induction ms)
  case (Cons m ms)
  have "m_weight m mod 2 = 0"
    using Cons.prems by (simp add: even_iff_mod_2_eq_zero)
  then have "unat (m_weight m) mod 2 = 0"
    by (simp add: word_eq_nat unat_mod)
  then have "2 * unat (m_weight m div 2) = unat (m_weight m)"
    by (simp add: unat_div_distrib) presburger
  with Cons show ?case by simp
qed simp

text \<open>Every accepted in-era operation keeps a live configuration live, and its era.\<close>

lemma apply_in_era_live:
  assumes "apply_in_era c op = Ok c'" "live c"
  shows "live c' \<and> cfg_era c' = cfg_era c"
proof -
  have wf: "wf_members (cfg_order c)" and m: "mass (cfg_order c) \<ge> 1"
    using assms(2) by (simp_all add: live_def total_mass)
  note cap = wf_members_def MAX_WEIGHT_def word_le_nat_alt
  show ?thesis
  proof (cases op)
    case (Increment n)
    then obtain i where i: "i < length (cfg_order c)" "\<not> m_weight (cfg_order c ! i) \<ge> MAX_WEIGHT"
      and c': "c' = c\<lparr>cfg_order := set_weight (cfg_order c) i (m_weight (cfg_order c ! i) + 1)\<rparr>"
      using assms(1) by (auto split: option.splits if_splits dest: position_node_Some)
    have u: "unat (m_weight (cfg_order c ! i) + 1) = unat (m_weight (cfg_order c ! i)) + 1"
      using i(2) by (simp add: MAX_WEIGHT_def word_le_nat_alt unat_word_ariths)
    have "wf_members (cfg_order c')"
      unfolding c' using wf i(2) u by (simp add: wf_set_weight MAX_WEIGHT_def word_le_nat_alt)
    moreover have "mass (cfg_order c') \<ge> 1"
      using mass_set_weight [OF i(1), of "m_weight (cfg_order c ! i) + 1"] u m unfolding c' by simp
    ultimately show ?thesis by (simp add: c' live_def total_mass)
  next
    case (Decrement n)
    then obtain i where i: "i < length (cfg_order c)" "m_weight (cfg_order c ! i) \<noteq> 0" "total c \<noteq> 1"
      and c': "c' = c\<lparr>cfg_order := set_weight (cfg_order c) i (m_weight (cfg_order c ! i) - 1)\<rparr>"
      using assms(1) by (auto simp: Let_def split: option.splits if_splits dest: position_node_Some)
    have w: "m_weight (cfg_order c ! i) \<le> MAX_WEIGHT"
      using wf i(1) by (simp add: wf_members_def)
    have u: "unat (m_weight (cfg_order c ! i) - 1) + 1 = unat (m_weight (cfg_order c ! i))"
      using i(2) by (simp add: unat_minus_one unat_gt_0)
    have "wf_members (cfg_order c')"
      unfolding c' using wf w u by (simp add: wf_set_weight MAX_WEIGHT_def word_le_nat_alt)
    moreover have "mass (cfg_order c') \<ge> 1"
      using mass_set_weight [OF i(1), of "m_weight (cfg_order c ! i) - 1"] u m i(3)
      unfolding c' by (simp add: total_mass)
    ultimately show ?thesis by (simp add: c' live_def total_mass)
  next
    case Double
    then show ?thesis
      using assms(1) wf m
      by (auto simp: rcollect_map_double mass_double wf_members_def comp_def unat_small_cases MAX_WEIGHT_def
          intro!: double_small)
  next
    case Halve
    then show ?thesis
      using assms(1) wf m mass_halve [of "cfg_order c"]
      by (auto simp: rcollect_map_halve cap comp_def unat_div_distrib intro!: halve_small)
  next
    case (Join n pos)
    then have "n \<notin> m_node ` set (cfg_order c)" "length (cfg_order c) < MAX_MEMBERS"
      and "c' = c\<lparr>cfg_order := insert_at (unat pos) \<lparr>m_node = n, m_weight = 0\<rparr> (cfg_order c)\<rparr>"
      using assms(1) by (auto simp: list_ex_iff split: if_splits)
    then show ?thesis
      using wf m by (simp add: mass_insert_at wf_insert_at)
  next
    case (Leave n)
    then show ?thesis
      using assms(1) wf m mass_remove_at
      by (fastforce intro: wf_remove_at split: option.splits if_splits dest: position_node_Some)
  qed (use assms in \<open>auto split: if_splits\<close>)
qed

lemma apply_in_era_no_panic:
  "apply_in_era c op = Err ConfigPanic \<longleftrightarrow> is_genesis op \<or> is_batch op"
proof -
  have "rcollect (map double_member ms) \<noteq> Err ConfigPanic" for ms
    by (induction ms) (auto simp: double_member_def split: option.splits if_splits)
  moreover have "rcollect (map halve_member ms) \<noteq> Err ConfigPanic" for ms
    by (induction ms) (auto simp: halve_member_def)
  ultimately show ?thesis
    by (cases op) (auto simp: is_genesis_def is_batch_def Let_def split: option.splits)
qed


section \<open>Batches and the whole fold\<close>

lemma batch_member_error_None: "batch_member_error op = None \<longleftrightarrow> \<not> is_genesis op \<and> \<not> is_batch op"
  by (cases op) (simp_all add: batch_member_error_def is_genesis_def is_batch_def)

lemma rfold_in_era_live:
  "rfold apply_in_era c ops = Ok c' \<Longrightarrow> live c \<Longrightarrow> live c' \<and> cfg_era c' = cfg_era c"
proof (induction ops arbitrary: c)
  case (Cons op ops)
  then obtain d where "apply_in_era c op = Ok d" "rfold apply_in_era d ops = Ok c'" by auto
  then show ?case
    using Cons.IH [of d] apply_in_era_live [of c op d] Cons.prems(2) by simp
qed simp

lemma rfold_in_era_no_panic:
  "\<forall>op \<in> set ops. \<not> is_genesis op \<and> \<not> is_batch op \<Longrightarrow> rfold apply_in_era c ops \<noteq> Err ConfigPanic"
  by (induction ops arbitrary: c) (auto simp: apply_in_era_no_panic)

lemma batch_screen:
  "first_some batch_member_error ops = None \<longleftrightarrow> (\<forall>op \<in> set ops. \<not> is_genesis op \<and> \<not> is_batch op)"
  by (simp add: batch_member_error_None)

lemma apply_batch_Ok:
  "apply_batch c ops = Ok c' \<longleftrightarrow>
     ops \<noteq> [] \<and> (\<forall>op \<in> set ops. \<not> is_genesis op \<and> \<not> is_batch op)
     \<and> (solitary_scaling ops \<or> \<not> list_ex is_scaling ops)
     \<and> cfg_order c \<noteq> []
     \<and> (\<exists>e d. era_next (cfg_era c) = Some e \<and> rfold apply_in_era c ops = Ok d
           \<and> (solitary_scaling ops \<or> mass_moved c d \<le> 1) \<and> c' = d\<lparr>cfg_era := e\<rparr>)"
proof (cases "first_some batch_member_error ops")
  case None
  then have "\<forall>op \<in> set ops. \<not> is_genesis op \<and> \<not> is_batch op"
    by (simp only: batch_screen)
  with None show ?thesis
    by (auto simp: apply_batch_def successor_era_def simp del: first_some_eq_None split: if_splits)
      (metis not_less)
next
  case (Some e)
  then obtain op where "op \<in> set ops" "is_genesis op \<or> is_batch op"
    using batch_member_error_None by (metis first_some_SomeD option.distinct(1))
  with Some show ?thesis by (auto simp: apply_batch_def)
qed

lemma apply_single:
  assumes "\<not> is_genesis op" "\<not> is_batch op" "\<not> is_nominate op"
  shows "apply_sysop c op at =
     rbind (successor_era c) (\<lambda>era. rbind (apply_in_era c op) (\<lambda>next. Ok (next\<lparr>cfg_era := era\<rparr>)))"
  using assms by (cases op) (simp_all add: is_genesis_def is_batch_def is_nominate_def)

lemmas sysop_kind_defs = is_genesis_def is_batch_def is_nominate_def

text \<open>The era an accepted operation establishes.\<close>

definition established_era :: "configuration \<Rightarrow> sysop \<Rightarrow> era" where
  "established_era c op = (case op of Void \<Rightarrow> 0 | Init _ \<Rightarrow> 1 | _ \<Rightarrow> cfg_era c + 1)"

lemma era_next_plus: "era_next e = Some e' \<Longrightarrow> e' = e + 1 \<and> e' \<noteq> 0"
  by (auto simp: era_next_def checked_add_def word_eq_nat unat_word_ariths split: if_splits)

text \<open>Deciding a whole operation, in one rule: every accepted one, with what it produced.\<close>

lemma apply_sysop_cases:
  assumes "apply_sysop c op at = Ok c'"
  obtains (void) "op = Void" "cfg_order c = []" "at = VOID_SLOT" "c' = void_config"
  | (init) order where "op = Init order" "cfg_order c = []" "at = INIT_SLOT" "order \<noteq> []"
      "length order \<le> MAX_MEMBERS" "distinct order"
      "c' = \<lparr>cfg_era = 1, cfg_order = map (\<lambda>n. \<lparr>m_node = n, m_weight = 1\<rparr>) order\<rparr>"
  | (batch) ops where "op = Batch ops" "apply_batch c ops = Ok c'"
  | (single) d e where "\<not> is_genesis op" "\<not> is_batch op" "\<not> is_nominate op" "cfg_order c \<noteq> []"
      "era_next (cfg_era c) = Some e" "apply_in_era c op = Ok d" "c' = d\<lparr>cfg_era := e\<rparr>"
proof (cases "is_genesis op \<or> is_batch op \<or> is_nominate op")
  case True
  then show ?thesis
    using assms by (cases op) (auto simp: sysop_kind_defs split: if_splits option.splits intro: that)
next
  case False
  then show ?thesis
    using assms by (auto simp: apply_single successor_era_def split: if_splits intro: that)
qed

lemma apply_sysop_wf:
  assumes "wf_config c" "apply_sysop c op at = Ok c'"
  shows "wf_config c' \<and> cfg_era c' = established_era c op"
  using assms(2)
proof (cases rule: apply_sysop_cases)
  case void
  then show ?thesis by (simp add: wf_config_def void_config_def established_era_def)
next
  case (init order)
  have "mass (map (\<lambda>n. \<lparr>m_node = n, m_weight = 1\<rparr>) ns) = length ns" for ns
    by (induction ns) simp_all
  with init show ?thesis
    by (auto simp: wf_config_def established_era_def live_def wf_members_def total_mass comp_def
        MAX_WEIGHT_def Suc_le_eq)
next
  case (batch ops)
  then obtain e d where "cfg_order c \<noteq> []" "era_next (cfg_era c) = Some e"
    and "rfold apply_in_era c ops = Ok d" "c' = d\<lparr>cfg_era := e\<rparr>"
    by (auto simp: apply_batch_Ok)
  then show ?thesis
    using rfold_in_era_live [of c ops d] era_next_plus wf_config_live [OF assms(1)] batch
    by (auto simp: wf_config_def established_era_def)
next
  case (single d e)
  then have "established_era c op = cfg_era c + 1"
    by (cases op) (simp_all add: established_era_def sysop_kind_defs)
  then show ?thesis
    using single apply_in_era_live [of c op d] era_next_plus wf_config_live [OF assms(1)]
    by (auto simp: wf_config_def)
qed

end
