(* ===== verification/Config_Mass.thy ===== *)
theory Config_Mass
  imports Config_Props
begin

text \<open>
  Weights of sets of nodes and the mass one era moves (\<open>src/configuration.rs\<close>:
  \<open>weight_of_set\<close>, \<open>total\<close>, \<open>primary\<close>, \<open>mass_moved\<close>): the source's loops against
  finite sums over the membership, the unit rule, and the checked snapshot.
\<close>

section \<open>Weights as sums\<close>

definition set_mass :: "configuration \<Rightarrow> node_id set \<Rightarrow> nat" where
  "set_mass c S = (\<Sum>n \<in> S. node_weight c n)"

definition weights :: "member list \<Rightarrow> node_id \<rightharpoonup> u32" where
  "weights ms = map_of (map (\<lambda>m. (m_node m, m_weight m)) ms)"

lemma weight_of_weights: "weight_of c n = weights (cfg_order c) n"
proof -
  have "map_option m_weight (find (\<lambda>m. m_node m = n) ms) = map_of (map (\<lambda>m. (m_node m, m_weight m)) ms) n" for ms
    by (induction ms) auto
  then show ?thesis by (simp add: weight_of_def weights_def)
qed

lemma dom_weights: "dom (weights ms) = set (map m_node ms)"
  by (simp add: weights_def dom_map_of_conv_image_fst image_image comp_def)

lemma weights_middle:
  "m_node m \<notin> set (map m_node xs) \<Longrightarrow>
   weights (xs @ m # ys) = (weights (xs @ ys))(m_node m \<mapsto> m_weight m)"
  by (rule ext) (auto simp: weights_def map_add_def image_iff split: option.splits dest!: map_of_SomeD)

lemma weight_of_None: "weight_of c n = None \<longleftrightarrow> n \<notin> set (nodes c)"
  using dom_weights [of "cfg_order c"] by (auto simp: weight_of_weights nodes_def domIff)

lemma node_weight_outside: "n \<notin> set (nodes c) \<Longrightarrow> node_weight c n = 0"
  by (simp add: node_weight_def weight_of_None [THEN iffD2])

lemma node_weight_inside: "weight_of c n = Some w \<Longrightarrow> node_weight c n = unat w"
  by (simp add: node_weight_def)

lemma weight_of_set_from_eq:
  "weight_of_set_from c seen ns acc =
     (if distinct ns \<and> set ns \<inter> set seen = {} \<and> set ns \<subseteq> set (nodes c)
      then Some (acc + set_mass c (set ns)) else None)"
proof (induction ns arbitrary: seen acc)
  case (Cons n ns)
  show ?case
  proof (cases "weight_of c n")
    case None
    then show ?thesis using weight_of_None [of c n] by simp
  next
    case (Some w)
    then have "n \<in> set (nodes c)" using weight_of_None [of c n] by auto
    with Some show ?thesis
      by (auto simp: Cons.IH set_mass_def node_weight_inside)
  qed
qed (simp add: set_mass_def)

lemma weight_of_set_eq:
  "weight_of_set c ns =
     (if distinct ns \<and> set ns \<subseteq> set (nodes c) then Some (set_mass c (set ns)) else None)"
  by (simp add: weight_of_set_def weight_of_set_from_eq)

lemma mass_as_sum:
  "distinct (map m_node ms) \<Longrightarrow>
   mass ms = (\<Sum>n \<in> set (map m_node ms). case weights ms n of None \<Rightarrow> 0 | Some w \<Rightarrow> unat w)"
proof (induction ms)
  case (Cons m ms)
  have "weights (m # ms) = (weights ms)(m_node m \<mapsto> m_weight m)"
    using weights_middle [of m "[]" ms] by simp
  moreover have "(\<Sum>n \<in> set (map m_node ms). case (if n = m_node m then Some (m_weight m) else weights ms n)
                     of None \<Rightarrow> 0 | Some w \<Rightarrow> unat w)
               = (\<Sum>n \<in> set (map m_node ms). case weights ms n of None \<Rightarrow> 0 | Some w \<Rightarrow> unat w)"
  proof (intro sum.cong refl)
    fix n
    assume "n \<in> set (map m_node ms)"
    then have "n \<noteq> m_node m" using Cons.prems by (metis distinct.simps(2) list.simps(9))
    then show "(case if n = m_node m then Some (m_weight m) else weights ms n of None \<Rightarrow> 0 | Some w \<Rightarrow> unat w)
                 = (case weights ms n of None \<Rightarrow> 0 | Some w \<Rightarrow> unat w)" by simp
  qed
  ultimately show ?case using Cons by simp
qed simp

lemma total_as_set_mass: "wf_members (cfg_order c) \<Longrightarrow> total c = set_mass c (set (nodes c))"
  by (simp add: total_mass mass_as_sum wf_members_def set_mass_def nodes_def node_weight_def weight_of_weights)

lemma set_mass_total:
  assumes "wf_members (cfg_order c)"
  shows "set_mass c S \<le> total c \<or> infinite S"
proof (cases "finite S")
  case True
  have "set_mass c S = set_mass c (S \<inter> set (nodes c))"
    using True unfolding set_mass_def
    by (intro sum.mono_neutral_right) (auto simp: node_weight_outside)
  also have "\<dots> \<le> set_mass c (set (nodes c))"
    unfolding set_mass_def by (rule sum_mono2) auto
  finally show ?thesis by (simp add: total_as_set_mass assms)
qed simp

lemma set_mass_union:
  "finite S \<Longrightarrow> finite T \<Longrightarrow> S \<inter> T = {} \<Longrightarrow> set_mass c (S \<union> T) = set_mass c S + set_mass c T"
  by (simp add: set_mass_def sum.union_disjoint)


section \<open>Moved mass\<close>

definition moved_at :: "configuration \<Rightarrow> configuration \<Rightarrow> node_id \<Rightarrow> nat" where
  "moved_at c d n = abs_diff (node_weight c n) (node_weight d n)"

lemma mass_moved_sum: "mass_moved c d = (\<Sum>n \<in> set (nodes c) \<union> set (nodes d). moved_at c d n)"
  by (simp add: mass_moved_def Let_def sum_list_distinct_conv_sum_set distinct_remdups_adj_sorted moved_at_def)

lemma moved_at_outside: "n \<notin> set (nodes c) \<union> set (nodes d) \<Longrightarrow> moved_at c d n = 0"
  by (simp add: moved_at_def node_weight_outside abs_diff_def)

lemma mass_moved_finite:
  assumes "finite S"
  shows "(\<Sum>n \<in> S. moved_at c d n) \<le> mass_moved c d"
proof -
  have "(\<Sum>n \<in> S. moved_at c d n) = (\<Sum>n \<in> S \<inter> (set (nodes c) \<union> set (nodes d)). moved_at c d n)"
    using assms by (intro sum.mono_neutral_right) (auto simp: moved_at_outside)
  also have "\<dots> \<le> mass_moved c d"
    unfolding mass_moved_sum by (rule sum_mono2) auto
  finally show ?thesis .
qed

lemma set_mass_moved:
  assumes "finite S"
  shows "set_mass d S \<le> set_mass c S + (\<Sum>n \<in> S. moved_at c d n)"
proof -
  have "node_weight d n \<le> node_weight c n + moved_at c d n" for n
    by (auto simp: moved_at_def abs_diff_def)
  then show ?thesis
    unfolding set_mass_def sum.distrib [symmetric] by (rule sum_mono)
qed

lemma moved_at_commute: "moved_at c d n = moved_at d c n"
  by (auto simp: moved_at_def abs_diff_def)

lemma mass_moved_one:
  assumes "\<And>x. x \<noteq> n \<Longrightarrow> node_weight c x = node_weight d x"
  shows "mass_moved c d \<le> abs_diff (node_weight c n) (node_weight d n)"
proof -
  let ?U = "set (nodes c) \<union> set (nodes d)"
  have "moved_at c d x = 0" if "x \<noteq> n" for x
    using assms [OF that] by (simp add: moved_at_def abs_diff_def)
  then have "mass_moved c d = (\<Sum>x \<in> ?U \<inter> {n}. moved_at c d x)"
    unfolding mass_moved_sum by (intro sum.mono_neutral_right) blast+
  also have "\<dots> \<le> (\<Sum>x \<in> {n}. moved_at c d x)"
    by (rule sum_mono2) auto
  finally show ?thesis by (simp add: moved_at_def)
qed

lemma node_weight_order:
  "node_weight c n = (case weights (cfg_order c) n of None \<Rightarrow> 0 | Some w \<Rightarrow> unat w)"
  by (simp add: node_weight_def weight_of_weights)

lemma node_weight_era [simp]: "node_weight (c\<lparr>cfg_era := e\<rparr>) = node_weight c"
  by (rule ext) (simp add: node_weight_order)

lemma nodes_era [simp]: "nodes (c\<lparr>cfg_era := e\<rparr>) = nodes c"
  by (simp add: nodes_def)

lemma set_mass_era [simp]: "set_mass (c\<lparr>cfg_era := e\<rparr>) S = set_mass c S"
  by (simp add: set_mass_def)

lemma mass_moved_era [simp]: "mass_moved c (d\<lparr>cfg_era := e\<rparr>) = mass_moved c d"
  by (simp add: mass_moved_def)

lemma mass_moved_refl [simp]: "mass_moved c c = 0"
  by (simp add: mass_moved_sum moved_at_def abs_diff_def)

lemma position_split:
  assumes "position (\<lambda>m. m_node m = n) ms = Some i"
  obtains xs m ys where "ms = xs @ m # ys" "length xs = i" "m_node m = n" "n \<notin> set (map m_node xs)" "m = ms ! i"
proof
  note * = position_SomeD [OF assms]
  then show "ms = take i ms @ ms ! i # drop (Suc i) ms" by (simp add: id_take_nth_drop)
  show "length (take i ms) = i" using * by simp
  show "m_node (ms ! i) = n" using * by simp
  show "n \<notin> set (map m_node (take i ms))"
    using * by (fastforce simp: in_set_conv_nth)
qed simp

text \<open>Each single in-era operation moves at most one unit, at one node.\<close>

lemma set_weight_node_weight:
  assumes "position (\<lambda>m. m_node m = n) (cfg_order c) = Some i"
  shows "node_weight (c\<lparr>cfg_order := set_weight (cfg_order c) i w\<rparr>) x
       = (if x = n then unat w else node_weight c x)"
    and "node_weight c n = unat (m_weight (cfg_order c ! i))"
proof -
  obtain xs m ys where s: "cfg_order c = xs @ m # ys" "length xs = i" "m_node m = n"
    "n \<notin> set (map m_node xs)"
    using assms by (rule position_split)
  have "set_weight (cfg_order c) i w = xs @ m\<lparr>m_weight := w\<rparr> # ys"
    using s by (simp add: set_weight_def nth_append list_update_append)
  then show "node_weight (c\<lparr>cfg_order := set_weight (cfg_order c) i w\<rparr>) x
       = (if x = n then unat w else node_weight c x)"
    using s weights_middle [of m xs ys] weights_middle [of "m\<lparr>m_weight := w\<rparr>" xs ys]
    by (simp add: node_weight_order)
  show "node_weight c n = unat (m_weight (cfg_order c ! i))"
    using s weights_middle [of m xs ys] by (simp add: node_weight_order nth_append)
qed

lemma insert_node_weight:
  assumes "m_node m \<notin> set (nodes c)" "m_weight m = 0"
  shows "node_weight (c\<lparr>cfg_order := insert_at i m (cfg_order c)\<rparr>) = node_weight c"
proof -
  have new: "m_node m \<notin> set (map m_node (take i (cfg_order c)))"
    using assms(1) by (auto simp: nodes_def dest: in_set_takeD)
  then have "weights (insert_at i m (cfg_order c)) = (weights (cfg_order c))(m_node m \<mapsto> 0)"
    using assms(2) weights_middle [OF new, of "drop i (cfg_order c)"] by (simp add: insert_at_def)
  moreover have "weights (cfg_order c) (m_node m) = None"
    using assms(1) by (metis weight_of_None weight_of_weights)
  ultimately show ?thesis by (auto simp: node_weight_order fun_eq_iff)
qed

lemma remove_node_weight:
  assumes "wf_members (cfg_order c)" "i < length (cfg_order c)" "m_weight (cfg_order c ! i) = 0"
  shows "node_weight (c\<lparr>cfg_order := remove_at i (cfg_order c)\<rparr>) = node_weight c"
proof -
  let ?xs = "take i (cfg_order c)" and ?ys = "drop (Suc i) (cfg_order c)" and ?m = "cfg_order c ! i"
  have split: "cfg_order c = ?xs @ ?m # ?ys" using assms(2) by (rule id_take_nth_drop)
  then have "distinct (map m_node (?xs @ ?m # ?ys))"
    using assms(1) by (simp add: wf_members_def)
  then have new: "m_node ?m \<notin> set (map m_node ?xs)" "m_node ?m \<notin> set (map m_node (?xs @ ?ys))"
    by auto
  then have "weights (cfg_order c) = (weights (?xs @ ?ys))(m_node ?m \<mapsto> 0)"
    using split weights_middle [OF new(1)] assms(3) by metis
  moreover have "weights (?xs @ ?ys) (m_node ?m) = None"
    using new(2) dom_weights [of "?xs @ ?ys"] by blast
  ultimately show ?thesis
    by (auto simp: node_weight_order fun_eq_iff remove_at_def)
qed

lemma apply_in_era_moves_one:
  assumes "live c" "apply_in_era c op = Ok d" "\<not> is_scaling op"
  shows "mass_moved c d \<le> 1"
proof (cases op)
  case (Increment n)
  then obtain i where i: "position (\<lambda>m. m_node m = n) (cfg_order c) = Some i" "\<not> m_weight (cfg_order c ! i) \<ge> MAX_WEIGHT"
    and d: "d = c\<lparr>cfg_order := set_weight (cfg_order c) i (m_weight (cfg_order c ! i) + 1)\<rparr>"
    using assms(2) by (auto split: option.splits if_splits)
  have u: "unat (m_weight (cfg_order c ! i) + 1) = unat (m_weight (cfg_order c ! i)) + 1"
    using i(2) by (simp add: MAX_WEIGHT_def word_le_nat_alt unat_word_ariths)
  have "mass_moved c d \<le> abs_diff (node_weight c n) (node_weight d n)"
    unfolding d by (rule mass_moved_one) (simp add: set_weight_node_weight [OF i(1)])
  then show ?thesis
    unfolding d by (simp add: set_weight_node_weight [OF i(1)] u abs_diff_def)
next
  case (Decrement n)
  then obtain i where i: "position (\<lambda>m. m_node m = n) (cfg_order c) = Some i" "m_weight (cfg_order c ! i) \<noteq> 0"
    and d: "d = c\<lparr>cfg_order := set_weight (cfg_order c) i (m_weight (cfg_order c ! i) - 1)\<rparr>"
    using assms(2) by (auto simp: Let_def split: option.splits if_splits)
  have u: "unat (m_weight (cfg_order c ! i)) = unat (m_weight (cfg_order c ! i) - 1) + 1"
    using i(2) by (simp add: unat_minus_one unat_gt_0)
  have "mass_moved c d \<le> abs_diff (node_weight c n) (node_weight d n)"
    unfolding d by (rule mass_moved_one) (simp add: set_weight_node_weight [OF i(1)])
  then show ?thesis
    unfolding d by (simp add: set_weight_node_weight [OF i(1)] u abs_diff_def)
next
  case (Join n pos)
  then have d: "d = c\<lparr>cfg_order := insert_at (unat pos) \<lparr>m_node = n, m_weight = 0\<rparr> (cfg_order c)\<rparr>"
    and n: "n \<notin> set (nodes c)"
    using assms(2) by (auto simp: list_ex_iff nodes_def split: if_splits)
  then have "node_weight d = node_weight c"
    by (simp add: insert_node_weight)
  then show ?thesis by (simp add: mass_moved_sum moved_at_def abs_diff_def)
next
  case (Leave n)
  then obtain i where i: "position (\<lambda>m. m_node m = n) (cfg_order c) = Some i" "m_weight (cfg_order c ! i) = 0"
    and d: "d = c\<lparr>cfg_order := remove_at i (cfg_order c)\<rparr>"
    using assms(2) by (auto split: option.splits if_splits)
  then have "node_weight d = node_weight c"
    using assms(1) position_node_Some [OF i(1)] by (simp add: remove_node_weight live_def)
  then show ?thesis by (simp add: mass_moved_sum moved_at_def abs_diff_def)
qed (use assms in \<open>auto simp: is_scaling_def split: if_splits\<close>)


section \<open>Consecutive configurations\<close>

lemma scaling_node_weight:
  assumes "apply_in_era c Double = Ok d"
  shows "node_weight d x = 2 * node_weight c x"
proof -
  have "\<forall>m \<in> set ms. unat (m_weight m) \<le> Suc 0 \<Longrightarrow>
      (case weights (map (\<lambda>m. m\<lparr>m_weight := 2 * m_weight m\<rparr>) ms) x of None \<Rightarrow> 0 | Some w \<Rightarrow> unat w)
      = 2 * (case weights ms x of None \<Rightarrow> 0 | Some w \<Rightarrow> unat w)" for ms
    by (induction ms) (auto simp: weights_def unat_small_cases)
  then show ?thesis
    using assms by (auto simp: rcollect_map_double node_weight_order)
qed

lemma unat_halve: "even (w :: u32) \<Longrightarrow> 2 * unat (w div 2) = unat w"
proof -
  assume "even w"
  then have "unat w mod 2 = 0"
    by (simp add: even_iff_mod_2_eq_zero word_eq_nat unat_mod)
  then show ?thesis by (simp add: unat_div_distrib) presburger
qed

lemma halving_node_weight:
  assumes "apply_in_era c Halve = Ok d"
  shows "2 * node_weight d x = node_weight c x"
proof -
  have "\<forall>m \<in> set ms. even (m_weight m) \<Longrightarrow>
      2 * (case weights (map (\<lambda>m. m\<lparr>m_weight := m_weight m div 2\<rparr>) ms) x of None \<Rightarrow> 0 | Some w \<Rightarrow> unat w)
      = (case weights ms x of None \<Rightarrow> 0 | Some w \<Rightarrow> unat w)" for ms
    by (induction ms) (simp_all add: weights_def unat_halve)
  then show ?thesis
    using assms by (auto simp: rcollect_map_halve node_weight_order)
qed

lemma is_scaling_cases: "is_scaling op \<longleftrightarrow> op = Double \<or> op = Halve"
  by (cases op) (simp_all add: is_scaling_def)

text \<open>How an accepted operation after genesis changes the weights: it doubles them, halves them, or
  moves at most one unit.\<close>

definition close_weights :: "configuration \<Rightarrow> configuration \<Rightarrow> bool" where
  "close_weights c d \<longleftrightarrow> (\<forall>x. node_weight d x = 2 * node_weight c x)
                       \<or> (\<forall>x. 2 * node_weight d x = node_weight c x) \<or> mass_moved c d \<le> 1"

lemma apply_in_era_close: "live c \<Longrightarrow> apply_in_era c op = Ok d \<Longrightarrow> close_weights c d"
  unfolding close_weights_def
  using apply_in_era_moves_one scaling_node_weight halving_node_weight is_scaling_cases by metis

lemma close_weights_era [simp]: "close_weights c (d\<lparr>cfg_era := e\<rparr>) = close_weights c d"
  by (simp add: close_weights_def)

lemma apply_sysop_close:
  assumes "wf_config c" "cfg_order c \<noteq> []" "apply_sysop c op at = Ok d"
  shows "close_weights c d"
  using assms(3)
proof (cases rule: apply_sysop_cases)
  case (batch ops)
  then obtain e d' where *: "rfold apply_in_era c ops = Ok d'" "solitary_scaling ops \<or> mass_moved c d' \<le> 1"
    and d: "d = d'\<lparr>cfg_era := e\<rparr>"
    by (auto simp: apply_batch_Ok)
  have "close_weights c d'"
  proof (cases "solitary_scaling ops")
    case True
    then obtain op where "ops = [op]" by (auto simp: solitary_scaling_def length_Suc_conv)
    then show ?thesis using * apply_in_era_close wf_config_live [OF assms(1,2)] by auto
  next
    case False
    then show ?thesis using * by (simp add: close_weights_def)
  qed
  then show ?thesis by (simp add: d)
next
  case (single d' e)
  then show ?thesis using apply_in_era_close wf_config_live [OF assms(1,2)] by simp
qed (use assms in auto)

text \<open>A strict majority of a total is more than the rest.\<close>

lemma majorities_meet:
  assumes wf: "wf_members (cfg_order c)" "wf_members (cfg_order d)"
    and close: "close_weights c d"
    and sub: "Q \<subseteq> set (nodes c)" "R \<subseteq> set (nodes d)"
    and maj: "total c < 2 * set_mass c Q" "total d < 2 * set_mass d R"
  shows "Q \<inter> R \<noteq> {}"
proof
  assume disj: "Q \<inter> R = {}"
  let ?U = "set (nodes c) \<union> set (nodes d)"
  have fin: "finite Q" "finite R" "finite (?U - R)"
    using sub finite_subset by blast+
  have U: "?U = R \<union> (?U - R)" using sub by auto
  have split: "set_mass e ?U = set_mass e R + set_mass e (?U - R)" for e
    using set_mass_union [of R "?U - R" e] fin U by auto
  have all: "set_mass c ?U = total c" "set_mass d ?U = total d"
    by (simp_all add: total_as_set_mass wf set_mass_def sum.mono_neutral_right node_weight_outside)
  have QU: "set_mass c Q \<le> set_mass c (?U - R)"
    unfolding set_mass_def using sub disj by (intro sum_mono2) auto
  have R_c: "set_mass c R < set_mass c (?U - R)"
    using maj(1) QU split [of c] all(1) by linarith
  have R_d: "set_mass d (?U - R) < set_mass d R"
    using maj(2) split [of d] all(2) by linarith
  from close consider (double) "\<forall>x. node_weight d x = 2 * node_weight c x"
    | (halve) "\<forall>x. 2 * node_weight d x = node_weight c x" | (unit) "mass_moved c d \<le> 1"
    unfolding close_weights_def by blast
  then show False
  proof cases
    case double
    then have "set_mass d S = 2 * set_mass c S" for S
      by (simp add: set_mass_def sum_distrib_left)
    with R_c R_d show False by simp
  next
    case halve
    then have "2 * set_mass d S = set_mass c S" for S
      by (simp add: set_mass_def sum_distrib_left)
    with R_c R_d show False by (metis less_asym nat_mult_less_cancel1 zero_less_numeral)
  next
    case unit
    have "(\<Sum>n \<in> R. moved_at c d n) + (\<Sum>n \<in> ?U - R. moved_at c d n) = (\<Sum>n \<in> R \<union> (?U - R). moved_at c d n)"
      using fin by (intro sum.union_disjoint [symmetric]) auto
    also have "\<dots> \<le> 1"
      using mass_moved_finite [of "R \<union> (?U - R)" c d] fin unit by simp
    finally have "(\<Sum>n \<in> R. moved_at c d n) + (\<Sum>n \<in> ?U - R. moved_at c d n) \<le> 1" .
    moreover have "set_mass d R \<le> set_mass c R + (\<Sum>n \<in> R. moved_at c d n)"
      by (rule set_mass_moved) (rule fin)
    moreover have "set_mass c (?U - R) \<le> set_mass d (?U - R) + (\<Sum>n \<in> ?U - R. moved_at c d n)"
      using set_mass_moved [OF fin(3), of c d] by (simp add: moved_at_commute)
    ultimately show False using R_c R_d by linarith
  qed
qed

end
