(* ===== verification/Config_Theorems.thy ===== *)
theory Config_Theorems
  imports Config_Mass
begin

text \<open>
  Properties of the fold, the queries and the snapshot of \<open>src/configuration.rs\<close>, with the small
  configurations their witnesses run on.
\<close>

section \<open>Concrete configurations\<close>

definition three_voters :: configuration where
  "three_voters = \<lparr>cfg_era = 1, cfg_order = [\<lparr>m_node = 10, m_weight = 1\<rparr>,
     \<lparr>m_node = 20, m_weight = 1\<rparr>, \<lparr>m_node = 30, m_weight = 1\<rparr>]\<rparr>"

definition with_learner :: configuration where
  "with_learner = \<lparr>cfg_era = 2, cfg_order = [\<lparr>m_node = 40, m_weight = 0\<rparr>,
     \<lparr>m_node = 10, m_weight = 1\<rparr>, \<lparr>m_node = 20, m_weight = 1\<rparr>, \<lparr>m_node = 30, m_weight = 1\<rparr>]\<rparr>"

definition promoted :: configuration where
  "promoted = \<lparr>cfg_era = 2, cfg_order = [\<lparr>m_node = 10, m_weight = 2\<rparr>,
     \<lparr>m_node = 20, m_weight = 1\<rparr>, \<lparr>m_node = 30, m_weight = 1\<rparr>]\<rparr>"

lemmas sample_defs = three_voters_def with_learner_def promoted_def

lemmas config_eval = live_def wf_members_def wf_config_def total_def void_config_def
  MAX_MEMBERS_def MAX_WEIGHT_def established_era_def nodes_def

lemma wf_samples: "wf_config three_voters" "wf_config with_learner" "wf_config promoted"
  by (auto simp: sample_defs config_eval)

lemma apply_samples:
  "apply_sysop three_voters (Increment 10) 5 = Ok promoted"
  "apply_sysop three_voters (Join 40 0) 5 = Ok with_learner"
  by (simp_all add: sample_defs config_eval successor_era_def era_next_def checked_add_def
      set_weight_def insert_at_def cfg_len_def
      word_le_nat_alt)


section \<open>The fold\<close>

text \<open>C5. The reconfiguration fold keeps every configuration well formed, and an accepted
  operation establishes the era the protocol names: 0 for Void, 1 for Init, the successor otherwise.\<close>

theorem apply_preserves_wf:
  "wf_config c \<Longrightarrow> apply_sysop c op at = Ok c' \<Longrightarrow> wf_config c' \<and> cfg_era c' = established_era c op"
  by (rule apply_sysop_wf)

theorem apply_preserves_wf_witness: "wf_config promoted \<and> cfg_era promoted = 2"
  using apply_preserves_wf [OF wf_samples(1) apply_samples(1)]
  by (simp add: sample_defs established_era_def)

text \<open>No operation the fold is offered, well formed or not, reaches the in-era applier's
  \<open>unreachable!\<close>.\<close>

theorem apply_never_panics: "apply_sysop c op at \<noteq> Err ConfigPanic"
proof (cases "is_genesis op \<or> is_batch op \<or> is_nominate op")
  case True
  have "batch_member_error x \<noteq> Some ConfigPanic" for x
    by (cases x) (simp_all add: batch_member_error_def)
  then have "first_some batch_member_error ops \<noteq> Some ConfigPanic" for ops
    by (auto dest: first_some_SomeD)
  moreover have "first_some batch_member_error ops = None \<Longrightarrow> rfold apply_in_era c ops \<noteq> Err ConfigPanic" for ops
    by (rule rfold_in_era_no_panic) (simp only: batch_screen)
  ultimately have "apply_batch c ops \<noteq> Err ConfigPanic" for ops
    by (auto simp: apply_batch_def successor_era_def split: option.splits simp del: first_some_eq_None)
  with True show ?thesis
    by (cases op) (auto simp: sysop_kind_defs split: option.splits)
next
  case False
  then show ?thesis by (auto simp: apply_single successor_era_def apply_in_era_no_panic)
qed

text \<open>The unit rule: an accepted operation after genesis that is not a scaling, alone or as the
  only member of a batch, moves at most one unit of weight over the union of both memberships.\<close>

theorem apply_unit_rule:
  assumes "wf_config c" "cfg_order c \<noteq> []" "apply_sysop c op at = Ok d"
    and "\<not> is_scaling op" "op \<noteq> Batch [Double]" "op \<noteq> Batch [Halve]"
  shows "mass_moved c d \<le> 1"
  using assms(3)
proof (cases rule: apply_sysop_cases)
  case (batch ops)
  have "\<not> solitary_scaling ops"
    using batch assms(5,6) by (auto simp: solitary_scaling_def length_Suc_conv is_scaling_cases)
  with batch show ?thesis by (auto simp: apply_batch_Ok)
next
  case (single d' e)
  then show ?thesis
    using apply_in_era_moves_one wf_config_live [OF assms(1,2)] assms(4) by simp
qed (use assms in auto)

theorem apply_unit_rule_witness: "mass_moved three_voters promoted \<le> 1"
  by (rule apply_unit_rule [OF wf_samples(1) _ apply_samples(1)])
     (simp_all add: sample_defs is_scaling_def)


section \<open>Queries\<close>

lemma weight_of_member:
  "wf_members (cfg_order c) \<Longrightarrow> m \<in> set (cfg_order c) \<Longrightarrow> weight_of c (m_node m) = Some (m_weight m)"
  by (auto simp: weight_of_weights weights_def wf_members_def comp_def intro!: map_of_is_SomeI)

lemma primary_voters:
  assumes "live c"
  shows "primary c v = Some (m_node (voters c ! (unat v mod length (voters c))))"
proof -
  have "length (voters c) \<le> length (cfg_order c)"
    by (simp add: voters_def)
  then have "length (voters c) < 2 ^ 32"
    using assms by (simp add: live_def wf_members_def MAX_MEMBERS_def)
  then show ?thesis
    using live_voter [OF assms] by (simp add: primary_def Let_def)
qed

text \<open>A configuration after genesis has a primary in every view, and it is a voter: a member
  of positive weight.\<close>

theorem primary_is_voter:
  assumes "wf_config c" "cfg_order c \<noteq> []"
  shows "\<exists>n w. primary c v = Some n \<and> weight_of c n = Some w \<and> w \<noteq> 0"
proof -
  have live: "live c" using wf_config_live [OF assms] by simp
  let ?m = "voters c ! (unat v mod length (voters c))"
  have "?m \<in> set (voters c)" using live_voter [OF live] by simp
  then have "?m \<in> set (cfg_order c)" "m_weight ?m \<noteq> 0" by (auto simp: voters_def)
  then show ?thesis
    using primary_voters [OF live, of v] weight_of_member live by (auto simp: live_def)
qed

theorem primary_is_voter_witness:
  "\<exists>n w. primary with_learner 0 = Some n \<and> weight_of with_learner n = Some w \<and> w \<noteq> 0"
  by (rule primary_is_voter [OF wf_samples(2)]) (simp add: sample_defs)

text \<open>The rotation is fair: every voter leads one of the first \<open>length (voters c)\<close> views, and
  the views an interval of that length further on repeat the same primaries.\<close>

theorem primary_rotation:
  assumes "wf_config c" "m \<in> set (voters c)"
  shows "(\<exists>v. unat v < length (voters c) \<and> primary c v = Some (m_node m))
       \<and> (\<forall>v v'. unat v' = unat v + length (voters c) \<longrightarrow> primary c v' = primary c v)"
proof -
  have "cfg_order c \<noteq> []" using assms(2) by (auto simp: voters_def)
  then have live: "live c" using assms(1) wf_config_live by blast
  obtain i where i: "i < length (voters c)" "m = voters c ! i"
    using assms(2) by (auto simp: in_set_conv_nth)
  have "length (voters c) \<le> 16"
    using live by (auto simp: live_def wf_members_def MAX_MEMBERS_def voters_def
        intro: order_trans [OF length_filter_le])
  then have "unat (of_nat i :: view) = i"
    using i(1) by (simp add: unat_of_nat)
  then have "\<exists>v. unat v < length (voters c) \<and> primary c v = Some (m_node m)"
    using i primary_voters [OF live, of "of_nat i"] by (intro exI [of _ "of_nat i"]) simp
  then show ?thesis
    by (simp add: primary_voters [OF live])
qed

theorem primary_rotation_witness:
  "(\<exists>v. unat v < 3 \<and> primary with_learner v = Some 20)
   \<and> primary with_learner 4 = primary with_learner 1"
proof -
  have "\<lparr>m_node = 20, m_weight = 1\<rparr> \<in> set (voters with_learner)" and l: "length (voters with_learner) = 3"
    by (simp_all add: sample_defs voters_def)
  note * = primary_rotation [OF wf_samples(2) this(1), unfolded l]
  have "primary with_learner 4 = primary with_learner 1"
    using * [THEN conjunct2, rule_format, of 4 1] by simp
  then show ?thesis using * by simp
qed

text \<open>The weight of a set is answered exactly for duplicate-free sets of members, is the sum of
  their weights, and never passes the total.\<close>

theorem weight_of_set_correct:
  assumes "wf_config c"
  shows "(weight_of_set c ns \<noteq> None \<longleftrightarrow> distinct ns \<and> set ns \<subseteq> set (nodes c))
       \<and> (\<forall>w. weight_of_set c ns = Some w \<longrightarrow> w = sum_list (map (node_weight c) ns) \<and> w \<le> total c)"
proof -
  have "set_mass c (set ns) \<le> total c"
    using set_mass_total [OF wf_config_members [OF assms], of "set ns"] by simp
  then show ?thesis
    by (auto simp: weight_of_set_eq set_mass_def sum_list_distinct_conv_sum_set split: if_splits)
qed

theorem weight_of_set_correct_witness:
  "weight_of_set promoted [30, 10] = Some 3 \<and> 3 = sum_list (map (node_weight promoted) [30, 10])
   \<and> 3 \<le> total promoted"
proof -
  have "weight_of_set promoted [30, 10] = Some 3"
    by (simp add: weight_of_set_def weight_of_def sample_defs)
  then show ?thesis
    using weight_of_set_correct [OF wf_samples(3), of "[30, 10]"] by simp
qed


section \<open>Snapshots\<close>

lemma find_weight_None:
  "find (\<lambda>m. m_weight m > MAX_WEIGHT) ms = None \<longleftrightarrow> (\<forall>m \<in> set ms. m_weight m \<le> MAX_WEIGHT)"
  by (auto simp: find_None_iff not_less)

lemma inflate_Ok:
  "inflate s = Ok c \<longleftrightarrow>
     distinct (map m_node (snap_order s)) \<and> (\<forall>m \<in> set (snap_order s). m_weight m \<le> MAX_WEIGHT)
     \<and> (if snap_era s = 0 then snap_order s = [] else mass (snap_order s) \<ge> 1)
     \<and> c = \<lparr>cfg_era = snap_era s, cfg_order = snap_order s\<rparr>"
proof (cases "first_duplicate [] (map m_node (snap_order s))")
  case None
  show ?thesis
  proof (cases "find (\<lambda>m. m_weight m > MAX_WEIGHT) (snap_order s)")
    case N: None
    have eq: "inflate s =
        (if snap_era s = 0
         then (if snap_order s \<noteq> [] then Err SnapshotVoidWithMembers else Ok void_config)
         else if snap_order s = [] then Err (SnapshotEmptyOrder (snap_era s))
         else if mass (snap_order s) = 0 then Err (SnapshotZeroTotal (snap_era s))
         else Ok \<lparr>cfg_era = snap_era s, cfg_order = snap_order s\<rparr>)"
      unfolding inflate_def None N option.case mass_def by (rule refl)
    have "distinct (map m_node (snap_order s))" "\<forall>m \<in> set (snap_order s). m_weight m \<le> MAX_WEIGHT"
      using None N by (simp_all only: first_duplicate_Nil find_weight_None)
    then show ?thesis
      by (auto simp: eq void_config_def Suc_le_eq)
  next
    case (Some m)
    then have "\<not> (\<forall>m \<in> set (snap_order s). m_weight m \<le> MAX_WEIGHT)"
      using find_weight_None [of "snap_order s"] by simp
    then show ?thesis unfolding inflate_def None Some option.case by blast
  qed
next
  case (Some n)
  then have "\<not> distinct (map m_node (snap_order s))"
    by (metis first_duplicate_Nil option.distinct(1))
  then show ?thesis unfolding inflate_def Some option.case by blast
qed

text \<open>Every configuration the fold can hold survives its snapshot: taking the snapshot and
  inflating it gives the configuration back.\<close>

theorem snapshot_roundtrip: "wf_config c \<Longrightarrow> inflate (to_snapshot c) = Ok c"
  by (auto simp: inflate_Ok to_snapshot_def wf_config_def live_def wf_members_def total_mass void_config_def)

theorem snapshot_roundtrip_witness: "inflate (to_snapshot with_learner) = Ok with_learner"
  by (rule snapshot_roundtrip [OF wf_samples(2)])

text \<open>What inflates is what was stored, and it satisfies the whole invariant of the fold as long
  as the stored membership respects the cap, the one condition \<open>inflate\<close> does not re-check.\<close>

theorem inflate_sound:
  "inflate s = Ok c \<Longrightarrow>
   to_snapshot c = s \<and> (wf_config c \<longleftrightarrow> length (snap_order s) \<le> MAX_MEMBERS)"
  by (auto simp: inflate_Ok to_snapshot_def wf_config_def live_def wf_members_def total_mass
      void_config_def MAX_MEMBERS_def split: if_splits)

definition seventeen_members :: snapshot where
  "seventeen_members = \<lparr>snap_era = 1,
     snap_order = map (\<lambda>i. \<lparr>m_node = of_nat i, m_weight = 1\<rparr>) [1 ..< 18]\<rparr>"

lemma seventeen_inflates:
  "inflate seventeen_members = Ok \<lparr>cfg_era = 1, cfg_order = snap_order seventeen_members\<rparr>"
  by (simp add: inflate_Ok seventeen_members_def upt_conv_Cons MAX_WEIGHT_def word_le_nat_alt mass_def)

theorem inflate_sound_witness:
  "\<not> wf_config \<lparr>cfg_era = 1, cfg_order = snap_order seventeen_members\<rparr>"
  using inflate_sound [OF seventeen_inflates] by (simp add: seventeen_members_def MAX_MEMBERS_def)

end
