(* ===== verification/Wire.thy ===== *)
theory Wire
  imports Ids "HOL-Library.Monad_Syntax"
begin

text \<open>
  The codec substrate (\<open>src/wire.rs\<close>): the bounds-checked writer and cursor, the scalar fields,
  the opaque field, the message tags and the twenty-byte header, and the interface \<open>codec\<close> that
  every packed type of the crate fulfils.

  A writer step returns \<open>None\<close> where the source panics on an under-reported length. A decoder
  returns \<open>Decoded\<close> with the advanced cursor, \<open>Refused\<close> with the source's error, or
  \<open>Aborted\<close> when the process dies (only the recursive decoder of system operations can).
  Offsets and lengths are \<open>usize\<close> on a 64-bit target: naturals, with \<open>checked_add\<close>
  written out at \<open>2 ^ 64\<close>.
\<close>

section \<open>Errors\<close>

datatype malformed =
    UnknownTag u32
  | LengthPrefixOverflow
  | TrailingBytes nat
  | ReservedFieldNonZero
  | OutOfDomain

datatype unpack_error = Incomplete nat | Malformed malformed

datatype pack_error = BufferTooSmall nat nat

definition usize_checked_add :: "nat \<Rightarrow> nat \<Rightarrow> nat option" where
  "usize_checked_add a b = (if a + b < 2 ^ 64 then Some (a + b) else None)"


section \<open>Big-endian bytes\<close>

fun be_bytes :: "nat \<Rightarrow> nat \<Rightarrow> u8 list" where
  "be_bytes 0 x = []"
| "be_bytes (Suc n) x = be_bytes n (x div 256) @ [of_nat x]"

lemma be_bytes_numeral [simp]:
  "be_bytes (numeral k) x = be_bytes (pred_numeral k) (x div 256) @ [of_nat x]"
  using be_bytes.simps(2) [of "pred_numeral k" x] by (simp only: numeral_eq_Suc [of k, symmetric])

lemma be_bytes_1 [simp]: "be_bytes 1 x = [of_nat x]"
  by simp

definition be_value :: "u8 list \<Rightarrow> nat" where
  "be_value bs = foldl (\<lambda>acc b. acc * 256 + unat b) 0 bs"

lemma length_be_bytes [simp]: "length (be_bytes n x) = n"
  by (induction n arbitrary: x) auto

lemma be_value_snoc [simp]: "be_value (bs @ [b]) = be_value bs * 256 + unat b"
  by (simp add: be_value_def)

lemma be_value_Nil [simp]: "be_value [] = 0"
  by (simp add: be_value_def)

lemma be_value_be_bytes: "be_value (be_bytes n x) = x mod 256 ^ n"
proof (induction n arbitrary: x)
  case (Suc n)
  have "x mod 256 ^ Suc n = 256 * (x div 256 mod 256 ^ n) + x mod 256"
    by (simp add: mod_mult2_eq)
  then show ?case by (simp add: Suc unat_of_nat)
qed simp

lemma be_bytes_be_value: "be_bytes (length bs) (be_value bs) = bs"
proof (induction bs rule: rev_induct)
  case (snoc b bs)
  have "unat b < 256" using unsigned_less [of b, where ?'a = nat] by simp
  then have "(be_value bs * 256 + unat b) div 256 = be_value bs" by simp
  moreover have "(of_nat (be_value bs * 256 + unat b) :: u8) = b"
    using \<open>unat b < 256\<close> by (simp only: word_unat_eq_iff unat_of_nat) simp
  ultimately show ?case using snoc by simp
qed simp

lemma be_value_less: "be_value bs < 256 ^ length bs"
proof (induction bs rule: rev_induct)
  case (snoc b bs)
  have "unat b < 256" using unsigned_less [of b, where ?'a = nat] by simp
  with snoc show ?case by simp
qed simp

definition to_be_bytes :: "nat \<Rightarrow> 'a::len word \<Rightarrow> u8 list" where
  "to_be_bytes n w = be_bytes n (unat w)"

definition from_be_bytes :: "u8 list \<Rightarrow> 'a::len word" where
  "from_be_bytes bs = of_nat (be_value bs)"

lemma length_to_be_bytes [simp]: "length (to_be_bytes n w) = n"
  by (simp add: to_be_bytes_def)

lemma be_word_iff:
  assumes "LENGTH('a) = 8 * n"
  shows "length bs = n \<and> w = (from_be_bytes bs :: 'a::len word) \<longleftrightarrow> bs = to_be_bytes n w"
proof -
  have pow: "(2::nat) ^ LENGTH('a) = 256 ^ n"
    by (simp add: assms power_mult)
  show ?thesis
  proof
    assume "length bs = n \<and> w = from_be_bytes bs"
    then have n: "length bs = n" and "unat w = be_value bs"
      using be_value_less [of bs] by (auto simp: from_be_bytes_def unat_of_nat pow)
    then show "bs = to_be_bytes n w"
      using be_bytes_be_value [of bs] by (simp add: to_be_bytes_def)
  next
    assume "bs = to_be_bytes n w"
    then show "length bs = n \<and> w = from_be_bytes bs"
      using unsigned_less [of w, where ?'a = nat]
      by (simp add: to_be_bytes_def from_be_bytes_def be_value_be_bytes pow)
  qed
qed


section \<open>The writer\<close>

record writer =
  w_buf :: "u8 list"
  w_at :: nat

definition writer_new :: "u8 list \<Rightarrow> nat \<Rightarrow> pack_error + writer" where
  "writer_new buf needed =
     (let provided = length buf
      in if provided < needed then Err (BufferTooSmall needed provided)
         else Ok \<lparr>w_buf = buf, w_at = 0\<rparr>)"

text \<open>\<open>None\<close> is the panic of an overrun: the declared requirement was smaller than the bytes.\<close>

definition put :: "u8 list \<Rightarrow> writer \<Rightarrow> writer option" where
  "put src w =
     (case usize_checked_add (w_at w) (length src) of
        None \<Rightarrow> None
      | Some end \<Rightarrow>
          if end \<le> length (w_buf w)
          then Some (w\<lparr>w_buf := take (w_at w) (w_buf w) @ src @ drop end (w_buf w), w_at := end\<rparr>)
          else None)"

definition put_u8 :: "u8 \<Rightarrow> writer \<Rightarrow> writer option" where
  "put_u8 value = put [value]"

definition put_u16 :: "u16 \<Rightarrow> writer \<Rightarrow> writer option" where
  "put_u16 value = put (to_be_bytes 2 value)"

definition put_u32 :: "u32 \<Rightarrow> writer \<Rightarrow> writer option" where
  "put_u32 value = put (to_be_bytes 4 value)"

definition put_u64 :: "u64 \<Rightarrow> writer \<Rightarrow> writer option" where
  "put_u64 value = put (to_be_bytes 8 value)"

definition put_u128 :: "128 word \<Rightarrow> writer \<Rightarrow> writer option" where
  "put_u128 value = put (to_be_bytes 16 value)"

definition put_bool :: "bool \<Rightarrow> writer \<Rightarrow> writer option" where
  "put_bool value = put_u8 (if value then 1 else 0)"

definition put_bytes16 :: "u8 list \<Rightarrow> writer \<Rightarrow> writer option" where
  "put_bytes16 value = put value"

text \<open>The conversion \<open>u32::try_from(value.len()).expect(..)\<close>: \<open>None\<close> is the panic.\<close>

definition len_u32 :: "'a list \<Rightarrow> u32 option" where
  "len_u32 xs = (if length xs < 2 ^ 32 then Some (of_nat (length xs)) else None)"

definition put_opaque :: "u8 list \<Rightarrow> writer \<Rightarrow> writer option" where
  "put_opaque value w = do {
     len \<leftarrow> len_u32 value;
     w \<leftarrow> put_u32 len w;
     put value w }"

definition opaque_packed_len_checked :: "u8 list \<Rightarrow> nat option" where
  "opaque_packed_len_checked payload =
     (if length payload \<ge> 2 ^ 32 then None else usize_checked_add (length payload) 4)"

definition opaque_packed_len :: "u8 list \<Rightarrow> nat option" where
  "opaque_packed_len payload = opaque_packed_len_checked payload"

definition pack_opaque_into ::
    "u8 list \<Rightarrow> u8 list \<Rightarrow> (pack_error + nat \<times> u8 list) option" where
  "pack_opaque_into payload buf =
     (let needed = (case opaque_packed_len_checked payload of Some n \<Rightarrow> n | None \<Rightarrow> 2 ^ 64 - 1)
      in case writer_new buf needed of
           Inl e \<Rightarrow> Some (Err e)
         | Inr w \<Rightarrow> map_option (\<lambda>w'. Ok (w_at w', w_buf w')) (put_opaque payload w))"

text \<open>Consecutive writes are one write of the concatenation.\<close>

lemma put_eq:
  "put src w =
     (if w_at w + length src < 2 ^ 64 \<and> w_at w + length src \<le> length (w_buf w)
      then Some \<lparr>w_buf = take (w_at w) (w_buf w) @ src @ drop (w_at w + length src) (w_buf w),
                 w_at = w_at w + length src\<rparr>
      else None)"
  by (cases w) (simp add: put_def usize_checked_add_def)

definition writer_ok :: "writer \<Rightarrow> bool" where
  "writer_ok w \<longleftrightarrow> w_at w \<le> length (w_buf w) \<and> length (w_buf w) < 2 ^ 64"

lemma put_Nil [simp]: "writer_ok w \<Longrightarrow> put [] w = Some w"
  by (cases w) (simp add: put_eq writer_ok_def)

lemma put_ok: "writer_ok w \<Longrightarrow> put a w = Some w' \<Longrightarrow> writer_ok w'"
  by (auto simp: put_eq writer_ok_def split: if_splits)

lemma put_put: "Option.bind (put a w) (put b) = put (a @ b) w"
  by (auto simp: put_eq ac_simps)

lemma put_bind:
  assumes "writer_ok w" and "\<And>w'. writer_ok w' \<Longrightarrow> f w' = put b w'"
  shows "Option.bind (put a w) f = put (a @ b) w"
  using assms by (auto simp: put_put [symmetric] dest: put_ok intro!: Option.bind_cong)

lemma put_fits:
  assumes "writer_ok w" and "w_at w + length a \<le> length (w_buf w)"
  shows "put a w = Some \<lparr>w_buf = take (w_at w) (w_buf w) @ a @ drop (w_at w + length a) (w_buf w),
                         w_at = w_at w + length a\<rparr>"
  using assms by (simp add: put_eq writer_ok_def)


section \<open>The cursor\<close>

record cursor =
  c_buf :: "u8 list"
  c_at :: nat

datatype 'a decoded = Decoded 'a cursor | Refused unpack_error | Aborted

type_synonym 'a decoder = "cursor \<Rightarrow> 'a decoded"

definition dreturn :: "'a \<Rightarrow> 'a decoder" where
  "dreturn a c = Decoded a c"

definition drefuse :: "unpack_error \<Rightarrow> 'a decoder" where
  "drefuse e c = Refused e"

definition dbind :: "'a decoder \<Rightarrow> ('a \<Rightarrow> 'b decoder) \<Rightarrow> 'b decoder" where
  "dbind m f c =
     (case m c of Decoded a c' \<Rightarrow> f a c' | Refused e \<Rightarrow> Refused e | Aborted \<Rightarrow> Aborted)"

definition cursor_new :: "u8 list \<Rightarrow> cursor" where
  "cursor_new buf = \<lparr>c_buf = buf, c_at = 0\<rparr>"

definition remaining :: "cursor \<Rightarrow> nat" where
  "remaining c = length (c_buf c) - c_at c"

definition finish :: "cursor \<Rightarrow> unpack_error + unit" where
  "finish c =
     (let unread = remaining c
      in if unread = 0 then Ok () else Err (Malformed (TrailingBytes unread)))"

definition get_slice :: "nat \<Rightarrow> u8 list decoder" where
  "get_slice len c =
     (case usize_checked_add (c_at c) len of
        None \<Rightarrow> Refused (Malformed LengthPrefixOverflow)
      | Some end \<Rightarrow>
          if end \<le> length (c_buf c)
          then Decoded (take len (drop (c_at c) (c_buf c))) (c\<lparr>c_at := end\<rparr>)
          else Refused (Incomplete end))"

definition get_u8 :: "u8 decoder" where
  "get_u8 = dbind (get_slice 1) (\<lambda>bs. dreturn (from_be_bytes bs))"

definition get_u16 :: "u16 decoder" where
  "get_u16 = dbind (get_slice 2) (\<lambda>bs. dreturn (from_be_bytes bs))"

definition get_u32 :: "u32 decoder" where
  "get_u32 = dbind (get_slice 4) (\<lambda>bs. dreturn (from_be_bytes bs))"

definition get_u64 :: "u64 decoder" where
  "get_u64 = dbind (get_slice 8) (\<lambda>bs. dreturn (from_be_bytes bs))"

definition get_u128 :: "128 word decoder" where
  "get_u128 = dbind (get_slice 16) (\<lambda>bs. dreturn (from_be_bytes bs))"

definition get_bool :: "bool decoder" where
  "get_bool = dbind get_u8 (\<lambda>b.
     if b = 0 then dreturn False
     else if b = 1 then dreturn True
     else drefuse (Malformed OutOfDomain))"

definition get_bytes16 :: "u8 list decoder" where
  "get_bytes16 = get_slice 16"

definition get_opaque :: "u8 list decoder" where
  "get_opaque = dbind get_u32 (\<lambda>declared. get_slice (unat declared))"

definition get_reserved :: "nat \<Rightarrow> unit decoder" where
  "get_reserved len = dbind (get_slice len) (\<lambda>bytes.
     if list_all (\<lambda>byte. byte = 0) bytes then dreturn ()
     else drefuse (Malformed ReservedFieldNonZero))"

text \<open>
  \<open>reads c bs c'\<close>: the bytes at \<open>c\<close> are \<open>bs\<close> and \<open>c'\<close> is the cursor past them. On
  cursors that stay inside a buffer the target can hold (a slice is at most \<open>isize::MAX\<close> bytes
  long), a decoder is described by which bytes it reads for which value.
\<close>

definition cursor_ok :: "cursor \<Rightarrow> bool" where
  "cursor_ok c \<longleftrightarrow> c_at c \<le> length (c_buf c) \<and> length (c_buf c) < 2 ^ 63"

definition reads :: "cursor \<Rightarrow> u8 list \<Rightarrow> cursor \<Rightarrow> bool" where
  "reads c bs c' \<longleftrightarrow>
     c' = c\<lparr>c_at := c_at c + length bs\<rparr> \<and> (\<exists>rest. drop (c_at c) (c_buf c) = bs @ rest)"

lemma reads_Nil [simp]: "reads c [] c' \<longleftrightarrow> c' = c"
  by (auto simp: reads_def)

lemma reads_append: "reads c (a @ b) c'' \<longleftrightarrow> (\<exists>c'. reads c a c' \<and> reads c' b c'')"
proof
  assume "reads c (a @ b) c''"
  then obtain rest where c'': "c'' = c\<lparr>c_at := c_at c + length (a @ b)\<rparr>"
    and d: "drop (c_at c) (c_buf c) = a @ b @ rest"
    by (auto simp: reads_def)
  from d have "drop (length a) (drop (c_at c) (c_buf c)) = b @ rest" by simp
  then have "reads (c\<lparr>c_at := c_at c + length a\<rparr>) b c''"
    using c'' by (auto simp: reads_def ac_simps)
  moreover have "reads c a (c\<lparr>c_at := c_at c + length a\<rparr>)"
    using d by (auto simp: reads_def)
  ultimately show "\<exists>c'. reads c a c' \<and> reads c' b c''" by blast
next
  assume "\<exists>c'. reads c a c' \<and> reads c' b c''"
  then obtain r1 r2 where c'': "c'' = c\<lparr>c_at := c_at c + length a + length b\<rparr>"
    and d1: "drop (c_at c) (c_buf c) = a @ r1"
    and d2: "drop (c_at c + length a) (c_buf c) = b @ r2"
    by (auto simp: reads_def)
  from d1 have "drop (c_at c + length a) (c_buf c) = r1"
    by (simp add: drop_drop [symmetric] add.commute)
  with d1 d2 have "drop (c_at c) (c_buf c) = (a @ b) @ r2" by simp
  with c'' show "reads c (a @ b) c''" by (auto simp: reads_def ac_simps)
qed

lemma reads_ok: "cursor_ok c \<Longrightarrow> reads c bs c' \<Longrightarrow> cursor_ok c'"
proof -
  assume ok: "cursor_ok c" and "reads c bs c'"
  then obtain rest where c': "c' = c\<lparr>c_at := c_at c + length bs\<rparr>"
    and d: "drop (c_at c) (c_buf c) = bs @ rest"
    by (auto simp: reads_def)
  from d have "length (c_buf c) - c_at c = length bs + length rest"
    by (metis length_append length_drop)
  moreover from ok have "c_at c \<le> length (c_buf c)" by (simp add: cursor_ok_def)
  ultimately have "c_at c + length bs \<le> length (c_buf c)" by linarith
  with ok c' show "cursor_ok c'" by (simp add: cursor_ok_def)
qed

lemma reads_unique: "reads c bs c' \<Longrightarrow> reads c bs' c' \<Longrightarrow> bs = bs'"
  by (cases c) (auto simp: reads_def)

lemma reads_cursor_new: "reads (cursor_new bs) bs' c' \<and> remaining c' = 0 \<longleftrightarrow>
    bs' = bs \<and> c' = \<lparr>c_buf = bs, c_at = length bs\<rparr>"
  by (auto simp: reads_def cursor_new_def remaining_def)

lemma remaining_reads: "reads c bs c' \<Longrightarrow> remaining c = length bs + remaining c'"
proof -
  assume "reads c bs c'"
  then obtain rest where c': "c' = c\<lparr>c_at := c_at c + length bs\<rparr>"
    and d: "drop (c_at c) (c_buf c) = bs @ rest"
    by (auto simp: reads_def)
  from d have "length (c_buf c) - c_at c = length bs + length rest"
    by (metis length_append length_drop)
  with c' show ?thesis by (simp add: remaining_def)
qed

named_theorems decode_simps

lemma dreturn_Decoded [decode_simps]: "dreturn a c = Decoded b c' \<longleftrightarrow> b = a \<and> c' = c"
  by (auto simp: dreturn_def)

lemma drefuse_Decoded [decode_simps]: "drefuse e c \<noteq> Decoded b c'"
  by (simp add: drefuse_def)

lemma dbind_Decoded [decode_simps]:
  "dbind m f c = Decoded b c'' \<longleftrightarrow> (\<exists>a c'. m c = Decoded a c' \<and> f a c' = Decoded b c'')"
  by (auto simp: dbind_def split: decoded.splits)

lemma dbind_cong [fundef_cong]:
  "m = m' \<Longrightarrow> c = c' \<Longrightarrow> (\<And>a c2. m' c' = Decoded a c2 \<Longrightarrow> f a c2 = g a c2) \<Longrightarrow>
   dbind m f c = dbind m' g c'"
  by (auto simp: dbind_def split: decoded.splits)

lemma get_slice_Decoded:
  assumes "cursor_ok c" "n < 2 ^ 63"
  shows "get_slice n c = Decoded bs c' \<longleftrightarrow> length bs = n \<and> reads c bs c'"
proof
  assume "get_slice n c = Decoded bs c'"
  then have "c_at c + n \<le> length (c_buf c)" "bs = take n (drop (c_at c) (c_buf c))"
    "c' = c\<lparr>c_at := c_at c + n\<rparr>"
    by (auto simp: get_slice_def split: option.splits if_splits
        simp: usize_checked_add_def)
  then show "length bs = n \<and> reads c bs c'"
    by (auto simp: reads_def intro!: exI [of _ "drop n (drop (c_at c) (c_buf c))"]
        simp del: drop_drop)
next
  assume r: "length bs = n \<and> reads c bs c'"
  then have "remaining c = n + remaining c'" using remaining_reads by blast
  moreover from r obtain rest where "drop (c_at c) (c_buf c) = bs @ rest"
    "c' = c\<lparr>c_at := c_at c + n\<rparr>" "length bs = n" by (auto simp: reads_def)
  ultimately show "get_slice n c = Decoded bs c'"
    using assms by (auto simp: get_slice_def usize_checked_add_def remaining_def cursor_ok_def)
qed


section \<open>Packing into and unpacking from whole buffers\<close>

text \<open>
  The provided methods \<open>Pack::pack_into\<close> and \<open>Unpack::unpack_from\<close>, over the required
  methods as arguments. \<open>None\<close> is a panic of the packer or an abort of the decoder.
\<close>

definition pack_into ::
    "('a \<Rightarrow> writer \<Rightarrow> writer option) \<Rightarrow> ('a \<Rightarrow> nat option) \<Rightarrow> 'a \<Rightarrow> u8 list \<Rightarrow>
     (pack_error + nat \<times> u8 list) option" where
  "pack_into pack packed_len x buf =
     (case packed_len x of
        None \<Rightarrow> None
      | Some needed \<Rightarrow>
          (case writer_new buf needed of
             Inl e \<Rightarrow> Some (Err e)
           | Inr w \<Rightarrow> map_option (\<lambda>w'. Ok (w_at w', w_buf w')) (pack x w)))"

definition unpack_from :: "'a decoder \<Rightarrow> u8 list \<Rightarrow> (unpack_error + 'a) option" where
  "unpack_from unpack buf =
     (case unpack (cursor_new buf) of
        Aborted \<Rightarrow> None
      | Refused e \<Rightarrow> Some (Err e)
      | Decoded x c \<Rightarrow> Some (rbind (finish c) (\<lambda>_. Ok x)))"

text \<open>The loops over counted sequences.\<close>

fun pack_items :: "('a \<Rightarrow> writer \<Rightarrow> writer option) \<Rightarrow> 'a list \<Rightarrow> writer \<Rightarrow> writer option" where
  "pack_items pack [] w = Some w"
| "pack_items pack (x # xs) w = Option.bind (pack x w) (pack_items pack xs)"

fun items_packed_len :: "('a \<Rightarrow> nat option) \<Rightarrow> 'a list \<Rightarrow> nat option" where
  "items_packed_len len [] = Some 0"
| "items_packed_len len (x # xs) = do {
     a \<leftarrow> len x;
     b \<leftarrow> items_packed_len len xs;
     Some (a + b) }"

fun unpack_items :: "'a decoder \<Rightarrow> nat \<Rightarrow> 'a list decoder" where
  "unpack_items unpack 0 = dreturn []"
| "unpack_items unpack (Suc n) =
     dbind unpack (\<lambda>x. dbind (unpack_items unpack n) (\<lambda>xs. dreturn (x # xs)))"


section \<open>The codec interface\<close>

text \<open>
  What \<open>Pack\<close> and \<open>Unpack\<close> promise for one type. \<open>enc\<close> is the canonical byte string of a
  value and \<open>valid\<close> singles out the values the source can frame (a length must fit its prefix).
  A provider shows that packing writes exactly those bytes, that the declared length is exact, and
  that decoding accepts exactly those bytes: nothing else decodes to the value, and the bytes
  decode to nothing else.
\<close>

locale codec =
  fixes pack :: "'a \<Rightarrow> writer \<Rightarrow> writer option"
    and packed_len :: "'a \<Rightarrow> nat option"
    and unpack :: "'a decoder"
    and enc :: "'a \<Rightarrow> u8 list"
    and valid :: "'a \<Rightarrow> bool"
  assumes pack_enc: "writer_ok w \<Longrightarrow> valid x \<Longrightarrow> pack x w = put (enc x) w"
    and len_enc: "valid x \<Longrightarrow> packed_len x = Some (length (enc x))"
    and unpack_iff:
      "cursor_ok c \<Longrightarrow> unpack c = Decoded x c' \<longleftrightarrow> valid x \<and> reads c (enc x) c'"
begin

text \<open>Decoding a field first: what the composite decoders are rewritten with.\<close>

lemma dbind_unpack:
  "cursor_ok c \<Longrightarrow> dbind unpack f c = Decoded y c'' \<longleftrightarrow>
     (\<exists>x c'. (valid x \<and> reads c (enc x) c') \<and> cursor_ok c' \<and> f x c' = Decoded y c'')"
  unfolding decode_simps using unpack_iff reads_ok by blast

lemma unpack_from_iff:
  assumes "length buf < 2 ^ 63"
  shows "unpack_from unpack buf = Some (Ok x) \<longleftrightarrow> valid x \<and> buf = enc x"
proof -
  have ok: "cursor_ok (cursor_new buf)"
    using assms by (simp add: cursor_ok_def cursor_new_def)
  have "unpack_from unpack buf = Some (Ok x) \<longleftrightarrow>
        (\<exists>c. unpack (cursor_new buf) = Decoded x c \<and> remaining c = 0)"
    by (auto simp: unpack_from_def finish_def Let_def split: decoded.splits if_splits)
  also have "\<dots> \<longleftrightarrow> valid x \<and> (\<exists>c. reads (cursor_new buf) (enc x) c \<and> remaining c = 0)"
    using unpack_iff [OF ok] by auto
  also have "\<dots> \<longleftrightarrow> valid x \<and> buf = enc x"
    unfolding reads_cursor_new by auto
  finally show ?thesis .
qed

lemma pack_into_fits:
  assumes "valid x" "length (enc x) \<le> length buf" "length buf < 2 ^ 64"
  shows "pack_into pack packed_len x buf =
    Some (Ok (length (enc x), enc x @ drop (length (enc x)) buf))"
  using assms by (simp add: pack_into_def len_enc writer_new_def pack_enc writer_ok_def put_eq)

lemma pack_into_small:
  assumes "valid x" "length buf < length (enc x)"
  shows "pack_into pack packed_len x buf =
    Some (Err (BufferTooSmall (length (enc x)) (length buf)))"
  using assms by (simp add: pack_into_def len_enc writer_new_def)

lemma roundtrip:
  assumes "valid x" "length (enc x) \<le> length buf" "length buf < 2 ^ 63"
  shows "\<exists>n buf'. pack_into pack packed_len x buf = Some (Ok (n, buf')) \<and>
    packed_len x = Some n \<and> length buf' = length buf \<and> drop n buf' = drop n buf \<and>
    unpack_from unpack (take n buf') = Some (Ok x)"
  using assms by (simp add: pack_into_fits unpack_from_iff len_enc)

lemma exact:
  assumes "length buf < 2 ^ 63"
  shows "unpack_from unpack buf = Some (Ok x) \<longleftrightarrow>
           valid x \<and> packed_len x = Some (length buf)
           \<and> pack_into pack packed_len x (replicate (length buf) 0) = Some (Ok (length buf, buf))"
proof -
  have "buf = enc x \<longleftrightarrow> packed_len x = Some (length buf)
       \<and> pack_into pack packed_len x (replicate (length buf) 0) = Some (Ok (length buf, buf))"
    if v: "valid x"
  proof -
    have len: "packed_len x = Some (length buf) \<longleftrightarrow> length (enc x) = length buf"
      by (simp add: len_enc [OF v])
    have "pack_into pack packed_len x (replicate (length buf) 0) = Some (Ok (length buf, enc x))"
      if "length (enc x) = length buf"
      using pack_into_fits [OF v, of "replicate (length buf) 0"] assms that by simp
    then show ?thesis unfolding len by fastforce
  qed
  then show ?thesis using unpack_from_iff [OF assms] by auto
qed

lemma enc_inject: "valid x \<Longrightarrow> valid y \<Longrightarrow> length (enc x) < 2 ^ 63 \<Longrightarrow> enc x = enc y \<Longrightarrow> x = y"
  by (metis unpack_from_iff option.inject sum.inject(2))

lemma pack_items_enc:
  "writer_ok w \<Longrightarrow> list_all valid xs \<Longrightarrow> pack_items pack xs w = put (concat (map enc xs)) w"
proof (induction xs arbitrary: w)
  case (Cons x xs)
  then show ?case by (auto simp: pack_enc intro!: put_bind)
qed simp

lemma items_len_enc:
  "list_all valid xs \<Longrightarrow> items_packed_len packed_len xs = Some (length (concat (map enc xs)))"
  by (induction xs) (auto simp: len_enc)

lemma unpack_items_iff:
  "cursor_ok c \<Longrightarrow> unpack_items unpack n c = Decoded xs c' \<longleftrightarrow>
     length xs = n \<and> list_all valid xs \<and> reads c (concat (map enc xs)) c'"
proof (induction n arbitrary: c xs)
  case 0
  then show ?case by (auto simp: decode_simps)
next
  case (Suc n)
  have "unpack_items unpack (Suc n) c = Decoded xs c' \<longleftrightarrow>
    (\<exists>x c1 ys. valid x \<and> reads c (enc x) c1 \<and> unpack_items unpack n c1 = Decoded ys c' \<and> xs = x # ys)"
    unfolding unpack_items.simps decode_simps unpack_iff [OF Suc.prems] by blast
  also have "\<dots> \<longleftrightarrow> (\<exists>x c1 ys. valid x \<and> reads c (enc x) c1 \<and>
       length ys = n \<and> list_all valid ys \<and> reads c1 (concat (map enc ys)) c' \<and> xs = x # ys)"
    using Suc.IH reads_ok [OF Suc.prems] by blast
  finally show ?case by (cases xs) (auto simp: reads_append)
qed

end

text \<open>Decoders that cannot abort the process.\<close>

definition never_aborts :: "'a decoder \<Rightarrow> bool" where
  "never_aborts m \<longleftrightarrow> (\<forall>c. m c \<noteq> Aborted)"

named_theorems never_aborts_intros

lemma get_slice_never_aborts [never_aborts_intros]: "never_aborts (get_slice n)"
  by (auto simp: never_aborts_def get_slice_def split: option.splits)

lemma dreturn_never_aborts [never_aborts_intros]: "never_aborts (dreturn a)"
  by (simp add: never_aborts_def dreturn_def)

lemma drefuse_never_aborts [never_aborts_intros]: "never_aborts (drefuse e)"
  by (simp add: never_aborts_def drefuse_def)

lemma dbind_never_aborts [never_aborts_intros]:
  "never_aborts m \<Longrightarrow> (\<And>a. never_aborts (f a)) \<Longrightarrow> never_aborts (dbind m f)"
  by (auto simp: never_aborts_def dbind_def split: decoded.splits)

lemma if_never_aborts [never_aborts_intros]:
  "(b \<Longrightarrow> never_aborts m) \<Longrightarrow> (\<not> b \<Longrightarrow> never_aborts m') \<Longrightarrow> never_aborts (if b then m else m')"
  by simp

lemma unpack_items_never_aborts [never_aborts_intros]:
  "never_aborts m \<Longrightarrow> never_aborts (unpack_items m n)"
  by (induction n) (auto intro!: never_aborts_intros)

locale total_codec = codec +
  assumes unpack_never_aborts: "never_aborts unpack"
begin

lemma unpack_from_total: "unpack_from unpack buf \<noteq> None"
  using unpack_never_aborts by (auto simp: unpack_from_def never_aborts_def split: decoded.splits)

end

end
