(* ===== verification/Wire_Fields.thy ===== *)
theory Wire_Fields
  imports Wire
begin

text \<open>
  The packed types that live in \<open>src/wire.rs\<close> itself: scalars, the identity newtypes, operation
  identities, ballots, the message tag table and the header. Each is shown to fulfil \<open>codec\<close>
  on its own definitions; the later codecs of operations, entries and messages build on these.
\<close>

section \<open>Scalars\<close>

definition packed_len_u8 :: "u8 \<Rightarrow> nat option" where "packed_len_u8 x = Some 1"
definition packed_len_u32 :: "u32 \<Rightarrow> nat option" where "packed_len_u32 x = Some 4"
definition packed_len_u64 :: "u64 \<Rightarrow> nat option" where "packed_len_u64 x = Some 8"
definition packed_len_bool :: "bool \<Rightarrow> nat option" where "packed_len_bool x = Some 1"

lemma get_word_iff:
  assumes "cursor_ok c" "LENGTH('a::len) = 8 * n" "n < 2 ^ 63"
  shows "dbind (get_slice n) (\<lambda>bs. dreturn (from_be_bytes bs :: 'a word)) c = Decoded x c' \<longleftrightarrow>
    reads c (to_be_bytes n x) c'"
  using be_word_iff [OF assms(2), of _ x] get_slice_Decoded [OF assms(1,3)]
  unfolding decode_simps by metis

interpretation u8_codec: total_codec put_u8 packed_len_u8 get_u8 "to_be_bytes 1" "\<lambda>_. True"
proof
  fix x :: u8 and w
  show "put_u8 x w = put (to_be_bytes 1 x) w"
    by (simp add: put_u8_def to_be_bytes_def)
qed (simp_all add: packed_len_u8_def get_u8_def get_word_iff never_aborts_intros)

interpretation u32_codec: total_codec put_u32 packed_len_u32 get_u32 "to_be_bytes 4" "\<lambda>_. True"
  by standard (simp_all add: put_u32_def packed_len_u32_def get_u32_def get_word_iff
    never_aborts_intros)

interpretation u64_codec: total_codec put_u64 packed_len_u64 get_u64 "to_be_bytes 8" "\<lambda>_. True"
  by standard (simp_all add: put_u64_def packed_len_u64_def get_u64_def get_word_iff
    never_aborts_intros)

definition enc_bool :: "bool \<Rightarrow> u8 list" where
  "enc_bool b = [if b then 1 else 0]"

lemma enc_u8 [simp]: "to_be_bytes (Suc 0) (b :: u8) = [b]"
  by (simp add: to_be_bytes_def)

interpretation bool_codec: total_codec put_bool packed_len_bool get_bool enc_bool "\<lambda>_. True"
proof
  fix x :: bool and c c' and w
  show "put_bool x w = put (enc_bool x) w"
    by (simp add: put_bool_def put_u8_def enc_bool_def)
  show "cursor_ok c \<Longrightarrow> get_bool c = Decoded x c' \<longleftrightarrow> True \<and> reads c (enc_bool x) c'"
    by (cases x) (auto simp: get_bool_def decode_simps u8_codec.unpack_iff enc_bool_def
        split: if_splits intro!: exI [of _ 0])
qed (auto simp: packed_len_bool_def enc_bool_def get_bool_def intro!: never_aborts_intros
    u8_codec.unpack_never_aborts)

text \<open>The opaque field: a \<open>u32\<close> length prefix, then the bytes as they are.\<close>

definition enc_opaque :: "u8 list \<Rightarrow> u8 list" where
  "enc_opaque bs = to_be_bytes 4 (of_nat (length bs) :: u32) @ bs"

definition framable :: "'a list \<Rightarrow> bool" where
  "framable xs \<longleftrightarrow> length xs < 2 ^ 32"

lemma len_u32_Some: "framable xs \<Longrightarrow> len_u32 xs = Some (of_nat (length xs))"
  by (simp add: len_u32_def framable_def)

lemma unat_len_u32: "framable xs \<Longrightarrow> unat (of_nat (length xs) :: u32) = length xs"
  by (simp add: framable_def unat_of_nat)

lemma len_prefix_iff:
  "(\<exists>n::u32. length xs = unat n \<and> P n) \<longleftrightarrow> framable xs \<and> P (of_nat (length xs))"
proof -
  have "length xs = unat n \<longleftrightarrow> framable xs \<and> n = of_nat (length xs)" for n :: u32
  proof
    assume eq: "length xs = unat n"
    have "unat n < 2 ^ 32" using unsigned_less [of n, where ?'a = nat] by simp
    with eq show "framable xs \<and> n = of_nat (length xs)" by (simp add: framable_def)
  next
    assume "framable xs \<and> n = of_nat (length xs)"
    then have fr: "framable xs" and n: "n = of_nat (length xs)" by auto
    show "length xs = unat n" unfolding n unat_len_u32 [OF fr] ..
  qed
  then have "(\<exists>n::u32. length xs = unat n \<and> P n) \<longleftrightarrow>
      (\<exists>n::u32. (framable xs \<and> n = of_nat (length xs)) \<and> P n)"
    by (simp only:)
  also have "\<dots> \<longleftrightarrow> framable xs \<and> P (of_nat (length xs))"
    by auto
  finally show ?thesis .
qed

interpretation opaque_codec: total_codec put_opaque opaque_packed_len get_opaque enc_opaque framable
proof
  fix x :: "u8 list" and c c' and w
  show "writer_ok w \<Longrightarrow> framable x \<Longrightarrow> put_opaque x w = put (enc_opaque x) w"
    by (simp add: put_opaque_def len_u32_Some enc_opaque_def put_u32_def put_put)
  show "framable x \<Longrightarrow> opaque_packed_len x = Some (length (enc_opaque x))"
    by (simp add: opaque_packed_len_def opaque_packed_len_checked_def framable_def enc_opaque_def
        usize_checked_add_def)
  assume ok: "cursor_ok c"
  have small: "unat (n :: u32) < 2 ^ 63" for n
    using unsigned_less [of n, where ?'a = nat] by simp
  have slice: "get_slice (unat n) c1 = Decoded x c' \<longleftrightarrow> length x = unat n \<and> reads c1 x c'"
    if "reads c bs c1" for n :: u32 and bs c1
    by (rule get_slice_Decoded [OF reads_ok [OF ok that] small])
  have "get_opaque c = Decoded x c' \<longleftrightarrow>
    (\<exists>n c1. reads c (to_be_bytes 4 (n :: u32)) c1 \<and> get_slice (unat n) c1 = Decoded x c')"
    by (simp add: get_opaque_def decode_simps u32_codec.unpack_iff [OF ok])
  also have "\<dots> \<longleftrightarrow> (\<exists>n :: u32. length x = unat n \<and> reads c (to_be_bytes 4 n @ x) c')"
    using slice unfolding reads_append by blast
  also have "\<dots> \<longleftrightarrow> framable x \<and> reads c (enc_opaque x) c'"
    by (simp add: len_prefix_iff enc_opaque_def)
  finally show "get_opaque c = Decoded x c' \<longleftrightarrow> framable x \<and> reads c (enc_opaque x) c'" .
qed (auto simp: get_opaque_def intro!: never_aborts_intros u32_codec.unpack_never_aborts)


section \<open>Identities and ballots\<close>

definition pack_operation_id :: "operation_id \<Rightarrow> writer \<Rightarrow> writer option" where
  "pack_operation_id i w = do { w \<leftarrow> put_u64 (msb i) w; put_u64 (lsb i) w }"

definition packed_len_operation_id :: "operation_id \<Rightarrow> nat option" where
  "packed_len_operation_id i = do {
     a \<leftarrow> packed_len_u64 (msb i); b \<leftarrow> packed_len_u64 (lsb i); Some (a + b) }"

definition unpack_operation_id :: "operation_id decoder" where
  "unpack_operation_id =
     dbind get_u64 (\<lambda>m. dbind get_u64 (\<lambda>l. dreturn \<lparr>msb = m, lsb = l\<rparr>))"

definition enc_operation_id :: "operation_id \<Rightarrow> u8 list" where
  "enc_operation_id i = to_be_bytes 8 (msb i) @ to_be_bytes 8 (lsb i)"

interpretation operation_id_codec:
  total_codec pack_operation_id packed_len_operation_id unpack_operation_id enc_operation_id "\<lambda>_. True"
proof
  fix x :: operation_id and c c' and w
  show "writer_ok w \<Longrightarrow> pack_operation_id x w = put (enc_operation_id x) w"
    by (simp add: pack_operation_id_def enc_operation_id_def u64_codec.pack_enc put_bind)
  show "cursor_ok c \<Longrightarrow> unpack_operation_id c = Decoded x c' \<longleftrightarrow> True \<and> reads c (enc_operation_id x) c'"
    by (cases x) (auto simp: unpack_operation_id_def decode_simps u64_codec.unpack_iff reads_ok
        enc_operation_id_def reads_append)
qed (auto simp: packed_len_operation_id_def packed_len_u64_def enc_operation_id_def
    unpack_operation_id_def intro!: never_aborts_intros u64_codec.unpack_never_aborts)


definition pack_ballot :: "ballot \<Rightarrow> writer \<Rightarrow> writer option" where
  "pack_ballot b w = do { w \<leftarrow> put_u32 (b_era b) w; put_u32 (b_view b) w }"

definition packed_len_ballot :: "ballot \<Rightarrow> nat option" where
  "packed_len_ballot b = do {
     e \<leftarrow> packed_len_u32 (b_era b); v \<leftarrow> packed_len_u32 (b_view b); Some (e + v) }"

definition unpack_ballot :: "ballot decoder" where
  "unpack_ballot = dbind get_u32 (\<lambda>e. dbind get_u32 (\<lambda>v. dreturn (Ballot e v)))"

definition enc_ballot :: "ballot \<Rightarrow> u8 list" where
  "enc_ballot b = to_be_bytes 4 (b_era b) @ to_be_bytes 4 (b_view b)"

interpretation ballot_codec:
  total_codec pack_ballot packed_len_ballot unpack_ballot enc_ballot "\<lambda>_. True"
proof
  fix x :: ballot and c c' and w
  show "writer_ok w \<Longrightarrow> pack_ballot x w = put (enc_ballot x) w"
    by (simp add: pack_ballot_def enc_ballot_def u32_codec.pack_enc put_bind)
  show "cursor_ok c \<Longrightarrow> unpack_ballot c = Decoded x c' \<longleftrightarrow> True \<and> reads c (enc_ballot x) c'"
    by (cases x) (auto simp: unpack_ballot_def decode_simps u32_codec.unpack_iff reads_ok
        enc_ballot_def reads_append)
qed (auto simp: packed_len_ballot_def packed_len_u32_def enc_ballot_def
    unpack_ballot_def intro!: never_aborts_intros u32_codec.unpack_never_aborts)


section \<open>Tags\<close>

datatype tag =
    Tag_Prepare
  | Tag_PrepareOk
  | Tag_Commit
  | Tag_StartViewChange
  | Tag_DoViewChange
  | Tag_StartView
  | Tag_PlannedViewChange
  | Tag_GetState
  | Tag_NewState
  | Tag_Reincarnation
  | Tag_Fuse
  | Tag_FuseOk
  | Tag_CommitBatch
  | Tag_GossipRequest

fun tag_name :: "tag \<Rightarrow> string" where
  "tag_name Tag_Prepare = ''prepare''"
| "tag_name Tag_PrepareOk = ''prepare_ok''"
| "tag_name Tag_Commit = ''commit''"
| "tag_name Tag_StartViewChange = ''start_view_change''"
| "tag_name Tag_DoViewChange = ''do_view_change''"
| "tag_name Tag_StartView = ''start_view''"
| "tag_name Tag_PlannedViewChange = ''planned_view_change''"
| "tag_name Tag_GetState = ''get_state''"
| "tag_name Tag_NewState = ''new_state''"
| "tag_name Tag_Reincarnation = ''reincarnation''"
| "tag_name Tag_Fuse = ''fuse''"
| "tag_name Tag_FuseOk = ''fuse_ok''"
| "tag_name Tag_CommitBatch = ''commit_batch''"
| "tag_name Tag_GossipRequest = ''gossip_request''"

fun tag_as_u32 :: "tag \<Rightarrow> u32" where
  "tag_as_u32 Tag_Prepare = 2"
| "tag_as_u32 Tag_PrepareOk = 3"
| "tag_as_u32 Tag_Commit = 4"
| "tag_as_u32 Tag_StartViewChange = 5"
| "tag_as_u32 Tag_DoViewChange = 6"
| "tag_as_u32 Tag_StartView = 7"
| "tag_as_u32 Tag_PlannedViewChange = 8"
| "tag_as_u32 Tag_GetState = 9"
| "tag_as_u32 Tag_NewState = 10"
| "tag_as_u32 Tag_Reincarnation = 13"
| "tag_as_u32 Tag_Fuse = 14"
| "tag_as_u32 Tag_FuseOk = 15"
| "tag_as_u32 Tag_CommitBatch = 16"
| "tag_as_u32 Tag_GossipRequest = 17"

definition tag_from_u32 :: "u32 \<Rightarrow> tag option" where
  "tag_from_u32 value =
     (if value = 2 then Some Tag_Prepare
      else if value = 3 then Some Tag_PrepareOk
      else if value = 4 then Some Tag_Commit
      else if value = 5 then Some Tag_StartViewChange
      else if value = 6 then Some Tag_DoViewChange
      else if value = 7 then Some Tag_StartView
      else if value = 8 then Some Tag_PlannedViewChange
      else if value = 9 then Some Tag_GetState
      else if value = 10 then Some Tag_NewState
      else if value = 13 then Some Tag_Reincarnation
      else if value = 14 then Some Tag_Fuse
      else if value = 15 then Some Tag_FuseOk
      else if value = 16 then Some Tag_CommitBatch
      else if value = 17 then Some Tag_GossipRequest
      else None)"

lemma tag_from_u32_iff: "tag_from_u32 v = Some t \<longleftrightarrow> v = tag_as_u32 t"
  by (cases t) (auto simp: tag_from_u32_def)

lemma tag_name_inject: "tag_name t = tag_name u \<longleftrightarrow> t = u"
  by (cases t; cases u) simp_all

definition pack_tag :: "tag \<Rightarrow> writer \<Rightarrow> writer option" where
  "pack_tag t = put_u32 (tag_as_u32 t)"

definition packed_len_tag :: "tag \<Rightarrow> nat option" where
  "packed_len_tag t = Some 4"

definition unpack_tag :: "tag decoder" where
  "unpack_tag = dbind get_u32 (\<lambda>raw.
     case tag_from_u32 raw of
       Some t \<Rightarrow> dreturn t
     | None \<Rightarrow> drefuse (Malformed (UnknownTag raw)))"

definition enc_tag :: "tag \<Rightarrow> u8 list" where
  "enc_tag t = to_be_bytes 4 (tag_as_u32 t)"

lemma unpack_tag_iff:
  "cursor_ok c \<Longrightarrow> unpack_tag c = Decoded x c' \<longleftrightarrow> reads c (enc_tag x) c'"
proof -
  assume "cursor_ok c"
  have "unpack_tag c = Decoded x c' \<longleftrightarrow>
      (\<exists>raw. reads c (to_be_bytes 4 raw) c' \<and> tag_from_u32 raw = Some x)"
    by (auto simp: unpack_tag_def decode_simps u32_codec.unpack_iff [OF \<open>cursor_ok c\<close>]
        split: option.splits)
  then show ?thesis by (auto simp: tag_from_u32_iff enc_tag_def)
qed

interpretation tag_codec: total_codec pack_tag packed_len_tag unpack_tag enc_tag "\<lambda>_. True"
proof
  show "never_aborts unpack_tag"
    by (auto simp: unpack_tag_def intro!: never_aborts_intros u32_codec.unpack_never_aborts
        split: option.split)
qed (simp_all add: pack_tag_def u32_codec.pack_enc enc_tag_def packed_len_tag_def
    unpack_tag_iff)


section \<open>The header\<close>

record header =
  h_tag :: tag
  h_view :: ballot
  h_slot :: slot

definition HEADER_LEN :: nat where
  "HEADER_LEN = 20"

definition pack_header :: "header \<Rightarrow> writer \<Rightarrow> writer option" where
  "pack_header h w = do {
     w \<leftarrow> pack_tag (h_tag h) w;
     w \<leftarrow> pack_ballot (h_view h) w;
     put_u64 (h_slot h) w }"

definition packed_len_header :: "header \<Rightarrow> nat option" where
  "packed_len_header h = do {
     t \<leftarrow> packed_len_tag (h_tag h);
     v \<leftarrow> packed_len_ballot (h_view h);
     s \<leftarrow> packed_len_u64 (h_slot h);
     Some (t + v + s) }"

definition unpack_header :: "header decoder" where
  "unpack_header =
     dbind unpack_tag (\<lambda>t. dbind unpack_ballot (\<lambda>v. dbind get_u64 (\<lambda>s.
       dreturn \<lparr>h_tag = t, h_view = v, h_slot = s\<rparr>)))"

definition enc_header :: "header \<Rightarrow> u8 list" where
  "enc_header h = enc_tag (h_tag h) @ enc_ballot (h_view h) @ to_be_bytes 8 (h_slot h)"

lemma length_enc_header [simp]: "length (enc_header h) = HEADER_LEN"
  by (simp add: enc_header_def enc_tag_def enc_ballot_def HEADER_LEN_def)

interpretation header_codec:
  total_codec pack_header packed_len_header unpack_header enc_header "\<lambda>_. True"
proof
  fix x :: header and c c' and w
  show "writer_ok w \<Longrightarrow> pack_header x w = put (enc_header x) w"
    by (simp add: pack_header_def enc_header_def tag_codec.pack_enc ballot_codec.pack_enc
        u64_codec.pack_enc put_bind)
  show "cursor_ok c \<Longrightarrow> unpack_header c = Decoded x c' \<longleftrightarrow> True \<and> reads c (enc_header x) c'"
    by (cases x) (simp add: unpack_header_def tag_codec.dbind_unpack ballot_codec.dbind_unpack
        u64_codec.dbind_unpack enc_header_def reads_append dreturn_Decoded cong: conj_cong;
        blast intro: reads_ok)
qed (auto simp: packed_len_header_def tag_codec.len_enc ballot_codec.len_enc u64_codec.len_enc
    enc_header_def unpack_header_def
    intro!: never_aborts_intros tag_codec.unpack_never_aborts ballot_codec.unpack_never_aborts
      u64_codec.unpack_never_aborts)

end
