(* ===== verification/Sysop_Codec.thy ===== *)
theory Sysop_Codec
  imports Configuration Wire_Fields
begin

text \<open>
  The codec of system operations (\<open>src/configuration.rs\<close>, \<open>impl Pack\<close> and \<open>impl Unpack
  for SystemOperation\<close>). The decoder of a batch calls itself for every sub-operation, one stack
  frame per level of nesting, and bounds neither; \<open>unpack_sysop d\<close> is the decoder on a stack with
  room for \<open>d\<close> frames, and \<open>Aborted\<close> is the overflow that kills the process.
\<close>

section \<open>The codec\<close>

fun discriminant :: "sysop \<Rightarrow> u8" where
  "discriminant Void = 1"
| "discriminant (Init order) = 2"
| "discriminant (Increment n) = 3"
| "discriminant (Decrement n) = 4"
| "discriminant Double = 5"
| "discriminant Halve = 6"
| "discriminant (Join n pos) = 7"
| "discriminant (Leave n) = 8"
| "discriminant (Batch ops) = 9"
| "discriminant (Nominate from offset) = 10"

fun sysop_len :: "sysop \<Rightarrow> nat" where
  "sysop_len Void = 1"
| "sysop_len Double = 1"
| "sysop_len Halve = 1"
| "sysop_len (Init order) = 1 + 4 + 4 * length order"
| "sysop_len (Increment n) = 1 + 4"
| "sysop_len (Decrement n) = 1 + 4"
| "sysop_len (Join n pos) = 1 + 4 + 4"
| "sysop_len (Leave n) = 1 + 4"
| "sysop_len (Nominate from offset) = 1 + 4 + 4"
| "sysop_len (Batch ops) = 1 + 4 + sum_list (map sysop_len ops)"

definition packed_len_sysop :: "sysop \<Rightarrow> nat option" where
  "packed_len_sysop op = Some (sysop_len op)"

lemma pack_items_cong [fundef_cong]:
  "xs = ys \<Longrightarrow> w = w' \<Longrightarrow> (\<And>x w. x \<in> set ys \<Longrightarrow> f x w = g x w) \<Longrightarrow> pack_items f xs w = pack_items g ys w'"
proof (induction ys arbitrary: xs w w')
  case (Cons y ys)
  then show ?case by (auto intro!: Option.bind_cong)
qed simp

fun pack_sysop :: "sysop \<Rightarrow> writer \<Rightarrow> writer option" where
  "pack_sysop (Init order) w = do {
     w \<leftarrow> put_u8 (discriminant (Init order)) w;
     count \<leftarrow> len_u32 order;
     w \<leftarrow> put_u32 count w;
     pack_items put_u32 order w }"
| "pack_sysop (Increment n) w = do { w \<leftarrow> put_u8 (discriminant (Increment n)) w; put_u32 n w }"
| "pack_sysop (Decrement n) w = do { w \<leftarrow> put_u8 (discriminant (Decrement n)) w; put_u32 n w }"
| "pack_sysop (Leave n) w = do { w \<leftarrow> put_u8 (discriminant (Leave n)) w; put_u32 n w }"
| "pack_sysop (Join n pos) w = do {
     w \<leftarrow> put_u8 (discriminant (Join n pos)) w;
     w \<leftarrow> put_u32 n w;
     put_u32 pos w }"
| "pack_sysop (Nominate from offset) w = do {
     w \<leftarrow> put_u8 (discriminant (Nominate from offset)) w;
     w \<leftarrow> put_u32 from w;
     put_u32 offset w }"
| "pack_sysop (Batch ops) w = do {
     w \<leftarrow> put_u8 (discriminant (Batch ops)) w;
     count \<leftarrow> len_u32 ops;
     w \<leftarrow> put_u32 count w;
     pack_items pack_sysop ops w }"
| "pack_sysop op w = put_u8 (discriminant op) w"

fun unpack_sysop :: "nat \<Rightarrow> sysop decoder" where
  "unpack_sysop 0 = (\<lambda>c. Aborted)"
| "unpack_sysop (Suc d) = dbind get_u8 (\<lambda>b.
     if b = 1 then dreturn Void
     else if b = 2 then
       dbind get_u32 (\<lambda>count. dbind (unpack_items get_u32 (unat count)) (\<lambda>order. dreturn (Init order)))
     else if b = 3 then dbind get_u32 (\<lambda>n. dreturn (Increment n))
     else if b = 4 then dbind get_u32 (\<lambda>n. dreturn (Decrement n))
     else if b = 5 then dreturn Double
     else if b = 6 then dreturn Halve
     else if b = 7 then dbind get_u32 (\<lambda>n. dbind get_u32 (\<lambda>pos. dreturn (Join n pos)))
     else if b = 8 then dbind get_u32 (\<lambda>n. dreturn (Leave n))
     else if b = 10 then dbind get_u32 (\<lambda>from. dbind get_u32 (\<lambda>offset. dreturn (Nominate from offset)))
     else if b = 9 then
       dbind get_u32 (\<lambda>count. dbind (unpack_items (unpack_sysop d) (unat count)) (\<lambda>ops. dreturn (Batch ops)))
     else drefuse (Malformed OutOfDomain))"


section \<open>The canonical bytes\<close>

fun enc_sysop :: "sysop \<Rightarrow> u8 list" where
  "enc_sysop (Init order) =
     discriminant (Init order) # to_be_bytes 4 (of_nat (length order) :: u32)
       @ concat (map (to_be_bytes 4) order)"
| "enc_sysop (Increment n) = discriminant (Increment n) # to_be_bytes 4 n"
| "enc_sysop (Decrement n) = discriminant (Decrement n) # to_be_bytes 4 n"
| "enc_sysop (Leave n) = discriminant (Leave n) # to_be_bytes 4 n"
| "enc_sysop (Join n pos) = discriminant (Join n pos) # to_be_bytes 4 n @ to_be_bytes 4 pos"
| "enc_sysop (Nominate from offset) =
     discriminant (Nominate from offset) # to_be_bytes 4 from @ to_be_bytes 4 offset"
| "enc_sysop (Batch ops) =
     discriminant (Batch ops) # to_be_bytes 4 (of_nat (length ops) :: u32) @ concat (map enc_sysop ops)"
| "enc_sysop op = [discriminant op]"

text \<open>The operations a stack of \<open>d\<close> frames decodes: nested at most \<open>d\<close> deep, with counts that fit
  their prefix.\<close>

fun sysop_valid :: "nat \<Rightarrow> sysop \<Rightarrow> bool" where
  "sysop_valid 0 op \<longleftrightarrow> False"
| "sysop_valid (Suc d) (Init order) \<longleftrightarrow> framable order"
| "sysop_valid (Suc d) (Batch ops) \<longleftrightarrow> framable ops \<and> list_all (sysop_valid d) ops"
| "sysop_valid (Suc d) op \<longleftrightarrow> True"

lemma sysop_valid_mono: "sysop_valid d op \<Longrightarrow> d \<le> e \<Longrightarrow> sysop_valid e op"
proof (induction d op arbitrary: e rule: sysop_valid.induct)
  case (3 d ops)
  then show ?case by (cases e) (auto simp: list_all_iff)
qed (auto elim: sysop_valid.elims dest: Suc_le_D)

lemma length_concat_ids [simp]: "length (concat (map (to_be_bytes 4) ns)) = 4 * length ns"
  by (induction ns) simp_all

lemma length_enc_sysop: "length (enc_sysop op) = sysop_len op"
  by (induction op rule: enc_sysop.induct) (simp_all add: length_concat comp_def sum_list_triv cong: map_cong)


section \<open>The codec laws\<close>

lemma put_u8_bind:
  "writer_ok w \<Longrightarrow> (\<And>w'. writer_ok w' \<Longrightarrow> f w' = put b w') \<Longrightarrow> Option.bind (put [x] w) f = put (x # b) w"
  using put_bind [of w f b "[x]"] by simp

lemma put_u32_bind:
  "writer_ok w \<Longrightarrow> (\<And>w'. writer_ok w' \<Longrightarrow> f w' = put b w') \<Longrightarrow>
   Option.bind (put_u32 x w) f = put (to_be_bytes 4 x @ b) w"
  using put_bind [of w f b "to_be_bytes 4 x"] by (simp add: put_u32_def)

lemma pack_sysop_enc: "sysop_valid d op \<Longrightarrow> writer_ok w \<Longrightarrow> pack_sysop op w = put (enc_sysop op) w"
proof (induction d op arbitrary: w rule: sysop_valid.induct)
  case (2 d order)
  then show ?case
    by (simp add: len_u32_Some put_u8_def)
       (intro put_u8_bind put_u32_bind; simp add: u32_codec.pack_items_enc list_all_iff)
next
  case (3 d ops)
  have items: "writer_ok w' \<Longrightarrow> pack_items pack_sysop xs w' = put (concat (map enc_sysop xs)) w'"
    if "set xs \<subseteq> set ops" for xs w'
    using that
  proof (induction xs arbitrary: w')
    case (Cons x xs)
    have "pack_sysop x w' = put (enc_sysop x) w'"
      using 3 Cons.prems by (auto simp: list_all_iff)
    then show ?case
      using Cons by (auto intro!: put_bind)
  qed simp
  from 3 show ?case
    by (simp add: len_u32_Some put_u8_def) (intro put_u8_bind put_u32_bind; simp add: items)
qed (auto intro!: put_u8_bind put_u32_bind simp: u32_codec.pack_enc put_u8_def)

lemma reads_Cons: "reads c (b # bs) c'' \<longleftrightarrow> (\<exists>c'. reads c [b] c' \<and> reads c' bs c'')"
  using reads_append [of c "[b]" bs c''] by simp

lemma unpack_ids_iff:
  assumes "cursor_ok c"
  shows "(\<exists>count c1. reads c (to_be_bytes 4 (count :: u32)) c1 \<and> unpack_items get_u32 (unat count) c1 = Decoded order c')
    \<longleftrightarrow> framable order \<and> reads c (to_be_bytes 4 (of_nat (length order) :: u32) @ concat (map (to_be_bytes 4) order)) c'"
proof -
  have "(\<exists>count c1. reads c (to_be_bytes 4 (count :: u32)) c1 \<and> unpack_items get_u32 (unat count) c1 = Decoded order c')
    \<longleftrightarrow> (\<exists>count :: u32. length order = unat count \<and>
          reads c (to_be_bytes 4 count @ concat (map (to_be_bytes 4) order)) c')"
    using u32_codec.unpack_items_iff reads_ok [OF assms] unfolding reads_append
    by (simp add: list_all_iff) blast
  then show ?thesis by (simp only: len_prefix_iff)
qed


definition enc_fields :: "sysop \<Rightarrow> u8 list" where
  "enc_fields op = tl (enc_sysop op)"

lemma enc_sysop_split: "enc_sysop op = discriminant op # enc_fields op"
  by (cases op) (simp_all add: enc_fields_def)

definition sysop_arm :: "sysop decoder \<Rightarrow> u8 \<Rightarrow> sysop decoder" where
  "sysop_arm sub b =
    (if b = 1 then dreturn Void
     else if b = 2 then
       dbind get_u32 (\<lambda>count. dbind (unpack_items get_u32 (unat count)) (\<lambda>order. dreturn (Init order)))
     else if b = 3 then dbind get_u32 (\<lambda>n. dreturn (Increment n))
     else if b = 4 then dbind get_u32 (\<lambda>n. dreturn (Decrement n))
     else if b = 5 then dreturn Double
     else if b = 6 then dreturn Halve
     else if b = 7 then dbind get_u32 (\<lambda>n. dbind get_u32 (\<lambda>pos. dreturn (Join n pos)))
     else if b = 8 then dbind get_u32 (\<lambda>n. dreturn (Leave n))
     else if b = 10 then dbind get_u32 (\<lambda>from. dbind get_u32 (\<lambda>offset. dreturn (Nominate from offset)))
     else if b = 9 then
       dbind get_u32 (\<lambda>count. dbind (unpack_items sub (unat count)) (\<lambda>ops. dreturn (Batch ops)))
     else drefuse (Malformed OutOfDomain))"

lemma unpack_sysop_Suc: "unpack_sysop (Suc d) = dbind get_u8 (sysop_arm (unpack_sysop d))"
  by (simp add: sysop_arm_def [abs_def])

lemma sysop_arm_iff:
  assumes ok: "cursor_ok c"
    and sub: "codec pack_sysop packed_len_sysop (unpack_sysop d) enc_sysop (sysop_valid d)"
  shows "sysop_arm (unpack_sysop d) b c = Decoded x c' \<longleftrightarrow>
         b = discriminant x \<and> sysop_valid (Suc d) x \<and> reads c (enc_fields x) c'"
proof -
  have ops: "(\<exists>count c1. reads c (to_be_bytes 4 (count :: u32)) c1 \<and>
                 unpack_items (unpack_sysop d) (unat count) c1 = Decoded ops c')
    \<longleftrightarrow> framable ops \<and> list_all (sysop_valid d) ops \<and>
        reads c (to_be_bytes 4 (of_nat (length ops) :: u32) @ concat (map enc_sysop ops)) c'" for ops
  proof -
    have "(\<exists>count c1. reads c (to_be_bytes 4 (count :: u32)) c1 \<and>
               unpack_items (unpack_sysop d) (unat count) c1 = Decoded ops c')
      \<longleftrightarrow> (\<exists>count :: u32. length ops = unat count \<and> list_all (sysop_valid d) ops \<and>
            reads c (to_be_bytes 4 count @ concat (map enc_sysop ops)) c')"
      using codec.unpack_items_iff [OF sub] reads_ok [OF ok] unfolding reads_append by blast
    then show ?thesis by (simp only: len_prefix_iff)
  qed
  note [simp] = enc_fields_def decode_simps u32_codec.unpack_iff [OF ok]
  consider "b = 1" | "b = 2" | "b = 3" | "b = 4" | "b = 5" | "b = 6" | "b = 7" | "b = 8" | "b = 9"
    | "b = 10" | "b \<notin> {1, 2, 3, 4, 5, 6, 7, 8, 9, 10}" by blast
  then show ?thesis
  proof cases
    assume b: "b = 2"
    have "sysop_arm (unpack_sysop d) 2 c = Decoded x c' \<longleftrightarrow> (\<exists>order. x = Init order \<and>
       (\<exists>count c1. reads c (to_be_bytes 4 (count :: u32)) c1 \<and> unpack_items get_u32 (unat count) c1 = Decoded order c'))"
      by (simp add: sysop_arm_def) blast
    then show ?thesis
      unfolding b unpack_ids_iff [OF ok] by (cases x) simp_all
  next
    assume b: "b = 7"
    have "sysop_arm (unpack_sysop d) 7 c = Decoded x c' \<longleftrightarrow>
        (\<exists>n pos. x = Join n pos \<and> reads c (to_be_bytes 4 n @ to_be_bytes 4 pos) c')"
      using u32_codec.unpack_iff reads_ok [OF ok] by (simp add: sysop_arm_def reads_append) blast
    then show ?thesis unfolding b by (cases x) simp_all
  next
    assume b: "b = 10"
    have "sysop_arm (unpack_sysop d) 10 c = Decoded x c' \<longleftrightarrow>
        (\<exists>n pos. x = Nominate n pos \<and> reads c (to_be_bytes 4 n @ to_be_bytes 4 pos) c')"
      using u32_codec.unpack_iff reads_ok [OF ok] by (simp add: sysop_arm_def reads_append) blast
    then show ?thesis unfolding b by (cases x) simp_all
  next
    assume b: "b = 9"
    have "sysop_arm (unpack_sysop d) 9 c = Decoded x c' \<longleftrightarrow> (\<exists>ops. x = Batch ops \<and>
       (\<exists>count c1. reads c (to_be_bytes 4 (count :: u32)) c1 \<and>
          unpack_items (unpack_sysop d) (unat count) c1 = Decoded ops c'))"
      by (simp add: sysop_arm_def) blast
    then show ?thesis
      unfolding b ops by (cases x) simp_all
  qed (cases x; auto simp: sysop_arm_def)+
qed

lemma sysop_codec_laws: "codec pack_sysop packed_len_sysop (unpack_sysop d) enc_sysop (sysop_valid d)"
proof (induction d)
  case 0
  show ?case by standard (simp_all add: packed_len_sysop_def)
next
  case (Suc d)
  show ?case
  proof
    fix x c c' w
    show "writer_ok w \<Longrightarrow> sysop_valid (Suc d) x \<Longrightarrow> pack_sysop x w = put (enc_sysop x) w"
      by (rule pack_sysop_enc)
    show "sysop_valid (Suc d) x \<Longrightarrow> packed_len_sysop x = Some (length (enc_sysop x))"
      by (simp add: packed_len_sysop_def length_enc_sysop)
    assume ok: "cursor_ok c"
    have "unpack_sysop (Suc d) c = Decoded x c' \<longleftrightarrow>
        (\<exists>b c1. reads c [b] c1 \<and> sysop_arm (unpack_sysop d) b c1 = Decoded x c')"
      by (simp add: unpack_sysop_Suc dbind_Decoded u8_codec.unpack_iff [OF ok] del: unpack_sysop.simps)
    also have "\<dots> \<longleftrightarrow> (\<exists>b c1. reads c [b] c1 \<and> b = discriminant x \<and> sysop_valid (Suc d) x
                           \<and> reads c1 (enc_fields x) c')"
      by (intro ex_cong1 conj_cong refl sysop_arm_iff Suc.IH reads_ok [OF ok])
    also have "\<dots> \<longleftrightarrow> sysop_valid (Suc d) x \<and> reads c (enc_sysop x) c'"
      unfolding enc_sysop_split [of x] reads_Cons [of c "discriminant x" "enc_fields x"] by blast
    finally show "unpack_sysop (Suc d) c = Decoded x c' \<longleftrightarrow> sysop_valid (Suc d) x \<and> reads c (enc_sysop x) c'" .
  qed
qed

interpretation sysop_codec: codec pack_sysop packed_len_sysop "unpack_sysop d" enc_sysop "sysop_valid d" for d
  by (rule sysop_codec_laws)


section \<open>The stack the decoder needs\<close>

text \<open>Every level of nesting costs five bytes of input, so a stack deeper than a fifth of the input
  never overflows; and an input of that many levels does overflow.\<close>

lemma dbind_Aborted:
  "dbind m f c = Aborted \<longleftrightarrow> m c = Aborted \<or> (\<exists>a c'. m c = Decoded a c' \<and> f a c' = Aborted)"
  by (auto simp: dbind_def split: decoded.splits)

lemma unpack_items_Aborted:
  assumes "codec pack len unpack enc valid"
    and "cursor_ok c" "unpack_items unpack n c = Aborted"
  obtains c' where "cursor_ok c'" "remaining c' \<le> remaining c" "unpack c' = Aborted"
  using assms(2,3)
proof (induction n arbitrary: c thesis)
  case 0
  then show ?case by (simp add: dreturn_def)
next
  case (Suc n)
  from Suc.prems(3) consider "unpack c = Aborted"
    | x c1 where "unpack c = Decoded x c1" "unpack_items unpack n c1 = Aborted"
    by (auto simp: dbind_Aborted dreturn_def)
  then show ?case
  proof cases
    case 1
    then show ?thesis using Suc.prems by blast
  next
    case 2
    then have r: "reads c (enc x) c1" using codec.unpack_iff [OF assms(1) Suc.prems(2)] by blast
    show ?thesis
    proof (rule Suc.IH [OF _ reads_ok [OF Suc.prems(2) r] 2(2)])
      fix c' assume "cursor_ok c'" "remaining c' \<le> remaining c1" "unpack c' = Aborted"
      then show thesis using Suc.prems(1) remaining_reads [OF r] by simp
    qed
  qed
qed

lemma leaf_never_aborts:
  "sysop_arm sub b c = Aborted \<Longrightarrow>
   b = 9 \<and> (\<exists>count c1. get_u32 c = Decoded count c1 \<and> unpack_items sub (unat count) c1 = Aborted)"
proof -
  assume a: "sysop_arm sub b c = Aborted"
  have na: "never_aborts (sysop_arm sub b)" if "b \<noteq> 9"
    using that by (auto simp: sysop_arm_def intro!: never_aborts_intros u32_codec.unpack_never_aborts)
  then have "b = 9" using a by (auto simp: never_aborts_def)
  then show ?thesis
    using a u32_codec.unpack_never_aborts
    by (auto simp: sysop_arm_def dbind_Aborted dreturn_def never_aborts_def)
qed

lemma unpack_sysop_aborts_deep:
  "unpack_sysop d c = Aborted \<Longrightarrow> cursor_ok c \<Longrightarrow> 5 * d \<le> remaining c"
proof (induction d arbitrary: c)
  case (Suc d)
  from Suc.prems(1) obtain b c1 where b: "get_u8 c = Decoded b c1" "sysop_arm (unpack_sysop d) b c1 = Aborted"
    using u8_codec.unpack_never_aborts
    by (auto simp: unpack_sysop_Suc dbind_Aborted never_aborts_def simp del: unpack_sysop.simps)
  then have r1: "reads c [b] c1" using u8_codec.unpack_iff [OF Suc.prems(2)] by simp
  note ok1 = reads_ok [OF Suc.prems(2) r1]
  from leaf_never_aborts [OF b(2)] obtain count c2 where
    "get_u32 c1 = Decoded count c2" and ab: "unpack_items (unpack_sysop d) (unat count) c2 = Aborted"
    by blast
  then have r2: "reads c1 (to_be_bytes 4 count) c2" using u32_codec.unpack_iff [OF ok1] by simp
  obtain c3 where "cursor_ok c3" "remaining c3 \<le> remaining c2" "unpack_sysop d c3 = Aborted"
    using unpack_items_Aborted [OF sysop_codec_laws reads_ok [OF ok1 r2] ab] by blast
  then show ?case
    using Suc.IH [of c3] remaining_reads [OF r1] remaining_reads [OF r2] by simp
qed simp

fun nested_batches :: "nat \<Rightarrow> u8 list" where
  "nested_batches 0 = []"
| "nested_batches (Suc d) = [9, 0, 0, 0, 1] @ nested_batches d"

lemma length_nested_batches: "length (nested_batches d) = 5 * d"
  by (induction d) simp_all

text \<open>On a stack with more frames than a fifth of the input's bytes the decoder of system
  operations answers every input, and it accepts exactly the canonical bytes of an operation.\<close>

theorem sysop_decoding_total:
  assumes "length buf < 2 ^ 63" "length buf < 5 * d"
  shows "unpack_from (unpack_sysop d) buf \<noteq> None
       \<and> (\<forall>op. unpack_from (unpack_sysop d) buf = Some (Ok op) \<longleftrightarrow> sysop_valid d op \<and> buf = enc_sysop op)"
proof -
  have "unpack_sysop d (cursor_new buf) \<noteq> Aborted"
    using unpack_sysop_aborts_deep [of d "cursor_new buf"] assms
    by (auto simp: cursor_ok_def cursor_new_def remaining_def)
  then show ?thesis
    by (auto simp: sysop_codec.unpack_from_iff [OF assms(1)]) 
      (auto simp: unpack_from_def split: decoded.splits)
qed

theorem sysop_decoding_total_witness:
  "unpack_from (unpack_sysop (Suc (Suc 0))) (enc_sysop (Batch [Double])) \<noteq> None
   \<and> unpack_from (unpack_sysop (Suc (Suc 0))) (enc_sysop (Batch [Double])) = Some (Ok (Batch [Double]))"
  using sysop_decoding_total [of "enc_sysop (Batch [Double])" "Suc (Suc 0)"]
  by (simp add: framable_def del: unpack_sysop.simps)

lemma nested_batches_abort:
  "drop (c_at c) (c_buf c) = nested_batches d \<Longrightarrow> cursor_ok c \<Longrightarrow> unpack_sysop d c = Aborted"
proof (induction d arbitrary: c)
  case (Suc d)
  let ?c1 = "c\<lparr>c_at := c_at c + 1\<rparr>" and ?c2 = "c\<lparr>c_at := c_at c + 5\<rparr>"
  have one: "to_be_bytes 4 (1 :: u32) = [0, 0, 0, 1]"
    by (simp add: to_be_bytes_def)
  have r: "reads c [9] ?c1" "reads c ([9] @ [0, 0, 0, 1]) ?c2"
    using Suc.prems(1) by (simp_all add: reads_def)
  then have r2: "reads ?c1 (to_be_bytes 4 (1 :: u32)) ?c2"
    unfolding one reads_append by (auto simp: reads_def)
  note ok1 = reads_ok [OF Suc.prems(2) r(1)]
  have "drop (c_at ?c2) (c_buf ?c2) = drop 5 (drop (c_at c) (c_buf c))"
    by (simp add: add.commute)
  then have "unpack_sysop d ?c2 = Aborted"
    using Suc.prems reads_ok [OF ok1 r2] by (intro Suc.IH) simp_all
  then have "unpack_items (unpack_sysop d) (unat (1 :: u32)) ?c2 = Aborted"
    by (simp add: dbind_Aborted)
  moreover have "get_u32 ?c1 = Decoded 1 ?c2"
    using r2 u32_codec.unpack_iff [OF ok1] by simp
  ultimately have "sysop_arm (unpack_sysop d) 9 ?c1 = Aborted"
    by (simp add: sysop_arm_def dbind_Aborted)
  moreover have "get_u8 c = Decoded 9 ?c1"
    using r(1) u8_codec.unpack_iff [OF Suc.prems(2)] by simp
  ultimately show ?case
    by (simp add: unpack_sysop_Suc dbind_Aborted del: unpack_sysop.simps)
qed simp

text \<open>C30. A batch of one batch of one batch, and so on, costs five bytes a level and no bound of the
  decoder stops it: \<open>5 * d\<close> bytes exhaust a stack of any depth \<open>d\<close> and kill the process, instead of
  being refused as malformed.\<close>

theorem nested_batch_exhausts_any_stack:
  assumes "5 * d < 2 ^ 63"
  shows "length (nested_batches d) = 5 * d \<and> unpack_from (unpack_sysop d) (nested_batches d) = None"
  using nested_batches_abort [of "cursor_new (nested_batches d)" d] assms
  by (simp add: unpack_from_def length_nested_batches cursor_ok_def cursor_new_def)

theorem nested_batch_exhausts_any_stack_witness:
  "unpack_from (unpack_sysop 100000) (nested_batches 100000) = None"
  using nested_batch_exhausts_any_stack [of 100000] by simp

end
