(* ===== verification/Quorum.thy ===== *)
theory Quorum
  imports Config_Mass
begin

unbundle bit_operations_syntax

text \<open>
  The quorum gate (\<open>src/quorum.rs\<close>): roles, the strategy extension point, the exhaustive
  intersection check by subset masks, the era and transition gates, the pivot of a non-stop
  reconfiguration and the shipped weighted majority.

  A strategy is its predicate \<open>is_quorum\<close>; the contract its documentation imposes is the locale
  \<open>quorum_strategy\<close>. The outer \<open>None\<close> of \<open>find_disjoint_pair\<close> is the \<open>unreachable!\<close> after
  its loops. Masks are the source's \<open>u32\<close> values; every caller caps the universe at sixteen.
\<close>

section \<open>Roles and refusals\<close>

datatype role = Commit | ViewChange | Restart | Fence

type_synonym strategy = "role \<Rightarrow> configuration \<Rightarrow> node_id list \<Rightarrow> bool"

datatype r2_direction = Forward | Reverse

datatype quorum_error =
    R1Violation "node_id list" "node_id list"
  | R2Violation r2_direction "node_id list" "node_id list"
  | SelfIntersectionViolation role "node_id list" "node_id list"
  | FenceRestartViolation "node_id list" "node_id list"
  | GateCapExceeded nat

datatype pivot_error =
    PivotDuplicate node_id
  | IntersectionNotLeader
  | LeaderAbsent
  | QiNotLegal
  | QiiNotLegalCurrent
  | QiiNotLegalNext

record pivot =
  q_i :: "node_id list"
  q_ii :: "node_id list"


section \<open>Subset masks\<close>

definition members_of :: "node_id list \<Rightarrow> u32 \<Rightarrow> node_id list" where
  "members_of universe m =
     map fst (filter (\<lambda>(node, b). m AND push_bit b 1 \<noteq> 0) (zip universe [0 ..< length universe]))"

definition width_of :: "node_id list \<Rightarrow> nat" where
  "width_of universe = fold (\<lambda>_ count. count + 1) universe 0"

definition full_mask :: "nat \<Rightarrow> u32" where
  "full_mask n = push_bit n 1 - 1"

definition up_to :: "u32 \<Rightarrow> u32 list" where
  "up_to m = map of_nat [0 ..< Suc (unat m)]"

definition count_ones :: "u32 \<Rightarrow> nat" where
  "count_ones m = length (filter (bit m) [0 ..< 32])"

definition disjoint_quorums_exist ::
    "strategy \<Rightarrow> role \<times> configuration \<Rightarrow> role \<times> configuration \<Rightarrow> node_id list \<Rightarrow> bool" where
  "disjoint_quorums_exist is_quorum a b universe =
     (let n = width_of universe; full = full_mask n
      in list_ex (\<lambda>m. is_quorum (fst a) (snd a) (members_of universe m)
                    \<and> is_quorum (fst b) (snd b) (members_of universe (full XOR m))) (up_to full))"

definition find_disjoint_pair ::
    "strategy \<Rightarrow> role \<times> configuration \<Rightarrow> role \<times> configuration \<Rightarrow> node_id list \<Rightarrow>
     (node_id list \<times> node_id list) option option" where
  "find_disjoint_pair is_quorum a b universe =
     (if \<not> disjoint_quorums_exist is_quorum a b universe then Some None
      else (let n = width_of universe; full = full_mask n
            in case first_some (\<lambda>size. first_some (\<lambda>m.
                   if count_ones m \<noteq> size then None
                   else if \<not> is_quorum (fst a) (snd a) (members_of universe m) then None
                   else (let complement = full XOR m
                         in first_some (\<lambda>inner. first_some (\<lambda>sub.
                              if sub AND NOT complement \<noteq> 0 \<or> count_ones sub \<noteq> inner then None
                              else if is_quorum (fst b) (snd b) (members_of universe sub)
                              then Some (members_of universe m, members_of universe sub)
                              else None) (up_to complement)) [0 ..< Suc (n - size)]))
                   (up_to full)) [0 ..< Suc n] of
                 Some pair \<Rightarrow> Some (Some pair)
               | None \<Rightarrow> None))"

definition check_cap :: "configuration \<Rightarrow> quorum_error + unit" where
  "check_cap c =
     (if unat (cfg_len c) > MAX_MEMBERS then Err (GateCapExceeded MAX_MEMBERS) else Ok ())"

text \<open>Continuing when a pair of families intersects, and refusing with the witness when it does not;
  the outer option is the panic.\<close>

definition refuse_disjoint ::
    "(node_id list \<times> node_id list) option option \<Rightarrow> (node_id list \<Rightarrow> node_id list \<Rightarrow> quorum_error) \<Rightarrow>
     (quorum_error + unit) option \<Rightarrow> (quorum_error + unit) option" where
  "refuse_disjoint pair err rest =
     (case pair of
        None \<Rightarrow> None
      | Some (Some (a, b)) \<Rightarrow> Some (Err (err a b))
      | Some None \<Rightarrow> rest)"

definition validate_era :: "strategy \<Rightarrow> configuration \<Rightarrow> (quorum_error + unit) option" where
  "validate_era is_quorum c =
     (case check_cap c of
        Inl e \<Rightarrow> Some (Err e)
      | Inr _ \<Rightarrow>
          (let universe = map m_node (cfg_order c)
           in refuse_disjoint (find_disjoint_pair is_quorum (Commit, c) (ViewChange, c) universe) R1Violation
             (refuse_disjoint (find_disjoint_pair is_quorum (ViewChange, c) (ViewChange, c) universe)
                (SelfIntersectionViolation ViewChange)
             (refuse_disjoint (find_disjoint_pair is_quorum (Fence, c) (Restart, c) universe)
                FenceRestartViolation
                (Some (Ok ()))))))"

definition validate_transition ::
    "strategy \<Rightarrow> configuration \<Rightarrow> configuration \<Rightarrow> (quorum_error + unit) option" where
  "validate_transition is_quorum current next =
     (case rbind (check_cap current) (\<lambda>_. check_cap next) of
        Inl e \<Rightarrow> Some (Err e)
      | Inr _ \<Rightarrow>
          (let universe = remdups_adj (sort (map m_node (cfg_order current @ cfg_order next)))
           in if width_of universe > MAX_MEMBERS then Some (Err (GateCapExceeded MAX_MEMBERS))
              else refuse_disjoint
                     (find_disjoint_pair is_quorum (ViewChange, current) (Commit, next) universe)
                     (R2Violation Forward)
                  (refuse_disjoint
                     (find_disjoint_pair is_quorum (ViewChange, next) (Commit, current) universe)
                     (R2Violation Reverse)
                     (Some (Ok ())))))"

definition construct_pivot ::
    "strategy \<Rightarrow> configuration \<Rightarrow> configuration \<Rightarrow> node_id \<Rightarrow> pivot option" where
  "construct_pivot is_quorum current next leader =
     (let universe = remdups_adj (sort (map m_node (cfg_order current @ cfg_order next)));
          n = width_of universe
      in if n > MAX_MEMBERS then None
         else first_some (\<lambda>m.
           let qii = members_of universe m
           in if leader \<notin> set qii then None
              else if \<not> is_quorum Commit current qii then None
              else if \<not> is_quorum Commit next qii then None
              else (let qi = remdups_adj (sort (filter (\<lambda>node. node \<notin> set qii) universe @ [leader]))
                    in if \<not> is_quorum ViewChange current qi then None
                       else if length qi + length qii \<noteq> length universe + 1 then None
                       else Some \<lparr>q_i = qi, q_ii = qii\<rparr>)) (up_to (full_mask n)))"

definition validate_pivot ::
    "strategy \<Rightarrow> configuration \<Rightarrow> configuration \<Rightarrow> node_id \<Rightarrow> pivot \<Rightarrow> pivot_error + unit" where
  "validate_pivot is_quorum current next leader p =
     (case first_duplicate [] (q_i p) of
        Some n \<Rightarrow> Err (PivotDuplicate n)
      | None \<Rightarrow>
     (case first_duplicate [] (q_ii p) of
        Some n \<Rightarrow> Err (PivotDuplicate n)
      | None \<Rightarrow>
          if leader \<notin> set (q_i p) \<or> leader \<notin> set (q_ii p) then Err LeaderAbsent
          else if filter (\<lambda>node. node \<in> set (q_ii p)) (q_i p) \<noteq> [leader] then Err IntersectionNotLeader
          else if \<not> is_quorum ViewChange current (q_i p) then Err QiNotLegal
          else if \<not> is_quorum Commit current (q_ii p) then Err QiiNotLegalCurrent
          else if \<not> is_quorum Commit next (q_ii p) then Err QiiNotLegalNext
          else Ok ()))"


section \<open>The weighted majority\<close>

definition weighted_threshold :: "role \<Rightarrow> configuration \<Rightarrow> nat option" where
  "weighted_threshold r c =
     (case r of Commit \<Rightarrow> Some (total c div 2 + 1) | ViewChange \<Rightarrow> Some (total c div 2 + 1)
              | Restart \<Rightarrow> Some (total c div 2 + 1) | Fence \<Rightarrow> Some (total c div 2 + 1))"

definition weighted_majority :: strategy where
  "weighted_majority r c ns =
     (let threshold = (case r of Commit \<Rightarrow> total c div 2 + 1 | ViewChange \<Rightarrow> total c div 2 + 1
                               | Restart \<Rightarrow> total c div 2 + 1 | Fence \<Rightarrow> total c div 2 + 1)
      in case weight_of_set c ns of
           Some weight \<Rightarrow> weight \<ge> threshold
         | None \<Rightarrow> False)"



section \<open>Masks as subsets\<close>

lemma width_of_length [simp]: "width_of xs = length xs"
proof -
  have "fold (\<lambda>_ count. count + 1) xs k = k + length xs" for k :: nat
    by (induction xs arbitrary: k) simp_all
  then show ?thesis by (simp add: width_of_def)
qed

lemma test_bit: "(m :: u32) AND push_bit b 1 \<noteq> 0 \<longleftrightarrow> bit m b"
  using and_exp_eq_0_iff_not_bit [of m b] by (simp add: push_bit_eq_mult)

lemma members_of_nths: "members_of xs m = nths xs {i. bit m i}"
  unfolding members_of_def nths_def case_prod_unfold test_bit by simp

lemma full_mask_eq: "full_mask n = mask n"
  by (simp add: full_mask_def push_bit_eq_mult mask_eq_exp_minus_1)

lemma full_mask_bit: "n \<le> 16 \<Longrightarrow> bit (full_mask n) i \<longleftrightarrow> i < n"
  by (auto simp: full_mask_eq bit_mask_iff)

lemma le_full_mask:
  assumes "n \<le> 16"
  shows "m \<le> full_mask n \<longleftrightarrow> (\<forall>i. bit m i \<longrightarrow> i < n)"
proof -
  have pow: "(2 :: nat) ^ n \<le> 2 ^ 16"
    using assms by (rule power_increasing) simp
  have fm: "full_mask n = of_nat (2 ^ n - 1)"
    by (simp add: full_mask_eq mask_eq_exp_minus_1 of_nat_diff)
  have "unat (full_mask n) = 2 ^ n - 1"
    using pow unfolding fm unat_of_nat by (intro mod_less) simp
  then have "unat (full_mask n) + 1 = 2 ^ n" by simp
  then have "m \<le> full_mask n \<longleftrightarrow> unat m < 2 ^ n"
    by (metis Suc_eq_plus1 less_Suc_eq_le word_le_nat_alt)
  also have "\<dots> \<longleftrightarrow> take_bit n m = m"
    by (simp add: word_eq_nat unsigned_take_bit_eq take_bit_nat_eq_self_iff)
  also have "\<dots> \<longleftrightarrow> (\<forall>i. bit m i \<longrightarrow> i < n)"
    using bit_imp_le_length [of m] by (fastforce simp: bit_eq_iff bit_take_bit_iff)
  finally show ?thesis .
qed

lemma complement_bit: "n \<le> 16 \<Longrightarrow> bit (full_mask n XOR m) i \<longleftrightarrow> (i < n) \<noteq> bit m i"
  by (simp add: bit_xor_iff full_mask_bit)

lemma mask_with_bits:
  fixes n :: nat
  assumes "n \<le> 16"
  obtains m where "m \<le> full_mask n" "\<And>i. bit m i \<longleftrightarrow> i < n \<and> P i"
proof
  let ?m = "horner_sum of_bool 2 (map P [0 ..< n]) :: u32"
  show *: "bit ?m i \<longleftrightarrow> i < n \<and> P i" for i
    using assms by (auto simp: bit_horner_sum_bit_iff)
  then show "?m \<le> full_mask n"
    unfolding le_full_mask [OF assms] by blast
qed

lemma set_up_to: "set (up_to m) = {w. w \<le> m}"
proof -
  have "w \<in> set (up_to m)" if "w \<le> m" for w
    using that unfolding up_to_def set_map set_upt word_le_nat_alt
    by (intro image_eqI [of _ _ "unat w"]) auto
  moreover have "of_nat k \<le> m" if "k < Suc (unat m)" for k
    using that le_unat_uoi [of k m] by (simp add: word_le_nat_alt)
  ultimately show ?thesis by (auto simp: up_to_def)
qed


lemma distinct_members_of: "distinct xs \<Longrightarrow> distinct (members_of xs m)"
  by (simp add: members_of_nths distinct_nthsI)

lemma set_members_of: "set (members_of xs m) = {xs ! i | i. i < length xs \<and> bit m i}"
  by (simp add: members_of_nths set_nths)

text \<open>Over a duplicate-free universe of at most sixteen nodes the masks are the subsets, listed in
  the universe's order, and the complement mask is the complement.\<close>

lemma members_of_filter:
  "distinct xs \<Longrightarrow> members_of xs m = filter (\<lambda>x. x \<in> set (members_of xs m)) xs"
  by (simp add: members_of_nths filter_in_nths)

lemma members_of_complement:
  assumes "distinct xs" "length xs \<le> 16"
  shows "set (members_of xs (full_mask (length xs) XOR m)) = set xs - set (members_of xs m)"
proof
  show "set (members_of xs (full_mask (length xs) XOR m)) \<subseteq> set xs - set (members_of xs m)"
    using assms(1) by (auto simp: set_members_of complement_bit assms(2) nth_eq_iff_index_eq)
  show "set xs - set (members_of xs m) \<subseteq> set (members_of xs (full_mask (length xs) XOR m))"
    by (fastforce simp: set_members_of complement_bit assms(2) in_set_conv_nth)
qed

lemma mask_of_subset:
  assumes "distinct xs" "length xs \<le> 16" "S \<subseteq> set xs"
  obtains m where "m \<le> full_mask (length xs)" "set (members_of xs m) = S"
proof -
  obtain m where m: "m \<le> full_mask (length xs)" "\<And>i. bit m i \<longleftrightarrow> i < length xs \<and> xs ! i \<in> S"
    by (rule mask_with_bits [OF assms(2), of "\<lambda>i. xs ! i \<in> S"]) blast
  have "set (members_of xs m) = S"
    using assms(3) by (fastforce simp: set_members_of m(2) in_set_conv_nth)
  with m(1) that show thesis by blast
qed

lemma complement_le:
  assumes "n \<le> 16"
  shows "full_mask n XOR m \<le> full_mask n \<longleftrightarrow> m \<le> full_mask n"
  unfolding le_full_mask [OF assms] complement_bit [OF assms] by blast


section \<open>The contract of a strategy\<close>

text \<open>The two clauses the trait's documentation imposes: a strategy answers only for duplicate-free
  sets of members, and a superset of a quorum is a quorum.\<close>

text \<open>Two families intersect when no two of their quorums are disjoint.\<close>

definition families_intersect :: "strategy \<Rightarrow> role \<times> configuration \<Rightarrow> role \<times> configuration \<Rightarrow> bool" where
  "families_intersect is_quorum a b \<longleftrightarrow>
     (\<forall>Q R. is_quorum (fst a) (snd a) Q \<longrightarrow> is_quorum (fst b) (snd b) R \<longrightarrow> set Q \<inter> set R \<noteq> {})"

locale quorum_strategy =
  fixes is_quorum :: strategy
  assumes strict: "is_quorum r c ns \<Longrightarrow> distinct ns \<and> set ns \<subseteq> set (nodes c)"
    and monotone: "is_quorum r c ns \<Longrightarrow> set ns \<subseteq> set ms \<Longrightarrow> distinct ms \<Longrightarrow> set ms \<subseteq> set (nodes c) \<Longrightarrow>
                   is_quorum r c ms"
begin

lemma order_irrelevant: "set ns = set ms \<Longrightarrow> distinct ms \<Longrightarrow> is_quorum r c ns \<Longrightarrow> is_quorum r c ms"
  using monotone [of r c ns ms] strict [of r c ns] by simp

text \<open>The complement identity, over a universe that is exactly the two memberships.\<close>

lemma scan_iff:
  assumes d: "distinct xs" and l: "length xs \<le> 16" and u: "set xs = set (nodes ca) \<union> set (nodes cb)"
  shows "disjoint_quorums_exist is_quorum (ra, ca) (rb, cb) xs \<longleftrightarrow>
         \<not> families_intersect is_quorum (ra, ca) (rb, cb)"
proof
  assume "disjoint_quorums_exist is_quorum (ra, ca) (rb, cb) xs"
  then obtain m where "is_quorum ra ca (members_of xs m)"
    "is_quorum rb cb (members_of xs (full_mask (length xs) XOR m))"
    by (auto simp: disjoint_quorums_exist_def Let_def list_ex_iff)
  then show "\<not> families_intersect is_quorum (ra, ca) (rb, cb)"
    using members_of_complement [OF d l, of m] by (fastforce simp: families_intersect_def)
next
  assume "\<not> families_intersect is_quorum (ra, ca) (rb, cb)"
  then obtain Q R where Q: "is_quorum ra ca Q" and R: "is_quorum rb cb R" and QR: "set Q \<inter> set R = {}"
    by (auto simp: families_intersect_def)
  have "set (nodes ca) - set R \<subseteq> set xs" using u by blast
  then obtain m where m: "m \<le> full_mask (length xs)" "set (members_of xs m) = set (nodes ca) - set R"
    by (rule mask_of_subset [OF d l])
  have "is_quorum ra ca (members_of xs m)"
    using strict [OF Q] QR m(2) distinct_members_of [OF d] by (intro monotone [OF Q]) auto
  moreover have "is_quorum rb cb (members_of xs (full_mask (length xs) XOR m))"
    using strict [OF R] u distinct_members_of [OF d] members_of_complement [OF d l, of m] m(2)
    by (intro monotone [OF R]) auto
  ultimately show "disjoint_quorums_exist is_quorum (ra, ca) (rb, cb) xs"
    using m(1) by (auto simp: disjoint_quorums_exist_def Let_def list_ex_iff set_up_to)
qed

end


section \<open>The thorough pass\<close>

lemma count_ones_card: "count_ones m = card {i. bit m i}"
proof -
  have "{i. bit m i} = set (filter (bit m) [0 ..< 32])"
    using bit_imp_le_length [of m] by fastforce
  then show ?thesis
    using distinct_card [of "filter (bit m) [0 ..< 32]"] by (simp add: count_ones_def)
qed

lemma count_ones_le: "n \<le> 16 \<Longrightarrow> m \<le> full_mask n \<Longrightarrow> count_ones m \<le> n"
  using card_mono [of "{..<n}" "{i. bit m i}"] by (auto simp: count_ones_card le_full_mask)

lemma sub_complement: "sub AND NOT complement = 0 \<longleftrightarrow> (\<forall>i. bit (sub :: u32) i \<longrightarrow> bit complement i)"
  using bit_imp_le_length [of sub] by (fastforce simp: bit_eq_iff bit_and_iff bit_not_iff)

lemma count_ones_members: "distinct xs \<Longrightarrow> m \<le> full_mask (length xs) \<Longrightarrow> length xs \<le> 16 \<Longrightarrow>
    count_ones m = card (set (members_of xs m))"
proof -
  assume d: "distinct xs" and m: "m \<le> full_mask (length xs)" and l: "length xs \<le> 16"
  have "set (members_of xs m) = (!) xs ` {i. bit m i}"
    using m by (auto simp: set_members_of le_full_mask [OF l])
  moreover have "inj_on ((!) xs) {i. bit m i}"
    using d m by (auto simp: inj_on_def le_full_mask [OF l] nth_eq_iff_index_eq)
  ultimately show ?thesis by (simp add: count_ones_card card_image)
qed

abbreviation within :: "u32 \<Rightarrow> u32 \<Rightarrow> bool" where
  "within sub m \<equiv> \<forall>i. bit sub i \<longrightarrow> bit m i"

lemma within_le: "within sub m \<Longrightarrow> sub \<le> (m :: u32)"
proof -
  assume "within sub m"
  then have "sub AND m = sub" by (auto simp: bit_eq_iff bit_and_iff)
  then show ?thesis using word_and_le1 [of sub m] word_and_le2 [of sub m] by metis
qed

definition smallest_inside :: "(u32 \<Rightarrow> 'b option) \<Rightarrow> u32 \<Rightarrow> nat \<Rightarrow> 'b option" where
  "smallest_inside g c k =
     first_some (\<lambda>inner. first_some (\<lambda>sub.
       if sub AND NOT c \<noteq> 0 \<or> count_ones sub \<noteq> inner then None else g sub) (up_to c)) [0 ..< Suc k]"

lemma smallest_inside_None:
  "smallest_inside g c k = None \<longleftrightarrow> (\<forall>sub. within sub c \<longrightarrow> count_ones sub \<le> k \<longrightarrow> g sub = None)"
proof
  assume "\<forall>sub. within sub c \<longrightarrow> count_ones sub \<le> k \<longrightarrow> g sub = None"
  then show "smallest_inside g c k = None"
    unfolding smallest_inside_def by (auto simp: sub_complement)
next
  assume a: "smallest_inside g c k = None"
  show "\<forall>sub. within sub c \<longrightarrow> count_ones sub \<le> k \<longrightarrow> g sub = None"
  proof (intro allI impI)
    fix sub
    assume w: "within sub c" and k: "count_ones sub \<le> k"
    then have "sub \<in> set (up_to c)" by (simp add: set_up_to within_le)
    moreover have "count_ones sub \<in> set [0 ..< Suc k]" using k by (simp del: upt_Suc)
    ultimately show "g sub = None"
      using a w unfolding smallest_inside_def first_some_eq_None
      by (metis (mono_tags, lifting) sub_complement)
  qed
qed

lemma smallest_inside_Some:
  assumes "smallest_inside g c k = Some r"
  shows "\<exists>sub. g sub = Some r \<and> within sub c \<and> count_ones sub \<le> k
             \<and> (\<forall>sub'. within sub' c \<longrightarrow> count_ones sub' < count_ones sub \<longrightarrow> g sub' = None)"
proof -
  let ?f = "\<lambda>inner. first_some (\<lambda>sub. if sub AND NOT c \<noteq> 0 \<or> count_ones sub \<noteq> inner then None else g sub) (up_to c)"
  obtain inner where i: "inner < Suc k" "?f inner = Some r" "\<forall>y < inner. ?f y = None"
    using first_some_upt [OF assms [unfolded smallest_inside_def]] by blast
  obtain sub where sub: "g sub = Some r" "within sub c" "count_ones sub = inner"
    using first_some_SomeD [OF i(2)] by (auto simp: sub_complement split: if_splits)
  have "smallest_inside g c (inner - 1) = None" if "inner \<noteq> 0"
    using i(3) that unfolding smallest_inside_def by (auto simp del: upt_Suc)
  then have "\<forall>sub'. within sub' c \<longrightarrow> count_ones sub' < inner \<longrightarrow> g sub' = None"
    unfolding smallest_inside_None by (cases inner) auto
  then show ?thesis using sub i(1) by auto
qed

text \<open>The two nested passes of \<open>find_disjoint_pair\<close> in these terms.\<close>

definition pair_at ::
    "(node_id list \<Rightarrow> bool) \<Rightarrow> (node_id list \<Rightarrow> bool) \<Rightarrow> node_id list \<Rightarrow> u32 \<Rightarrow>
     (node_id list \<times> node_id list) option" where
  "pair_at qa qb xs m =
     (if \<not> qa (members_of xs m) then None
      else smallest_inside (\<lambda>sub. if qb (members_of xs sub)
                                  then Some (members_of xs m, members_of xs sub) else None)
             (full_mask (length xs) XOR m) (length xs - count_ones m))"

lemma find_disjoint_pair_passes:
  assumes "length xs \<le> 16"
  shows "find_disjoint_pair q (ra, ca) (rb, cb) xs =
    (if \<not> disjoint_quorums_exist q (ra, ca) (rb, cb) xs then Some None
     else map_option Some (smallest_inside (pair_at (q ra ca) (q rb cb) xs) (full_mask (length xs)) (length xs)))"
proof -
  let ?full = "full_mask (length xs)"
  have "m AND NOT ?full = 0" if "m \<in> set (up_to ?full)" for m
    using that le_full_mask [OF assms, of m]
    by (simp add: set_up_to sub_complement full_mask_bit [OF assms])
  then have outer: "first_some (\<lambda>size. first_some (\<lambda>m. if m AND NOT ?full \<noteq> 0 \<or> count_ones m \<noteq> size then None
                 else pair_at (q ra ca) (q rb cb) xs m) (up_to ?full)) [0 ..< Suc (length xs)]
    = first_some (\<lambda>size. first_some (\<lambda>m. if count_ones m \<noteq> size then None
                 else pair_at (q ra ca) (q rb cb) xs m) (up_to ?full)) [0 ..< Suc (length xs)]"
    by (intro first_some_cong refl) simp
  have inner: "(if count_ones m \<noteq> size then None
                else if \<not> q ra ca (members_of xs m) then None
                else first_some (\<lambda>inner. first_some (\<lambda>sub.
                   if sub AND NOT (?full XOR m) \<noteq> 0 \<or> count_ones sub \<noteq> inner then None
                   else if q rb cb (members_of xs sub) then Some (members_of xs m, members_of xs sub) else None)
                   (up_to (?full XOR m))) [0 ..< Suc (length xs - size)])
      = (if count_ones m \<noteq> size then None else pair_at (q ra ca) (q rb cb) xs m)" for m size
    by (simp add: pair_at_def smallest_inside_def del: upt_Suc)
  show ?thesis
    unfolding find_disjoint_pair_def Let_def width_of_length fst_conv snd_conv inner
      smallest_inside_def [of "pair_at _ _ _"] outer
    by (auto split: option.split)
qed

lemma members_of_mono:
  assumes "distinct xs" "length xs \<le> 16" "m \<le> full_mask (length xs)" "m' \<le> full_mask (length xs)"
  shows "set (members_of xs m') \<subset> set (members_of xs m) \<Longrightarrow> within m' m \<and> count_ones m' < count_ones m"
proof
  assume sub: "set (members_of xs m') \<subset> set (members_of xs m)"
  show "within m' m"
  proof (intro allI impI)
    fix i assume "bit m' i"
    moreover from this have "i < length xs" using assms(4) le_full_mask [OF assms(2)] by blast
    ultimately have "xs ! i \<in> set (members_of xs m)" using sub by (auto simp: set_members_of)
    then show "bit m i"
      using assms(1) \<open>i < length xs\<close> by (auto simp: set_members_of nth_eq_iff_index_eq)
  qed
  show "count_ones m' < count_ones m"
    using psubset_card_mono [OF _ sub] assms by (simp add: count_ones_members)
qed

lemma within_full: "n \<le> 16 \<Longrightarrow> within m (full_mask n) \<longleftrightarrow> m \<le> full_mask n"
  by (simp add: le_full_mask full_mask_bit)

lemma pair_at_None:
  assumes "pair_at qa qb xs m = None" "qa (members_of xs m)" "length xs \<le> 16"
    and "within sub (full_mask (length xs) XOR m)" "count_ones sub \<le> length xs - count_ones m"
  shows "\<not> qb (members_of xs sub)"
  using assms by (auto simp: pair_at_def smallest_inside_None split: if_splits)

lemma complement_count:
  assumes "n \<le> 16" "m \<le> full_mask n"
  shows "count_ones (full_mask n XOR m) = n - count_ones m"
proof -
  have "{i. bit (full_mask n XOR m) i} = {..<n} - {i. bit m i}"
    by (auto simp: complement_bit [OF assms(1)] assms(2) [unfolded le_full_mask [OF assms(1)]])
  moreover have "{i. bit m i} \<subseteq> {..<n}"
    using assms le_full_mask by auto
  ultimately show ?thesis
    by (simp add: count_ones_card card_Diff_subset finite_subset)
qed

lemma find_disjoint_pair_total:
  assumes "distinct xs" "length xs \<le> 16"
  shows "find_disjoint_pair q (ra, ca) (rb, cb) xs \<noteq> None"
proof
  assume a: "find_disjoint_pair q (ra, ca) (rb, cb) xs = None"
  then have scan: "disjoint_quorums_exist q (ra, ca) (rb, cb) xs"
    and none: "smallest_inside (pair_at (q ra ca) (q rb cb) xs) (full_mask (length xs)) (length xs) = None"
    by (simp_all add: find_disjoint_pair_passes assms(2) split: if_splits)
  from scan obtain m where m: "m \<le> full_mask (length xs)" "q ra ca (members_of xs m)"
    "q rb cb (members_of xs (full_mask (length xs) XOR m))"
    by (auto simp: disjoint_quorums_exist_def Let_def list_ex_iff set_up_to)
  then have "pair_at (q ra ca) (q rb cb) xs m = None"
    using none count_ones_le [OF assms(2) m(1)]
    by (auto simp: smallest_inside_None within_full [OF assms(2)])
  then show False
    using pair_at_None [of "q ra ca" "q rb cb" xs m "full_mask (length xs) XOR m"] m assms(2)
      complement_count [OF assms(2) m(1)] by simp
qed

lemma find_disjoint_pair_None:
  "distinct xs \<Longrightarrow> length xs \<le> 16 \<Longrightarrow>
   find_disjoint_pair q (ra, ca) (rb, cb) xs = Some None \<longleftrightarrow> \<not> disjoint_quorums_exist q (ra, ca) (rb, cb) xs"
  by (auto simp: find_disjoint_pair_passes)

text \<open>A quorum no proper subset of which, listed in the universe's order, is a quorum.\<close>

definition minimal_quorum :: "(node_id list \<Rightarrow> bool) \<Rightarrow> node_id list \<Rightarrow> node_id list \<Rightarrow> bool" where
  "minimal_quorum qf xs S \<longleftrightarrow>
     qf S \<and> set S \<subseteq> set xs \<and> (\<forall>A. A \<subset> set S \<longrightarrow> \<not> qf (filter (\<lambda>x. x \<in> A) xs))"

lemma minimal_quorumI:
  assumes "distinct xs" "length xs \<le> 16" "qf (members_of xs m)"
    and "m \<le> full_mask (length xs)"
    and "\<And>m'. m' \<le> full_mask (length xs) \<Longrightarrow> within m' m \<Longrightarrow> count_ones m' < count_ones m \<Longrightarrow> \<not> qf (members_of xs m')"
  shows "minimal_quorum qf xs (members_of xs m)"
proof -
  have "\<not> qf (filter (\<lambda>x. x \<in> A) xs)" if A: "A \<subset> set (members_of xs m)" for A
  proof -
    have "A \<subseteq> set xs" using A by (auto simp: set_members_of)
    then obtain m' where m': "m' \<le> full_mask (length xs)" "set (members_of xs m') = A"
      by (rule mask_of_subset [OF assms(1,2)])
    then have "within m' m \<and> count_ones m' < count_ones m"
      using A by (intro members_of_mono [OF assms(1,2,4)]) auto
    with m' assms(5) have "\<not> qf (members_of xs m')" by blast
    then show ?thesis using members_of_filter [OF assms(1), of m'] m'(2) by simp
  qed
  then show ?thesis
    using assms(3) by (auto simp: minimal_quorum_def set_members_of)
qed

lemma find_disjoint_pair_Some:
  assumes d: "distinct xs" and l: "length xs \<le> 16"
    and f: "find_disjoint_pair q (ra, ca) (rb, cb) xs = Some (Some (S, T))"
  shows "minimal_quorum (q ra ca) xs S \<and> minimal_quorum (q rb cb) xs T \<and> set S \<inter> set T = {}"
proof -
  let ?full = "full_mask (length xs)"
  let ?p = "pair_at (q ra ca) (q rb cb) xs"
  have outer: "smallest_inside ?p ?full (length xs) = Some (S, T)"
    using f by (auto simp: find_disjoint_pair_passes [OF l] split: if_splits)
  from smallest_inside_Some [OF outer] obtain m where m: "?p m = Some (S, T)" "within m ?full"
    and all: "\<forall>m'. within m' ?full \<longrightarrow> count_ones m' < count_ones m \<longrightarrow> ?p m' = None"
    by blast
  have mf: "m \<le> ?full" using m(2) unfolding within_full [OF l] .
  have first: "?p m' = None" if "m' \<le> ?full" "count_ones m' < count_ones m" for m'
    using all that unfolding within_full [OF l] by simp
  let ?g = "\<lambda>sub. if q rb cb (members_of xs sub) then Some (members_of xs m, members_of xs sub) else None"
  have qa: "q ra ca (members_of xs m)"
    using m(1) by (simp add: pair_at_def split: if_splits)
  then have inner: "smallest_inside ?g (?full XOR m) (length xs - count_ones m) = Some (S, T)"
    using m(1) by (simp add: pair_at_def)
  from smallest_inside_Some [OF inner] obtain sub where
    g: "?g sub = Some (S, T)"
    and sub: "within sub (?full XOR m)" "count_ones sub \<le> length xs - count_ones m"
    and none: "\<forall>sub'. within sub' (?full XOR m) \<longrightarrow> count_ones sub' < count_ones sub \<longrightarrow> ?g sub' = None"
    by blast
  from g have qb: "q rb cb (members_of xs sub)" and S: "S = members_of xs m" and T: "T = members_of xs sub"
    by (simp_all split: if_splits)
  have least: "\<not> q rb cb (members_of xs sub')"
    if "within sub' (?full XOR m)" "count_ones sub' < count_ones sub" for sub'
  proof -
    have "?g sub' = None" using none that by blast
    then show ?thesis by (simp split: if_splits)
  qed
  have sf: "sub \<le> ?full"
    using sub(1) mf unfolding le_full_mask [OF l] complement_bit [OF l] by blast
  have excl: "\<not> bit m i" if "bit sub i" for i
    using sub(1) that sf unfolding complement_bit [OF l] le_full_mask [OF l] by blast
  then have "set S \<inter> set T = {}"
    using d by (auto simp: S T set_members_of nth_eq_iff_index_eq)
  moreover have "minimal_quorum (q rb cb) xs T"
    unfolding T
  proof (rule minimal_quorumI [of xs "q rb cb" sub, OF d l qb sf])
    fix sub' assume "within sub' sub" "count_ones sub' < count_ones sub"
    then show "\<not> q rb cb (members_of xs sub')" using least sub(1) by blast
  qed
  moreover have "minimal_quorum (q ra ca) xs S"
    unfolding S
  proof (rule minimal_quorumI [of xs "q ra ca" m, OF d l qa mf])
    fix m' assume m': "m' \<le> ?full" "within m' m" "count_ones m' < count_ones m"
    then have "?p m' = None" using first by simp
    moreover have "within sub (?full XOR m')"
      using sub(1) m'(2) mf unfolding complement_bit [OF l] le_full_mask [OF l] by blast
    moreover have "count_ones sub \<le> length xs - count_ones m'"
      using sub(2) m'(3) by (meson diff_le_mono2 less_imp_le order_trans)
    ultimately show "\<not> q ra ca (members_of xs m')"
      using pair_at_None [of "q ra ca" "q rb cb" xs m' sub] l qb by blast
  qed
  ultimately show ?thesis by blast
qed

end
