(* ===== verification/Quorum_Theorems.thy ===== *)
theory Quorum_Theorems
  imports Quorum Config_Theorems
begin

unbundle bit_operations_syntax

text \<open>
  Properties of the quorum gate: it decides the documented obligations for every strategy that
  honours its contract, its refusals carry minimal witnesses, the weighted majority honours the
  contract and passes the gate in every configuration of the fold and across every accepted
  operation, and constructed pivots satisfy the pivot condition.
\<close>

section \<open>The weighted majority honours the contract\<close>

lemma weighted_majority_iff:
  "weighted_majority r c ns \<longleftrightarrow>
     distinct ns \<and> set ns \<subseteq> set (nodes c) \<and> total c < 2 * set_mass c (set ns)"
  by (cases r) (auto simp: weighted_majority_def weight_of_set_eq)

interpretation weighted: quorum_strategy weighted_majority
proof
  fix r c ns ms
  assume q: "weighted_majority r c ns" and sub: "set ns \<subseteq> set ms" "distinct ms" "set ms \<subseteq> set (nodes c)"
  have "set_mass c (set ns) \<le> set_mass c (set ms)"
    unfolding set_mass_def using sub(1) by (intro sum_mono2) auto
  with q sub show "weighted_majority r c ms" by (simp add: weighted_majority_iff)
qed (simp add: weighted_majority_iff)


section \<open>What the gate decides\<close>

lemma check_cap_wf [simp]: "wf_members (cfg_order c) \<Longrightarrow> check_cap c = Ok ()"
  by (simp add: check_cap_def unat_cfg_len) (simp add: wf_members_def)

lemma wf_nodes: "wf_members (cfg_order c) \<Longrightarrow> distinct (nodes c) \<and> length (nodes c) \<le> 16"
  by (simp add: wf_members_def nodes_def MAX_MEMBERS_def)

lemma refuse_disjoint_Ok:
  "refuse_disjoint p err rest = Some (Ok ()) \<longleftrightarrow> p = Some None \<and> rest = Some (Ok ())"
  by (auto simp: refuse_disjoint_def split: option.splits)

definition both_memberships :: "configuration \<Rightarrow> configuration \<Rightarrow> node_id list" where
  "both_memberships c d = remdups_adj (sort (map m_node (cfg_order c @ cfg_order d)))"

lemma both_memberships_fold:
  "remdups_adj (sort (map m_node (cfg_order c) @ map m_node (cfg_order d))) = both_memberships c d"
  by (simp add: both_memberships_def)

lemma both_memberships: "distinct (both_memberships c d)" "set (both_memberships c d) = set (nodes c) \<union> set (nodes d)"
  by (simp_all add: both_memberships_def distinct_remdups_adj_sorted nodes_def image_Un)

context quorum_strategy
begin

lemma pair_iff:
  "distinct xs \<Longrightarrow> length xs \<le> 16 \<Longrightarrow> set xs = set (nodes ca) \<union> set (nodes cb) \<Longrightarrow>
   find_disjoint_pair is_quorum (ra, ca) (rb, cb) xs = Some None \<longleftrightarrow>
   families_intersect is_quorum (ra, ca) (rb, cb)"
  by (simp add: find_disjoint_pair_None scan_iff)

lemma validate_era_Ok:
  assumes "wf_members (cfg_order c)"
  shows "validate_era is_quorum c = Some (Ok ()) \<longleftrightarrow>
    families_intersect is_quorum (Commit, c) (ViewChange, c) \<and>
    families_intersect is_quorum (ViewChange, c) (ViewChange, c) \<and>
    families_intersect is_quorum (Fence, c) (Restart, c)"
  using wf_nodes [OF assms] assms
  by (simp add: validate_era_def Let_def refuse_disjoint_Ok nodes_def [symmetric] pair_iff)

lemma validate_transition_Ok:
  assumes "wf_members (cfg_order c)" "wf_members (cfg_order d)"
  shows "validate_transition is_quorum c d = Some (Ok ()) \<longleftrightarrow>
    length (both_memberships c d) \<le> MAX_MEMBERS \<and>
    families_intersect is_quorum (ViewChange, c) (Commit, d) \<and>
    families_intersect is_quorum (ViewChange, d) (Commit, c)"
proof (cases "length (both_memberships c d) \<le> 16")
  case True
  then show ?thesis
    using assms both_memberships [of c d] both_memberships(2) [of c d, unfolded Un_commute [of "set (nodes c)"]]
    by (simp add: validate_transition_def Let_def refuse_disjoint_Ok both_memberships_fold
        pair_iff MAX_MEMBERS_def not_less)
next
  case False
  then show ?thesis
    using assms by (simp add: validate_transition_def Let_def both_memberships_fold MAX_MEMBERS_def)
qed

end

lemma weighted_intersect:
  assumes "wf_members (cfg_order c)" "wf_members (cfg_order d)" "close_weights c d"
  shows "families_intersect weighted_majority (r, c) (s, d)"
  unfolding families_intersect_def weighted_majority_iff fst_conv snd_conv
  using majorities_meet [OF assms] by blast

lemma families_intersect_commute:
  "families_intersect q a b \<longleftrightarrow> families_intersect q b a"
  unfolding families_intersect_def by blast

lemma close_weights_refl: "close_weights c c"
  by (simp add: close_weights_def)


section \<open>Properties of the gate\<close>

text \<open>C20. The era gate decides exactly the documented obligations: for a strategy that honours its
  contract a well-formed configuration passes if and only if commit and view-change quorums always
  intersect, view-change quorums always intersect each other, and so do fence and restart quorums.\<close>

theorem validate_era_decides:
  assumes "quorum_strategy is_quorum" "wf_config c"
  shows "validate_era is_quorum c = Some (Ok ()) \<longleftrightarrow>
    families_intersect is_quorum (Commit, c) (ViewChange, c) \<and>
    families_intersect is_quorum (ViewChange, c) (ViewChange, c) \<and>
    families_intersect is_quorum (Fence, c) (Restart, c)"
  using quorum_strategy.validate_era_Ok [OF assms(1) wf_config_members [OF assms(2)]] .

theorem validate_era_decides_witness:
  "validate_era weighted_majority with_learner = Some (Ok ())"
  using validate_era_decides [OF weighted.quorum_strategy_axioms wf_samples(2)]
    weighted_intersect [OF wf_config_members [OF wf_samples(2)] wf_config_members [OF wf_samples(2)] close_weights_refl]
  by blast

text \<open>C21. The transition gate decides R2 in both directions: for a strategy that honours its contract
  a pair of well-formed configurations passes if and only if their union respects the cap and the
  view-change quorums of each intersect the commit quorums of the other.\<close>

theorem validate_transition_decides:
  assumes "quorum_strategy is_quorum" "wf_config c" "wf_config d"
  shows "validate_transition is_quorum c d = Some (Ok ()) \<longleftrightarrow>
    card (set (nodes c) \<union> set (nodes d)) \<le> MAX_MEMBERS \<and>
    families_intersect is_quorum (ViewChange, c) (Commit, d) \<and>
    families_intersect is_quorum (ViewChange, d) (Commit, c)"
  using quorum_strategy.validate_transition_Ok [OF assms(1) assms(2,3) [THEN wf_config_members]]
    distinct_card [OF both_memberships(1) [of c d]] both_memberships(2) [of c d] by simp

theorem validate_transition_decides_witness:
  "validate_transition weighted_majority three_voters promoted = Some (Ok ())"
proof -
  have w: "wf_members (cfg_order three_voters)" "wf_members (cfg_order promoted)"
    using wf_samples wf_config_members by blast+
  have close: "close_weights three_voters promoted"
    by (rule apply_sysop_close [OF wf_samples(1) _ apply_samples(1)]) (simp add: sample_defs)
  have "families_intersect weighted_majority (ViewChange, three_voters) (Commit, promoted)"
    "families_intersect weighted_majority (ViewChange, promoted) (Commit, three_voters)"
    using weighted_intersect [OF w close] families_intersect_commute by blast+
  moreover have "card (set (nodes three_voters) \<union> set (nodes promoted)) \<le> MAX_MEMBERS"
    by (simp add: nodes_def sample_defs MAX_MEMBERS_def)
  ultimately show ?thesis
    using validate_transition_decides [OF weighted.quorum_strategy_axioms wf_samples(1,3)] by blast
qed

text \<open>C6. The shipped strategy closes over the fold: across every accepted operation after genesis
  the weighted majority passes the era gate on both sides and the transition gate between them, except
  that a batch which both joins and leaves can make the union pass the cap, which is then refused.\<close>

theorem weighted_majority_closed:
  assumes "wf_config c" "cfg_order c \<noteq> []" "apply_sysop c op at = Ok d"
  shows "validate_era weighted_majority d = Some (Ok ())
    \<and> validate_transition weighted_majority c d =
        Some (if card (set (nodes c) \<union> set (nodes d)) \<le> MAX_MEMBERS then Ok ()
              else Err (GateCapExceeded MAX_MEMBERS))"
proof -
  have wf: "wf_members (cfg_order c)" "wf_members (cfg_order d)"
    using apply_sysop_wf [OF assms(1,3)] assms(1) wf_config_members by blast+
  have close: "close_weights c d" by (rule apply_sysop_close [OF assms])
  have "validate_era weighted_majority d = Some (Ok ())"
    using weighted.validate_era_Ok [OF wf(2)] weighted_intersect [OF wf(2) wf(2) close_weights_refl] by blast
  moreover have "card (set (nodes c) \<union> set (nodes d)) = length (both_memberships c d)"
    using distinct_card [OF both_memberships(1) [of c d]] both_memberships(2) [of c d] by simp
  moreover have "validate_transition weighted_majority c d = Some (Ok ())"
    if "length (both_memberships c d) \<le> MAX_MEMBERS"
    using weighted.validate_transition_Ok [OF wf] that weighted_intersect [OF wf close] families_intersect_commute
    by blast
  moreover have "validate_transition weighted_majority c d = Some (Err (GateCapExceeded MAX_MEMBERS))"
    if "\<not> length (both_memberships c d) \<le> MAX_MEMBERS"
    using that wf by (simp add: validate_transition_def Let_def both_memberships_fold not_le)
  ultimately show ?thesis by simp
qed

lemma refuse_disjoint_total: "p \<noteq> None \<Longrightarrow> rest \<noteq> None \<Longrightarrow> refuse_disjoint p err rest \<noteq> None"
  by (auto simp: refuse_disjoint_def split: option.splits)

text \<open>A full membership that exchanges a learner for another in one batch: its union has seventeen
  nodes.\<close>

definition sixteen :: configuration where
  "sixteen = \<lparr>cfg_era = 1, cfg_order = map (\<lambda>n. \<lparr>m_node = n, m_weight = 1\<rparr>)
     [1, 2, 3, 4, 5, 6, 7, 8, 9, 10, 11, 12, 13, 14, 15] @ [\<lparr>m_node = 16, m_weight = 0\<rparr>]\<rparr>"

definition sixteen_exchanged :: configuration where
  "sixteen_exchanged = \<lparr>cfg_era = 2, cfg_order = \<lparr>m_node = 99, m_weight = 0\<rparr> #
     map (\<lambda>n. \<lparr>m_node = n, m_weight = 1\<rparr>) [1, 2, 3, 4, 5, 6, 7, 8, 9, 10, 11, 12, 13, 14, 15]\<rparr>"

lemma sixteen_samples:
  "wf_config sixteen" "cfg_order sixteen \<noteq> []"
  "apply_sysop sixteen (Batch [Leave 16, Join 99 0]) 7 = Ok sixteen_exchanged"
  "\<not> card (set (nodes sixteen) \<union> set (nodes sixteen_exchanged)) \<le> MAX_MEMBERS"
proof -
  show "wf_config sixteen"
    by (simp add: sixteen_def config_eval upt_conv_Cons word_le_nat_alt)
  let ?c = "sixteen\<lparr>cfg_order := remove_at 15 (cfg_order sixteen)\<rparr>"
  let ?d = "?c\<lparr>cfg_order := insert_at 0 \<lparr>m_node = 99, m_weight = 0\<rparr> (cfg_order ?c)\<rparr>"
  have steps: "apply_in_era sixteen (Leave 16) = Ok ?c" "apply_in_era ?c (Join 99 0) = Ok ?d"
    by (simp_all add: sixteen_def remove_at_def MAX_MEMBERS_def)
  have "node_weight ?c = node_weight sixteen"
    by (rule remove_node_weight) (simp_all add: sixteen_def wf_members_def MAX_MEMBERS_def MAX_WEIGHT_def word_le_nat_alt)
  moreover have "node_weight ?d = node_weight ?c"
    by (rule insert_node_weight) (simp_all add: sixteen_def remove_at_def nodes_def)
  ultimately have "mass_moved sixteen ?d = 0"
    by (simp add: mass_moved_sum moved_at_def abs_diff_def)
  moreover have "era_next (cfg_era sixteen) = Some 2" "cfg_order sixteen \<noteq> []"
    by (simp_all add: sixteen_def era_next_def checked_add_def)
  moreover have "sixteen_exchanged = ?d\<lparr>cfg_era := 2\<rparr>"
    by (simp add: sixteen_exchanged_def sixteen_def remove_at_def insert_at_def)
  ultimately show "apply_sysop sixteen (Batch [Leave 16, Join 99 0]) 7 = Ok sixteen_exchanged"
    using steps
    by (simp add: apply_batch_Ok is_genesis_def is_batch_def is_scaling_def del: apply_in_era.simps)
  have "set (nodes sixteen) \<union> set (nodes sixteen_exchanged)
      = set [99, 16, 1, 2, 3, 4, 5, 6, 7, 8, 9, 10, 11, 12, 13, 14, 15]"
    by (simp add: sixteen_def sixteen_exchanged_def nodes_def) blast
  then have "card (set (nodes sixteen) \<union> set (nodes sixteen_exchanged)) = 17"
    using distinct_card [of "[99, 16, 1, 2, 3, 4, 5, 6, 7, 8, 9, 10, 11, 12, 13, 14, 15] :: node_id list"] by simp
  then show "\<not> card (set (nodes sixteen) \<union> set (nodes sixteen_exchanged)) \<le> MAX_MEMBERS"
    by (simp add: MAX_MEMBERS_def)
qed (simp add: sixteen_def)

theorem weighted_majority_closed_witness:
  "validate_era weighted_majority sixteen_exchanged = Some (Ok ())
   \<and> validate_transition weighted_majority sixteen sixteen_exchanged = Some (Err (GateCapExceeded MAX_MEMBERS))"
  using weighted_majority_closed [OF sixteen_samples(1-3)] sixteen_samples(4) by simp

text \<open>The gate never reaches its \<open>unreachable!\<close>, whatever the strategy: on well-formed
  configurations both gates answer.\<close>

theorem gates_always_answer:
  assumes "wf_config c" "wf_config d"
  shows "validate_era is_quorum c \<noteq> None \<and> validate_transition is_quorum c d \<noteq> None"
proof -
  note wf = assms [THEN wf_config_members]
  have "validate_era is_quorum c \<noteq> None"
    using wf_nodes [OF wf(1)] wf(1)
    by (simp add: validate_era_def Let_def nodes_def [symmetric] refuse_disjoint_total find_disjoint_pair_total)
  moreover have "validate_transition is_quorum c d \<noteq> None"
    using wf both_memberships(1) [of c d]
    by (simp add: validate_transition_def Let_def both_memberships_fold MAX_MEMBERS_def
        refuse_disjoint_total find_disjoint_pair_total del: not_None_eq)
  ultimately show ?thesis ..
qed

theorem gates_always_answer_witness:
  "validate_era weighted_majority with_learner \<noteq> None
   \<and> validate_transition weighted_majority with_learner promoted \<noteq> None"
  by (rule gates_always_answer [OF wf_samples(2,3)])

definition era_witness :: "strategy \<Rightarrow> configuration \<Rightarrow> quorum_error \<Rightarrow> bool" where
  "era_witness is_quorum c e =
     (let shown = (\<lambda>a b S T. minimal_quorum (is_quorum a c) (nodes c) S
                           \<and> minimal_quorum (is_quorum b c) (nodes c) T \<and> set S \<inter> set T = {})
      in case e of
           R1Violation S T \<Rightarrow> shown Commit ViewChange S T
         | SelfIntersectionViolation r S T \<Rightarrow> r = ViewChange \<and> shown ViewChange ViewChange S T
         | FenceRestartViolation S T \<Rightarrow> shown Fence Restart S T
         | _ \<Rightarrow> False)"

text \<open>A refusal of the era gate names the obligation and shows it: two disjoint quorums of the
  claimed families, each with no proper subset that is one, for any strategy at all.\<close>

theorem era_refusal_shows_disjoint_quorums:
  assumes "wf_config c" "validate_era is_quorum c = Some (Err e)"
  shows "era_witness is_quorum c e"
proof -
  note wf = assms(1) [THEN wf_config_members]
  note pair = find_disjoint_pair_Some [OF wf_nodes [OF wf, THEN conjunct1] wf_nodes [OF wf, THEN conjunct2]]
  show ?thesis
    using assms(2) wf
    by (auto simp: validate_era_def Let_def nodes_def [symmetric] refuse_disjoint_def era_witness_def
        split: option.splits prod.splits dest!: pair)
qed

text \<open>A policy under which any one member decides.\<close>

definition any_one :: strategy where
  "any_one r c ns \<longleftrightarrow> distinct ns \<and> ns \<noteq> [] \<and> set ns \<subseteq> set (nodes c)"

theorem era_refusal_shows_disjoint_quorums_witness:
  "era_witness any_one three_voters (R1Violation [10] [20])"
proof (rule era_refusal_shows_disjoint_quorums [OF wf_samples(1)])
  show "validate_era any_one three_voters = Some (Err (R1Violation [10] [20]))"
    by code_simp
qed


section \<open>Pivots\<close>

lemma distinct_singleton: "distinct ys \<Longrightarrow> ys = [x] \<longleftrightarrow> set ys = {x}"
  by (cases ys; cases "tl ys") auto

lemma validate_pivot_iff:
  "validate_pivot is_quorum c d leader p = Ok () \<longleftrightarrow>
     distinct (q_i p) \<and> distinct (q_ii p) \<and> set (q_i p) \<inter> set (q_ii p) = {leader}
     \<and> is_quorum ViewChange c (q_i p) \<and> is_quorum Commit c (q_ii p) \<and> is_quorum Commit d (q_ii p)"
proof (cases "distinct (q_i p) \<and> distinct (q_ii p)")
  case True
  then have "filter (\<lambda>node. node \<in> set (q_ii p)) (q_i p) = [leader] \<longleftrightarrow> set (q_i p) \<inter> set (q_ii p) = {leader}"
    by (subst distinct_singleton) auto
  with True show ?thesis
    by (auto simp: validate_pivot_def first_duplicate_Nil [THEN iffD2])
next
  case False
  then show ?thesis
    by (auto simp: validate_pivot_def simp flip: first_duplicate_Nil split: option.splits)
qed

text \<open>A host's pivot passes exactly when it satisfies the pivot condition of the protocol: two
  duplicate-free sets that share the leader and nobody else, the first a view-change quorum of the
  current era and the second a commit quorum of both eras.\<close>

theorem validate_pivot_decides:
  "validate_pivot is_quorum c d leader p = Ok () \<longleftrightarrow>
     distinct (q_i p) \<and> distinct (q_ii p) \<and> set (q_i p) \<inter> set (q_ii p) = {leader}
     \<and> is_quorum ViewChange c (q_i p) \<and> is_quorum Commit c (q_ii p) \<and> is_quorum Commit d (q_ii p)"
  by (rule validate_pivot_iff)

text \<open>The constructed pivot satisfies the pivot condition and the unweighted cardinality rule:
  for any strategy, what \<open>construct_pivot\<close> returns passes \<open>validate_pivot\<close>, and the two sets
  cover both memberships.\<close>

theorem constructed_pivot_valid:
  assumes "construct_pivot is_quorum c d leader = Some p"
  shows "validate_pivot is_quorum c d leader p = Ok ()
    \<and> set (q_i p) \<union> set (q_ii p) = set (nodes c) \<union> set (nodes d)
    \<and> length (q_i p) + length (q_ii p) = card (set (nodes c) \<union> set (nodes d)) + 1"
proof -
  let ?U = "both_memberships c d"
  obtain m where m: "leader \<in> set (members_of ?U m)" "is_quorum Commit c (members_of ?U m)"
      "is_quorum Commit d (members_of ?U m)"
    and q: "q_ii p = members_of ?U m"
      "q_i p = remdups_adj (sort (filter (\<lambda>node. node \<notin> set (members_of ?U m)) ?U @ [leader]))"
      "is_quorum ViewChange c (q_i p)" "length (q_i p) + length (q_ii p) = length ?U + 1"
    using assms
    by (auto simp: construct_pivot_def Let_def both_memberships_fold split: if_splits dest!: first_some_SomeD)
  have U: "distinct ?U" "set ?U = set (nodes c) \<union> set (nodes d)" by (rule both_memberships)+
  have sub: "set (members_of ?U m) \<subseteq> set ?U" by (auto simp: set_members_of)
  have "set (q_i p) = (set ?U - set (q_ii p)) \<union> {leader}" by (auto simp: q)
  then have "set (q_i p) \<inter> set (q_ii p) = {leader}" "set (q_i p) \<union> set (q_ii p) = set ?U"
    using m(1) sub q(1) by auto
  moreover have "distinct (q_i p)" "distinct (q_ii p)"
    by (simp_all add: q distinct_remdups_adj_sorted distinct_members_of U(1))
  moreover have "length ?U = card (set ?U)" by (simp add: distinct_card U(1))
  ultimately show ?thesis
    using m q U(2) by (simp add: validate_pivot_iff)
qed

theorem constructed_pivot_valid_witness:
  "validate_pivot weighted_majority three_voters promoted 10 \<lparr>q_i = [10, 30], q_ii = [10, 20]\<rparr> = Ok ()"
proof -
  have "construct_pivot weighted_majority three_voters promoted 10 = Some \<lparr>q_i = [10, 30], q_ii = [10, 20]\<rparr>"
    by code_simp
  from constructed_pivot_valid [OF this] show ?thesis by simp
qed

end
