(* ===== verification/Era_Table.thy ===== *)
theory Era_Table
  imports Quorum_Theorems
begin

text \<open>
  The era table (\<open>src/configuration.rs\<close>: \<open>EraRecord\<close>, \<open>EraTable\<close>): the retained history of
  configurations, its lookup, its extension by a folded operation and the recorded pivot. A table is
  the list of its records, oldest first. \<open>EraTable::current\<close> expects the list not to be empty, which
  is part of the invariant \<open>wf_table\<close> every operation keeps; sharing through \<open>Arc\<close> is not visible
  in values.
\<close>

section \<open>The table\<close>

record era_record =
  er_era :: era
  er_config :: configuration
  er_total :: nat
  er_established_by :: slot
  er_operation :: sysop
  er_pivot :: "pivot option"

type_synonym era_table = "era_record list"

definition et_genesis :: era_table where
  "et_genesis = [\<lparr>er_era = 0, er_config = void_config, er_total = 0, er_established_by = SLOT_NONE,
                  er_operation = Void, er_pivot = None\<rparr>]"

definition et_current :: "era_table \<Rightarrow> era_record" where
  "et_current t = last t"

definition et_record :: "era_table \<Rightarrow> era \<Rightarrow> era_record option" where
  "et_record t e = find (\<lambda>r. er_era r = e) (rev t)"

definition with_transition_pivot :: "era_table \<Rightarrow> era \<Rightarrow> pivot \<Rightarrow> era_table option" where
  "with_transition_pivot t e p =
     (case position (\<lambda>r. er_era r = e) (rev t) of
        None \<Rightarrow> None
      | Some i \<Rightarrow> Some (rev ((rev t)[i := (rev t ! i)\<lparr>er_pivot := Some p\<rparr>])))"

definition et_extend :: "era_table \<Rightarrow> sysop \<Rightarrow> slot \<Rightarrow> config_error + era_table" where
  "et_extend t op at =
     rbind (apply_sysop (er_config (et_current t)) op at) (\<lambda>config.
       let era = cfg_era config;
           records = t @ [\<lparr>er_era = era, er_config = config, er_total = total config,
                           er_established_by = at, er_operation = op, er_pivot = None\<rparr>];
           cutoff = unat era - 1;
           first_kept = partition_point (\<lambda>r. unat (er_era r) < cutoff) records
       in Ok (drop first_kept records))"


section \<open>The invariant\<close>

definition wf_record :: "era_record \<Rightarrow> bool" where
  "wf_record r \<longleftrightarrow> wf_config (er_config r) \<and> er_era r = cfg_era (er_config r) \<and> er_total r = total (er_config r)"

definition folds_to :: "era_record \<Rightarrow> era_record \<Rightarrow> bool" where
  "folds_to r s \<longleftrightarrow> apply_sysop (er_config r) (er_operation s) (er_established_by s) = Ok (er_config s)"

text \<open>The records form one run of the fold that ends at the current era and reaches back to the era
  before it, and no further.\<close>

definition wf_table :: "era_table \<Rightarrow> bool" where
  "wf_table t \<longleftrightarrow> t \<noteq> [] \<and> list_all wf_record t \<and> successively folds_to t
     \<and> er_era ` set t = (if er_era (last t) = 0 then {0} else {er_era (last t) - 1, er_era (last t)})"

lemma apply_era_step:
  assumes "wf_config c" "apply_sysop c op at = Ok d"
  shows "(cfg_era c = 0 \<and> cfg_era d = 0) \<or> unat (cfg_era d) = unat (cfg_era c) + 1"
  using assms(2)
proof (cases rule: apply_sysop_cases)
  case void
  then show ?thesis using wf_config_nonempty [OF assms(1)] by (simp add: void_config_def)
next
  case (init order)
  then show ?thesis using wf_config_nonempty [OF assms(1)] by simp
next
  case (batch ops)
  then show ?thesis by (auto simp: apply_batch_Ok era_next_Some)
next
  case (single d e)
  then show ?thesis by (simp add: era_next_Some)
qed

lemma folds_to_step:
  "wf_record r \<Longrightarrow> wf_record s \<Longrightarrow> folds_to r s \<Longrightarrow>
   (er_era r = 0 \<and> er_era s = 0) \<or> unat (er_era s) = unat (er_era r) + 1"
  unfolding wf_record_def folds_to_def using apply_era_step by metis

lemma table_sorted:
  assumes "list_all wf_record t" "successively folds_to t"
  shows "sorted (map (unat \<circ> er_era) t)"
proof -
  have "successively (\<lambda>r s. unat (er_era r) \<le> unat (er_era s)) t"
  proof (rule successively_mono [OF assms(2)])
    fix r s assume "r \<in> set t" "s \<in> set t" "folds_to r s"
    then show "unat (er_era r) \<le> unat (er_era s)"
      using folds_to_step [of r s] assms(1) by (auto simp: list_all_iff)
  qed
  then have "sorted_wrt (\<lambda>r s. unat (er_era r) \<le> unat (er_era s)) t"
    by (subst (asm) successively_conv_sorted_wrt) (auto intro!: transpI)
  then show ?thesis by (simp add: sorted_map comp_def)
qed

lemma set_dropWhile_sorted:
  "sorted (map f xs) \<Longrightarrow> set (dropWhile (\<lambda>x. f x < k) xs) = {x \<in> set xs. k \<le> (f x :: nat)}"
  by (induction xs) auto

lemma successively_dropWhile: "successively P xs \<Longrightarrow> successively P (dropWhile Q xs)"
  using successively_append_iff [of P "takeWhile Q xs" "dropWhile Q xs"] by simp

lemma drop_partition_point: "drop (partition_point P xs) xs = dropWhile P xs"
  by (simp add: partition_point_def dropWhile_eq_drop)

lemma wf_genesis: "wf_table et_genesis"
  by (simp add: wf_table_def et_genesis_def wf_record_def wf_config_def void_config_def total_def)

lemma et_extend_wf:
  assumes wf: "wf_table t" and ok: "et_extend t op at = Ok t'"
  shows "wf_table t' \<and> apply_sysop (er_config (last t)) op at = Ok (er_config (last t'))
       \<and> er_operation (last t') = op \<and> er_established_by (last t') = at"
proof -
  obtain c where c: "apply_sysop (er_config (last t)) op at = Ok c"
    using ok by (auto simp: et_extend_def et_current_def)
  define new where "new = \<lparr>er_era = cfg_era c, er_config = c, er_total = total c,
                           er_established_by = at, er_operation = op, er_pivot = None\<rparr>"
  let ?cut = "unat (cfg_era c) - 1"
  let ?P = "\<lambda>r. unat (er_era r) < ?cut"
  have t': "t' = dropWhile ?P (t @ [new])"
    using ok c by (simp add: et_extend_def et_current_def Let_def drop_partition_point new_def)
  have last_wf: "wf_record (last t)" and nonempty: "t \<noteq> []"
    using wf by (auto simp: wf_table_def list_all_iff)
  have wf_new: "wf_record new" "folds_to (last t) new"
    using c last_wf apply_sysop_wf [of "er_config (last t)" op at c]
    by (auto simp: new_def wf_record_def folds_to_def)
  then have all: "list_all wf_record (t @ [new])" "successively folds_to (t @ [new])"
    using wf by (auto simp: wf_table_def successively_append_iff)
  have step: "(er_era (last t) = 0 \<and> er_era new = 0) \<or> unat (er_era new) = unat (er_era (last t)) + 1"
    by (rule folds_to_step [OF last_wf wf_new])
  have keep: "\<not> ?P new" by (simp add: new_def)
  then have last': "last t' = new" "t' \<noteq> []"
    using t' by (simp_all add: dropWhile_append)
  have sub: "set t' = {r \<in> set (t @ [new]). ?cut \<le> unat (er_era r)}"
    unfolding t' using set_dropWhile_sorted [OF table_sorted [OF all], of ?cut] by (simp add: comp_def)
  then have eras: "er_era ` set t' = {e \<in> er_era ` set (t @ [new]). ?cut \<le> unat e}"
    by auto
  have "er_era ` set (t @ [new]) = insert (er_era new) (er_era ` set t)" by simp
  also have "\<dots> = insert (er_era new) (if er_era (last t) = 0 then {0} else {er_era (last t) - 1, er_era (last t)})"
    using wf by (simp add: wf_table_def)
  finally have eras2: "er_era ` set t' = {e \<in> insert (er_era new)
      (if er_era (last t) = 0 then {0} else {er_era (last t) - 1, er_era (last t)}). ?cut \<le> unat e}"
    using eras by simp
  have cut: "?cut = unat (er_era new) - 1" by (simp add: new_def)
  have "er_era ` set t' = (if er_era new = 0 then {0} else {er_era new - 1, er_era new})"
    using step
  proof
    assume "er_era (last t) = 0 \<and> er_era new = 0"
    then show ?thesis using eras2 cut by auto
  next
    assume s: "unat (er_era new) = unat (er_era (last t)) + 1"
    then have n: "er_era new \<noteq> 0" by auto
    then have "unat (er_era new - 1) = unat (er_era (last t))"
      using s by (simp add: unat_minus_one)
    then have p: "er_era new - 1 = er_era (last t)" by (simp add: word_unat_eq_iff)
    have "unat (er_era (last t) - 1) < unat (er_era (last t))" if "er_era (last t) \<noteq> 0"
      using that by (simp add: unat_minus_one unat_gt_0)
    then show ?thesis using eras2 cut s n p by auto
  qed
  moreover have "list_all wf_record t'" "successively folds_to t'"
    using all sub by (auto simp: list_all_iff t' successively_dropWhile)
  ultimately show ?thesis
    using last' c by (simp add: wf_table_def new_def)
qed

section \<open>Lookup\<close>

lemma et_record_None: "et_record t e = None \<longleftrightarrow> e \<notin> er_era ` set t"
  by (auto simp: et_record_def find_None_iff)

lemma et_record_SomeD: "et_record t e = Some r \<Longrightarrow> r \<in> set t \<and> er_era r = e"
  unfolding et_record_def find_Some_iff by (metis length_rev nth_mem set_rev)

lemma et_record_current: "t \<noteq> [] \<Longrightarrow> et_record t (er_era (last t)) = Some (last t)"
  by (cases t rule: rev_cases) (simp_all add: et_record_def)

text \<open>A record that is not the first follows its predecessor; two records of one era agree, and the
  records of consecutive eras are consecutive in the fold.\<close>

lemma wf_table_step:
  assumes "wf_table t" "Suc i < length t"
  shows "folds_to (t ! i) (t ! Suc i)"
    and "(er_era (t ! i) = 0 \<and> er_era (t ! Suc i) = 0) \<or> unat (er_era (t ! Suc i)) = unat (er_era (t ! i)) + 1"
proof -
  show *: "folds_to (t ! i) (t ! Suc i)"
    using assms by (simp add: wf_table_def successively_conv_nth)
  show "(er_era (t ! i) = 0 \<and> er_era (t ! Suc i) = 0) \<or> unat (er_era (t ! Suc i)) = unat (er_era (t ! i)) + 1"
    using assms by (intro folds_to_step [OF _ _ *]) (auto simp: wf_table_def list_all_length)
qed

lemma wf_table_nth_mono:
  assumes "wf_table t" "i \<le> j" "j < length t"
  shows "unat (er_era (t ! i)) \<le> unat (er_era (t ! j))"
  using table_sorted [of t] assms by (auto simp: wf_table_def sorted_iff_nth_mono)

lemma wf_table_record: "wf_table t \<Longrightarrow> r \<in> set t \<Longrightarrow> wf_record r"
  by (simp add: wf_table_def list_all_iff)

lemma wf_record_era_0: "wf_record r \<Longrightarrow> er_era r = 0 \<Longrightarrow> er_config r = void_config"
  using wf_config_nonempty by (auto simp: wf_record_def wf_config_def)

lemma wf_table_same_era:
  assumes wf: "wf_table t" and "r \<in> set t" "s \<in> set t" and e: "er_era r = er_era s"
  shows "er_config r = er_config s"
proof (cases "er_era s = 0")
  case True
  then show ?thesis
    using e wf_record_era_0 wf_table_record [OF wf assms(2)] wf_table_record [OF wf assms(3)] by simp
next
  case False
  have no: False if ij: "i < j" "j < length t" "er_era (t ! i) = er_era s" "er_era (t ! j) = er_era s" for i j
  proof -
    obtain k where k: "j = Suc k" "i \<le> k" using ij(1) by (cases j) auto
    then have "unat (er_era (t ! k)) = unat (er_era s)"
      using wf_table_nth_mono [OF wf, of i k] wf_table_nth_mono [OF wf, of k j] ij by simp
    moreover have "unat (er_era (t ! j)) = unat (er_era s)" "er_era (t ! k) \<noteq> 0"
      using ij False calculation by (auto simp: word_eq_nat)
    ultimately show False using wf_table_step(2) [OF wf, of k] k(1) ij(2) by simp
  qed
  obtain i j where "i < length t" "j < length t" "r = t ! i" "s = t ! j"
    using assms(2,3) by (auto simp: in_set_conv_nth)
  moreover from this have "\<not> i < j" "\<not> j < i" using no [of i j] no [of j i] e by metis+
  ultimately show ?thesis by (metis nat_neq_iff)
qed

lemma wf_table_pairs:
  assumes wf: "wf_table t" and "r \<in> set t" "s \<in> set t" and e: "unat (er_era s) = unat (er_era r) + 1"
  shows "\<exists>op at. apply_sysop (er_config r) op at = Ok (er_config s)"
proof -
  obtain i j where ij: "i < length t" "j < length t" "r = t ! i" "s = t ! j"
    using assms(2,3) by (auto simp: in_set_conv_nth)
  have "i < j" using wf_table_nth_mono [OF wf, of j i] ij e by (cases "i < j") auto
  then obtain k where k: "j = Suc k" by (cases j) auto
  then have f: "folds_to (t ! k) s" and "unat (er_era (t ! k)) = unat (er_era r) \<or> unat (er_era s) = 0"
    using wf_table_step [OF wf, of k] ij e by auto
  then have "er_era (t ! k) = er_era r" using e by (simp add: word_unat_eq_iff)
  moreover have "t ! k \<in> set t" using ij(2) k by simp
  ultimately have "er_config (t ! k) = er_config r"
    using wf_table_same_era [OF wf _ assms(2)] by blast
  then show ?thesis using f unfolding folds_to_def by metis
qed

lemma weighted_majority_void: "\<not> weighted_majority r void_config ns"
  by (simp add: weighted_majority_iff void_config_def nodes_def set_mass_def)

lemma consecutive_intersect:
  assumes "wf_config c" "apply_sysop c op at = Ok d"
  shows "families_intersect weighted_majority (a, c) (b, d)"
proof (cases "cfg_order c = []")
  case True
  then have "c = void_config" using assms(1) by (auto simp: wf_config_def dest: live_nonempty)
  then show ?thesis by (simp add: families_intersect_def weighted_majority_void)
next
  case False
  then show ?thesis
    using assms apply_sysop_close apply_sysop_wf wf_config_members weighted_intersect by metis
qed


text \<open>Every table the fold reaches is well formed.\<close>

definition et_run :: "(sysop \<times> slot) list \<Rightarrow> config_error + era_table" where
  "et_run ops = rfold (\<lambda>t (op, at). et_extend t op at) et_genesis ops"

lemma et_run_wf: "et_run ops = Ok t \<Longrightarrow> wf_table t"
  unfolding et_run_def by (erule rfold_invariant) (auto simp: wf_genesis dest: et_extend_wf)

definition sample_table :: era_table where
  "sample_table =
     [\<lparr>er_era = 1, er_config = three_voters, er_total = 3, er_established_by = 2,
       er_operation = Init [10, 20, 30], er_pivot = None\<rparr>,
      \<lparr>er_era = 2, er_config = promoted, er_total = 4, er_established_by = 5,
       er_operation = Increment 10, er_pivot = None\<rparr>]"

lemma sample_table_wf: "wf_table sample_table"
proof -
  note eval = et_extend_def et_current_def void_config_def Let_def partition_point_def total_def
  have 1: "et_extend et_genesis (Init [10, 20, 30]) 2 = Ok (et_genesis @ [sample_table ! 0])"
    by (simp add: eval et_genesis_def INIT_SLOT_def MAX_MEMBERS_def sample_table_def three_voters_def)
  have "apply_sysop three_voters (Increment 10) 5 = Ok promoted" by (rule apply_samples)
  then have 2: "et_extend (et_genesis @ [sample_table ! 0]) (Increment 10) 5 = Ok sample_table"
    by (simp add: et_extend_def et_current_def Let_def partition_point_def total_def et_genesis_def
        sample_table_def del: apply_sysop.simps) (simp add: promoted_def)
  show ?thesis
    by (rule et_run_wf [of "[(Init [10, 20, 30], 2), (Increment 10, 5)]"])
       (simp add: et_run_def 1 2)
qed

lemma sample_lookup:
  "et_record sample_table 1 = Some (sample_table ! 0)" "et_record sample_table 2 = Some (sample_table ! 1)"
  by (simp_all add: et_record_def sample_table_def)


section \<open>Properties of the table\<close>

text \<open>C29. Extending a well-formed table gives a well-formed table, and the current configuration of
  the table is a functional refinement of the fold: the table accepts an operation exactly when the
  fold does, with the same refusal, and its current record then holds what the fold produced.\<close>

theorem et_extend_refines_fold:
  assumes "wf_table t"
  shows "(\<forall>t'. et_extend t op at = Ok t' \<longrightarrow> wf_table t')
    \<and> rbind (et_extend t op at) (\<lambda>t'. Ok (er_config (et_current t')))
      = apply_sysop (er_config (et_current t)) op at"
proof -
  have "rbind (et_extend t op at) (\<lambda>t'. Ok (er_config (et_current t')))
      = apply_sysop (er_config (et_current t)) op at"
  proof (cases "et_extend t op at")
    case (Inl e)
    then show ?thesis by (auto simp: et_extend_def Let_def)
  next
    case (Inr t')
    then show ?thesis using et_extend_wf [OF assms Inr] by (simp add: et_current_def)
  qed
  then show ?thesis using et_extend_wf [OF assms] by blast
qed

theorem et_extend_refines_fold_witness:
  "rbind (et_extend sample_table (Join 40 0) 9) (\<lambda>t'. Ok (er_config (et_current t')))
    = apply_sysop (er_config (et_current sample_table)) (Join 40 0) 9"
  using et_extend_refines_fold [OF sample_table_wf] by blast

text \<open>The retention window is exactly the current era and the one before it: those two are
  resident, nothing else is, and the lookup answers with a record of the era asked for.\<close>

theorem retention_window:
  assumes "wf_table t"
  shows "(et_record t e \<noteq> None \<longleftrightarrow>
            unat e \<le> unat (er_era (et_current t)) \<and> unat (er_era (et_current t)) \<le> unat e + 1)
    \<and> (\<forall>r. et_record t e = Some r \<longrightarrow> er_era r = e \<and> cfg_era (er_config r) = e
            \<and> er_total r = total (er_config r))
    \<and> et_record t (er_era (et_current t)) = Some (et_current t)"
proof -
  let ?k = "er_era (last t)"
  have "e \<in> er_era ` set t \<longleftrightarrow> unat e \<le> unat ?k \<and> unat ?k \<le> unat e + 1"
  proof (cases "?k = 0")
    case True
    then show ?thesis using assms by (auto simp: wf_table_def word_eq_nat)
  next
    case False
    then have "unat (?k - 1) + 1 = unat ?k"
      by (simp add: unat_minus_one unat_gt_0)
    then show ?thesis using assms False by (auto simp: wf_table_def word_eq_nat)
  qed
  moreover have "er_era r = e \<and> cfg_era (er_config r) = e \<and> er_total r = total (er_config r)"
    if "et_record t e = Some r" for r
    using et_record_SomeD [OF that] wf_table_record [OF assms, of r] by (auto simp: wf_record_def)
  moreover have "t \<noteq> []" using assms by (simp add: wf_table_def)
  ultimately show ?thesis
    using et_record_None [of t e] et_record_current [of t] by (auto simp: et_current_def)
qed

theorem retention_window_witness:
  "et_record sample_table 1 \<noteq> None \<and> et_record sample_table 0 = None"
  using retention_window [OF sample_table_wf, of 1] retention_window [OF sample_table_wf, of 0]
  by (simp add: et_current_def sample_table_def)

lemma resident_families:
  assumes "wf_table t" "et_record t e = Some r" "et_record t e' = Some s"
  shows "families_intersect weighted_majority (a, er_config r) (b, er_config s)"
proof -
  have r: "r \<in> set t" "er_era r = e" and s: "s \<in> set t" "er_era s = e'"
    using assms(2,3) et_record_SomeD by blast+
  note wfr = wf_table_record [OF assms(1) r(1)] wf_table_record [OF assms(1) s(1)]
  have window: "er_era ` set t = (if er_era (last t) = 0 then {0} else {er_era (last t) - 1, er_era (last t)})"
    using assms(1) by (simp add: wf_table_def)
  have prev: "unat (x :: era) = unat (x - 1) + 1" if "x \<noteq> 0" for x
    using that by (simp add: unat_minus_one unat_gt_0)
  have "er_era r \<in> er_era ` set t" "er_era s \<in> er_era ` set t" using r s by auto
  then consider "er_era r = er_era s" | "unat (er_era s) = unat (er_era r) + 1"
    | "unat (er_era r) = unat (er_era s) + 1"
    using window prev [of "er_era (last t)"] by (auto split: if_splits)
  then show ?thesis
  proof cases
    case 1
    then have "er_config r = er_config s" using wf_table_same_era [OF assms(1) r(1) s(1)] by simp
    then show ?thesis
      using weighted_intersect wf_config_members close_weights_refl wfr by (metis wf_record_def)
  next
    case 2
    then show ?thesis
      using wf_table_pairs [OF assms(1) r(1) s(1)] consecutive_intersect wfr by (metis wf_record_def)
  next
    case 3
    then show ?thesis
      using wf_table_pairs [OF assms(1) s(1) r(1)] consecutive_intersect wfr families_intersect_commute
      by (metis wf_record_def)
  qed
qed

text \<open>C7. Whatever two eras a well-formed table can evaluate, their weighted majorities intersect:
  no two quorums, of any roles, under any two resident eras are disjoint.\<close>

theorem resident_eras_intersect:
  assumes "wf_table t" "et_record t e = Some r" "et_record t e' = Some s"
    and "weighted_majority a (er_config r) Q" "weighted_majority b (er_config s) R"
  shows "\<exists>n. n \<in> set Q \<and> n \<in> set R"
proof -
  have "set Q \<inter> set R \<noteq> {}"
    using resident_families [OF assms(1-3), of a b] assms(4,5) unfolding families_intersect_def by simp
  then show ?thesis by blast
qed

theorem resident_eras_intersect_witness:
  "\<exists>n. n \<in> set [20, 30] \<and> n \<in> set [10, 30 :: node_id]"
proof (rule resident_eras_intersect [OF sample_table_wf sample_lookup])
  show "weighted_majority ViewChange (er_config (sample_table ! 0)) [20, 30]"
    "weighted_majority Commit (er_config (sample_table ! 1)) [10, 30]"
    by code_simp+
qed

lemma find_position: "find P xs = map_option ((!) xs) (position P xs)"
  by (induction xs) (auto simp: option.map_comp comp_def)

lemma find_update_position:
  assumes "position P xs = Some i"
  shows "find P (xs[i := x]) = (if P x then Some x else find P (drop (Suc i) xs))"
    and "(\<And>y. Q y \<Longrightarrow> \<not> P y) \<Longrightarrow> \<not> Q x \<Longrightarrow> find Q (xs[i := x]) = find Q xs"
  using assms
  by (induction xs arbitrary: i) (auto split: if_splits)

lemma wf_table_cong:
  assumes "map (er_pivot_update (\<lambda>_. None)) t = map (er_pivot_update (\<lambda>_. None)) t'"
  shows "wf_table t = wf_table t'"
proof -
  let ?strip = "er_pivot_update (\<lambda>_. None)"
  have "wf_table t = wf_table (map ?strip t)" for t
    by (cases "t = []")
       (simp_all add: wf_table_def list_all_iff successively_map wf_record_def folds_to_def image_image last_map)
  then show ?thesis using assms by metis
qed

text \<open>Recording the pivot of a transition changes the latest record of its era and nothing else:
  it is refused exactly outside the window, every other lookup answers as before, and the table stays
  well formed.\<close>

lemma transition_pivot_recorded:
  assumes "wf_table t"
  shows "(with_transition_pivot t e p = None \<longleftrightarrow> et_record t e = None)
    \<and> (\<forall>t'. with_transition_pivot t e p = Some t' \<longrightarrow>
         wf_table t' \<and> (\<forall>e'. et_record t' e' =
           (if e' = e then map_option (er_pivot_update (\<lambda>_. Some p)) (et_record t e) else et_record t e')))"
proof (cases "position (\<lambda>r. er_era r = e) (rev t)")
  case None
  have "with_transition_pivot t e p = None" "et_record t e = None"
    unfolding with_transition_pivot_def et_record_def find_position None by simp_all
  then show ?thesis by simp
next
  case (Some i)
  let ?r = "(rev t ! i)\<lparr>er_pivot := Some p\<rparr>"
  have i: "i < length t" "er_era (rev t ! i) = e"
    using position_SomeD [OF Some] by auto
  have t': "with_transition_pivot t e p = Some (rev ((rev t)[i := ?r]))"
    using Some by (simp add: with_transition_pivot_def)
  have look: "et_record (rev ((rev t)[i := ?r])) e' =
      (if e' = e then map_option (er_pivot_update (\<lambda>_. Some p)) (et_record t e) else et_record t e')" for e'
    using find_update_position(1) [OF Some, of ?r] find_update_position(2) [OF Some, of "\<lambda>r. er_era r = e'" ?r] i(2)
    by (simp add: et_record_def find_position [of _ "rev t"] Some)
  have "map (er_pivot_update (\<lambda>_. None)) ((rev t)[i := ?r]) = map (er_pivot_update (\<lambda>_. None)) (rev t)"
    using i(1) by (simp add: map_update list_update_same_conv)
  then have "wf_table (rev ((rev t)[i := ?r]))"
    using assms wf_table_cong [of "rev ((rev t)[i := ?r])" t] by (metis rev_map rev_rev_ident)
  then show ?thesis using t' look Some by (simp add: et_record_def find_position)
qed

end
