(* ===== verification/Progress.thy ===== *)
theory Progress
  imports Era_Table
begin

text \<open>
  The progress record (\<open>src/progress.rs\<close>): the status, the record of frontiers, views, revision,
  configuration history and fault, the invariant \<open>check\<close> that every constructor and transition
  runs on its result, the transitions \<open>with_*\<close>, and the flat snapshot.
\<close>

section \<open>Status\<close>

datatype status = St_Normal | St_ViewChange | St_Restarting | St_Joining | St_Replaying

fun to_word :: "status \<Rightarrow> u32" where
  "to_word St_Normal = 0"
| "to_word St_ViewChange = 1"
| "to_word St_Restarting = 2"
| "to_word St_Joining = 4"
| "to_word St_Replaying = 3"

fun status_name :: "status \<Rightarrow> string" where
  "status_name St_Normal = ''normal''"
| "status_name St_ViewChange = ''view_change''"
| "status_name St_Restarting = ''restarting''"
| "status_name St_Replaying = ''replaying''"
| "status_name St_Joining = ''joining''"

definition from_word :: "u32 \<Rightarrow> status option" where
  "from_word w =
     (if w = 0 then Some St_Normal
      else if w = 1 then Some St_ViewChange
      else if w = 2 then Some St_Restarting
      else if w = 3 then Some St_Replaying
      else if w = 4 then Some St_Joining
      else None)"

lemma from_word_iff: "from_word w = Some s \<longleftrightarrow> w = to_word s"
  by (cases s) (auto simp: from_word_def)


section \<open>The record\<close>

record progress =
  p_current :: ballot
  p_retained :: ballot
  p_status :: status
  p_accepted :: slot
  p_committed :: slot
  p_applied :: slot
  p_checkpoint :: slot
  p_revision :: u64
  p_config :: era_table
  p_fault :: "fault option"

datatype progress_error =
    FrontierChain
  | FrontierRegress
  | StatusViewRelation
  | ViewSuccessor
  | AlreadyFaulted fault
  | EraSlotDiscipline
  | ConfigRegress
  | RevisionExhausted

record progress_snapshot =
  ps_era :: u32
  ps_view :: u32
  ps_retained_era :: u32
  ps_retained_view :: u32
  ps_status :: u32
  ps_faulted :: bool
  ps_accepted :: u64
  ps_committed :: u64
  ps_applied :: u64
  ps_checkpoint :: u64
  ps_revision :: u64

definition era_of_slot :: "era_table \<Rightarrow> slot \<Rightarrow> era option" where
  "era_of_slot t s =
     (let current = et_current t
      in if er_established_by current \<le> s then Some (er_era current)
         else case checked_sub (er_era current) 1 of
                None \<Rightarrow> None
              | Some previous \<Rightarrow>
                  (case et_record t previous of
                     None \<Rightarrow> None
                   | Some r \<Rightarrow> if er_established_by r \<le> s then Some (er_era r) else None))"

definition check_frontier_chain :: "progress \<Rightarrow> progress_error + unit" where
  "check_frontier_chain p =
     (if p_checkpoint p \<le> p_applied p \<and> p_applied p \<le> p_committed p \<and> p_committed p \<le> p_accepted p
      then Ok () else Err FrontierChain)"

definition check_status_relation :: "progress \<Rightarrow> progress_error + unit" where
  "check_status_relation p =
     (let holds = (case p_status p of
                     St_Normal \<Rightarrow> p_current p = p_retained p
                   | St_ViewChange \<Rightarrow> p_current p \<ge> p_retained p
                   | St_Restarting \<Rightarrow> True
                   | St_Joining \<Rightarrow> True
                   | St_Replaying \<Rightarrow> True)
      in if holds then Ok () else Err StatusViewRelation)"

definition check_era_discipline :: "progress \<Rightarrow> progress_error + unit" where
  "check_era_discipline p =
     rbind (ok_or (era_of_slot (p_config p) (p_accepted p)) EraSlotDiscipline) (\<lambda>era_accepted.
       if era_accepted = b_era (p_current p) \<or> era_next (b_era (p_current p)) = Some era_accepted
       then Ok () else Err EraSlotDiscipline)"

definition check :: "progress \<Rightarrow> progress_error + unit" where
  "check p = rbind (check_frontier_chain p) (\<lambda>_.
             rbind (check_status_relation p) (\<lambda>_. check_era_discipline p))"

definition reconstitute ::
    "ballot \<Rightarrow> ballot \<Rightarrow> status \<Rightarrow> slot \<Rightarrow> slot \<Rightarrow> slot \<Rightarrow> slot \<Rightarrow> u64 \<Rightarrow> era_table \<Rightarrow> fault option \<Rightarrow>
     progress_error + progress" where
  "reconstitute current retained st accepted committed applied ckpt revision config fault =
     (let p = \<lparr>p_current = current, p_retained = retained, p_status = st, p_accepted = accepted,
               p_committed = committed, p_applied = applied, p_checkpoint = ckpt,
               p_revision = revision, p_config = config, p_fault = fault\<rparr>
      in rbind (check p) (\<lambda>_. Ok p))"

definition genesis :: "era_table \<Rightarrow> progress_error + progress" where
  "genesis config =
     reconstitute BALLOT_INITIAL BALLOT_INITIAL St_Joining SLOT_NONE SLOT_NONE SLOT_NONE SLOT_NONE 0 config None"

definition to_progress_snapshot :: "progress \<Rightarrow> progress_snapshot" where
  "to_progress_snapshot p =
     \<lparr>ps_era = b_era (p_current p), ps_view = b_view (p_current p),
      ps_retained_era = b_era (p_retained p), ps_retained_view = b_view (p_retained p),
      ps_status = to_word (p_status p), ps_faulted = (p_fault p \<noteq> None),
      ps_accepted = p_accepted p, ps_committed = p_committed p, ps_applied = p_applied p,
      ps_checkpoint = p_checkpoint p, ps_revision = p_revision p\<rparr>"


section \<open>Transitions\<close>

definition refuse_if_faulted :: "progress \<Rightarrow> progress_error + unit" where
  "refuse_if_faulted p = (case p_fault p of Some f \<Rightarrow> Err (AlreadyFaulted f) | None \<Rightarrow> Ok ())"

definition transition :: "progress \<Rightarrow> (progress \<Rightarrow> progress) \<Rightarrow> progress_error + progress" where
  "transition p change =
     rbind (refuse_if_faulted p) (\<lambda>_.
     rbind (ok_or (checked_add (p_revision p) 1) RevisionExhausted) (\<lambda>revision.
     (let next = (change p)\<lparr>p_revision := revision\<rparr>
      in rbind (check next) (\<lambda>_. Ok next))))"

definition with_accepted :: "progress \<Rightarrow> slot \<Rightarrow> progress_error + progress" where
  "with_accepted p s = rbind (refuse_if_faulted p) (\<lambda>_.
     if s < p_accepted p then Err FrontierRegress else transition p (p_accepted_update (\<lambda>_. s)))"

definition with_committed :: "progress \<Rightarrow> slot \<Rightarrow> progress_error + progress" where
  "with_committed p s = rbind (refuse_if_faulted p) (\<lambda>_.
     if s < p_committed p then Err FrontierRegress else transition p (p_committed_update (\<lambda>_. s)))"

definition with_applied :: "progress \<Rightarrow> slot \<Rightarrow> progress_error + progress" where
  "with_applied p s = rbind (refuse_if_faulted p) (\<lambda>_.
     if s < p_applied p then Err FrontierRegress else transition p (p_applied_update (\<lambda>_. s)))"

definition with_checkpoint :: "progress \<Rightarrow> slot \<Rightarrow> progress_error + progress" where
  "with_checkpoint p s = rbind (refuse_if_faulted p) (\<lambda>_.
     if s < p_checkpoint p then Err FrontierRegress else transition p (p_checkpoint_update (\<lambda>_. s)))"

definition with_view_change :: "progress \<Rightarrow> ballot \<Rightarrow> progress_error + progress" where
  "with_view_change p target = rbind (refuse_if_faulted p) (\<lambda>_.
     if \<not> is_legal_successor (p_current p) target then Err ViewSuccessor
     else transition p (\<lambda>n. n\<lparr>p_current := target, p_status := St_ViewChange\<rparr>))"

definition with_view_installed :: "progress \<Rightarrow> ballot \<Rightarrow> slot \<Rightarrow> progress_error + progress" where
  "with_view_installed p view accepted = rbind (refuse_if_faulted p) (\<lambda>_.
     if view \<noteq> p_current p \<and> \<not> is_legal_successor (p_current p) view then Err ViewSuccessor
     else transition p (\<lambda>n. n\<lparr>p_current := view, p_retained := view, p_status := St_Normal,
                              p_accepted := accepted\<rparr>))"

definition with_status :: "progress \<Rightarrow> status \<Rightarrow> progress_error + progress" where
  "with_status p st = rbind (refuse_if_faulted p) (\<lambda>_. transition p (p_status_update (\<lambda>_. st)))"

definition with_config :: "progress \<Rightarrow> era_table \<Rightarrow> progress_error + progress" where
  "with_config p config = rbind (refuse_if_faulted p) (\<lambda>_.
     if er_era (et_current config) < er_era (et_current (p_config p)) then Err ConfigRegress
     else transition p (p_config_update (\<lambda>_. config)))"

definition with_fault :: "progress \<Rightarrow> fault \<Rightarrow> progress_error + progress" where
  "with_fault p f = rbind (refuse_if_faulted p) (\<lambda>_. transition p (p_fault_update (\<lambda>_. Some f)))"


section \<open>What a transition guarantees\<close>

named_theorems progress_simps

lemma refuse_if_faulted_Ok [progress_simps]: "refuse_if_faulted p = Ok u \<longleftrightarrow> p_fault p = None"
  by (auto simp: refuse_if_faulted_def split: option.splits)

lemma transition_Ok [progress_simps]:
  "transition p change = Ok p' \<longleftrightarrow>
     p_fault p = None \<and> (\<exists>r. unat r = unat (p_revision p) + 1 \<and> p' = (change p)\<lparr>p_revision := r\<rparr>) \<and> check p' = Ok ()"
  by (auto simp: transition_def progress_simps Let_def checked_add_eq_Some)

lemma check_Ok:
  "check p = Ok () \<longleftrightarrow>
     (p_checkpoint p \<le> p_applied p \<and> p_applied p \<le> p_committed p \<and> p_committed p \<le> p_accepted p)
     \<and> (p_status p = St_Normal \<longrightarrow> p_current p = p_retained p)
     \<and> (p_status p = St_ViewChange \<longrightarrow> p_current p \<ge> p_retained p)
     \<and> (\<exists>e. era_of_slot (p_config p) (p_accepted p) = Some e
          \<and> (e = b_era (p_current p) \<or> era_next (b_era (p_current p)) = Some e))"
  by (cases "p_status p")
     (auto simp: check_def check_frontier_chain_def check_status_relation_def check_era_discipline_def Let_def)

text \<open>The transitions as one step, so that statements about all of them are stated once.\<close>

datatype change =
    Accept slot
  | CommitTo slot
  | ApplyTo slot
  | CheckpointTo slot
  | EnterView ballot
  | Install ballot slot
  | SetStatus status
  | SetConfig era_table
  | SetFault fault

fun progress_step :: "progress \<Rightarrow> change \<Rightarrow> progress_error + progress" where
  "progress_step p (Accept s) = with_accepted p s"
| "progress_step p (CommitTo s) = with_committed p s"
| "progress_step p (ApplyTo s) = with_applied p s"
| "progress_step p (CheckpointTo s) = with_checkpoint p s"
| "progress_step p (EnterView b) = with_view_change p b"
| "progress_step p (Install b s) = with_view_installed p b s"
| "progress_step p (SetStatus st) = with_status p st"
| "progress_step p (SetConfig t) = with_config p t"
| "progress_step p (SetFault f) = with_fault p f"

lemmas with_defs = with_accepted_def with_committed_def with_applied_def with_checkpoint_def
  with_view_change_def with_view_installed_def with_status_def with_config_def with_fault_def

lemma progress_step_facts:
  assumes "progress_step p ch = Ok p'"
  shows "p_fault p = None" "check p' = Ok ()" "unat (p_revision p') = unat (p_revision p) + 1"
    "p_committed p \<le> p_committed p'" "p_applied p \<le> p_applied p'" "p_checkpoint p \<le> p_checkpoint p'"
    "p_current p' = p_current p \<or> is_legal_successor (p_current p) (p_current p')"
    "er_era (et_current (p_config p)) \<le> er_era (et_current (p_config p'))"
    "p_accepted p \<le> p_accepted p' \<or> (\<exists>b. ch = Install b (p_accepted p'))"
    "p_retained p' = p_retained p \<or> (\<exists>s. ch = Install (p_current p') s) \<and> p_status p' = St_Normal"
  using assms by (cases ch; auto simp: with_defs progress_simps not_less split: if_splits)+

lemma genesis_Ok: "genesis et_genesis = Ok \<lparr>p_current = BALLOT_INITIAL, p_retained = BALLOT_INITIAL,
    p_status = St_Joining, p_accepted = 0, p_committed = 0, p_applied = 0, p_checkpoint = 0,
    p_revision = 0, p_config = et_genesis, p_fault = None\<rparr>"
  by (simp add: genesis_def reconstitute_def Let_def check_Ok SLOT_NONE_def BALLOT_INITIAL_def
      era_of_slot_def et_current_def et_genesis_def)

end
