(* ===== verification/Invariant.thy ===== *)
theory Invariant
  imports Progress Wire_Fields
begin

text \<open>
  The transition-legality gate (\<open>src/invariant.rs\<close>): the input summary, the per-tag header-slot
  table and the seven rules of \<open>legal\<close>. The loop of rule 2's walk is a recursion on the era, which
  ends because the era increases towards its target.
\<close>

section \<open>Inputs and header slots\<close>

datatype input_kind =
    PeerMessage tag slot
  | ClientRequest
  | Tick
  | StabilityConfirmed
  | Applied
  | Checkpointed
  | Reconfiguration
  | Admin

datatype slot_role = Role_Operation | Role_Frontier | Role_Absent

definition admits :: "slot_role \<Rightarrow> slot \<Rightarrow> bool" where
  "admits r s = (case r of
     Role_Operation \<Rightarrow> s \<noteq> SLOT_NONE | Role_Frontier \<Rightarrow> True | Role_Absent \<Rightarrow> s = SLOT_NONE)"

fun header_slot_role :: "tag \<Rightarrow> slot_role" where
  "header_slot_role Tag_Prepare = Role_Operation"
| "header_slot_role Tag_PrepareOk = Role_Operation"
| "header_slot_role Tag_Commit = Role_Frontier"
| "header_slot_role Tag_StartViewChange = Role_Absent"
| "header_slot_role Tag_DoViewChange = Role_Frontier"
| "header_slot_role Tag_StartView = Role_Frontier"
| "header_slot_role Tag_PlannedViewChange = Role_Absent"
| "header_slot_role Tag_GetState = Role_Frontier"
| "header_slot_role Tag_NewState = Role_Frontier"
| "header_slot_role Tag_Reincarnation = Role_Absent"
| "header_slot_role Tag_Fuse = Role_Operation"
| "header_slot_role Tag_FuseOk = Role_Operation"
| "header_slot_role Tag_CommitBatch = Role_Frontier"
| "header_slot_role Tag_GossipRequest = Role_Absent"


section \<open>The rules\<close>

definition rule5_sticky_fault :: "progress \<Rightarrow> fault option" where
  "rule5_sticky_fault old = p_fault old"

definition rule1_frontiers_violated :: "progress \<Rightarrow> progress \<Rightarrow> bool" where
  "rule1_frontiers_violated old new \<longleftrightarrow>
     (if check_frontier_chain new \<noteq> Ok () then True
      else if p_committed new < p_committed old \<or> p_applied new < p_applied old
              \<or> p_checkpoint new < p_checkpoint old then True
      else p_accepted new < p_accepted old \<and> p_retained new = p_retained old)"

text \<open>The walk over the eras between two views: every one recorded as established by a slot the
  committed frontier covers.\<close>

function eras_grounded :: "progress \<Rightarrow> era \<Rightarrow> era \<Rightarrow> bool" where
  "eras_grounded new era until =
     (if era < until
      then (case era_next era of
              None \<Rightarrow> False
            | Some next \<Rightarrow>
                (case et_record (p_config new) next of
                   None \<Rightarrow> False
                 | Some r \<Rightarrow> if er_established_by r \<le> p_committed new
                             then eras_grounded new next until else False))
      else True)"
  by auto
termination
  by (relation "measure (\<lambda>(new, era, until). unat until - unat era)") (auto simp: word_nat)

declare eras_grounded.simps [simp del]

definition is_grounded_nomination_walk :: "progress \<Rightarrow> progress \<Rightarrow> bool" where
  "is_grounded_nomination_walk old new \<longleftrightarrow>
     (let from = p_current old; to = p_current new
      in if p_status new \<noteq> St_Normal \<or> p_retained new \<noteq> to then False
         else if b_era to \<le> b_era from \<or> b_view to \<le> b_view from then False
         else (let jump = unat (b_era to) - unat (b_era from);
                   count = unat (p_committed new) - unat (p_committed old)
               in if jump > count then False else eras_grounded new (b_era from) (b_era to)))"

definition rule2_view_succession_violated :: "progress \<Rightarrow> progress \<Rightarrow> bool" where
  "rule2_view_succession_violated old new \<longleftrightarrow>
     (if p_current new = p_current old then False
      else if is_legal_successor (p_current old) (p_current new) then False
      else \<not> is_grounded_nomination_walk old new)"

fun tag_reselects :: "tag \<Rightarrow> bool" where
  "tag_reselects Tag_DoViewChange = True"
| "tag_reselects Tag_StartView = True"
| "tag_reselects Tag_NewState = True"
| "tag_reselects Tag_Prepare = False"
| "tag_reselects Tag_PrepareOk = False"
| "tag_reselects Tag_Commit = False"
| "tag_reselects Tag_StartViewChange = False"
| "tag_reselects Tag_PlannedViewChange = False"
| "tag_reselects Tag_GetState = False"
| "tag_reselects Tag_Reincarnation = False"
| "tag_reselects Tag_GossipRequest = False"
| "tag_reselects Tag_Fuse = False"
| "tag_reselects Tag_FuseOk = False"
| "tag_reselects Tag_CommitBatch = False"

definition rule3_retained_violated :: "progress \<Rightarrow> progress \<Rightarrow> input_kind \<Rightarrow> bool" where
  "rule3_retained_violated old new input \<longleftrightarrow>
     (if p_retained new = p_retained old then False
      else if p_status new = St_Normal \<and> p_retained new = p_current new then False
      else \<not> (case input of PeerMessage tag _ \<Rightarrow> tag_reselects tag | _ \<Rightarrow> False))"

definition rule4_revision_violated :: "progress \<Rightarrow> progress \<Rightarrow> bool" where
  "rule4_revision_violated old new \<longleftrightarrow> checked_add (p_revision old) 1 \<noteq> Some (p_revision new)"

definition rule6_era_slot_violated :: "progress \<Rightarrow> bool" where
  "rule6_era_slot_violated new \<longleftrightarrow> check_era_discipline new \<noteq> Ok ()"

definition rule7_header_slot_violated :: "input_kind \<Rightarrow> bool" where
  "rule7_header_slot_violated input \<longleftrightarrow>
     (case input of PeerMessage tag s \<Rightarrow> \<not> admits (header_slot_role tag) s | _ \<Rightarrow> False)"

definition legal :: "progress \<Rightarrow> progress \<Rightarrow> input_kind \<Rightarrow> fault option" where
  "legal old new input =
     (case rule5_sticky_fault old of
        Some f \<Rightarrow> Some f
      | None \<Rightarrow>
          if rule1_frontiers_violated old new \<or> rule2_view_succession_violated old new
             \<or> rule3_retained_violated old new input \<or> rule4_revision_violated old new
             \<or> rule6_era_slot_violated new \<or> rule7_header_slot_violated input
          then Some IllegalTransition else None)"


section \<open>The gate's guarantees\<close>

lemma legal_None:
  "legal old new input = None \<longleftrightarrow>
     p_fault old = None \<and> \<not> rule1_frontiers_violated old new \<and> \<not> rule2_view_succession_violated old new
     \<and> \<not> rule3_retained_violated old new input \<and> \<not> rule4_revision_violated old new
     \<and> \<not> rule6_era_slot_violated new \<and> \<not> rule7_header_slot_violated input"
  by (simp add: legal_def rule5_sticky_fault_def split: option.splits)

text \<open>An era the walk passes is resident and established by a committed slot.\<close>

lemma eras_grounded_covers:
  "eras_grounded new era until \<Longrightarrow> unat era < unat e \<Longrightarrow> unat e \<le> unat until \<Longrightarrow>
   \<exists>r. et_record (p_config new) e = Some r \<and> er_established_by r \<le> p_committed new"
proof (induction new era until rule: eras_grounded.induct)
  case (1 new era until)
  have lt: "era < until" using 1(3,4) by (simp add: word_less_nat_alt)
  with 1(2) obtain n r where n: "era_next era = Some n" "et_record (p_config new) n = Some r"
    "er_established_by r \<le> p_committed new" "eras_grounded new n until"
    by (subst (asm) eras_grounded.simps) (auto split: option.splits if_splits)
  then have un: "unat n = unat era + 1" by (simp add: era_next_Some)
  show ?case
  proof (cases "e = n")
    case True
    then show ?thesis using n by blast
  next
    case False
    then have "unat n < unat e" using 1(3) un by (simp add: word_eq_nat)
    then show ?thesis using 1(1) [OF lt n(1,2,3,4)] 1(4) by blast
  qed
qed

end
