(* ===== verification/Invariant_Theorems.thy ===== *)
theory Invariant_Theorems
  imports Invariant
begin

text \<open>
  Properties of the progress record and its gate: what any run of published transitions preserves,
  that the candidates the transitions build pass the gate, and when a serving view may cross eras.
\<close>

section \<open>Published transitions\<close>

text \<open>A transition is published when the gate finds nothing against it for some input.\<close>

inductive published :: "progress \<Rightarrow> progress \<Rightarrow> bool" where
  publish: "legal p p' input = None \<Longrightarrow> published p p'"

inductive_cases publishedE: "published p p'"

text \<open>The order a run never leaves: frontiers, both components of the view, and the revision.\<close>

definition no_regress :: "progress \<Rightarrow> progress \<Rightarrow> bool" where
  "no_regress p q \<longleftrightarrow>
     p_committed p \<le> p_committed q \<and> p_applied p \<le> p_applied q \<and> p_checkpoint p \<le> p_checkpoint q
     \<and> b_era (p_current p) \<le> b_era (p_current q) \<and> b_view (p_current p) \<le> b_view (p_current q)
     \<and> p_revision p \<le> p_revision q"

lemma no_regress_refl: "no_regress p p"
  by (simp add: no_regress_def)

lemma no_regress_trans: "no_regress p q \<Longrightarrow> no_regress q r \<Longrightarrow> no_regress p r"
  unfolding no_regress_def by (meson order_trans)

lemma legal_view:
  assumes "legal p p' input = None"
  shows "p_current p' = p_current p \<or>
    (b_view (p_current p) < b_view (p_current p') \<and> b_era (p_current p) \<le> b_era (p_current p'))"
  using assms
  by (auto simp: legal_None rule2_view_succession_violated_def is_legal_successor_iff
      is_grounded_nomination_walk_def Let_def word_le_nat_alt word_less_nat_alt not_le split: if_splits)

lemma legal_revision: "legal p p' input = None \<Longrightarrow> unat (p_revision p') = unat (p_revision p) + 1"
  by (simp add: legal_None rule4_revision_violated_def checked_add_eq_Some)

lemma legal_frontiers:
  assumes "legal p p' input = None"
  shows "p_checkpoint p' \<le> p_applied p' \<and> p_applied p' \<le> p_committed p' \<and> p_committed p' \<le> p_accepted p'
    \<and> p_committed p \<le> p_committed p' \<and> p_applied p \<le> p_applied p' \<and> p_checkpoint p \<le> p_checkpoint p'
    \<and> (p_accepted p \<le> p_accepted p' \<or> p_retained p' \<noteq> p_retained p)"
  using assms
  by (auto simp: legal_None rule1_frontiers_violated_def check_frontier_chain_def not_less split: if_splits)

lemma published_no_regress: "published p p' \<Longrightarrow> no_regress p p'"
proof (elim publishedE)
  fix input assume l: "legal p p' input = None"
  have "p_revision p \<le> p_revision p'" using legal_revision [OF l] by (simp add: word_le_nat_alt)
  then show "no_regress p p'"
    using legal_view [OF l] legal_frontiers [OF l] by (auto simp: no_regress_def)
qed

section \<open>A concrete run\<close>

definition serving :: progress where
  "serving = \<lparr>p_current = Ballot 2 5, p_retained = Ballot 2 5, p_status = St_Normal, p_accepted = 9,
     p_committed = 8, p_applied = 7, p_checkpoint = 3, p_revision = 4, p_config = sample_table, p_fault = None\<rparr>"

definition serving_committed :: progress where
  "serving_committed = serving\<lparr>p_committed := 9, p_revision := 5\<rparr>"

definition fenced :: progress where
  "fenced = serving\<lparr>p_current := Ballot 2 6, p_status := St_ViewChange, p_revision := 5\<rparr>"

definition installed :: progress where
  "installed = fenced\<lparr>p_retained := Ballot 2 6, p_status := St_Normal, p_accepted := 8, p_revision := 6\<rparr>"

lemmas run_defs = serving_def serving_committed_def fenced_def installed_def

lemma run_checks: "check serving_committed = Ok ()" "check fenced = Ok ()" "check installed = Ok ()"
  by (simp_all add: check_Ok run_defs era_of_slot_def et_current_def sample_table_def less_eq_ballot_def
      word_le_nat_alt Let_def)

lemma run_steps:
  "progress_step serving (CommitTo 9) = Ok serving_committed"
  "progress_step serving (EnterView (Ballot 2 6)) = Ok fenced"
  "progress_step fenced (Install (Ballot 2 6) 8) = Ok installed"
  by (simp_all add: with_defs progress_simps run_checks)
     (simp_all add: run_defs is_legal_successor_iff word_less_nat_alt)

lemma run_legal: "legal serving serving_committed StabilityConfirmed = None" "legal serving fenced Tick = None"
  "legal fenced installed Tick = None"
  using run_checks
  by (simp_all add: legal_None rule1_frontiers_violated_def rule2_view_succession_violated_def
      rule3_retained_violated_def rule4_revision_violated_def rule6_era_slot_violated_def
      rule7_header_slot_violated_def check_def checked_add_eq_Some)
     (simp_all add: run_defs is_legal_successor_iff word_less_nat_alt)


section \<open>Properties\<close>

text \<open>C27. Along any run of published transitions no frontier the host relies on moves backwards, neither
  component of the serving view does, the revision counts the transitions, and the frontier chain and
  the era discipline hold wherever the run has moved.\<close>

theorem published_run_monotone:
  assumes "(published ^^ n) p q"
  shows "no_regress p q \<and> unat (p_revision q) = unat (p_revision p) + n
    \<and> (0 < n \<longrightarrow> check_frontier_chain q = Ok () \<and> check_era_discipline q = Ok ())"
  using assms
proof (induction n arbitrary: q)
  case 0
  then show ?case by (simp add: no_regress_refl)
next
  case (Suc n)
  then obtain r where r: "(published ^^ n) p r" "published r q" by auto
  then obtain input where l: "legal r q input = None" by (auto elim: publishedE)
  have "check_frontier_chain q = Ok ()" "check_era_discipline q = Ok ()"
    using l by (auto simp: legal_None rule1_frontiers_violated_def rule6_era_slot_violated_def split: if_splits)
  then show ?case
    using Suc.IH [OF r(1)] published_no_regress [OF r(2)] no_regress_trans legal_revision [OF l] by auto
qed

theorem published_run_monotone_witness:
  "no_regress serving installed \<and> unat (p_revision installed) = unat (p_revision serving) + 2"
proof -
  have "(published ^^ 2) serving installed"
    using run_legal by (auto simp: numeral_2_eq_2 intro: publish)
  from published_run_monotone [OF this] show ?thesis by simp
qed

text \<open>Every candidate a transition of the record builds passes the gate, for every input whose
  header slot is admissible, with the one exception the gate exists for: a shorter accepted frontier
  under the same retained view.\<close>

theorem candidates_pass_gate:
  assumes "progress_step p ch = Ok p'" "\<not> rule7_header_slot_violated input"
  shows "legal p p' input = None \<longleftrightarrow> \<not> (p_accepted p' < p_accepted p \<and> p_retained p' = p_retained p)"
proof -
  note facts = progress_step_facts [OF assms(1)]
  have "check_frontier_chain p' = Ok ()" "check_era_discipline p' = Ok ()"
    using facts(2) by (auto simp: check_def)
  moreover have "\<not> rule2_view_succession_violated p p'"
    using facts(7) by (auto simp: rule2_view_succession_violated_def)
  moreover have "\<not> rule3_retained_violated p p' input"
  proof -
    have "p_retained p' = p_retained p \<or> p_status p' = St_Normal" using facts(10) by blast
    moreover have "p_status p' = St_Normal \<longrightarrow> p_current p' = p_retained p'"
      using facts(2) unfolding check_Ok by blast
    ultimately show ?thesis unfolding rule3_retained_violated_def by metis
  qed
  moreover have "\<not> rule4_revision_violated p p'"
    using facts(3) by (simp add: rule4_revision_violated_def checked_add_eq_Some)
  ultimately show ?thesis
    using facts(1,4,5,6) assms(2)
    by (auto simp: legal_None rule1_frontiers_violated_def rule6_era_slot_violated_def not_less)
qed

text \<open>The gate admits a re-selected history for a bare timer input, because the candidate is Normal.\<close>

theorem candidates_pass_gate_witness:
  "p_retained installed \<noteq> p_retained fenced \<and> legal fenced installed Tick = None"
  using candidates_pass_gate [OF run_steps(3), of Tick]
  by (simp add: rule7_header_slot_violated_def run_defs)

text \<open>A fault is final: the gate answers every candidate of a faulted record with the fault it
  already holds, and no run leaves it.\<close>

theorem fault_is_final:
  assumes "p_fault p = Some f"
  shows "legal p p' input = Some f \<and> ((published ^^ n) p q \<longrightarrow> n = 0 \<and> q = p)"
proof -
  have "\<not> published p r" for r
    using assms by (auto elim!: publishedE simp: legal_None)
  then have "(published ^^ n) p q \<Longrightarrow> n = 0"
    by (metis relpowp_E2 not0_implies_Suc)
  then show ?thesis using assms by (auto simp: legal_def rule5_sticky_fault_def)
qed

theorem fault_is_final_witness:
  "legal (serving\<lparr>p_fault := Some HostDeclared\<rparr>) installed Admin = Some HostDeclared"
  using fault_is_final [of "serving\<lparr>p_fault := Some HostDeclared\<rparr>" HostDeclared] by simp

text \<open>C28. The serving view moves only forward and never into an era its history has not established:
  an admitted change strictly raises the view number, and either keeps the era or moves to the next
  one, or every era it enters is recorded as established by a committed slot, at most one era for each
  slot the transition commits.\<close>

theorem view_crosses_only_established_eras:
  assumes "legal p p' input = None" "p_current p' \<noteq> p_current p"
  shows "b_view (p_current p) < b_view (p_current p')
    \<and> (unat (b_era (p_current p')) \<le> unat (b_era (p_current p)) + 1 \<or>
        (unat (b_era (p_current p')) - unat (b_era (p_current p)) \<le> unat (p_committed p') - unat (p_committed p)
         \<and> (\<forall>e. b_era (p_current p) < e \<and> e \<le> b_era (p_current p') \<longrightarrow>
              (\<exists>r. et_record (p_config p') e = Some r \<and> er_established_by r \<le> p_committed p'))))"
proof (cases "is_legal_successor (p_current p) (p_current p')")
  case True
  then show ?thesis by (auto simp: is_legal_successor_iff)
next
  case False
  then have "is_grounded_nomination_walk p p'"
    using assms by (auto simp: legal_None rule2_view_succession_violated_def split: if_splits)
  then show ?thesis
    using eras_grounded_covers [of p' "b_era (p_current p)" "b_era (p_current p')"]
    by (auto simp: is_grounded_nomination_walk_def Let_def word_less_nat_alt word_le_nat_alt not_le split: if_splits)
qed

theorem view_crosses_only_established_eras_witness:
  "b_view (p_current serving) < b_view (p_current fenced)"
  using view_crosses_only_established_eras [OF run_legal(2)] by (simp add: run_defs)

lemma to_word_inject: "to_word s = to_word t \<longleftrightarrow> s = t"
  by (cases s; cases t) simp_all

lemma ballot_eq: "a = b \<longleftrightarrow> b_era a = b_era b \<and> b_view a = b_view b"
  by (cases a; cases b) simp

text \<open>The snapshot is faithful: two records with the same snapshot agree on everything but the
  configuration history and the identity of the fault, and its status word names exactly one status.\<close>

theorem snapshot_faithful:
  "to_progress_snapshot p = to_progress_snapshot q \<longleftrightarrow>
     p\<lparr>p_config := [], p_fault := None\<rparr> = q\<lparr>p_config := [], p_fault := None\<rparr>
     \<and> (p_fault p = None \<longleftrightarrow> p_fault q = None)"
  by (cases p; cases q) (auto simp: to_progress_snapshot_def to_word_inject ballot_eq)

end
