(* ===== verification/Journal.thy ===== *)
theory Journal
  imports Sysop_Codec
begin

text \<open>
  The logical journal (\<open>src/journal.rs\<close>): log entries and their codec, the default
  \<open>SegmentedLog\<close> with its sealed slabs and mutable tail, its snapshots, and the interface
  \<open>journal\<close> of the trait pair \<open>Journal\<close> and \<open>JournalView\<close>.

  A slab is the list of its entries; sharing through \<open>Arc\<close> is not visible in values. Positions
  inside the physical window are computed on naturals: under the invariant \<open>wf_log\<close> of
  \<open>Journal_Props\<close> every sum stays below \<open>2 ^ 64\<close>, which is the source's argument that its
  additions cannot overflow.
\<close>

section \<open>Entries\<close>

datatype payload = P_Operation operation_id "u8 list" | P_System sysop

record log_entry =
  le_slot :: slot
  le_era :: era
  le_payload :: payload

definition PAYLOAD_OPERATION :: u8 where "PAYLOAD_OPERATION = 1"
definition PAYLOAD_SYSTEM :: u8 where "PAYLOAD_SYSTEM = 2"

text \<open>The match on the payload inside the three methods of the entry.\<close>

definition packed_len_payload :: "payload \<Rightarrow> nat option" where
  "packed_len_payload p =
     (case p of
        P_Operation i bytes \<Rightarrow> do {
          a \<leftarrow> packed_len_operation_id i; b \<leftarrow> opaque_packed_len bytes; Some (1 + a + b) }
      | P_System op \<Rightarrow> map_option (\<lambda>n. 1 + n) (packed_len_sysop op))"

definition pack_payload :: "payload \<Rightarrow> writer \<Rightarrow> writer option" where
  "pack_payload p w =
     (case p of
        P_Operation i bytes \<Rightarrow> do {
          w \<leftarrow> put_u8 PAYLOAD_OPERATION w;
          w \<leftarrow> pack_operation_id i w;
          put_opaque bytes w }
      | P_System op \<Rightarrow> do { w \<leftarrow> put_u8 PAYLOAD_SYSTEM w; pack_sysop op w })"

definition packed_len_entry :: "log_entry \<Rightarrow> nat option" where
  "packed_len_entry e = do {
     p \<leftarrow> packed_len_payload (le_payload e);
     s \<leftarrow> packed_len_u64 (le_slot e);
     r \<leftarrow> packed_len_u32 (le_era e);
     Some (s + r + p) }"

definition pack_entry :: "log_entry \<Rightarrow> writer \<Rightarrow> writer option" where
  "pack_entry e w = do {
     w \<leftarrow> put_u64 (le_slot e) w;
     w \<leftarrow> put_u32 (le_era e) w;
     pack_payload (le_payload e) w }"

definition unpack_payload :: "nat \<Rightarrow> payload decoder" where
  "unpack_payload d = dbind get_u8 (\<lambda>b.
     if b = PAYLOAD_OPERATION then
       dbind unpack_operation_id (\<lambda>i. dbind get_opaque (\<lambda>bytes. dreturn (P_Operation i bytes)))
     else if b = PAYLOAD_SYSTEM then dbind (unpack_sysop d) (\<lambda>op. dreturn (P_System op))
     else drefuse (Malformed OutOfDomain))"

definition unpack_entry :: "nat \<Rightarrow> log_entry decoder" where
  "unpack_entry d =
     dbind get_u64 (\<lambda>s. dbind get_u32 (\<lambda>e. dbind (unpack_payload d) (\<lambda>p.
       dreturn \<lparr>le_slot = s, le_era = e, le_payload = p\<rparr>)))"

definition enc_payload :: "payload \<Rightarrow> u8 list" where
  "enc_payload p = (case p of
     P_Operation i bytes \<Rightarrow> PAYLOAD_OPERATION # enc_operation_id i @ enc_opaque bytes
   | P_System op \<Rightarrow> PAYLOAD_SYSTEM # enc_sysop op)"

definition payload_valid :: "nat \<Rightarrow> payload \<Rightarrow> bool" where
  "payload_valid d p = (case p of P_Operation i bytes \<Rightarrow> framable bytes | P_System op \<Rightarrow> sysop_valid d op)"

definition enc_entry :: "log_entry \<Rightarrow> u8 list" where
  "enc_entry e = to_be_bytes 8 (le_slot e) @ to_be_bytes 4 (le_era e) @ enc_payload (le_payload e)"

definition entry_valid :: "nat \<Rightarrow> log_entry \<Rightarrow> bool" where
  "entry_valid d e \<longleftrightarrow> payload_valid d (le_payload e)"

lemma unpack_operation_payload:
  "cursor_ok c \<Longrightarrow>
   dbind unpack_operation_id (\<lambda>i. dbind get_opaque (\<lambda>bytes. dreturn (P_Operation i bytes))) c = Decoded p c' \<longleftrightarrow>
   (\<exists>i bytes. p = P_Operation i bytes \<and> framable bytes \<and> reads c (enc_operation_id i @ enc_opaque bytes) c')"
  by (simp add: operation_id_codec.dbind_unpack opaque_codec.dbind_unpack reads_append dreturn_Decoded
      cong: conj_cong) (blast intro: reads_ok)

lemma unpack_system_payload:
  "cursor_ok c \<Longrightarrow> dbind (unpack_sysop d) (\<lambda>op. dreturn (P_System op)) c = Decoded p c' \<longleftrightarrow>
   (\<exists>op. p = P_System op \<and> sysop_valid d op \<and> reads c (enc_sysop op) c')"
  by (simp add: sysop_codec.dbind_unpack dreturn_Decoded cong: conj_cong; blast intro: reads_ok)

lemma unpack_payload_iff:
  assumes ok: "cursor_ok c"
  shows "unpack_payload d c = Decoded p c' \<longleftrightarrow> payload_valid d p \<and> reads c (enc_payload p) c'"
proof -
  have arm: "(if b = PAYLOAD_OPERATION then
             dbind unpack_operation_id (\<lambda>i. dbind get_opaque (\<lambda>bytes. dreturn (P_Operation i bytes)))
           else if b = PAYLOAD_SYSTEM then dbind (unpack_sysop d) (\<lambda>op. dreturn (P_System op))
           else drefuse (Malformed OutOfDomain)) c1 = Decoded p c' \<longleftrightarrow>
        b = hd (enc_payload p) \<and> payload_valid d p \<and> reads c1 (tl (enc_payload p)) c'"
    if "cursor_ok c1" for b c1
    using unpack_operation_payload [OF that] unpack_system_payload [OF that]
    by (cases p) (auto simp: payload_valid_def enc_payload_def PAYLOAD_OPERATION_def PAYLOAD_SYSTEM_def
        drefuse_Decoded)
  have "unpack_payload d c = Decoded p c' \<longleftrightarrow> (\<exists>b c1. reads c [b] c1 \<and> b = hd (enc_payload p)
          \<and> payload_valid d p \<and> reads c1 (tl (enc_payload p)) c')"
    unfolding unpack_payload_def dbind_Decoded u8_codec.unpack_iff [OF ok]
    using arm reads_ok [OF ok] by (simp cong: conj_cong)
  also have "\<dots> \<longleftrightarrow> payload_valid d p \<and> reads c (hd (enc_payload p) # tl (enc_payload p)) c'"
    unfolding reads_Cons [of c "hd (enc_payload p)" "tl (enc_payload p)"] by blast
  also have "hd (enc_payload p) # tl (enc_payload p) = enc_payload p"
    by (cases p) (simp_all add: enc_payload_def)
  finally show ?thesis .
qed

interpretation payload_codec: codec pack_payload packed_len_payload "unpack_payload d" enc_payload "payload_valid d" for d
proof
  fix x c c' w
  show "writer_ok w \<Longrightarrow> payload_valid d x \<Longrightarrow> pack_payload x w = put (enc_payload x) w"
    by (cases x)
       (auto simp: pack_payload_def enc_payload_def payload_valid_def put_u8_def operation_id_codec.pack_enc
          opaque_codec.pack_enc sysop_codec.pack_enc intro!: put_u8_bind put_bind)
  show "payload_valid d x \<Longrightarrow> packed_len_payload x = Some (length (enc_payload x))"
    by (cases x)
       (simp_all add: packed_len_payload_def payload_valid_def enc_payload_def
          operation_id_codec.len_enc opaque_codec.len_enc sysop_codec.len_enc)
qed (rule unpack_payload_iff)

interpretation entry_codec: codec pack_entry packed_len_entry "unpack_entry d" enc_entry "entry_valid d" for d
proof
  fix x c c' w
  show "writer_ok w \<Longrightarrow> entry_valid d x \<Longrightarrow> pack_entry x w = put (enc_entry x) w"
    by (simp add: pack_entry_def enc_entry_def entry_valid_def u64_codec.pack_enc u32_codec.pack_enc
        payload_codec.pack_enc put_bind)
  show "entry_valid d x \<Longrightarrow> packed_len_entry x = Some (length (enc_entry x))"
    by (simp add: packed_len_entry_def enc_entry_def entry_valid_def payload_codec.len_enc
        packed_len_u64_def packed_len_u32_def)
  show "cursor_ok c \<Longrightarrow> unpack_entry d c = Decoded x c' \<longleftrightarrow> entry_valid d x \<and> reads c (enc_entry x) c'"
    by (cases x) (simp add: unpack_entry_def u64_codec.dbind_unpack u32_codec.dbind_unpack
        payload_codec.dbind_unpack enc_entry_def entry_valid_def reads_append dreturn_Decoded
        cong: conj_cong; blast intro: reads_ok)
qed


section \<open>Refusals and outcomes\<close>

datatype journal_error =
    NonContiguous slot slot
  | SlotOccupied slot
  | BelowRetention slot slot
  | SlotExhausted
  | EmptySuffix

datatype range_outcome =
    Range_Complete
  | Range_Short slot
  | Range_BelowRetention slot slot
  | Range_Empty


section \<open>The segmented log\<close>

type_synonym slab = "log_entry list"

record segmented_log =
  sl_slabs :: "slab list"
  sl_boundaries :: "(slot \<times> nat) list"
  sl_tail :: "log_entry list"
  sl_capacity :: nat
  sl_first :: slot
  sl_accepted :: "slot option"

definition with_tail_capacity :: "nat \<Rightarrow> segmented_log" where
  "with_tail_capacity capacity =
     \<lparr>sl_slabs = [], sl_boundaries = [], sl_tail = [], sl_capacity = max capacity 1,
      sl_first = VOID_SLOT, sl_accepted = None\<rparr>"

definition segmented_log_new :: segmented_log where
  "segmented_log_new = with_tail_capacity 64"

definition seal_tail :: "segmented_log \<Rightarrow> segmented_log" where
  "seal_tail l =
     (case sl_tail l of
        [] \<Rightarrow> l
      | e # es \<Rightarrow> l\<lparr>sl_slabs := sl_slabs l @ [sl_tail l],
                   sl_boundaries := sl_boundaries l @ [(le_slot e, length (sl_tail l))],
                   sl_tail := []\<rparr>)"

definition reclaim_through :: "segmented_log \<Rightarrow> slot \<Rightarrow> segmented_log" where
  "reclaim_through l0 checkpoint =
     (let l = (case sl_accepted l0 of
                 Some frontier \<Rightarrow> if frontier \<le> checkpoint then seal_tail l0 else l0
               | None \<Rightarrow> l0);
          covered = partition_point (\<lambda>(first, len). unat first + (len - 1) \<le> unat checkpoint) (sl_boundaries l);
          l = l\<lparr>sl_slabs := drop covered (sl_slabs l), sl_boundaries := drop covered (sl_boundaries l)\<rparr>
      in case sl_boundaries l of
           (first, _) # _ \<Rightarrow> l\<lparr>sl_first := first\<rparr>
         | [] \<Rightarrow>
             (case sl_tail l of
                e # _ \<Rightarrow> l\<lparr>sl_first := le_slot e\<rparr>
              | [] \<Rightarrow>
                  (case sl_accepted l of
                     Some frontier \<Rightarrow>
                       l\<lparr>sl_first := (case slot_next frontier of Some s \<Rightarrow> s | None \<Rightarrow> frontier)\<rparr>
                   | None \<Rightarrow> l)))"

text \<open>The validation loop both mutations run over the entries they are offered.\<close>

fun check_contiguous :: "slot \<Rightarrow> log_entry list \<Rightarrow> journal_error + unit" where
  "check_contiguous expected [] = Ok ()"
| "check_contiguous expected (e # es) =
     (if le_slot e < expected then Err (SlotOccupied (le_slot e))
      else if le_slot e \<noteq> expected then Err (NonContiguous expected (le_slot e))
      else rbind (ok_or (slot_next (le_slot e)) SlotExhausted) (\<lambda>next. check_contiguous next es))"

fun push_entries :: "segmented_log \<Rightarrow> log_entry list \<Rightarrow> segmented_log" where
  "push_entries l [] = l"
| "push_entries l (e # es) =
     (let l = (if length (sl_tail l) \<ge> sl_capacity l then seal_tail l else l)
      in push_entries (l\<lparr>sl_tail := sl_tail l @ [e]\<rparr>) es)"

definition accept_entries :: "segmented_log \<Rightarrow> log_entry list \<Rightarrow> journal_error + segmented_log" where
  "accept_entries l entries =
     (case entries of
        [] \<Rightarrow> Ok l
      | first_entry # _ \<Rightarrow>
          rbind (case sl_accepted l of
                   Some frontier \<Rightarrow> ok_or (slot_next frontier) SlotExhausted
                 | None \<Rightarrow> Ok (sl_first l)) (\<lambda>expected.
          rbind (check_contiguous expected entries) (\<lambda>_.
            let l = (if length entries \<ge> sl_capacity l \<and> sl_tail l = []
                     then l\<lparr>sl_slabs := sl_slabs l @ [entries],
                            sl_boundaries := sl_boundaries l @ [(le_slot first_entry, length entries)]\<rparr>
                     else push_entries l entries)
            in Ok (l\<lparr>sl_accepted := Some (le_slot (last entries))\<rparr>))))"

text \<open>The copy of the retained prefix of the slab the cut falls into.\<close>

definition cut_last_slab :: "slot \<Rightarrow> slab list \<times> (slot \<times> nat) list \<Rightarrow> slab list \<times> (slot \<times> nat) list" where
  "cut_last_slab from s =
     (case s of (slabs, boundaries) \<Rightarrow>
        if boundaries = [] then (slabs, boundaries)
        else case last boundaries of
          (first, len) \<Rightarrow>
            if unat first + (len - 1) \<ge> unat from
            then (let keep = unat from - unat first;
                      old = last slabs
                  in (butlast slabs @ [take keep old], butlast boundaries @ [(first, keep)]))
            else (slabs, boundaries))"

definition install_suffix :: "segmented_log \<Rightarrow> slot \<Rightarrow> log_entry list \<Rightarrow> journal_error + segmented_log" where
  "install_suffix l from suffix =
     (if from < sl_first l then Err (BelowRetention from (sl_first l))
      else rbind (case sl_accepted l of
                    Some frontier \<Rightarrow> if from > frontier then ok_or (slot_next frontier) SlotExhausted else Ok from
                  | None \<Rightarrow> Ok from) (\<lambda>expected.
           rbind (check_contiguous expected suffix) (\<lambda>_.
             if suffix = [] then Err EmptySuffix
             else (let l = (if sl_accepted l = None then l\<lparr>sl_first := from\<rparr> else l);
                       kept = partition_point (\<lambda>(first, _). first < from) (sl_boundaries l);
                       (slabs, boundaries) =
                         cut_last_slab from (take kept (sl_slabs l), take kept (sl_boundaries l));
                       kept_tail = partition_point (\<lambda>e. le_slot e < from) (sl_tail l)
                   in Ok (l\<lparr>sl_slabs := slabs, sl_boundaries := boundaries,
                            sl_tail := take kept_tail (sl_tail l) @ suffix,
                            sl_accepted := Some (le_slot (last suffix))\<rparr>)))))"


section \<open>Snapshots\<close>

record log_view =
  lv_slabs :: "slab list"
  lv_boundaries :: "(slot \<times> nat) list"
  lv_tail :: "log_entry list"
  lv_first :: slot
  lv_last :: "slot option"

definition log_view_of :: "segmented_log \<Rightarrow> log_view" where
  "log_view_of l = \<lparr>lv_slabs = sl_slabs l, lv_boundaries = sl_boundaries l, lv_tail = sl_tail l,
                    lv_first = sl_first l, lv_last = sl_accepted l\<rparr>"

text \<open>Indexing as \<open>slice::get\<close> does it.\<close>

definition nth_opt :: "'a list \<Rightarrow> nat \<Rightarrow> 'a option" where
  "nth_opt xs i = (if i < length xs then Some (xs ! i) else None)"

definition entry_at :: "log_view \<Rightarrow> nat \<Rightarrow> log_entry option" where
  "entry_at v s =
     (let index = partition_point (\<lambda>(first, _). unat first \<le> s) (lv_boundaries v);
          tail_start = (case rev (lv_boundaries v) of
                          (first, len) # _ \<Rightarrow> unat first + len
                        | [] \<Rightarrow> unat (lv_first v));
          from_tail = (if tail_start \<le> s then nth_opt (lv_tail v) (s - tail_start) else None)
      in if index > 0
         then (case lv_boundaries v ! (index - 1) of
                 (first, len) \<Rightarrow>
                   let offset = s - unat first
                   in if offset < len then nth_opt (lv_slabs v ! (index - 1)) offset else from_tail)
         else from_tail)"

definition view_get :: "log_view \<Rightarrow> slot \<Rightarrow> log_entry option" where
  "view_get v s = entry_at v (unat s)"

text \<open>The double-ended cursor over a range; \<open>ri_back\<close> is inclusive.\<close>

record range_iter =
  ri_front :: u64
  ri_back :: u64
  ri_done :: bool

definition view_range :: "log_view \<Rightarrow> slot \<Rightarrow> slot \<Rightarrow> range_iter" where
  "view_range v from to =
     (let start = max from (lv_first v)
      in case lv_last v of
           Some final \<Rightarrow>
             (let stop = min to final in \<lparr>ri_front = start, ri_back = stop, ri_done = stop < start\<rparr>)
         | None \<Rightarrow> \<lparr>ri_front = 0, ri_back = 0, ri_done = True\<rparr>)"

definition range_next :: "log_view \<Rightarrow> range_iter \<Rightarrow> log_entry option \<times> range_iter" where
  "range_next v it =
     (if ri_done it then (None, it)
      else (entry_at v (unat (ri_front it)),
            if ri_front it = ri_back it then it\<lparr>ri_done := True\<rparr> else it\<lparr>ri_front := ri_front it + 1\<rparr>))"

definition range_next_back :: "log_view \<Rightarrow> range_iter \<Rightarrow> log_entry option \<times> range_iter" where
  "range_next_back v it =
     (if ri_done it then (None, it)
      else (entry_at v (unat (ri_back it)),
            if ri_front it = ri_back it then it\<lparr>ri_done := True\<rparr> else it\<lparr>ri_back := ri_back it - 1\<rparr>))"

text \<open>Collecting what \<open>next\<close> yields, for at most the given number of calls.\<close>

fun collect_range :: "log_view \<Rightarrow> nat \<Rightarrow> range_iter \<Rightarrow> log_entry list" where
  "collect_range v 0 it = []"
| "collect_range v (Suc n) it =
     (case range_next v it of (None, _) \<Rightarrow> [] | (Some e, it') \<Rightarrow> e # collect_range v n it')"

text \<open>A range has at most as many positions as lie between its ends, so one call more exhausts it.\<close>

definition iter_range :: "log_view \<Rightarrow> slot \<Rightarrow> slot \<Rightarrow> log_entry list" where
  "iter_range v from to =
     (let it = view_range v from to in collect_range v (unat (ri_back it) - unat (ri_front it) + 2) it)"

definition view_retained :: "log_view \<Rightarrow> slot \<times> slot" where
  "view_retained v = (lv_first v, case lv_last v of Some s \<Rightarrow> s | None \<Rightarrow> - 1)"

definition copy_out :: "log_view \<Rightarrow> slot \<Rightarrow> slot \<Rightarrow> log_entry list \<Rightarrow> range_outcome \<times> log_entry list" where
  "copy_out v from to into =
     (if from < lv_first v then (Range_BelowRetention from (lv_first v), into)
      else case lv_last v of
        None \<Rightarrow> (Range_Empty, into)
      | Some frontier \<Rightarrow>
          if to < from then (Range_Complete, into)
          else if from > frontier then (Range_Short frontier, into)
          else (let stop = (if to > frontier then frontier else to);
                    into = into @ iter_range v from stop
                in if to > frontier then (Range_Short frontier, into) else (Range_Complete, into)))"

end
