(* ===== verification/Journal_Props.thy ===== *)
theory Journal_Props
  imports Journal
begin

text \<open>
  The segmented log against its abstraction: one contiguous run of entries from the first physically
  present slot. The invariant, each mutation and each read in terms of that run, the interface
  \<open>journal\<close> of the trait and its interpretation on the log.
\<close>

section \<open>The abstraction\<close>

definition contig :: "nat \<Rightarrow> log_entry list \<Rightarrow> bool" where
  "contig base es \<longleftrightarrow> (\<forall>i < length es. unat (le_slot (es ! i)) = base + i)"

lemma contig_Nil [simp]: "contig b []"
  by (simp add: contig_def)

lemma contig_Cons [simp]: "contig b (e # es) \<longleftrightarrow> unat (le_slot e) = b \<and> contig (Suc b) es"
  unfolding contig_def by (auto simp: nth_Cons split: nat.splits)

lemma contig_append: "contig b (xs @ ys) \<longleftrightarrow> contig b xs \<and> contig (b + length xs) ys"
  by (induction xs arbitrary: b) auto

lemma contig_take: "contig b es \<Longrightarrow> contig b (take n es)"
  using contig_append [of b "take n es" "drop n es"] by simp

lemma contig_drop: "contig b es \<Longrightarrow> contig (b + min n (length es)) (drop n es)"
  using contig_append [of b "take n es" "drop n es"] by (simp add: min.commute)

lemma contig_last: "contig b es \<Longrightarrow> es \<noteq> [] \<Longrightarrow> unat (le_slot (last es)) + 1 = b + length es"
  by (cases es rule: rev_cases) (auto simp: contig_append)

lemma contig_takeWhile:
  assumes "contig b es"
  shows "takeWhile (\<lambda>e. le_slot e < s) es = take (unat s - b) es"
  using assms
proof (induction es arbitrary: b)
  case (Cons e es)
  then have "unat (le_slot e) = b" "contig (Suc b) es" by simp_all
  then show ?case
    using Cons.IH [of "Suc b"] by (cases "b < unat s") (auto simp: word_less_nat_alt take_Cons' )
qed simp

lemma check_contiguous_Ok:
  "check_contiguous s es = Ok () \<longleftrightarrow> contig (unat s) es \<and> unat s + length es < 2 ^ 64"
proof (induction es arbitrary: s)
  case Nil
  then show ?case using unsigned_less [of s, where ?'a = nat] by simp
next
  case (Cons e es)
  have "check_contiguous s (e # es) = Ok () \<longleftrightarrow> le_slot e = s \<and> (\<exists>n. slot_next s = Some n \<and> check_contiguous n es = Ok ())"
    by auto
  also have "\<dots> \<longleftrightarrow> unat (le_slot e) = unat s \<and> contig (Suc (unat s)) es \<and> unat s + Suc (length es) < 2 ^ 64"
  proof -
    have "(\<exists>n. slot_next s = Some n \<and> check_contiguous n es = Ok ()) \<longleftrightarrow>
          contig (Suc (unat s)) es \<and> unat s + Suc (length es) < 2 ^ 64"
    proof (cases "slot_next s")
      case None
      then have "unat s + 1 \<ge> 2 ^ 64" by (simp add: slot_next_None)
      with None show ?thesis by simp
    next
      case (Some n)
      then have "unat n = Suc (unat s)" by (simp add: slot_next_Some)
      with Some show ?thesis by (simp add: Cons.IH)
    qed
    then show ?thesis by (auto simp: word_unat_eq_iff)
  qed
  finally show ?case by simp
qed

text \<open>Boundaries in step with the slabs.\<close>

fun slabs_ok :: "nat \<Rightarrow> slab list \<Rightarrow> (slot \<times> nat) list \<Rightarrow> bool" where
  "slabs_ok base [] [] \<longleftrightarrow> True"
| "slabs_ok base (s # ss) ((f, n) # bs) \<longleftrightarrow>
     s \<noteq> [] \<and> unat f = base \<and> n = length s \<and> slabs_ok (base + length s) ss bs"
| "slabs_ok base ss bs \<longleftrightarrow> False"

lemma slabs_ok_snoc:
  "slabs_ok b (ss @ [s]) (bs @ [(f, n)]) \<longleftrightarrow>
     slabs_ok b ss bs \<and> s \<noteq> [] \<and> unat f = b + length (concat ss) \<and> n = length s"
  by (induction b ss bs rule: slabs_ok.induct) (auto elim: slabs_ok.elims)

lemma slabs_ok_length: "slabs_ok b ss bs \<Longrightarrow> length bs = length ss"
  by (induction b ss bs rule: slabs_ok.induct) auto

lemma slabs_ok_drop:
  "slabs_ok b ss bs \<Longrightarrow> slabs_ok (b + length (concat (take k ss))) (drop k ss) (drop k bs)"
proof (induction b ss bs arbitrary: k rule: slabs_ok.induct)
  case (2 base s ss f n bs)
  then show ?case by (cases k) (auto simp: add.assoc)
qed auto

definition physical :: "segmented_log \<Rightarrow> log_entry list" where
  "physical l = concat (sl_slabs l) @ sl_tail l"

definition wf_physical :: "segmented_log \<Rightarrow> bool" where
  "wf_physical l \<longleftrightarrow> slabs_ok (unat (sl_first l)) (sl_slabs l) (sl_boundaries l)
     \<and> contig (unat (sl_first l)) (physical l) \<and> sl_capacity l \<ge> 1"

definition wf_log :: "segmented_log \<Rightarrow> bool" where
  "wf_log l \<longleftrightarrow> wf_physical l \<and> unat (sl_first l) + length (physical l) < 2 ^ 64
     \<and> (case sl_accepted l of
          None \<Rightarrow> physical l = []
        | Some f \<Rightarrow> unat f + 1 = unat (sl_first l) + length (physical l))"

lemma wf_new: "wf_log (with_tail_capacity n)"
  by (simp add: wf_log_def wf_physical_def physical_def with_tail_capacity_def VOID_SLOT_def)


section \<open>Positional reads\<close>

abbreviation starts_by :: "nat \<Rightarrow> slot \<times> nat \<Rightarrow> bool" where
  "starts_by s \<equiv> \<lambda>(first, _). unat first \<le> s"

lemma nth_opt_append:
  "nth_opt (xs @ ys) i = (if i < length xs then Some (xs ! i) else nth_opt ys (i - length xs))"
  by (auto simp: nth_opt_def nth_append)

lemma slab_none_before: "slabs_ok base ss bs \<Longrightarrow> s < base \<Longrightarrow> partition_point (starts_by s) bs = 0"
  by (induction base ss bs rule: slabs_ok.induct) auto

lemma slab_past:
  "slabs_ok base ss bs \<Longrightarrow> base + length (concat ss) \<le> s \<Longrightarrow> partition_point (starts_by s) bs = length bs"
  by (induction base ss bs rule: slabs_ok.induct) auto

lemma slab_end:
  "slabs_ok base ss bs \<Longrightarrow>
     (case rev bs of (first, len) # _ \<Rightarrow> unat first + len | [] \<Rightarrow> base) = base + length (concat ss)"
proof (induction base ss bs rule: slabs_ok.induct)
  case (2 base s ss f n bs)
  show ?case
  proof (cases bs rule: rev_cases)
    case Nil
    with 2 have "ss = []" by (cases ss) auto
    with Nil 2 show ?thesis by simp
  next
    case (snoc bs' b)
    with 2 show ?thesis by (auto split: prod.splits)
  qed
qed auto

lemma slab_found:
  assumes "slabs_ok base ss bs" "base \<le> s" "s < base + length (concat ss)"
  shows "\<exists>k first len. partition_point (starts_by s) bs = Suc k \<and> bs ! k = (first, len)
           \<and> unat first \<le> s \<and> s - unat first < len \<and> len = length (ss ! k)
           \<and> ss ! k ! (s - unat first) = concat ss ! (s - base)"
  using assms
proof (induction base ss bs rule: slabs_ok.induct)
  case (2 base sl ss f n bs)
  show ?case
  proof (cases "s < base + length sl")
    case True
    with 2 have "partition_point (starts_by s) bs = 0"
      by (intro slab_none_before [of "base + length sl" ss bs s]) auto
    with True 2 show ?thesis
      by (intro exI [of _ 0] exI [of _ f] exI [of _ n]) (simp add: nth_append less_diff_conv2)
  next
    case False
    with 2 obtain k first len where
      "partition_point (starts_by s) bs = Suc k" "bs ! k = (first, len)" "unat first \<le> s"
      "s - unat first < len" "len = length (ss ! k)"
      "ss ! k ! (s - unat first) = concat ss ! (s - (base + length sl))" by force
    with False 2 show ?thesis
      by (intro exI [of _ "Suc k"]) (auto simp: nth_append)
  qed
qed auto

lemma entry_at_view:
  "entry_at (log_view_of l) s =
     (let index = partition_point (starts_by s) (sl_boundaries l);
          stop = (case rev (sl_boundaries l) of (first, len) # _ \<Rightarrow> unat first + len | [] \<Rightarrow> unat (sl_first l));
          from_tail = (if stop \<le> s then nth_opt (sl_tail l) (s - stop) else None)
      in if index > 0
         then (case sl_boundaries l ! (index - 1) of
                 (first, len) \<Rightarrow>
                   if s - unat first < len then nth_opt (sl_slabs l ! (index - 1)) (s - unat first) else from_tail)
         else from_tail)"
  unfolding entry_at_def log_view_of_def Let_def log_view.simps ..

text \<open>A read finds the entry of the run at the slot's distance from the first slot.\<close>

lemma entry_at_run:
  assumes "wf_physical l"
  shows "entry_at (log_view_of l) s =
           (if unat (sl_first l) \<le> s then nth_opt (physical l) (s - unat (sl_first l)) else None)"
proof -
  let ?base = "unat (sl_first l)" and ?bs = "sl_boundaries l" and ?ss = "sl_slabs l"
  have ok: "slabs_ok ?base ?ss ?bs" using assms by (simp add: wf_physical_def)
  have stop: "(case rev ?bs of (first, len) # _ \<Rightarrow> unat first + len | [] \<Rightarrow> ?base)
      = ?base + length (concat ?ss)" by (rule slab_end [OF ok])
  consider "s < ?base" | "?base \<le> s" "s < ?base + length (concat ?ss)" | "?base + length (concat ?ss) \<le> s"
    by linarith
  then show ?thesis
  proof cases
    case 1
    with stop show ?thesis
      by (simp add: entry_at_view Let_def slab_none_before [OF ok])
  next
    case 2
    from slab_found [OF ok this] obtain k first len where
      "partition_point (starts_by s) ?bs = Suc k" "?bs ! k = (first, len)"
      "s - unat first < len" "len = length (?ss ! k)"
      "?ss ! k ! (s - unat first) = concat ?ss ! (s - ?base)" by blast
    moreover have "s - ?base < length (concat ?ss)" using 2 by linarith
    ultimately show ?thesis
      using 2 by (simp add: entry_at_view Let_def physical_def nth_opt_append) (simp add: nth_opt_def)
  next
    case 3
    have past: "partition_point (starts_by s) ?bs = length ?bs" by (rule slab_past [OF ok 3])
    show ?thesis
    proof (cases ?bs rule: rev_cases)
      case Nil
      with ok have "?ss = []" by (cases ?ss) auto
      with Nil 3 show ?thesis
        by (simp add: entry_at_view Let_def physical_def)
    next
      case (snoc bs b)
      obtain first len where b: "b = (first, len)" by (cases b)
      have eq: "unat first + len = ?base + length (concat ?ss)" using stop by (simp add: snoc b)
      with 3 have "\<not> s - unat first < len" "\<not> s - ?base < length (concat ?ss)" "?base \<le> s" by linarith+
      with 3 past eq show ?thesis
        by (simp add: entry_at_view Let_def physical_def snoc b nth_opt_append)
    qed
  qed
qed


section \<open>The mutations on the run\<close>

lemma wf_physical_contig: "wf_physical l \<Longrightarrow> contig (unat (sl_first l)) (physical l)"
  by (simp add: wf_physical_def)

lemma seal_tail_sel [simp]:
  "sl_first (seal_tail l) = sl_first l" "sl_accepted (seal_tail l) = sl_accepted l"
  "sl_capacity (seal_tail l) = sl_capacity l" "sl_tail (seal_tail l) = []"
  by (simp_all add: seal_tail_def split: list.split)

lemma seal_tail_physical [simp]: "physical (seal_tail l) = physical l"
  by (simp add: seal_tail_def physical_def split: list.split)

lemma seal_tail_wf [simp]: "wf_physical l \<Longrightarrow> wf_physical (seal_tail l)"
  by (auto simp: wf_physical_def seal_tail_def physical_def slabs_ok_snoc contig_append split: list.split)

lemma push_one_wf:
  "wf_physical l \<Longrightarrow> unat (le_slot e) = unat (sl_first l) + length (physical l) \<Longrightarrow>
   wf_physical (l\<lparr>sl_tail := sl_tail l @ [e]\<rparr>)"
  by (auto simp: wf_physical_def physical_def contig_append)

lemma push_entries_run:
  "wf_physical l \<Longrightarrow> contig (unat (sl_first l) + length (physical l)) es \<Longrightarrow>
     wf_physical (push_entries l es) \<and> physical (push_entries l es) = physical l @ es
       \<and> sl_first (push_entries l es) = sl_first l \<and> sl_accepted (push_entries l es) = sl_accepted l"
proof (induction es arbitrary: l)
  case (Cons e es)
  define l1 where "l1 = (if length (sl_tail l) \<ge> sl_capacity l then seal_tail l else l)"
  define l2 where "l2 = l1\<lparr>sl_tail := sl_tail l1 @ [e]\<rparr>"
  have l1: "wf_physical l1" "physical l1 = physical l" "sl_first l1 = sl_first l" "sl_accepted l1 = sl_accepted l"
    using Cons.prems by (simp_all add: l1_def)
  then have l2: "physical l2 = physical l @ [e]" "sl_first l2 = sl_first l" "sl_accepted l2 = sl_accepted l"
    by (simp_all add: l2_def physical_def flip: append_assoc)
  have "wf_physical l2"
    unfolding l2_def by (rule push_one_wf) (use l1 Cons.prems in simp_all)
  with l2 Cons.IH [of l2] Cons.prems have "wf_physical (push_entries l2 es)
      \<and> physical (push_entries l2 es) = (physical l @ [e]) @ es
      \<and> sl_first (push_entries l2 es) = sl_first l \<and> sl_accepted (push_entries l2 es) = sl_accepted l" by simp
  moreover have "push_entries l (e # es) = push_entries l2 es" by (simp add: l1_def l2_def Let_def)
  ultimately show ?case by simp
qed simp

text \<open>Where the next accepted entry must start: one past the run.\<close>

definition run_end :: "segmented_log \<Rightarrow> nat" where
  "run_end l = unat (sl_first l) + length (physical l)"

lemma wf_log_frontier: "wf_log l \<Longrightarrow> sl_accepted l = Some f \<Longrightarrow> unat f + 1 = run_end l"
  by (simp add: wf_log_def run_end_def)

lemma wf_log_expected:
  assumes "wf_log l"
  shows "\<exists>x. (case sl_accepted l of Some f \<Rightarrow> ok_or (slot_next f) SlotExhausted | None \<Rightarrow> Ok (sl_first l)) = Ok x
           \<and> unat x = run_end l"
proof (cases "sl_accepted l")
  case None
  with assms show ?thesis by (simp add: wf_log_def run_end_def)
next
  case (Some f)
  have f: "unat f + 1 = run_end l" by (rule wf_log_frontier [OF assms Some])
  moreover have "run_end l < 2 ^ 64" using assms by (simp add: wf_log_def run_end_def)
  ultimately obtain x where "slot_next f = Some x" by (cases "slot_next f") (auto simp: slot_next_None)
  with f Some show ?thesis by (intro exI [of _ x]) (simp add: slot_next_Some)
qed

lemma accept_entries_run:
  assumes "wf_log l"
  shows "accept_entries l es = Ok l' \<Longrightarrow>
           wf_log l' \<and> physical l' = physical l @ es \<and> sl_first l' = sl_first l
             \<and> sl_accepted l' = (if es = [] then sl_accepted l else Some (le_slot (last es)))"
    and "(\<exists>l'. accept_entries l es = Ok l') \<longleftrightarrow> es = [] \<or> contig (run_end l) es \<and> run_end l + length es < 2 ^ 64"
proof -
  from wf_log_expected [OF assms] obtain x where
    x: "(case sl_accepted l of Some f \<Rightarrow> ok_or (slot_next f) SlotExhausted | None \<Rightarrow> Ok (sl_first l)) = Ok x"
       "unat x = run_end l" by blast
  define appended where "appended = (if length es \<ge> sl_capacity l \<and> sl_tail l = []
      then l\<lparr>sl_slabs := sl_slabs l @ [es], sl_boundaries := sl_boundaries l @ [(le_slot (hd es), length es)]\<rparr>
      else push_entries l es)"
  have eq: "accept_entries l es = (if es = [] then Ok l else
      rbind (check_contiguous x es) (\<lambda>_. Ok (appended\<lparr>sl_accepted := Some (le_slot (last es))\<rparr>)))"
    by (cases es) (simp_all add: accept_entries_def x appended_def Let_def)
  show iff: "(\<exists>l'. accept_entries l es = Ok l') \<longleftrightarrow> es = [] \<or> contig (run_end l) es \<and> run_end l + length es < 2 ^ 64"
    by (auto simp: eq check_contiguous_Ok x)
  assume ok: "accept_entries l es = Ok l'"
  show "wf_log l' \<and> physical l' = physical l @ es \<and> sl_first l' = sl_first l
      \<and> sl_accepted l' = (if es = [] then sl_accepted l else Some (le_slot (last es)))"
  proof (cases "es = []")
    case True
    with eq ok assms show ?thesis by simp
  next
    case False
    with ok have l': "l' = appended\<lparr>sl_accepted := Some (le_slot (last es))\<rparr>"
      and c: "contig (run_end l) es" "run_end l + length es < 2 ^ 64"
      by (auto simp: eq check_contiguous_Ok x)
    have wf: "wf_physical l" using assms by (simp add: wf_log_def)
    have "wf_physical appended \<and> physical appended = physical l @ es \<and> sl_first appended = sl_first l"
    proof (cases "length es \<ge> sl_capacity l \<and> sl_tail l = []")
      case True
      with False wf c show ?thesis
        by (cases es) (auto simp: appended_def wf_physical_def physical_def slabs_ok_snoc contig_append run_end_def)
    next
      case slow: False
      have "appended = push_entries l es" unfolding appended_def using slow by auto
      with push_entries_run [OF wf] c show ?thesis by (simp add: run_end_def)
    qed
    moreover from this have "physical l' = physical appended" "wf_physical l'" "sl_first l' = sl_first l"
      by (auto simp: l' physical_def wf_physical_def)
    moreover have "unat (le_slot (last es)) + 1 = run_end l + length es"
      by (rule contig_last [OF c(1) False])
    ultimately show ?thesis
      using False c by (simp add: wf_log_def l' run_end_def)
  qed
qed


text \<open>Which refusal: the first entry out of place decides it.\<close>

lemma check_contiguous_Err:
  "check_contiguous x es = Err e \<Longrightarrow>
     \<exists>k < length es. contig (unat x) (take k es) \<and>
       (unat (le_slot (es ! k)) < unat x + k \<and> e = SlotOccupied (le_slot (es ! k))
        \<or> unat (le_slot (es ! k)) > unat x + k
            \<and> (\<exists>s. unat s = unat x + k \<and> e = NonContiguous s (le_slot (es ! k)))
        \<or> unat (le_slot (es ! k)) = unat x + k \<and> unat x + k + 1 = 2 ^ 64 \<and> e = SlotExhausted)"
proof (induction es arbitrary: x)
  case (Cons y es)
  consider "le_slot y < x" | "x < le_slot y" | "le_slot y = x" "slot_next x = None"
    | n where "le_slot y = x" "slot_next x = Some n" by (cases "slot_next x") force+
  then show ?case
  proof cases
    case 1
    with Cons.prems show ?thesis by (intro exI [of _ 0]) (auto simp: word_less_nat_alt)
  next
    case 2
    then have "\<not> le_slot y < x" "le_slot y \<noteq> x" by auto
    with 2 Cons.prems show ?thesis by (intro exI [of _ 0]) (auto simp: word_less_nat_alt)
  next
    case 3
    then have "2 ^ 64 \<le> unat x + 1" by (simp add: slot_next_None)
    moreover have "unat x < 2 ^ 64" using unsigned_less [of x, where ?'a = nat] by simp
    ultimately have "unat x + 1 = 2 ^ 64" by linarith
    with 3 Cons.prems show ?thesis by (intro exI [of _ 0]) auto
  next
    case (4 n)
    with Cons.prems have "check_contiguous n es = Err e" and n: "unat n = Suc (unat x)"
      by (simp_all add: slot_next_Some)
    from Cons.IH [OF this(1)] obtain k where "k < length es" "contig (unat n) (take k es)"
      "unat (le_slot (es ! k)) < unat n + k \<and> e = SlotOccupied (le_slot (es ! k))
        \<or> unat (le_slot (es ! k)) > unat n + k
            \<and> (\<exists>s. unat s = unat n + k \<and> e = NonContiguous s (le_slot (es ! k)))
        \<or> unat (le_slot (es ! k)) = unat n + k \<and> unat n + k + 1 = 2 ^ 64 \<and> e = SlotExhausted" by blast
    with 4 n show ?thesis by (intro exI [of _ "Suc k"]) auto
  qed
qed simp


section \<open>Reclaiming\<close>

lemma slabs_covered:
  assumes "slabs_ok base ss bs"
    and "k = partition_point (\<lambda>(first, len). unat first + (len - 1) \<le> c) bs"
  shows "base + length (concat (take k ss)) \<le> max base (c + 1)"
  using assms
proof (induction base ss bs arbitrary: k rule: slabs_ok.induct)
  case (2 base s ss f n bs)
  show ?case
  proof (cases "unat f + (n - 1) \<le> c")
    case True
    with 2 have "base + length s \<le> c + 1" by (cases s) auto
    moreover obtain j where "k = Suc j" "j = partition_point (\<lambda>(first, len). unat first + (len - 1) \<le> c) bs"
      using True 2 by simp
    ultimately show ?thesis using 2 True by fastforce
  qed (use 2 in simp)
qed auto

lemma slabs_all_covered:
  "slabs_ok base ss bs \<Longrightarrow> base + length (concat ss) \<le> c + 1 \<Longrightarrow>
     partition_point (\<lambda>(first, len). unat first + (len - 1) \<le> c) bs = length ss"
proof (induction base ss bs rule: slabs_ok.induct)
  case (2 base s ss f n bs)
  then show ?case by (cases s) auto
qed auto

lemma reclaim_run:
  assumes wf: "wf_log l"
  shows "\<exists>k. wf_log (reclaim_through l c) \<and> physical (reclaim_through l c) = drop k (physical l)
           \<and> k \<le> length (physical l)
           \<and> unat (sl_first (reclaim_through l c)) = unat (sl_first l) + k
           \<and> sl_accepted (reclaim_through l c) = sl_accepted l
           \<and> unat (sl_first l) + k \<le> max (unat (sl_first l)) (unat c + 1)
           \<and> (run_end l \<le> unat c + 1 \<longrightarrow> k = length (physical l))"
proof -
  define l1 where "l1 = (case sl_accepted l of
                 Some frontier \<Rightarrow> if frontier \<le> c then seal_tail l else l | None \<Rightarrow> l)"
  define cov where "cov = partition_point (\<lambda>(first, len). unat first + (len - 1) \<le> unat c) (sl_boundaries l1)"
  define k where "k = length (concat (take cov (sl_slabs l1)))"
  define l2 where "l2 = l1\<lparr>sl_slabs := drop cov (sl_slabs l1), sl_boundaries := drop cov (sl_boundaries l1)\<rparr>"
  define l3 where "l3 = reclaim_through l c"
  have l1: "wf_physical l1" "physical l1 = physical l" "sl_first l1 = sl_first l" "sl_accepted l1 = sl_accepted l"
    using wf by (auto simp: l1_def wf_log_def split: option.split)
  have ok: "slabs_ok (unat (sl_first l)) (sl_slabs l1) (sl_boundaries l1)"
    using l1 by (simp add: wf_physical_def)
  have split: "concat (sl_slabs l1) = concat (take cov (sl_slabs l1)) @ concat (drop cov (sl_slabs l1))"
    by (metis append_take_drop_id concat_append)
  have p1: "physical l = concat (take cov (sl_slabs l1)) @ concat (drop cov (sl_slabs l1)) @ sl_tail l1"
    unfolding l1(2) [symmetric] unfolding physical_def split by simp
  have k: "k \<le> length (physical l)"
    unfolding k_def p1 by simp
  have phys2: "physical l2 = drop k (physical l)"
    unfolding k_def p1 by (simp add: l2_def physical_def)
  have ok2: "slabs_ok (unat (sl_first l) + k) (sl_slabs l2) (sl_boundaries l2)"
    unfolding l2_def k_def using slabs_ok_drop [OF ok, of cov] by simp
  have contig2: "contig (unat (sl_first l) + k) (physical l2)"
    using contig_drop [OF wf_physical_contig [OF l1(1)], of k] k by (simp add: phys2 l1 min_def)
  have end2: "unat f + 1 = unat (sl_first l) + k + length (physical l2)" if "sl_accepted l = Some f" for f
    using wf_log_frontier [OF wf that] k by (simp add: phys2 run_end_def)
  have eq: "l3 = (case sl_boundaries l2 of (first, _) # _ \<Rightarrow> l2\<lparr>sl_first := first\<rparr>
         | [] \<Rightarrow> (case sl_tail l2 of e # _ \<Rightarrow> l2\<lparr>sl_first := le_slot e\<rparr>
              | [] \<Rightarrow> (case sl_accepted l2 of
                     Some frontier \<Rightarrow> l2\<lparr>sl_first := (case slot_next frontier of Some s \<Rightarrow> s | None \<Rightarrow> frontier)\<rparr>
                   | None \<Rightarrow> l2)))"
    unfolding l3_def reclaim_through_def Let_def l2_def cov_def l1_def ..
  have acc2: "sl_accepted l2 = sl_accepted l" by (simp add: l2_def l1)
  have cap2: "sl_capacity l2 = sl_capacity l1" by (simp add: l2_def)
  have l3: "physical l3 = physical l2 \<and> sl_accepted l3 = sl_accepted l2 \<and> sl_slabs l3 = sl_slabs l2
      \<and> sl_boundaries l3 = sl_boundaries l2 \<and> sl_capacity l3 = sl_capacity l2"
    unfolding eq by (auto simp: physical_def split: list.splits prod.splits option.splits)
  have tail_case: "unat (le_slot e) = unat (sl_first l) + k" if "sl_boundaries l2 = []" "sl_tail l2 = e # es" for e es
  proof -
    have "sl_slabs l2 = []" using ok2 that by (cases "sl_slabs l2") auto
    with contig2 that show ?thesis by (simp add: physical_def)
  qed
  have empty_case: "unat (case slot_next f of Some s \<Rightarrow> s | None \<Rightarrow> f) = unat (sl_first l) + k"
    if "sl_boundaries l2 = []" "sl_tail l2 = []" "sl_accepted l = Some f" for f
  proof -
    have "sl_slabs l2 = []" using ok2 that by (cases "sl_slabs l2") auto
    then have f: "unat f + 1 = unat (sl_first l) + k" using end2 that by (simp add: physical_def)
    with k wf obtain s where s: "slot_next f = Some s"
      by (cases "slot_next f") (auto simp: slot_next_None wf_log_def)
    then have "unat s = unat f + 1" by (simp add: slot_next_Some)
    with f s show ?thesis by simp
  qed
  have none_case: "k = 0" if "sl_accepted l = None" using wf that k by (simp add: wf_log_def)
  have first3: "unat (sl_first l3) = unat (sl_first l) + k"
    using ok2 tail_case empty_case none_case acc2 l1(3)
    unfolding eq by (cases "sl_slabs l2"; cases "sl_boundaries l2"; cases "sl_tail l2"; cases "sl_accepted l")
       (auto simp: l2_def)
  have "wf_log l3"
    using wf l1(1) ok2 contig2 end2 k none_case cap2
    by (auto simp: wf_log_def wf_physical_def l3 first3 acc2 phys2 split: option.splits)
  moreover have "unat (sl_first l) + k \<le> max (unat (sl_first l)) (unat c + 1)"
    unfolding k_def using slabs_covered [OF ok, of cov "unat c"] by (simp add: cov_def)
  moreover have "run_end l \<le> unat c + 1 \<longrightarrow> k = length (physical l)"
  proof
    assume all: "run_end l \<le> unat c + 1"
    show "k = length (physical l)"
    proof (cases "sl_accepted l")
      case (Some f)
      with all wf_log_frontier [OF wf Some] have "f \<le> c" by (simp add: word_le_nat_alt)
      with Some have "l1 = seal_tail l" by (simp add: l1_def)
      then have "sl_tail l1 = []" by simp
      then have slabs: "concat (sl_slabs l1) = physical l" using l1(2) by (simp add: physical_def)
      with all have "cov = length (sl_slabs l1)"
        unfolding cov_def by (intro slabs_all_covered [OF ok]) (simp add: run_end_def)
      then show ?thesis by (simp add: k_def slabs)
    qed (use wf k in \<open>simp add: wf_log_def\<close>)
  qed
  ultimately show ?thesis
    using k first3 l3 acc2 phys2 unfolding l3_def by (intro exI [of _ k]) simp
qed


section \<open>Installing a suffix\<close>

lemma cut_slabs:
  assumes "slabs_ok base ss bs"
    and "cut_last_slab from (take (partition_point (\<lambda>(first, _). first < from) bs) ss,
           take (partition_point (\<lambda>(first, _). first < from) bs) bs) = (ss', bs')"
  shows "slabs_ok base ss' bs' \<and> concat ss' = take (unat from - base) (concat ss)"
  using assms
proof (induction base ss bs arbitrary: ss' bs' rule: slabs_ok.induct)
  case (2 base s ss f n bs)
  have f: "unat f = base" and n: "n = length s" "s \<noteq> []" and rest: "slabs_ok (base + length s) ss bs"
    using "2.prems"(1) by simp_all
  let ?k = "partition_point (\<lambda>(first, _). first < from) bs"
  show ?case
  proof (cases "f < from")
    case False
    with "2.prems"(2) f show ?thesis by (simp add: cut_last_slab_def word_less_nat_alt)
  next
    case lt: True
    show ?thesis
    proof (cases "?k")
      case 0
      then have past: "unat from \<le> base + length s \<or> ss = []"
        using rest by (cases ss; cases bs) (auto simp: word_less_nat_alt split: if_splits prod.splits)
      show ?thesis
      proof (cases "unat f + (n - 1) \<ge> unat from")
        case True
        with "2.prems"(2) lt 0 f n have "ss' = [take (unat from - base) s]" "bs' = [(f, unat from - unat f)]"
          by (auto simp: cut_last_slab_def Let_def)
        moreover have "unat from - base \<le> length s" "unat from > base"
          using True n f lt by (simp_all add: word_less_nat_alt)
        ultimately show ?thesis using f n by simp
      next
        case False
        with "2.prems"(2) lt 0 have "ss' = [s]" "bs' = [(f, n)]"
          by (auto simp: cut_last_slab_def)
        moreover have "length s \<le> unat from - base" using False n f by (cases s) auto
        ultimately show ?thesis using f n past by auto
      qed
    next
      case (Suc k)
      then obtain b bs1 where bs: "bs = b # bs1" by (cases bs) auto
      with rest obtain s1 ss1 where ss: "ss = s1 # ss1" by (cases ss) auto
      obtain ss2 bs2 where cut: "cut_last_slab from (take ?k ss, take ?k bs) = (ss2, bs2)" by fastforce
      from "2.IH" [OF rest cut]
      have IH: "slabs_ok (base + length s) ss2 bs2" "concat ss2 = take (unat from - (base + length s)) (concat ss)"
        by simp_all
      have "ss' = s # ss2 \<and> bs' = (f, n) # bs2"
        using "2.prems"(2) lt cut Suc by (auto simp: cut_last_slab_def bs ss Let_def split: if_splits prod.splits)
      moreover have "length s \<le> unat from - base"
      proof -
        have "fst b < from" using Suc bs by (auto split: if_splits prod.splits)
        moreover have "unat (fst b) = base + length s" using rest bs ss by (cases b) simp
        ultimately show ?thesis by (simp add: word_less_nat_alt)
      qed
      ultimately show ?thesis using IH f n by simp
    qed
  qed
qed (auto simp: cut_last_slab_def)

text \<open>The slot a suffix must start at: the cut itself, or one past the run where the cut lies beyond it.\<close>

definition suffix_start :: "segmented_log \<Rightarrow> slot \<Rightarrow> nat" where
  "suffix_start l from = (case sl_accepted l of
     Some _ \<Rightarrow> min (unat from) (run_end l) | None \<Rightarrow> unat from)"

lemma wf_physical_refirst: "wf_physical l \<Longrightarrow> physical l = [] \<Longrightarrow> wf_physical (l\<lparr>sl_first := s\<rparr>)"
  by (cases "sl_slabs l"; cases "sl_boundaries l") (auto simp: wf_physical_def physical_def)

lemma install_suffix_run:
  assumes wf: "wf_log l"
  shows "install_suffix l from es = Ok l' \<Longrightarrow>
           wf_log l' \<and> physical l' = take (unat from - unat (sl_first l)) (physical l) @ es
             \<and> sl_first l' = (if sl_accepted l = None then from else sl_first l)
             \<and> sl_accepted l' = Some (le_slot (last es))"
    and "(\<exists>l'. install_suffix l from es = Ok l') \<longleftrightarrow>
           sl_first l \<le> from \<and> es \<noteq> [] \<and> contig (suffix_start l from) es \<and> suffix_start l from + length es < 2 ^ 64"
proof -
  have "\<exists>x. (case sl_accepted l of
        Some f \<Rightarrow> if from > f then ok_or (slot_next f) SlotExhausted else Ok from | None \<Rightarrow> Ok from) = Ok x
      \<and> unat x = suffix_start l from"
  proof (cases "sl_accepted l")
    case (Some f)
    have f: "unat f + 1 = run_end l" by (rule wf_log_frontier [OF wf Some])
    with wf_log_expected [OF wf] Some show ?thesis
      by (auto simp: suffix_start_def word_less_nat_alt min_def)
  qed (simp add: suffix_start_def)
  then obtain x where x: "(case sl_accepted l of
        Some f \<Rightarrow> if from > f then ok_or (slot_next f) SlotExhausted else Ok from | None \<Rightarrow> Ok from) = Ok x"
    "unat x = suffix_start l from" by blast
  define l1 where "l1 = (if sl_accepted l = None then l\<lparr>sl_first := from\<rparr> else l)"
  define kept where "kept = partition_point (\<lambda>(first, _). first < from) (sl_boundaries l1)"
  obtain ss bs where cut: "cut_last_slab from (take kept (sl_slabs l1), take kept (sl_boundaries l1)) = (ss, bs)"
    by fastforce
  define tl where "tl = takeWhile (\<lambda>e. le_slot e < from) (sl_tail l1)"
  define l2 where "l2 = l1\<lparr>sl_slabs := ss, sl_boundaries := bs, sl_tail := tl @ es,
                            sl_accepted := Some (le_slot (last es))\<rparr>"
  have tl: "take (partition_point (\<lambda>e. le_slot e < from) (sl_tail l1)) (sl_tail l1) = tl"
    unfolding tl_def partition_point_def by (rule takeWhile_eq_take [symmetric])
  have eq: "install_suffix l from es =
      (if from < sl_first l then Err (BelowRetention from (sl_first l))
       else rbind (check_contiguous x es) (\<lambda>_. if es = [] then Err EmptySuffix else Ok l2))"
    unfolding install_suffix_def x Let_def rbind.simps l1_def [symmetric] kept_def [symmetric] tl cut prod.case l2_def ..
  show iff: "(\<exists>l'. install_suffix l from es = Ok l') \<longleftrightarrow>
      sl_first l \<le> from \<and> es \<noteq> [] \<and> contig (suffix_start l from) es \<and> suffix_start l from + length es < 2 ^ 64"
    by (auto simp: eq check_contiguous_Ok x(2))
  assume "install_suffix l from es = Ok l'"
  then have l': "l' = l2" and es: "es \<noteq> []" "contig (suffix_start l from) es"
      "suffix_start l from + length es < 2 ^ 64" and ge: "unat (sl_first l) \<le> unat from"
    by (auto simp: eq check_contiguous_Ok x(2) word_le_nat_alt not_less split: if_splits)
  let ?base = "unat (sl_first l1)"
  have l1: "wf_physical l1" "physical l1 = physical l" "sl_accepted l = None \<Longrightarrow> physical l = []"
    using wf wf_physical_refirst [of l] by (auto simp: l1_def wf_log_def) (simp add: physical_def)
  then have ok: "slabs_ok ?base (sl_slabs l1) (sl_boundaries l1)" and c: "contig ?base (physical l1)"
    by (simp_all add: wf_physical_def)
  have slabs: "slabs_ok ?base ss bs" "concat ss = take (unat from - ?base) (concat (sl_slabs l1))"
    using cut_slabs [OF ok cut [unfolded kept_def]] by simp_all
  have "tl = take (unat from - (?base + length (concat (sl_slabs l1)))) (sl_tail l1)"
    unfolding tl_def using c by (intro contig_takeWhile) (simp add: physical_def contig_append)
  then have run: "physical l2 = take (unat from - ?base) (physical l1) @ es"
    by (simp add: l2_def physical_def slabs)
  have start: "suffix_start l from = ?base + length (take (unat from - ?base) (physical l1))"
    using ge l1 by (auto simp: suffix_start_def l1_def run_end_def min_def split: option.splits)
  have first: "sl_first l2 = (if sl_accepted l = None then from else sl_first l)"
    by (simp add: l2_def l1_def)
  have "physical l' = take (unat from - unat (sl_first l)) (physical l) @ es"
    using run l1 by (cases "sl_accepted l") (simp_all add: l' l1_def)
  moreover have "wf_physical l2"
    using slabs(1) contig_take [OF c, of "unat from - ?base"] es(2) [unfolded start] l1(1) run
    by (simp add: wf_physical_def l2_def contig_append)
  moreover have "unat (le_slot (last es)) + 1 = suffix_start l from + length es"
    by (rule contig_last [OF es(2,1)])
  ultimately show "wf_log l' \<and> physical l' = take (unat from - unat (sl_first l)) (physical l) @ es
      \<and> sl_first l' = (if sl_accepted l = None then from else sl_first l)
      \<and> sl_accepted l' = Some (le_slot (last es))"
    using es(3) run start first by (simp add: l' wf_log_def l2_def)
qed


section \<open>Ranges\<close>

lemma contig_range:
  "contig b es \<Longrightarrow>
     filter (\<lambda>e. lo \<le> unat (le_slot e) \<and> unat (le_slot e) \<le> hi) es = take (Suc hi - max lo b) (drop (lo - b) es)"
proof (induction es arbitrary: b)
  case (Cons e es)
  then have e: "unat (le_slot e) = b" and c: "contig (Suc b) es" by simp_all
  note IH = Cons.IH [OF c]
  consider "b < lo" | "lo \<le> b" "b \<le> hi" | "lo \<le> b" "hi < b" by linarith
  then show ?case
  proof cases
    case 1
    then have "max lo b = max lo (Suc b)" "lo - b = Suc (lo - Suc b)" by linarith+
    with 1 e IH show ?thesis by simp
  next
    case 2
    then have "max lo b = b" "max lo (Suc b) = Suc b" "Suc hi - b = Suc (Suc hi - Suc b)" by linarith+
    with 2 e IH show ?thesis by simp
  next
    case 3
    then have "max lo (Suc b) = Suc b" by linarith
    with 3 e IH show ?thesis by simp
  qed
qed simp

text \<open>What a cursor has still to yield.\<close>

definition ri_rest :: "segmented_log \<Rightarrow> range_iter \<Rightarrow> log_entry list" where
  "ri_rest l it = (if ri_done it then []
     else filter (\<lambda>e. ri_front it \<le> le_slot e \<and> le_slot e \<le> ri_back it) (physical l))"

definition ri_wf :: "segmented_log \<Rightarrow> range_iter \<Rightarrow> bool" where
  "ri_wf l it \<longleftrightarrow> ri_done it \<or>
     unat (sl_first l) \<le> unat (ri_front it) \<and> ri_front it \<le> ri_back it \<and> unat (ri_back it) < run_end l"

lemma ri_rest_run:
  assumes "wf_log l" "ri_wf l it" "\<not> ri_done it"
  shows "ri_rest l it = take (Suc (unat (ri_back it) - unat (ri_front it)))
           (drop (unat (ri_front it) - unat (sl_first l)) (physical l))"
proof -
  have "contig (unat (sl_first l)) (physical l)" using assms(1) by (simp add: wf_log_def wf_physical_def)
  moreover have "max (unat (ri_front it)) (unat (sl_first l)) = unat (ri_front it)"
      "unat (ri_front it) \<le> unat (ri_back it)"
    using assms by (simp_all add: ri_wf_def word_le_nat_alt)
  ultimately show ?thesis
    using assms(3) contig_range [of "unat (sl_first l)" "physical l" "unat (ri_front it)" "unat (ri_back it)"]
    by (simp add: ri_rest_def word_le_nat_alt Suc_diff_le)
qed

lemma range_next_rest:
  assumes "wf_log l" "ri_wf l it"
  shows "\<exists>it'. range_next (log_view_of l) it = ((if ri_rest l it = [] then None else Some (hd (ri_rest l it))), it')
           \<and> ri_wf l it' \<and> ri_rest l it' = tl (ri_rest l it)"
proof (cases "ri_done it")
  case True
  then show ?thesis using assms by (simp add: range_next_def ri_rest_def)
next
  case False
  let ?b = "unat (sl_first l)" and ?f = "unat (ri_front it)" and ?k = "unat (ri_back it)"
  have bounds: "?b \<le> ?f" "?f \<le> ?k" "?k < ?b + length (physical l)"
    using assms(2) False by (simp_all add: ri_wf_def word_le_nat_alt run_end_def)
  have rest: "ri_rest l it = take (Suc (?k - ?f)) (drop (?f - ?b) (physical l))"
    by (rule ri_rest_run [OF assms False])
  have cons: "drop (?f - ?b) (physical l) = physical l ! (?f - ?b) # drop (Suc (?f - ?b)) (physical l)"
    using bounds by (intro Cons_nth_drop_Suc [symmetric]) linarith
  have at: "entry_at (log_view_of l) ?f = Some (physical l ! (?f - ?b))"
    using assms(1) bounds by (simp add: entry_at_run wf_log_def nth_opt_def less_diff_conv2)
  define it' where "it' = (if ri_front it = ri_back it then it\<lparr>ri_done := True\<rparr> else it\<lparr>ri_front := ri_front it + 1\<rparr>)"
  have "range_next (log_view_of l) it = (Some (hd (ri_rest l it)), it')" "ri_rest l it \<noteq> []"
    using False at cons by (simp_all add: range_next_def it'_def rest)
  moreover have "ri_wf l it' \<and> ri_rest l it' = tl (ri_rest l it)"
  proof (cases "ri_front it = ri_back it")
    case True
    have "tl (ri_rest l it) = []" unfolding rest True by (simp add: tl_take)
    with True show ?thesis by (simp add: it'_def ri_wf_def ri_rest_def [of l "it\<lparr>ri_done := True\<rparr>"])
  next
    case ne: False
    then have lt: "?f < ?k" using bounds by (simp add: word_unat_eq_iff)
    then have s: "unat (ri_front it + 1) = Suc ?f"
      using unsigned_less [of "ri_back it", where ?'a = nat] by (simp add: unat_word_ariths)
    have wf': "ri_wf l it'" using ne bounds lt s by (auto simp: it'_def ri_wf_def word_le_nat_alt run_end_def)
    have "\<not> ri_done it'" using False ne by (simp add: it'_def)
    from ri_rest_run [OF assms(1) wf' this] have "ri_rest l it' = take (Suc (?k - Suc ?f)) (drop (Suc ?f - ?b) (physical l))"
      using ne s by (simp add: it'_def)
    moreover have "Suc (?k - Suc ?f) = ?k - ?f" "Suc ?f - ?b = Suc (?f - ?b)" using lt bounds by linarith+
    ultimately show ?thesis using wf' by (simp add: rest cons)
  qed
  ultimately show ?thesis by auto
qed

lemma range_next_back_rest:
  assumes "wf_log l" "ri_wf l it"
  shows "\<exists>it'. range_next_back (log_view_of l) it = ((if ri_rest l it = [] then None else Some (last (ri_rest l it))), it')
           \<and> ri_wf l it' \<and> ri_rest l it' = butlast (ri_rest l it)"
proof (cases "ri_done it")
  case True
  then show ?thesis using assms by (simp add: range_next_back_def ri_rest_def)
next
  case False
  let ?b = "unat (sl_first l)" and ?f = "unat (ri_front it)" and ?k = "unat (ri_back it)"
  have bounds: "?b \<le> ?f" "?f \<le> ?k" "?k < ?b + length (physical l)"
    using assms(2) False by (simp_all add: ri_wf_def word_le_nat_alt run_end_def)
  have snoc: "ri_rest l it = take (?k - ?f) (drop (?f - ?b) (physical l)) @ [physical l ! (?k - ?b)]"
    unfolding ri_rest_run [OF assms False] using bounds
    by (simp add: take_Suc_conv_app_nth)
  have at: "entry_at (log_view_of l) ?k = Some (physical l ! (?k - ?b))"
    using assms(1) bounds by (simp add: entry_at_run wf_log_def nth_opt_def less_diff_conv2)
  define it' where "it' = (if ri_front it = ri_back it then it\<lparr>ri_done := True\<rparr> else it\<lparr>ri_back := ri_back it - 1\<rparr>)"
  have "range_next_back (log_view_of l) it = (Some (last (ri_rest l it)), it')" "ri_rest l it \<noteq> []"
    using False at by (simp_all add: range_next_back_def it'_def snoc)
  moreover have "ri_wf l it' \<and> ri_rest l it' = butlast (ri_rest l it)"
  proof (cases "ri_front it = ri_back it")
    case True
    have "butlast (ri_rest l it) = []" unfolding snoc True by simp
    with True show ?thesis by (simp add: it'_def ri_wf_def ri_rest_def [of l "it\<lparr>ri_done := True\<rparr>"])
  next
    case ne: False
    then have lt: "?f < ?k" using bounds by (simp add: word_unat_eq_iff)
    then have s: "unat (ri_back it - 1) = ?k - 1" by (simp add: unat_sub_if')
    have wf': "ri_wf l it'" using ne bounds lt s by (auto simp: it'_def ri_wf_def word_le_nat_alt run_end_def)
    have "\<not> ri_done it'" using False ne by (simp add: it'_def)
    from ri_rest_run [OF assms(1) wf' this] have "ri_rest l it' = take (Suc (?k - 1 - ?f)) (drop (?f - ?b) (physical l))"
      using ne s by (simp add: it'_def)
    moreover have "Suc (?k - 1 - ?f) = ?k - ?f" using lt by linarith
    ultimately show ?thesis using wf' by (simp add: snoc)
  qed
  ultimately show ?thesis by auto
qed

lemma collect_range_rest:
  "wf_log l \<Longrightarrow> ri_wf l it \<Longrightarrow> collect_range (log_view_of l) n it = take n (ri_rest l it)"
proof (induction n arbitrary: it)
  case (Suc n)
  from range_next_rest [OF Suc.prems] obtain it' where
    it': "range_next (log_view_of l) it = ((if ri_rest l it = [] then None else Some (hd (ri_rest l it))), it')"
    "ri_wf l it'" "ri_rest l it' = tl (ri_rest l it)" by blast
  with Suc.IH [OF Suc.prems(1) it'(2)] show ?case by (cases "ri_rest l it") simp_all
qed simp

lemma view_range_rest:
  assumes "wf_log l"
  shows "ri_wf l (view_range (log_view_of l) from to)
       \<and> ri_rest l (view_range (log_view_of l) from to) = filter (\<lambda>e. from \<le> le_slot e \<and> le_slot e \<le> to) (physical l)"
proof (cases "sl_accepted l")
  case None
  with assms show ?thesis by (simp add: view_range_def log_view_of_def ri_wf_def ri_rest_def wf_log_def)
next
  case (Some f)
  let ?it = "view_range (log_view_of l) from to"
  have f: "unat f + 1 = run_end l" by (rule wf_log_frontier [OF assms Some])
  have c: "contig (unat (sl_first l)) (physical l)" using assms by (simp add: wf_log_def wf_physical_def)
  have slots: "sl_first l \<le> le_slot e \<and> le_slot e \<le> f" if "e \<in> set (physical l)" for e
    using that c f by (auto simp: contig_def in_set_conv_nth word_le_nat_alt run_end_def)
  have it: "ri_front ?it = max from (sl_first l)" "ri_back ?it = min to f" "ri_done ?it \<longleftrightarrow> min to f < max from (sl_first l)"
    using Some by (simp_all add: view_range_def log_view_of_def Let_def)
  have "unat (min to f) < run_end l" using f by (auto simp: min_def word_le_nat_alt)
  then have "ri_wf l ?it"
    unfolding ri_wf_def it by (auto simp: max_def word_le_nat_alt word_less_nat_alt not_less)
  moreover have "filter (\<lambda>e. from \<le> le_slot e \<and> le_slot e \<le> to) (physical l)
      = filter (\<lambda>e. max from (sl_first l) \<le> le_slot e \<and> le_slot e \<le> min to f) (physical l)"
    by (rule filter_cong) (use slots in auto)
  moreover have "filter (\<lambda>e. max from (sl_first l) \<le> le_slot e \<and> le_slot e \<le> min to f) (physical l) = []"
    if "min to f < max from (sl_first l)"
    using that by (auto simp: filter_empty_conv simp del: max.bounded_iff min.bounded_iff)
  ultimately show ?thesis unfolding ri_rest_def it by simp
qed

lemma iter_range_run:
  assumes wf: "wf_log l"
  shows "iter_range (log_view_of l) from to = filter (\<lambda>e. from \<le> le_slot e \<and> le_slot e \<le> to) (physical l)"
proof -
  let ?it = "view_range (log_view_of l) from to"
  have it: "ri_wf l ?it" "ri_rest l ?it = filter (\<lambda>e. from \<le> le_slot e \<and> le_slot e \<le> to) (physical l)"
    using view_range_rest [OF wf] by simp_all
  have "length (ri_rest l ?it) \<le> unat (ri_back ?it) - unat (ri_front ?it) + 2"
  proof (cases "ri_done ?it")
    case False
    then show ?thesis unfolding ri_rest_run [OF wf it(1) False] by simp
  qed (simp add: ri_rest_def)
  then show ?thesis
    unfolding iter_range_def Let_def collect_range_rest [OF wf it(1)] by (simp add: it(2))
qed

end
