(* ===== verification/Journal_Theorems.thy ===== *)
theory Journal_Theorems
  imports Journal_Props
begin

text \<open>
  The interface \<open>journal\<close>: what the trait pair promises its clients, with the consequences every
  client uses proved once; its interpretation on the segmented log; and the properties of the log.
\<close>

section \<open>The interface\<close>

locale journal =
  fixes inv :: "'j \<Rightarrow> bool"
    and base :: "'j \<Rightarrow> nat"
    and run :: "'j \<Rightarrow> log_entry list"
    and accept :: "'j \<Rightarrow> log_entry list \<Rightarrow> journal_error + 'j"
    and install :: "'j \<Rightarrow> slot \<Rightarrow> log_entry list \<Rightarrow> journal_error + 'j"
    and reclaim :: "'j \<Rightarrow> slot \<Rightarrow> 'j"
    and get :: "'j \<Rightarrow> slot \<Rightarrow> log_entry option"
  assumes run_contig: "inv j \<Longrightarrow> contig (base j) (run j)"
    and get_run: "inv j \<Longrightarrow>
          get j s = (if base j \<le> unat s then nth_opt (run j) (unat s - base j) else None)"
    and accept_Ok: "inv j \<Longrightarrow> accept j es = Inr j' \<Longrightarrow> inv j' \<and> run j' = run j @ es \<and> base j' = base j"
    and install_Ok: "inv j \<Longrightarrow> install j c es = Inr j' \<Longrightarrow>
          inv j' \<and> run j' = take (unat c - base j) (run j) @ es \<and> (run j = [] \<or> base j' = base j) \<and> base j \<le> base j'"
    and reclaim_run: "inv j \<Longrightarrow> inv (reclaim j c) \<and>
          (\<exists>k \<le> length (run j). run (reclaim j c) = drop k (run j) \<and> base (reclaim j c) = base j + k
             \<and> (k = 0 \<or> base j + k \<le> unat c + 1))"
begin

lemma get_Some_iff:
  assumes "inv j"
  shows "get j s = Some e \<longleftrightarrow> e \<in> set (run j) \<and> le_slot e = s"
proof -
  have c: "contig (base j) (run j)" by (rule run_contig [OF assms])
  show ?thesis
  proof
    assume "get j s = Some e"
    then have "base j \<le> unat s" "unat s - base j < length (run j)" "e = run j ! (unat s - base j)"
      by (auto simp: get_run [OF assms] nth_opt_def split: if_splits)
    with c show "e \<in> set (run j) \<and> le_slot e = s"
      by (auto simp: contig_def word_unat_eq_iff)
  next
    assume "e \<in> set (run j) \<and> le_slot e = s"
    then obtain i where "i < length (run j)" "e = run j ! i" "le_slot e = s" by (auto simp: in_set_conv_nth)
    moreover from this c have "unat s = base j + i" by (auto simp: contig_def)
    ultimately show "get j s = Some e" by (simp add: get_run [OF assms] nth_opt_def)
  qed
qed

lemma accept_reads:
  "inv j \<Longrightarrow> accept j es = Inr j' \<Longrightarrow> get j' s = Some e \<longleftrightarrow> get j s = Some e \<or> e \<in> set es \<and> le_slot e = s"
  using accept_Ok [of j es j'] by (auto simp: get_Some_iff)

lemma install_reads:
  assumes "inv j" "install j c es = Inr j'"
  shows "get j' s = Some e \<longleftrightarrow> (s < c \<and> get j s = Some e) \<or> e \<in> set es \<and> le_slot e = s"
proof -
  have j': "inv j'" "run j' = take (unat c - base j) (run j) @ es" using install_Ok [OF assms] by simp_all
  have "e \<in> set (take (unat c - base j) (run j)) \<longleftrightarrow> e \<in> set (run j) \<and> le_slot e < c"
    unfolding contig_takeWhile [OF run_contig [OF assms(1)], symmetric]
  proof
    assume "e \<in> set (takeWhile (\<lambda>e. le_slot e < c) (run j))"
    then show "e \<in> set (run j) \<and> le_slot e < c" by (auto dest: set_takeWhileD)
  next
    assume e: "e \<in> set (run j) \<and> le_slot e < c"
    then obtain i where i: "i < length (run j)" "e = run j ! i" by (auto simp: in_set_conv_nth)
    then have "unat (le_slot e) = base j + i" using run_contig [OF assms(1)] by (simp add: contig_def)
    with e have "i < unat c - base j" by (auto simp: word_less_nat_alt)
    with i show "e \<in> set (takeWhile (\<lambda>e. le_slot e < c) (run j))"
      unfolding contig_takeWhile [OF run_contig [OF assms(1)]]
      by (auto simp: in_set_conv_nth intro: exI [of _ i])
  qed
  with assms(1) j' show ?thesis by (auto simp: get_Some_iff)
qed

lemma reclaim_reads:
  assumes "inv j"
  shows "get (reclaim j c) s = Some e \<longleftrightarrow> get j s = Some e \<and> base (reclaim j c) \<le> unat s"
    and "get j s = Some e \<Longrightarrow> c < s \<Longrightarrow> get (reclaim j c) s = Some e"
proof -
  from reclaim_run [OF assms, of c] obtain k where k: "inv (reclaim j c)" "k \<le> length (run j)"
    "run (reclaim j c) = drop k (run j)" "base (reclaim j c) = base j + k" "k = 0 \<or> base j + k \<le> unat c + 1" by blast
  show iff: "get (reclaim j c) s = Some e \<longleftrightarrow> get j s = Some e \<and> base (reclaim j c) \<le> unat s" for e
    using k by (auto simp: get_run assms nth_opt_def)
  assume "get j s = Some e" "c < s"
  moreover from this have "base j \<le> unat s" by (auto simp: get_run assms split: if_splits)
  ultimately show "get (reclaim j c) s = Some e"
    using k(4,5) by (auto simp: iff word_less_nat_alt)
qed

text \<open>Through any mutation that cuts above a slot, the slot keeps its entry or is let go.\<close>

lemma base_mono:
  "inv j \<Longrightarrow> accept j es = Inr j' \<Longrightarrow> base j' = base j"
  "inv j \<Longrightarrow> install j c es = Inr j' \<Longrightarrow> base j \<le> base j'"
  "inv j \<Longrightarrow> base j \<le> base (reclaim j c)"
  using accept_Ok [of j es j'] install_Ok [of j c es j'] reclaim_run [of j c] by auto

end

abbreviation log_get :: "segmented_log \<Rightarrow> slot \<Rightarrow> log_entry option" where
  "log_get l \<equiv> view_get (log_view_of l)"

interpretation seg: journal wf_log "\<lambda>l. unat (sl_first l)" physical accept_entries install_suffix
  reclaim_through log_get
proof
  fix l l' c es s
  assume wf: "wf_log l"
  show "contig (unat (sl_first l)) (physical l)"
    using wf by (simp add: wf_log_def wf_physical_def)
  show "log_get l s = (if unat (sl_first l) \<le> unat s then nth_opt (physical l) (unat s - unat (sl_first l)) else None)"
    using wf by (simp add: view_get_def wf_log_def entry_at_run)
  show "wf_log l' \<and> physical l' = physical l @ es \<and> unat (sl_first l') = unat (sl_first l)"
    if "accept_entries l es = Ok l'"
    using accept_entries_run(1) [OF wf that] by simp
  show "wf_log l' \<and> physical l' = take (unat c - unat (sl_first l)) (physical l) @ es
      \<and> (physical l = [] \<or> unat (sl_first l') = unat (sl_first l)) \<and> unat (sl_first l) \<le> unat (sl_first l')"
    if ok: "install_suffix l c es = Ok l'"
  proof -
    have "sl_first l \<le> c" using install_suffix_run(2) [OF wf, of c es] ok by blast
    moreover have "physical l = []" if "sl_accepted l = None" using wf that by (simp add: wf_log_def)
    ultimately show ?thesis
      using install_suffix_run(1) [OF wf ok] by (auto simp: word_le_nat_alt)
  qed
  show "wf_log (reclaim_through l c) \<and>
      (\<exists>k \<le> length (physical l). physical (reclaim_through l c) = drop k (physical l)
         \<and> unat (sl_first (reclaim_through l c)) = unat (sl_first l) + k
         \<and> (k = 0 \<or> unat (sl_first l) + k \<le> unat c + 1))"
    using reclaim_run [OF wf, of c] by (auto simp: max_def split: if_splits)
qed


section \<open>Histories\<close>

text \<open>Any sequence of mutations, a refused one leaving the log as it was.\<close>

datatype journal_op = J_Accept "log_entry list" | J_Install slot "log_entry list" | J_Reclaim slot

fun journal_step :: "segmented_log \<Rightarrow> journal_op \<Rightarrow> segmented_log" where
  "journal_step l (J_Accept es) = (case accept_entries l es of Err _ \<Rightarrow> l | Ok l' \<Rightarrow> l')"
| "journal_step l (J_Install c es) = (case install_suffix l c es of Err _ \<Rightarrow> l | Ok l' \<Rightarrow> l')"
| "journal_step l (J_Reclaim c) = reclaim_through l c"

definition cuts_above :: "slot \<Rightarrow> journal_op \<Rightarrow> bool" where
  "cuts_above s op = (case op of J_Install c es \<Rightarrow> s < c | _ \<Rightarrow> True)"

lemma journal_step_cases:
  obtains (same) "journal_step l op = l"
  | (accept) es where "op = J_Accept es" "accept_entries l es = Ok (journal_step l op)"
  | (install) c es where "op = J_Install c es" "install_suffix l c es = Ok (journal_step l op)"
  | (reclaim) c where "op = J_Reclaim c" "journal_step l op = reclaim_through l c"
proof (cases op)
  case (J_Accept es)
  with that(1,2) show ?thesis by (cases "accept_entries l es") simp_all
next
  case (J_Install c es)
  with that(1,3) show ?thesis by (cases "install_suffix l c es") simp_all
qed (use that(4) in simp)

lemma journal_step_wf: "wf_log l \<Longrightarrow> wf_log (journal_step l op)"
  by (cases rule: journal_step_cases [of l op]) (metis seg.accept_Ok seg.install_Ok seg.reclaim_run)+

lemma journal_steps_wf: "wf_log l \<Longrightarrow> wf_log (foldl journal_step l ops)"
  by (induction ops arbitrary: l) (simp_all add: journal_step_wf)

lemma journal_step_keeps:
  assumes "wf_log l" "log_get l s = Some e" "cuts_above s op"
  shows "unat (sl_first l) \<le> unat (sl_first (journal_step l op))
       \<and> (log_get (journal_step l op) s = Some e \<or> s < sl_first (journal_step l op))"
proof (cases rule: journal_step_cases [of l op])
  case same
  with assms(2) show ?thesis by simp
next
  case (accept es)
  with assms show ?thesis
    using seg.accept_reads [OF assms(1) accept(2)] seg.base_mono(1) [OF assms(1) accept(2)] by simp
next
  case (install c es)
  with assms show ?thesis
    using seg.install_reads [OF assms(1) install(2)] seg.base_mono(2) [OF assms(1) install(2)]
    by (simp add: cuts_above_def)
next
  case (reclaim c)
  with assms show ?thesis
    using seg.reclaim_reads(1) [OF assms(1), of c s e] seg.base_mono(3) [OF assms(1), of c]
    by (auto simp: word_less_nat_alt)
qed

lemma journal_step_first:
  "wf_log l \<Longrightarrow> unat (sl_first l) \<le> unat (sl_first (journal_step l op))"
  by (cases rule: journal_step_cases [of l op]) (auto dest: seg.base_mono simp: seg.base_mono(3))

lemma journal_steps_first:
  "wf_log l \<Longrightarrow> unat (sl_first l) \<le> unat (sl_first (foldl journal_step l ops))"
proof (induction ops arbitrary: l)
  case (Cons op ops)
  from Cons.IH [OF journal_step_wf [OF Cons.prems, of op]] journal_step_first [OF Cons.prems, of op]
  show ?case by simp
qed simp

lemma journal_steps_keep:
  "wf_log l \<Longrightarrow> log_get l s = Some e \<Longrightarrow> list_all (cuts_above s) ops \<Longrightarrow>
     log_get (foldl journal_step l ops) s = Some e \<or> s < sl_first (foldl journal_step l ops)"
proof (induction ops arbitrary: l)
  case (Cons op ops)
  let ?l = "journal_step l op"
  have wf: "wf_log ?l" by (rule journal_step_wf [OF Cons.prems(1)])
  from journal_step_keeps [OF Cons.prems(1,2)] Cons.prems(3)
  consider "log_get ?l s = Some e" | "s < sl_first ?l" by auto
  then show ?case
  proof cases
    case 1
    with Cons.IH [OF wf] Cons.prems(3) show ?thesis by simp
  next
    case 2
    with journal_steps_first [OF wf, of ops] show ?thesis by (simp add: word_less_nat_alt)
  qed
qed simp

text \<open>A sample history.\<close>

definition op_entry :: "slot \<Rightarrow> log_entry" where
  "op_entry s = \<lparr>le_slot = s, le_era = 0, le_payload = P_System Void\<rparr>"

definition sample_log :: segmented_log where
  "sample_log = foldl journal_step (with_tail_capacity 2)
     [J_Accept [op_entry 1], J_Accept [op_entry 2, op_entry 3], J_Accept [op_entry 4]]"

lemma sample_log_eq:
  "sample_log = \<lparr>sl_slabs = [[op_entry 1, op_entry 2]], sl_boundaries = [(1, 2)],
     sl_tail = [op_entry 3, op_entry 4], sl_capacity = 2, sl_first = 1, sl_accepted = Some 4\<rparr>"
  by (simp add: sample_log_def with_tail_capacity_def VOID_SLOT_def accept_entries_def op_entry_def
      slot_next_def checked_add_def seal_tail_def)

lemma wf_sample_log: "wf_log sample_log"
  unfolding sample_log_def by (rule journal_steps_wf [OF wf_new])


section \<open>Properties\<close>

text \<open>Through any sequence of acceptances, suffix installations and reclamations in which every
  installation cuts above a slot, an entry once readable at the slot is read there unchanged, or the
  log reports that it has been let go.\<close>

theorem committed_entries_survive:
  assumes "wf_log l" "log_get l s = Some e" "list_all (cuts_above s) ops"
  shows "log_get (foldl journal_step l ops) s = Some e \<or> s < sl_first (foldl journal_step l ops)"
  by (rule journal_steps_keep [OF assms])

theorem committed_entries_survive_witness:
  "log_get (foldl journal_step sample_log [J_Install 3 [op_entry 3], J_Accept [op_entry 4]]) 2 = Some (op_entry 2)
   \<or> 2 < sl_first (foldl journal_step sample_log [J_Install 3 [op_entry 3], J_Accept [op_entry 4]])"
proof (rule committed_entries_survive [OF wf_sample_log])
  show "log_get sample_log 2 = Some (op_entry 2)"
    by (simp add: sample_log_eq log_view_of_def view_get_def entry_at_def Let_def nth_opt_def)
qed (simp add: cuts_above_def)

text \<open>C31. A batch is accepted exactly when it continues the run slot by slot below the last slot value;
  what is accepted is appended to the run, and the frontier is its last entry.\<close>

theorem accept_refines_append:
  assumes "wf_log l"
  shows "((\<exists>l'. accept_entries l es = Ok l') \<longleftrightarrow>
            es = [] \<or> contig (run_end l) es \<and> run_end l + length es < 2 ^ 64)
       \<and> (\<forall>l'. accept_entries l es = Ok l' \<longrightarrow>
            wf_log l' \<and> physical l' = physical l @ es \<and> sl_first l' = sl_first l
            \<and> sl_accepted l' = (if es = [] then sl_accepted l else Some (le_slot (last es))))"
  using accept_entries_run [OF assms, of es] by blast

theorem accept_refines_append_witness:
  "\<exists>l'. accept_entries sample_log [op_entry 5, op_entry 6, op_entry 7] = Ok l'
     \<and> physical l' = map op_entry [1, 2, 3, 4, 5, 6, 7] \<and> sl_accepted l' = Some 7"
proof -
  let ?es = "[op_entry 5, op_entry 6, op_entry 7]"
  note facts = accept_refines_append [OF wf_sample_log, of ?es]
  have "contig (run_end sample_log) ?es \<and> run_end sample_log + length ?es < 2 ^ 64"
    by (simp add: sample_log_eq run_end_def physical_def op_entry_def)
  with facts obtain l' where "accept_entries sample_log ?es = Ok l'" by blast
  with facts show ?thesis by (auto simp: sample_log_eq physical_def op_entry_def)
qed

text \<open>A refused batch names the first entry out of place: below the expected slot, beyond it, or at
  the last slot value.\<close>

theorem accept_refusal_names_offender:
  assumes "wf_log l" "accept_entries l es = Err err"
  shows "\<exists>k < length es. contig (run_end l) (take k es) \<and>
           (case err of
              SlotOccupied s \<Rightarrow> s = le_slot (es ! k) \<and> unat s < run_end l + k
            | NonContiguous expected s \<Rightarrow> s = le_slot (es ! k) \<and> unat expected = run_end l + k \<and> expected < s
            | SlotExhausted \<Rightarrow> le_slot (es ! k) = - 1
            | _ \<Rightarrow> False)"
proof -
  obtain x where x: "(case sl_accepted l of Some f \<Rightarrow> ok_or (slot_next f) SlotExhausted | None \<Rightarrow> Ok (sl_first l)) = Ok x"
      "unat x = run_end l" using wf_log_expected [OF assms(1)] by blast
  then have "check_contiguous x es = Err err"
    using assms(2) by (cases es) (auto simp: accept_entries_def Let_def)
  from check_contiguous_Err [OF this] x(2) obtain k where
    "k < length es" "contig (run_end l) (take k es)"
    "unat (le_slot (es ! k)) < run_end l + k \<and> err = SlotOccupied (le_slot (es ! k))
        \<or> unat (le_slot (es ! k)) > run_end l + k
            \<and> (\<exists>s. unat s = run_end l + k \<and> err = NonContiguous s (le_slot (es ! k)))
        \<or> unat (le_slot (es ! k)) = run_end l + k \<and> run_end l + k + 1 = 2 ^ 64 \<and> err = SlotExhausted"
    by auto
  then show ?thesis
    by (intro exI [of _ k])
       (auto simp: word_less_nat_alt word_unat_eq_iff unsigned_minus_1_eq_mask mask_eq_exp_minus_1)
qed

theorem accept_refusal_names_offender_witness:
  "\<exists>k < length [op_entry 5, op_entry 5]. contig (run_end sample_log) (take k [op_entry 5, op_entry 5])
     \<and> 5 = le_slot ([op_entry 5, op_entry 5] ! k) \<and> 5 < run_end sample_log + k"
proof -
  have "accept_entries sample_log [op_entry 5, op_entry 5] = Err (SlotOccupied 5)"
    by (simp add: sample_log_eq accept_entries_def slot_next_def checked_add_def op_entry_def)
  from accept_refusal_names_offender [OF wf_sample_log this] show ?thesis
    by simp
qed

text \<open>A suffix is installed exactly when the cut is within the retained window, the suffix is not
  empty and continues from the cut, or from the end of the run where the cut lies beyond it; the run
  is then its prefix below the cut followed by the suffix, and the frontier is the suffix's last entry.\<close>

theorem install_replaces_suffix:
  assumes "wf_log l"
  shows "((\<exists>l'. install_suffix l c es = Ok l') \<longleftrightarrow>
            sl_first l \<le> c \<and> es \<noteq> [] \<and> contig (suffix_start l c) es \<and> suffix_start l c + length es < 2 ^ 64)
       \<and> (\<forall>l'. install_suffix l c es = Ok l' \<longrightarrow>
            wf_log l' \<and> physical l' = takeWhile (\<lambda>e. le_slot e < c) (physical l) @ es
            \<and> sl_first l' = (if sl_accepted l = None then c else sl_first l)
            \<and> sl_accepted l' = Some (le_slot (last es)))"
  using install_suffix_run [OF assms, of c es] contig_takeWhile [OF seg.run_contig [OF assms], of c]
  by auto

theorem install_replaces_suffix_witness:
  "\<exists>l'. install_suffix sample_log 2 [op_entry 2, op_entry 3] = Ok l'
     \<and> physical l' = map op_entry [1, 2, 3] \<and> sl_accepted l' = Some 3"
proof -
  let ?es = "[op_entry 2, op_entry 3]"
  note facts = install_replaces_suffix [OF wf_sample_log, of 2 ?es]
  have "sl_first sample_log \<le> 2 \<and> ?es \<noteq> [] \<and> contig (suffix_start sample_log 2) ?es
      \<and> suffix_start sample_log 2 + length ?es < 2 ^ 64"
    by (simp add: sample_log_eq suffix_start_def run_end_def physical_def op_entry_def)
  with facts obtain l' where "install_suffix sample_log 2 ?es = Ok l'" by blast
  with facts show ?thesis by (auto simp: sample_log_eq physical_def op_entry_def)
qed

text \<open>Reclaiming lets go only of entries at or below the checkpoint, and of all of them where the
  checkpoint covers the log; what stays readable is unchanged and the accepted frontier stays.\<close>

theorem reclaim_spares_above_checkpoint:
  assumes "wf_log l"
  shows "wf_log (reclaim_through l c) \<and> sl_accepted (reclaim_through l c) = sl_accepted l
       \<and> (\<forall>s e. log_get (reclaim_through l c) s = Some e \<longrightarrow> log_get l s = Some e)
       \<and> (\<forall>s e. log_get l s = Some e \<and> c < s \<longrightarrow> log_get (reclaim_through l c) s = Some e)
       \<and> (\<forall>f. sl_accepted l = Some f \<and> f \<le> c \<longrightarrow> physical (reclaim_through l c) = [])"
proof -
  from reclaim_run [OF assms, of c] obtain k where
    "wf_log (reclaim_through l c)" "sl_accepted (reclaim_through l c) = sl_accepted l"
    "physical (reclaim_through l c) = drop k (physical l)" "run_end l \<le> unat c + 1 \<longrightarrow> k = length (physical l)"
    by blast
  moreover have "run_end l \<le> unat c + 1" if "sl_accepted l = Some f" "f \<le> c" for f
    using wf_log_frontier [OF assms that(1)] that(2) by (simp add: word_le_nat_alt)
  ultimately have "wf_log (reclaim_through l c)" "sl_accepted (reclaim_through l c) = sl_accepted l"
    "\<forall>f. sl_accepted l = Some f \<and> f \<le> c \<longrightarrow> physical (reclaim_through l c) = []" by auto
  moreover have "\<forall>s e. log_get (reclaim_through l c) s = Some e \<longrightarrow> log_get l s = Some e"
    by (simp add: seg.reclaim_reads(1) [OF assms])
  moreover have "\<forall>s e. log_get l s = Some e \<and> c < s \<longrightarrow> log_get (reclaim_through l c) s = Some e"
    using seg.reclaim_reads(2) [OF assms, where c = c] by blast
  ultimately show ?thesis by iprover
qed

theorem reclaim_spares_above_checkpoint_witness:
  "physical (reclaim_through sample_log 4) = [] \<and> sl_accepted (reclaim_through sample_log 4) = Some 4"
  using reclaim_spares_above_checkpoint [OF wf_sample_log, of 4] by (simp add: sample_log_eq)


text \<open>A read at a slot finds exactly the entry of the run that carries the slot, whichever slab or
  the tail holds it, and the slots that can be read are exactly those from the first slot to the
  accepted frontier.\<close>

theorem view_reads_the_run:
  assumes "wf_log l"
  shows "(view_get (log_view_of l) s = Some e \<longleftrightarrow> e \<in> set (physical l) \<and> le_slot e = s)
       \<and> ((\<exists>e. view_get (log_view_of l) s = Some e) \<longleftrightarrow>
            (\<exists>f. sl_accepted l = Some f \<and> sl_first l \<le> s \<and> s \<le> f))"
proof -
  have "(\<exists>e. view_get (log_view_of l) s = Some e) \<longleftrightarrow> unat (sl_first l) \<le> unat s \<and> unat s < run_end l"
    by (auto simp: seg.get_run [OF assms] nth_opt_def run_end_def)
  also have "\<dots> \<longleftrightarrow> (\<exists>f. sl_accepted l = Some f \<and> sl_first l \<le> s \<and> s \<le> f)"
  proof (cases "sl_accepted l")
    case None
    with assms show ?thesis by (simp add: wf_log_def run_end_def)
  next
    case (Some f)
    with wf_log_frontier [OF assms Some] show ?thesis by (auto simp: word_le_nat_alt)
  qed
  finally show ?thesis using seg.get_Some_iff [OF assms] by blast
qed

theorem view_reads_the_run_witness:
  "view_get (log_view_of sample_log) 3 = Some (op_entry 3) \<and> view_get (log_view_of sample_log) 5 \<noteq> Some (op_entry 5)"
  using view_reads_the_run [OF wf_sample_log, of 3 "op_entry 3"] view_reads_the_run [OF wf_sample_log, of 5 "op_entry 5"]
  by (simp add: sample_log_eq physical_def op_entry_def)

text \<open>A driver of the cursor: each call from the front (\<open>True\<close>) or from the back.\<close>

fun drive_range :: "log_view \<Rightarrow> bool list \<Rightarrow> range_iter \<Rightarrow> log_entry list \<Rightarrow> log_entry list
    \<Rightarrow> range_iter \<times> log_entry list \<times> log_entry list" where
  "drive_range v [] it fronts backs = (it, fronts, backs)"
| "drive_range v (True # calls) it fronts backs =
     (case range_next v it of
        (Some e, it) \<Rightarrow> drive_range v calls it (fronts @ [e]) backs
      | (None, it) \<Rightarrow> drive_range v calls it fronts backs)"
| "drive_range v (False # calls) it fronts backs =
     (case range_next_back v it of
        (Some e, it) \<Rightarrow> drive_range v calls it fronts (e # backs)
      | (None, it) \<Rightarrow> drive_range v calls it fronts backs)"

lemma drive_range_rest:
  "wf_log l \<Longrightarrow> ri_wf l it \<Longrightarrow> drive_range (log_view_of l) calls it fronts backs = (it', fronts', backs') \<Longrightarrow>
     ri_wf l it' \<and> fronts' @ ri_rest l it' @ backs' = fronts @ ri_rest l it @ backs
     \<and> length (ri_rest l it') = length (ri_rest l it) - length calls"
proof (induction calls arbitrary: it fronts backs)
  case (Cons front calls)
  show ?case
  proof (cases front)
    case True
    from range_next_rest [OF Cons.prems(1,2)] obtain it1 where
      it1: "range_next (log_view_of l) it = ((if ri_rest l it = [] then None else Some (hd (ri_rest l it))), it1)"
      "ri_wf l it1" "ri_rest l it1 = tl (ri_rest l it)" by blast
    with True Cons.IH [OF Cons.prems(1) it1(2)] Cons.prems(3) show ?thesis
      by (cases "ri_rest l it") fastforce+
  next
    case False
    from range_next_back_rest [OF Cons.prems(1,2)] obtain it1 where
      it1: "range_next_back (log_view_of l) it = ((if ri_rest l it = [] then None else Some (last (ri_rest l it))), it1)"
      "ri_wf l it1" "ri_rest l it1 = butlast (ri_rest l it)" by blast
    with False Cons.IH [OF Cons.prems(1) it1(2)] Cons.prems(3) show ?thesis
      by (cases "ri_rest l it" rule: rev_cases) fastforce+
  qed
qed simp

text \<open>The cursor of a range yields the entries of the range exactly once, whatever the order in which
  its two ends are called: what came from the front, what is left and what came from the back in
  reverse make up the range.\<close>

theorem range_yields_each_once:
  assumes "wf_log l" "drive_range (log_view_of l) calls (view_range (log_view_of l) from to) [] [] = (it, fronts, backs)"
    and "length (physical l) \<le> length calls"
  shows "fronts @ backs = filter (\<lambda>e. from \<le> le_slot e \<and> le_slot e \<le> to) (physical l)"
proof -
  from view_range_rest [OF assms(1)] have
    v: "ri_wf l (view_range (log_view_of l) from to)"
       "ri_rest l (view_range (log_view_of l) from to) = filter (\<lambda>e. from \<le> le_slot e \<and> le_slot e \<le> to) (physical l)"
    by simp_all
  have "length (filter (\<lambda>e. from \<le> le_slot e \<and> le_slot e \<le> to) (physical l)) \<le> length calls"
    using assms(3) le_trans [OF length_filter_le] by blast
  with drive_range_rest [OF assms(1) v(1) assms(2)] show ?thesis by (auto simp: v(2))
qed


theorem range_yields_each_once_witness:
  "\<exists>it fronts backs. drive_range (log_view_of sample_log) [True, False, True, False]
       (view_range (log_view_of sample_log) 2 9) [] [] = (it, fronts, backs)
     \<and> fronts @ backs = map op_entry [2, 3, 4]"
proof -
  obtain it fronts backs where d: "drive_range (log_view_of sample_log) [True, False, True, False]
       (view_range (log_view_of sample_log) 2 9) [] [] = (it, fronts, backs)"
    by (cases "drive_range (log_view_of sample_log) [True, False, True, False]
       (view_range (log_view_of sample_log) 2 9) [] []")
  have "fronts @ backs = map op_entry [2, 3, 4]"
    using range_yields_each_once [OF wf_sample_log d] by (simp add: sample_log_eq physical_def op_entry_def word_le_nat_alt)
  with d show ?thesis by blast
qed

text \<open>Copying out a range appends a contiguous run from its first slot, each entry the one read at
  its slot, and the outcome says exactly how far it reaches: to the end of the range, to the accepted
  frontier short of it, or nowhere because the range begins below retention or nothing was accepted.\<close>

theorem copy_out_accounts_for_range:
  assumes "wf_log l"
  shows "\<exists>es. snd (copy_out (log_view_of l) from to into) = into @ es \<and> contig (unat from) es
       \<and> set es \<subseteq> set (physical l)
       \<and> (case fst (copy_out (log_view_of l) from to into) of
            Range_Complete \<Rightarrow> unat from + length es = max (unat from) (unat to + 1)
          | Range_Short f \<Rightarrow> sl_accepted l = Some f \<and> f < to \<and> unat from + length es = max (unat from) (unat f + 1)
          | Range_BelowRetention s first \<Rightarrow> es = [] \<and> s = from \<and> first = sl_first l \<and> from < first
          | Range_Empty \<Rightarrow> es = [] \<and> sl_accepted l = None)"
proof -
  have window: "contig (unat from) es \<and> set es \<subseteq> set (physical l) \<and> unat from + length es = unat stop + 1"
    if "es = filter (\<lambda>e. from \<le> le_slot e \<and> le_slot e \<le> stop) (physical l)"
       "sl_first l \<le> from" "from \<le> stop" "unat stop < run_end l" for es stop
  proof -
    have c: "contig (unat (sl_first l)) (physical l)" by (rule seg.run_contig [OF assms])
    have "max (unat from) (unat (sl_first l)) = unat from" using that(2) by (simp add: word_le_nat_alt)
    with contig_range [OF c, of "unat from" "unat stop"] that(1)
    have es: "es = take (Suc (unat stop) - unat from) (drop (unat from - unat (sl_first l)) (physical l))"
      by (simp add: word_le_nat_alt)
    have b: "unat (sl_first l) \<le> unat from" "unat from \<le> unat stop" "unat stop < unat (sl_first l) + length (physical l)"
      using that(2-4) by (simp_all add: word_le_nat_alt run_end_def)
    then have "unat (sl_first l) + min (unat from - unat (sl_first l)) (length (physical l)) = unat from" by linarith
    with contig_take [OF contig_drop [OF c, of "unat from - unat (sl_first l)"], of "Suc (unat stop) - unat from"]
    have "contig (unat from) es" by (simp add: es)
    moreover have "length es = Suc (unat stop) - unat from" using b by (simp add: es)
    ultimately show ?thesis using b that(1) by auto
  qed
  show ?thesis
  proof (cases "from < sl_first l")
    case True
    then show ?thesis by (simp add: copy_out_def log_view_of_def)
  next
    case ge: False
    show ?thesis
    proof (cases "sl_accepted l")
      case None
      with ge show ?thesis by (simp add: copy_out_def log_view_of_def)
    next
      case (Some f)
      have f: "unat f + 1 = run_end l" by (rule wf_log_frontier [OF assms Some])
      have view: "lv_first (log_view_of l) = sl_first l" "lv_last (log_view_of l) = Some f"
        using Some by (simp_all add: log_view_of_def)
      consider "to < from" | "from \<le> to" "f < from" | "from \<le> to" "from \<le> f" by force
      then show ?thesis
      proof cases
        case 1
        with ge show ?thesis by (simp add: copy_out_def view word_less_nat_alt max_def)
      next
        case 2
        then have "f < to" "\<not> to < from" by auto
        with 2 ge Some show ?thesis by (simp add: copy_out_def view word_less_nat_alt max_def)
      next
        case 3
        define stop where "stop = (if to > f then f else to)"
        define es where "es = filter (\<lambda>e. from \<le> le_slot e \<and> le_slot e \<le> stop) (physical l)"
        have out: "copy_out (log_view_of l) from to into =
            ((if to > f then Range_Short f else Range_Complete), into @ es)"
          using ge 3 by (auto simp: copy_out_def view Let_def es_def stop_def iter_range_run [OF assms] dest: leD)
        have "from \<le> stop" "unat stop < run_end l" using 3 f by (auto simp: stop_def word_less_nat_alt)
        with window [OF es_def] ge
        have "contig (unat from) es \<and> set es \<subseteq> set (physical l) \<and> unat from + length es = unat stop + 1"
          by (simp add: not_less)
        moreover from this have "max (unat from) (unat stop + 1) = unat from + length es" by simp
        ultimately show ?thesis
          using Some unfolding out by (intro exI [of _ es]) (auto simp: stop_def)
      qed
    qed
  qed
qed

theorem copy_out_accounts_for_range_witness:
  "\<exists>es. snd (copy_out (log_view_of sample_log) 3 9 []) = es \<and> contig 3 es \<and> length es = 2"
proof -
  have "fst (copy_out (log_view_of sample_log) 3 9 []) = Range_Short 4"
    by (simp add: copy_out_def sample_log_eq log_view_of_def Let_def)
  with copy_out_accounts_for_range [OF wf_sample_log, of 3 9 "[]"] show ?thesis
    by (auto simp: max_def split: if_splits)
qed

text \<open>The presence bounds of a log that holds nothing because nothing was accepted are those of a
  log that holds every slot: the last slot is reported as the largest one, not as one below the first.\<close>

theorem retained_of_empty_log:
  assumes "wf_log l" "sl_accepted l = None"
  shows "physical l = [] \<and> fst (view_retained (log_view_of l)) \<le> snd (view_retained (log_view_of l))
       \<and> snd (view_retained (log_view_of l)) = - 1"
  using assms by (simp add: view_retained_def log_view_of_def wf_log_def)

theorem retained_of_empty_log_witness:
  "fst (view_retained (log_view_of segmented_log_new)) \<le> snd (view_retained (log_view_of segmented_log_new))"
  using retained_of_empty_log [of segmented_log_new] wf_new [of 64]
  by (simp add: segmented_log_new_def with_tail_capacity_def)

end
