(* ===== verification/Message.thy ===== *)
theory Message
  imports Journal
begin

text \<open>
  Protocol messages (\<open>src/message.rs\<close>): the bodies, the evidence kind, the era proof and their codec.
  A body decodes by its leading discriminant; a message is refused when the tag of its header is not
  that of its body. The stack depth \<open>d\<close> of the decoders is that of the system operations they hold.
\<close>

section \<open>Messages\<close>

datatype evidence_kind = Ordinary | Planned

record era_proof =
  epf_op :: sysop
  epf_committed_at :: slot

datatype body =
    B_Prepare log_entry slot
  | B_PrepareOk
  | B_Commit slot
  | B_StartViewChange
  | B_DoViewChange ballot slot slot "log_entry list" evidence_kind era_proof
  | B_StartView "log_entry list" slot slot era_proof
  | B_PlannedViewChange
  | B_GetState slot
  | B_NewState "log_entry list" slot slot bool
  | B_Reincarnation node_id node_id slot slot
  | B_Fuse "sysop list"
  | B_FuseOk "slot list"
  | B_CommitBatch "slot list"
  | B_GossipRequest slot slot

record message =
  msg_header :: header
  msg_body :: body

fun body_tag :: "body \<Rightarrow> tag" where
  "body_tag (B_Prepare _ _) = Tag_Prepare"
| "body_tag B_PrepareOk = Tag_PrepareOk"
| "body_tag (B_Commit _) = Tag_Commit"
| "body_tag B_StartViewChange = Tag_StartViewChange"
| "body_tag (B_DoViewChange _ _ _ _ _ _) = Tag_DoViewChange"
| "body_tag (B_StartView _ _ _ _) = Tag_StartView"
| "body_tag B_PlannedViewChange = Tag_PlannedViewChange"
| "body_tag (B_GetState _) = Tag_GetState"
| "body_tag (B_NewState _ _ _ _) = Tag_NewState"
| "body_tag (B_Reincarnation _ _ _ _) = Tag_Reincarnation"
| "body_tag (B_Fuse _) = Tag_Fuse"
| "body_tag (B_FuseOk _) = Tag_FuseOk"
| "body_tag (B_CommitBatch _) = Tag_CommitBatch"
| "body_tag (B_GossipRequest _ _) = Tag_GossipRequest"

text \<open>The discriminant is the tag's number, which the source narrows to a byte; every tag fits.\<close>

definition body_discriminant :: "body \<Rightarrow> u8" where
  "body_discriminant b = ucast (tag_as_u32 (body_tag b))"


section \<open>Counted sequences\<close>

definition counted_packed_len :: "('a \<Rightarrow> nat option) \<Rightarrow> 'a list \<Rightarrow> nat option" where
  "counted_packed_len len items = do { n \<leftarrow> items_packed_len len items; Some (4 + n) }"

definition pack_counted :: "('a \<Rightarrow> writer \<Rightarrow> writer option) \<Rightarrow> 'a list \<Rightarrow> writer \<Rightarrow> writer option" where
  "pack_counted pack items w = do {
     count \<leftarrow> len_u32 items;
     w \<leftarrow> put_u32 count w;
     pack_items pack items w }"

definition unpack_counted :: "'a decoder \<Rightarrow> 'a list decoder" where
  "unpack_counted unpack = dbind get_u32 (\<lambda>count.
     if count = 0 then drefuse (Malformed OutOfDomain) else unpack_items unpack (unat count))"

definition entries_packed_len :: "log_entry list \<Rightarrow> nat option" where
  "entries_packed_len entries = do { n \<leftarrow> items_packed_len packed_len_entry entries; Some (4 + n) }"

definition pack_entries :: "log_entry list \<Rightarrow> writer \<Rightarrow> writer option" where
  "pack_entries entries w = do {
     count \<leftarrow> len_u32 entries;
     w \<leftarrow> put_u32 count w;
     pack_items pack_entry entries w }"

definition unpack_entries :: "nat \<Rightarrow> log_entry list decoder" where
  "unpack_entries d = dbind get_u32 (\<lambda>count. unpack_items (unpack_entry d) (unat count))"

definition enc_counted :: "('a \<Rightarrow> u8 list) \<Rightarrow> 'a list \<Rightarrow> u8 list" where
  "enc_counted enc xs = to_be_bytes 4 (of_nat (length xs) :: u32) @ concat (map enc xs)"

context codec
begin

lemma pack_counted_enc:
  "writer_ok w \<Longrightarrow> framable xs \<Longrightarrow> list_all valid xs \<Longrightarrow> pack_counted pack xs w = put (enc_counted enc xs) w"
  by (simp add: pack_counted_def len_u32_Some enc_counted_def put_u32_bind pack_items_enc)

lemma counted_len_enc:
  "list_all valid xs \<Longrightarrow> counted_packed_len packed_len xs = Some (length (enc_counted enc xs))"
  by (simp add: counted_packed_len_def enc_counted_def items_len_enc)

lemma counted_iff:
  assumes "cursor_ok c"
  shows "dbind get_u32 (\<lambda>count. unpack_items unpack (unat count)) c = Decoded xs c' \<longleftrightarrow>
           framable xs \<and> list_all valid xs \<and> reads c (enc_counted enc xs) c'"
proof -
  have "dbind get_u32 (\<lambda>count. unpack_items unpack (unat count)) c = Decoded xs c' \<longleftrightarrow>
      (\<exists>n :: u32. length xs = unat n \<and> list_all valid xs \<and> reads c (to_be_bytes 4 n @ concat (map enc xs)) c')"
    unfolding dbind_Decoded u32_codec.unpack_iff [OF assms] reads_append
    using unpack_items_iff reads_ok [OF assms] by blast
  then show ?thesis by (simp add: len_prefix_iff enc_counted_def)
qed

lemma unpack_counted_iff:
  assumes "cursor_ok c"
  shows "unpack_counted unpack c = Decoded xs c' \<longleftrightarrow>
           (xs \<noteq> [] \<and> framable xs \<and> list_all valid xs) \<and> reads c (enc_counted enc xs) c'"
proof -
  have "unpack_counted unpack c = Decoded xs c' \<longleftrightarrow>
      (\<exists>n :: u32. n \<noteq> 0 \<and> length xs = unat n \<and> list_all valid xs \<and> reads c (to_be_bytes 4 n @ concat (map enc xs)) c')"
    unfolding unpack_counted_def dbind_Decoded u32_codec.unpack_iff [OF assms] reads_append
    using unpack_items_iff reads_ok [OF assms] by (auto simp: drefuse_Decoded split: if_splits) blast+
  also have "\<dots> \<longleftrightarrow> xs \<noteq> [] \<and> (\<exists>n :: u32. length xs = unat n \<and> list_all valid xs
       \<and> reads c (to_be_bytes 4 n @ concat (map enc xs)) c')"
  proof -
    have "n \<noteq> 0 \<longleftrightarrow> xs \<noteq> []" if "length xs = unat n" for n :: u32
      using that by (metis length_0_conv unat_eq_0)
    then show ?thesis by blast
  qed
  finally show ?thesis by (simp add: len_prefix_iff enc_counted_def)
qed

end

interpretation entries_codec: codec pack_entries entries_packed_len "unpack_entries d" "enc_counted enc_entry"
  "\<lambda>es. framable es \<and> list_all (entry_valid d) es" for d
  unfolding pack_entries_def entries_packed_len_def unpack_entries_def
    pack_counted_def [of pack_entry, symmetric] counted_packed_len_def [of packed_len_entry, symmetric]
  by unfold_locales
     (auto simp: entry_codec.pack_counted_enc entry_codec.counted_len_enc entry_codec.counted_iff)

interpretation ops_codec: codec "pack_counted pack_sysop" "counted_packed_len packed_len_sysop"
  "unpack_counted (unpack_sysop d)" "enc_counted enc_sysop"
  "\<lambda>ops. ops \<noteq> [] \<and> framable ops \<and> list_all (sysop_valid d) ops" for d
  by unfold_locales
     (auto simp: sysop_codec.pack_counted_enc sysop_codec.counted_len_enc sysop_codec.unpack_counted_iff)

interpretation slots_codec: codec "pack_counted put_u64" "counted_packed_len packed_len_u64"
  "unpack_counted get_u64" "enc_counted (to_be_bytes 8)" "\<lambda>ss. ss \<noteq> [] \<and> framable ss"
  by unfold_locales
     (auto simp: u64_codec.pack_counted_enc u64_codec.counted_len_enc u64_codec.unpack_counted_iff list_all_iff)


section \<open>The codec\<close>

definition packed_len_era_proof :: "era_proof \<Rightarrow> nat option" where
  "packed_len_era_proof p = do {
     a \<leftarrow> packed_len_sysop (epf_op p); b \<leftarrow> packed_len_u64 (epf_committed_at p); Some (a + b) }"

definition pack_era_proof :: "era_proof \<Rightarrow> writer \<Rightarrow> writer option" where
  "pack_era_proof p w = do { w \<leftarrow> pack_sysop (epf_op p) w; put_u64 (epf_committed_at p) w }"

definition unpack_era_proof :: "nat \<Rightarrow> era_proof decoder" where
  "unpack_era_proof d = dbind (unpack_sysop d) (\<lambda>op. dbind get_u64 (\<lambda>at.
     dreturn \<lparr>epf_op = op, epf_committed_at = at\<rparr>))"

definition enc_era_proof :: "era_proof \<Rightarrow> u8 list" where
  "enc_era_proof p = enc_sysop (epf_op p) @ to_be_bytes 8 (epf_committed_at p)"

definition packed_len_evidence :: "evidence_kind \<Rightarrow> nat option" where
  "packed_len_evidence e = Some 1"

definition pack_evidence :: "evidence_kind \<Rightarrow> writer \<Rightarrow> writer option" where
  "pack_evidence e w = put_u8 (case e of Ordinary \<Rightarrow> 1 | Planned \<Rightarrow> 2) w"

definition unpack_evidence :: "evidence_kind decoder" where
  "unpack_evidence = dbind get_u8 (\<lambda>b.
     if b = 1 then dreturn Ordinary else if b = 2 then dreturn Planned
     else drefuse (Malformed OutOfDomain))"

definition enc_evidence :: "evidence_kind \<Rightarrow> u8 list" where
  "enc_evidence e = to_be_bytes 1 ((case e of Ordinary \<Rightarrow> 1 | Planned \<Rightarrow> 2) :: u8)"

interpretation era_proof_codec: codec pack_era_proof packed_len_era_proof "unpack_era_proof d" enc_era_proof
  "\<lambda>p. sysop_valid d (epf_op p)" for d
proof
  fix x c c' w
  show "writer_ok w \<Longrightarrow> sysop_valid d (epf_op x) \<Longrightarrow> pack_era_proof x w = put (enc_era_proof x) w"
    by (simp add: pack_era_proof_def enc_era_proof_def sysop_codec.pack_enc u64_codec.pack_enc put_bind)
  show "sysop_valid d (epf_op x) \<Longrightarrow> packed_len_era_proof x = Some (length (enc_era_proof x))"
    by (simp add: packed_len_era_proof_def enc_era_proof_def sysop_codec.len_enc packed_len_u64_def)
  show "cursor_ok c \<Longrightarrow> unpack_era_proof d c = Decoded x c' \<longleftrightarrow>
      sysop_valid d (epf_op x) \<and> reads c (enc_era_proof x) c'"
    by (cases x) (simp add: unpack_era_proof_def sysop_codec.dbind_unpack u64_codec.dbind_unpack
        enc_era_proof_def reads_append dreturn_Decoded cong: conj_cong; blast intro: reads_ok)
qed

interpretation evidence_codec: codec pack_evidence packed_len_evidence unpack_evidence enc_evidence "\<lambda>_. True"
proof
  fix x c c' w
  show "writer_ok w \<Longrightarrow> pack_evidence x w = put (enc_evidence x) w"
    by (simp add: pack_evidence_def enc_evidence_def u8_codec.pack_enc)
  show "packed_len_evidence x = Some (length (enc_evidence x))"
    by (simp add: packed_len_evidence_def enc_evidence_def)
  assume ok: "cursor_ok c"
  show "unpack_evidence c = Decoded x c' \<longleftrightarrow> True \<and> reads c (enc_evidence x) c'"
    unfolding unpack_evidence_def dbind_Decoded u8_codec.unpack_iff [OF ok] enc_evidence_def
    by (cases x) (auto simp: dreturn_Decoded drefuse_Decoded split: if_splits intro: exI [of _ "1 :: u8"])
qed

definition packed_len_body :: "body \<Rightarrow> nat option" where
  "packed_len_body b = do {
     fields \<leftarrow> (case b of
        B_Prepare entry committed \<Rightarrow> do {
          a \<leftarrow> packed_len_entry entry; b \<leftarrow> packed_len_u64 committed; Some (a + b) }
      | B_PrepareOk \<Rightarrow> Some 0
      | B_StartViewChange \<Rightarrow> Some 0
      | B_PlannedViewChange \<Rightarrow> Some 0
      | B_Commit committed \<Rightarrow> packed_len_u64 committed
      | B_DoViewChange retained accepted committed suffix evidence proof \<Rightarrow> do {
          a \<leftarrow> packed_len_ballot retained; b \<leftarrow> packed_len_u64 accepted; c \<leftarrow> packed_len_u64 committed;
          d \<leftarrow> entries_packed_len suffix; e \<leftarrow> packed_len_evidence evidence; f \<leftarrow> packed_len_era_proof proof;
          Some (a + b + c + d + e + f) }
      | B_StartView suffix accepted committed proof \<Rightarrow> do {
          a \<leftarrow> entries_packed_len suffix; b \<leftarrow> packed_len_u64 accepted; c \<leftarrow> packed_len_u64 committed;
          d \<leftarrow> packed_len_era_proof proof; Some (a + b + c + d) }
      | B_GetState from \<Rightarrow> packed_len_u64 from
      | B_NewState entries through committed follows \<Rightarrow> do {
          a \<leftarrow> entries_packed_len entries; b \<leftarrow> packed_len_u64 through; c \<leftarrow> packed_len_u64 committed;
          Some (a + b + c + 1) }
      | B_Reincarnation old new committed prepared \<Rightarrow> do {
          a \<leftarrow> packed_len_u32 old; b \<leftarrow> packed_len_u32 new; c \<leftarrow> packed_len_u64 committed;
          d \<leftarrow> packed_len_u64 prepared; Some (a + b + c + d) }
      | B_Fuse ops \<Rightarrow> counted_packed_len packed_len_sysop ops
      | B_FuseOk acks \<Rightarrow> counted_packed_len packed_len_u64 acks
      | B_CommitBatch committed \<Rightarrow> counted_packed_len packed_len_u64 committed
      | B_GossipRequest prepared committed \<Rightarrow> do {
          a \<leftarrow> packed_len_u64 prepared; b \<leftarrow> packed_len_u64 committed; Some (a + b) });
     Some (1 + fields) }"

definition pack_fields :: "body \<Rightarrow> writer \<Rightarrow> writer option" where
  "pack_fields b w =
     (case b of
        B_Prepare entry committed \<Rightarrow> do { w \<leftarrow> pack_entry entry w; put_u64 committed w }
      | B_PrepareOk \<Rightarrow> Some w
      | B_StartViewChange \<Rightarrow> Some w
      | B_PlannedViewChange \<Rightarrow> Some w
      | B_Commit committed \<Rightarrow> put_u64 committed w
      | B_DoViewChange retained accepted committed suffix evidence proof \<Rightarrow> do {
          w \<leftarrow> pack_ballot retained w; w \<leftarrow> put_u64 accepted w; w \<leftarrow> put_u64 committed w;
          w \<leftarrow> pack_entries suffix w; w \<leftarrow> pack_evidence evidence w; pack_era_proof proof w }
      | B_StartView suffix accepted committed proof \<Rightarrow> do {
          w \<leftarrow> pack_entries suffix w; w \<leftarrow> put_u64 accepted w; w \<leftarrow> put_u64 committed w;
          pack_era_proof proof w }
      | B_GetState from \<Rightarrow> put_u64 from w
      | B_NewState entries through committed follows \<Rightarrow> do {
          w \<leftarrow> pack_entries entries w; w \<leftarrow> put_u64 through w; w \<leftarrow> put_u64 committed w;
          put_bool follows w }
      | B_Reincarnation old new committed prepared \<Rightarrow> do {
          w \<leftarrow> put_u32 old w; w \<leftarrow> put_u32 new w; w \<leftarrow> put_u64 committed w; put_u64 prepared w }
      | B_Fuse ops \<Rightarrow> pack_counted pack_sysop ops w
      | B_FuseOk acks \<Rightarrow> pack_counted put_u64 acks w
      | B_CommitBatch committed \<Rightarrow> pack_counted put_u64 committed w
      | B_GossipRequest prepared committed \<Rightarrow> do { w \<leftarrow> put_u64 prepared w; put_u64 committed w })"

definition pack_body :: "body \<Rightarrow> writer \<Rightarrow> writer option" where
  "pack_body b w = do { w \<leftarrow> put_u8 (body_discriminant b) w; pack_fields b w }"

text \<open>The tag a leading byte names.\<close>

definition tag_of_discriminant :: "u8 \<Rightarrow> tag option" where
  "tag_of_discriminant b =
     (if b = 2 then Some Tag_Prepare else if b = 3 then Some Tag_PrepareOk
      else if b = 4 then Some Tag_Commit else if b = 5 then Some Tag_StartViewChange
      else if b = 6 then Some Tag_DoViewChange else if b = 7 then Some Tag_StartView
      else if b = 8 then Some Tag_PlannedViewChange else if b = 9 then Some Tag_GetState
      else if b = 10 then Some Tag_NewState else if b = 13 then Some Tag_Reincarnation
      else if b = 14 then Some Tag_Fuse else if b = 15 then Some Tag_FuseOk
      else if b = 16 then Some Tag_CommitBatch else if b = 17 then Some Tag_GossipRequest
      else None)"

definition unpack_fields :: "nat \<Rightarrow> tag \<Rightarrow> body decoder" where
  "unpack_fields d t =
     (case t of
        Tag_Prepare \<Rightarrow> dbind (unpack_entry d) (\<lambda>e. dbind get_u64 (\<lambda>c. dreturn (B_Prepare e c)))
      | Tag_PrepareOk \<Rightarrow> dreturn B_PrepareOk
      | Tag_Commit \<Rightarrow> dbind get_u64 (\<lambda>c. dreturn (B_Commit c))
      | Tag_StartViewChange \<Rightarrow> dreturn B_StartViewChange
      | Tag_DoViewChange \<Rightarrow>
          dbind unpack_ballot (\<lambda>r. dbind get_u64 (\<lambda>a. dbind get_u64 (\<lambda>c.
          dbind (unpack_entries d) (\<lambda>s. dbind unpack_evidence (\<lambda>e. dbind (unpack_era_proof d) (\<lambda>p.
            dreturn (B_DoViewChange r a c s e p)))))))
      | Tag_StartView \<Rightarrow>
          dbind (unpack_entries d) (\<lambda>s. dbind get_u64 (\<lambda>a. dbind get_u64 (\<lambda>c.
          dbind (unpack_era_proof d) (\<lambda>p. dreturn (B_StartView s a c p)))))
      | Tag_PlannedViewChange \<Rightarrow> dreturn B_PlannedViewChange
      | Tag_GetState \<Rightarrow> dbind get_u64 (\<lambda>f. dreturn (B_GetState f))
      | Tag_NewState \<Rightarrow>
          dbind (unpack_entries d) (\<lambda>es. dbind get_u64 (\<lambda>t. dbind get_u64 (\<lambda>c. dbind get_bool (\<lambda>m.
            dreturn (B_NewState es t c m)))))
      | Tag_Reincarnation \<Rightarrow>
          dbind get_u32 (\<lambda>old. dbind get_u32 (\<lambda>new. dbind get_u64 (\<lambda>c. dbind get_u64 (\<lambda>p.
            dreturn (B_Reincarnation old new c p)))))
      | Tag_Fuse \<Rightarrow> dbind (unpack_counted (unpack_sysop d)) (\<lambda>ops. dreturn (B_Fuse ops))
      | Tag_FuseOk \<Rightarrow> dbind (unpack_counted get_u64) (\<lambda>acks. dreturn (B_FuseOk acks))
      | Tag_CommitBatch \<Rightarrow> dbind (unpack_counted get_u64) (\<lambda>c. dreturn (B_CommitBatch c))
      | Tag_GossipRequest \<Rightarrow> dbind get_u64 (\<lambda>p. dbind get_u64 (\<lambda>c. dreturn (B_GossipRequest p c))))"

definition unpack_body :: "nat \<Rightarrow> body decoder" where
  "unpack_body d = dbind get_u8 (\<lambda>b.
     case tag_of_discriminant b of
       None \<Rightarrow> drefuse (Malformed OutOfDomain)
     | Some t \<Rightarrow> unpack_fields d t)"

definition packed_len_message :: "message \<Rightarrow> nat option" where
  "packed_len_message m = do {
     h \<leftarrow> packed_len_header (msg_header m); b \<leftarrow> packed_len_body (msg_body m); Some (h + b) }"

definition pack_message :: "message \<Rightarrow> writer \<Rightarrow> writer option" where
  "pack_message m w = do { w \<leftarrow> pack_header (msg_header m) w; pack_body (msg_body m) w }"

definition unpack_message :: "nat \<Rightarrow> message decoder" where
  "unpack_message d = dbind unpack_header (\<lambda>h. dbind (unpack_body d) (\<lambda>b.
     if body_tag b \<noteq> h_tag h then drefuse (Malformed OutOfDomain)
     else dreturn \<lparr>msg_header = h, msg_body = b\<rparr>))"


section \<open>The canonical bytes\<close>

fun enc_fields :: "body \<Rightarrow> u8 list" where
  "enc_fields (B_Prepare e c) = enc_entry e @ to_be_bytes 8 c"
| "enc_fields (B_Commit c) = to_be_bytes 8 c"
| "enc_fields (B_DoViewChange r a c s e p) = enc_ballot r @ to_be_bytes 8 a @ to_be_bytes 8 c
     @ enc_counted enc_entry s @ enc_evidence e @ enc_era_proof p"
| "enc_fields (B_StartView s a c p) = enc_counted enc_entry s @ to_be_bytes 8 a @ to_be_bytes 8 c @ enc_era_proof p"
| "enc_fields (B_GetState f) = to_be_bytes 8 f"
| "enc_fields (B_NewState es t c m) = enc_counted enc_entry es @ to_be_bytes 8 t @ to_be_bytes 8 c @ enc_bool m"
| "enc_fields (B_Reincarnation old new c p) = to_be_bytes 4 old @ to_be_bytes 4 new @ to_be_bytes 8 c @ to_be_bytes 8 p"
| "enc_fields (B_Fuse ops) = enc_counted enc_sysop ops"
| "enc_fields (B_FuseOk acks) = enc_counted (to_be_bytes 8) acks"
| "enc_fields (B_CommitBatch c) = enc_counted (to_be_bytes 8) c"
| "enc_fields (B_GossipRequest p c) = to_be_bytes 8 p @ to_be_bytes 8 c"
| "enc_fields _ = []"

fun fields_valid :: "nat \<Rightarrow> body \<Rightarrow> bool" where
  "fields_valid d (B_Prepare e c) \<longleftrightarrow> entry_valid d e"
| "fields_valid d (B_DoViewChange r a c s e p) \<longleftrightarrow>
     (framable s \<and> list_all (entry_valid d) s) \<and> sysop_valid d (epf_op p)"
| "fields_valid d (B_StartView s a c p) \<longleftrightarrow>
     (framable s \<and> list_all (entry_valid d) s) \<and> sysop_valid d (epf_op p)"
| "fields_valid d (B_NewState es t c m) \<longleftrightarrow> framable es \<and> list_all (entry_valid d) es"
| "fields_valid d (B_Fuse ops) \<longleftrightarrow> ops \<noteq> [] \<and> framable ops \<and> list_all (sysop_valid d) ops"
| "fields_valid d (B_FuseOk acks) \<longleftrightarrow> acks \<noteq> [] \<and> framable acks"
| "fields_valid d (B_CommitBatch c) \<longleftrightarrow> c \<noteq> [] \<and> framable c"
| "fields_valid d _ \<longleftrightarrow> True"

definition enc_body :: "body \<Rightarrow> u8 list" where
  "enc_body b = body_discriminant b # enc_fields b"

definition message_valid :: "nat \<Rightarrow> message \<Rightarrow> bool" where
  "message_valid d m \<longleftrightarrow> fields_valid d (msg_body m) \<and> body_tag (msg_body m) = h_tag (msg_header m)"

definition enc_message :: "message \<Rightarrow> u8 list" where
  "enc_message m = enc_header (msg_header m) @ enc_body (msg_body m)"


section \<open>The codec laws\<close>

lemma body_discriminants:
  "tag_of_discriminant b = Some t \<longleftrightarrow> b = ucast (tag_as_u32 t)"
  by (cases t) (auto simp: tag_of_discriminant_def)

lemma pack_fields_enc: "writer_ok w \<Longrightarrow> fields_valid d b \<Longrightarrow> pack_fields b w = put (enc_fields b) w"
  by (cases b)
     (simp_all add: pack_fields_def put_bind put_Nil entry_codec.pack_enc u64_codec.pack_enc u32_codec.pack_enc
        ballot_codec.pack_enc entries_codec.pack_enc [where d = d] evidence_codec.pack_enc era_proof_codec.pack_enc [where d = d]
        bool_codec.pack_enc ops_codec.pack_enc [where d = d] slots_codec.pack_enc)

lemma fields_len_enc: "fields_valid d b \<Longrightarrow> packed_len_body b = Some (1 + length (enc_fields b))"
  by (cases b)
     (simp_all add: packed_len_body_def entry_codec.len_enc u64_codec.len_enc u32_codec.len_enc
        ballot_codec.len_enc entries_codec.len_enc [where d = d] evidence_codec.len_enc era_proof_codec.len_enc [where d = d]
        enc_bool_def ops_codec.len_enc [where d = d] slots_codec.len_enc)

lemma reads_then_ok: "reads c a c' \<Longrightarrow> cursor_ok c \<Longrightarrow> cursor_ok c'"
  by (rule reads_ok)

lemma unpack_fields_iff:
  assumes ok: "cursor_ok c"
  shows "unpack_fields d t c = Decoded b c' \<longleftrightarrow> (body_tag b = t \<and> fields_valid d b) \<and> reads c (enc_fields b) c'"
  using ok
  by (cases t; cases b;
      simp add: unpack_fields_def entry_codec.dbind_unpack u64_codec.dbind_unpack u32_codec.dbind_unpack
        ballot_codec.dbind_unpack entries_codec.dbind_unpack evidence_codec.dbind_unpack
        era_proof_codec.dbind_unpack bool_codec.dbind_unpack ops_codec.dbind_unpack slots_codec.dbind_unpack
        dreturn_Decoded reads_append reads_then_ok cong: conj_cong; blast)


interpretation body_codec: codec pack_body packed_len_body "unpack_body d" enc_body "fields_valid d" for d
proof
  fix x c c' w
  show "writer_ok w \<Longrightarrow> fields_valid d x \<Longrightarrow> pack_body x w = put (enc_body x) w"
    by (auto simp: pack_body_def enc_body_def put_u8_def pack_fields_enc intro!: put_u8_bind)
  show "fields_valid d x \<Longrightarrow> packed_len_body x = Some (length (enc_body x))"
    by (simp add: fields_len_enc enc_body_def)
  assume ok: "cursor_ok c"
  have "unpack_body d c = Decoded x c' \<longleftrightarrow>
      (\<exists>b c1. reads c [b] c1 \<and> (\<exists>t. tag_of_discriminant b = Some t \<and> unpack_fields d t c1 = Decoded x c'))"
  proof -
    have "(case tag_of_discriminant b of None \<Rightarrow> drefuse (Malformed OutOfDomain) | Some t \<Rightarrow> unpack_fields d t) c1
        = Decoded x c' \<longleftrightarrow> (\<exists>t. tag_of_discriminant b = Some t \<and> unpack_fields d t c1 = Decoded x c')" for b c1
      by (simp add: drefuse_Decoded split: option.split)
    then show ?thesis
      unfolding unpack_body_def dbind_Decoded u8_codec.unpack_iff [OF ok] by simp
  qed
  also have "\<dots> \<longleftrightarrow> (\<exists>c1. reads c [body_discriminant x] c1 \<and> fields_valid d x \<and> reads c1 (enc_fields x) c')"
    using unpack_fields_iff reads_ok [OF ok] by (auto simp: body_discriminants body_discriminant_def) blast+
  also have "\<dots> \<longleftrightarrow> fields_valid d x \<and> reads c (enc_body x) c'"
    unfolding enc_body_def reads_Cons [of c "body_discriminant x" "enc_fields x"] by blast
  finally show "unpack_body d c = Decoded x c' \<longleftrightarrow> fields_valid d x \<and> reads c (enc_body x) c'" .
qed

interpretation message_codec: codec pack_message packed_len_message "unpack_message d" enc_message "message_valid d" for d
proof
  fix x c c' w
  show "writer_ok w \<Longrightarrow> message_valid d x \<Longrightarrow> pack_message x w = put (enc_message x) w"
    by (simp add: pack_message_def enc_message_def message_valid_def header_codec.pack_enc
        body_codec.pack_enc [where d = d] put_bind)
  show "message_valid d x \<Longrightarrow> packed_len_message x = Some (length (enc_message x))"
    by (simp add: packed_len_message_def enc_message_def message_valid_def header_codec.len_enc
        body_codec.len_enc [where d = d])
  assume ok: "cursor_ok c"
  have "unpack_message d c = Decoded x c' \<longleftrightarrow>
      (\<exists>h c1 b. reads c (enc_header h) c1 \<and> fields_valid d b \<and> reads c1 (enc_body b) c'
         \<and> body_tag b = h_tag h \<and> x = \<lparr>msg_header = h, msg_body = b\<rparr>)"
    unfolding unpack_message_def dbind_Decoded header_codec.unpack_iff [OF ok]
    using body_codec.unpack_iff reads_ok [OF ok] by (auto simp: drefuse_Decoded dreturn_Decoded split: if_splits) blast+
  then show "unpack_message d c = Decoded x c' \<longleftrightarrow> message_valid d x \<and> reads c (enc_message x) c'"
    by (cases x) (auto simp: message_valid_def enc_message_def reads_append)
qed


section \<open>Properties\<close>

text \<open>C32. The message codec is exact: a buffer decodes to a message precisely when the message is valid (its
  body is the one its header tag names, its envelopes are not empty, its counts fit their fields and its
  operations fit the depth) and packing it, whose announced length is the buffer's, reproduces the buffer.\<close>

theorem message_codec_exact:
  assumes "length buf < 2 ^ 63"
  shows "unpack_from (unpack_message d) buf = Some (Ok m) \<longleftrightarrow>
           message_valid d m \<and> packed_len_message m = Some (length buf)
           \<and> pack_into pack_message packed_len_message m (replicate (length buf) 0) = Some (Ok (length buf, buf))"
  by (rule message_codec.exact [OF assms])

definition sample_message :: message where
  "sample_message = \<lparr>msg_header = \<lparr>h_tag = Tag_Commit, h_view = Ballot 1 3, h_slot = 9\<rparr>, msg_body = B_Commit 9\<rparr>"

theorem message_codec_exact_witness:
  "unpack_from (unpack_message 1) (enc_message sample_message) = Some (Ok sample_message)"
proof -
  have v: "message_valid 1 sample_message" by (simp add: message_valid_def sample_message_def)
  have len: "length (enc_message sample_message) = 29"
    by (simp add: enc_message_def enc_body_def sample_message_def HEADER_LEN_def)
  then have "pack_into pack_message packed_len_message sample_message
      (replicate (length (enc_message sample_message)) 0)
      = Some (Ok (length (enc_message sample_message), enc_message sample_message))"
    using message_codec.pack_into_fits [OF v, of "replicate 29 0"] by simp
  then show ?thesis
    using message_codec_exact [of "enc_message sample_message" 1 sample_message] v len
    by (simp add: message_codec.len_enc [OF v])
qed

end
