(* ===== verification/Planner.thy ===== *)
theory Planner
  imports Config_Theorems
begin

text \<open>
  The era planner (\<open>src/reconfiguration.rs\<close>), the plan a host submits and its validation
  (\<open>src/plan.rs\<close>, the JSON lines codec aside), and the operation sequence that retires a node's old
  life for its new one (\<open>forced_steps\<close> of \<open>src/replica/reincarnation.rs\<close>).
\<close>

section \<open>The reduce-left partitioner\<close>

record era_step =
  es_ops :: "sysop list"
  es_config :: configuration

text \<open>The loop: the steps closed so far, the configuration the open batch starts from, the operations
  taken into it and the configuration they reach.\<close>

fun plan_loop :: "era_step list \<Rightarrow> configuration \<Rightarrow> sysop list \<Rightarrow> configuration \<Rightarrow> sysop list
    \<Rightarrow> config_error + era_step list" where
  "plan_loop steps batch_start taken current [] =
     Ok (if taken = [] then steps else steps @ [\<lparr>es_ops = taken, es_config = current\<rparr>])"
| "plan_loop steps batch_start taken current (op # ops) =
     (if is_genesis op then Err GenesisNotPlannable
      else let candidate = taken @ [op] in
        case apply_sysop batch_start (Batch candidate) 0 of
          Ok next \<Rightarrow> plan_loop steps batch_start candidate next ops
        | Err error \<Rightarrow>
            if taken = [] then Err error
            else (case apply_sysop current (Batch [op]) 0 of
                    Ok next \<Rightarrow> plan_loop (steps @ [\<lparr>es_ops = taken, es_config = current\<rparr>]) current [op] next ops
                  | Err error \<Rightarrow> Err error))"

definition plan_eras :: "configuration \<Rightarrow> sysop list \<Rightarrow> config_error + era_step list" where
  "plan_eras c ops = plan_loop [] c [] c ops"


section \<open>Submitted plans\<close>

record host_plan =
  pl_initial :: "member list"
  pl_steps :: "sysop list list"

datatype plan_rejection =
    InitialMembership "member list" "member list"
  | InitialWeight node_id u32 u32
  | StepRefused nat config_error

fun fold_steps :: "nat \<Rightarrow> configuration \<Rightarrow> sysop list list \<Rightarrow> (nat \<times> config_error) + configuration" where
  "fold_steps index config [] = Ok config"
| "fold_steps index config (ops # steps) =
     rbind (map_err (\<lambda>refusal. (index, refusal)) (apply_sysop config (Batch ops) 0)) (\<lambda>config.
       fold_steps (Suc index) config steps)"

definition validate_against :: "host_plan \<Rightarrow> configuration \<Rightarrow> plan_rejection + unit" where
  "validate_against p current =
     (let committed = cfg_order current in
      if length (pl_initial p) \<noteq> length committed
         \<or> list_ex (\<lambda>(member, actual). m_node member \<noteq> m_node actual) (zip (pl_initial p) committed)
      then Err (InitialMembership (pl_initial p) committed)
      else case find (\<lambda>(member, actual). m_weight member \<noteq> m_weight actual) (zip (pl_initial p) committed) of
             Some (member, actual) \<Rightarrow> Err (InitialWeight (m_node member) (m_weight member) (m_weight actual))
           | None \<Rightarrow>
               rbind (map_err (\<lambda>(index, refusal). StepRefused index refusal) (fold_steps 0 current (pl_steps p)))
                 (\<lambda>_. Ok ()))"


section \<open>Replacing a life\<close>

definition five_node_weighted_steps :: "configuration \<Rightarrow> node_id \<Rightarrow> node_id \<Rightarrow> sysop list option" where
  "five_node_weighted_steps config old new =
     (let survivors = filter (\<lambda>m. m_node m \<noteq> old \<and> m_node m \<noteq> new) (cfg_order config) in
      if length survivors \<noteq> 4 then None
      else
        let old_weight = weight_of config old; new_weight = weight_of config new;
            doubles = list_all (\<lambda>m. m_weight m = 1) survivors \<and> old_weight = Some 1 \<and> new_weight = None
        in if \<not> doubles \<and> \<not> list_all (\<lambda>m. m_weight m = 2) survivors then None
           else
             let old_weight = (if doubles then Some 2 else old_weight);
                 joins = new_weight = None;
                 new_weight = (if joins then Some 0 else new_weight);
                 rises = new_weight = Some 0;
                 new_weight = (if rises then Some 1 else new_weight);
                 ops = (if doubles then [Double] else [])
                   @ (if joins then [Join new (case index_of config old of Some i \<Rightarrow> i | None \<Rightarrow> cfg_len config)] else [])
                   @ (if rises then [Increment new] else [])
                   @ (case old_weight of
                        Some w \<Rightarrow> replicate (unat w) (Decrement old) @ [Leave old]
                      | None \<Rightarrow> [])
                   @ (if new_weight = Some 1 then [Increment new] else [])
                   @ [Halve]
             in case plan_eras config ops of
                  Err _ \<Rightarrow> None
                | Ok steps \<Rightarrow> Some (map (\<lambda>step. Batch (es_ops step)) steps))"

definition forced_steps :: "configuration \<Rightarrow> node_id \<Rightarrow> node_id \<Rightarrow> sysop list" where
  "forced_steps config old new =
     (if old = new then []
      else case five_node_weighted_steps config old new of
        Some steps \<Rightarrow> steps
      | None \<Rightarrow>
          let old_weight = weight_of config old; new_weight = weight_of config new;
              append_position = cfg_len config;
              position = (case index_of config old of Some i \<Rightarrow> i | None \<Rightarrow> append_position);
              crosses = (case old_weight of Some w \<Rightarrow> 1 \<le> w | None \<Rightarrow> False);
              joins = crosses \<and> new_weight = None;
              decrements = (case old_weight of
                  Some w \<Rightarrow> replicate (unat w - 1) (Batch [Decrement old])
                | None \<Rightarrow> []);
              crossing = (if crosses then [Batch (Decrement old # (if joins then [Join new position] else []))] else []);
              new_weight_now = (if joins then Some 0 else new_weight)
          in decrements @ crossing @
             (if old_weight \<noteq> None
              then (case new_weight_now of
                      None \<Rightarrow> [Batch [Join new position, Leave old], Batch [Increment new]]
                    | Some w \<Rightarrow> if w = 0 then [Batch [Increment new, Leave old]] else [Batch [Leave old]])
              else (case new_weight of
                      None \<Rightarrow> [Batch [Join new append_position], Batch [Increment new]]
                    | Some w \<Rightarrow> if w = 0 then [Batch [Increment new]] else [])))"

end
