(* ===== verification/Replica_State.thy ===== *)
theory Replica_State
  imports Message Invariant_Theorems Journal_Theorems Planner
begin

text \<open>
  The state and the vocabulary of the replica (\<open>src/replica/mod.rs\<close>, \<open>src/effects.rs\<close>,
  \<open>src/observe.rs\<close>): inputs, effects, diagnostics, refusals, the planned and the parked
  transition, the volatile machines and the replica record.

  The replica is generic in its journal and its quorum strategy; here the journal is the default
  \<open>SegmentedLog\<close> and the strategy is a field. The refusal \<open>PR_Panic\<close> is not one of the source:
  it is the outcome of an input on which the source panics. Ordered maps and sets of nodes are lists
  sorted by node, because the source iterates them; the map from slots to proposals is only looked
  up and is a partial map. The two observation cells hold the last value written.
\<close>

section \<open>Effects\<close>

datatype plan_verdict = Accepted | Rejected plan_rejection | RejectedNotLeader

datatype progress_intent = PI_Unchanged | PI_Record

datatype journal_intent = JI_Unchanged | JI_Accept slot slot | JI_InstallSuffix slot slot

record persistence_intent =
  pi_revision :: u64
  pi_progress :: progress_intent
  pi_journal :: journal_intent

datatype effect =
    Eff_Send node_id era message
  | Eff_Apply slot operation_id "u8 list"
  | Eff_Persist persistence_intent
  | Eff_AdminResponse plan_verdict

datatype stability = Volatile | Deferred | Forced | ExternalTransaction

datatype stability_result = Stable "u8 list" | Failed "u8 list" | Indeterminate "u8 list"


section \<open>Diagnostics\<close>

datatype diagnostic =
    D_None
  | D_UnevaluableEra era
  | D_SenderNotPrimary node_id ballot
  | D_ViewMismatch ballot ballot
  | D_StatusGate ballot ballot status
  | D_EraDiscipline era ballot
  | D_PrepareSlotMismatch slot slot
  | D_InvalidSystemOperation slot config_error
  | D_ConflictingEntry slot
  | D_GapDetected slot slot
  | D_StaleTransfer node_id ballot
  | D_MalformedTransfer
  | D_TransferNotServed node_id ballot
  | D_PrepareOkNotPrimary node_id slot
  | D_SlotNotOutstanding slot node_id
  | D_DuplicatePrepareOk slot node_id
  | D_UnknownSender node_id
  | D_LearnerSender node_id
  | D_ReincarnationRefused node_id ballot
  | D_StaleViewChange ballot ballot
  | D_StaleEvidence ballot ballot
  | D_EvidenceNotCollected node_id ballot
  | D_StartViewNotFromPrimary node_id ballot
  | D_StartViewFromStaleView ballot ballot
  | D_MalformedViewChange
  | D_PlanAborted nat
  | D_FuseRefusal


section \<open>Inputs and refusals\<close>

datatype input =
    In_Peer node_id message
  | In_Propose operation
  | In_Tick
  | In_StabilityConfirmation u64 stability_result
  | In_Applied slot
  | In_Checkpointed slot
  | In_Reconfigure sysop "pivot option"
  | In_AdminForceView ballot
  | In_Reincarnate node_id
  | In_SubmitPlan host_plan

record timed_input =
  ti_at :: tick
  ti_event :: input

fun kind_of :: "input \<Rightarrow> input_kind" where
  "kind_of (In_Peer _ m) = PeerMessage (h_tag (msg_header m)) (h_slot (msg_header m))"
| "kind_of (In_Propose _) = ClientRequest"
| "kind_of In_Tick = Tick"
| "kind_of (In_StabilityConfirmation _ _) = StabilityConfirmed"
| "kind_of (In_Applied _) = Applied"
| "kind_of (In_Checkpointed _) = Checkpointed"
| "kind_of (In_Reconfigure _ _) = Reconfiguration"
| "kind_of (In_AdminForceView _) = Admin"
| "kind_of (In_Reincarnate _) = Admin"
| "kind_of (In_SubmitPlan _) = Admin"

datatype plan_refusal =
    PR_Faulted fault
  | PR_TransitionOutstanding
  | PR_NoTransitionOutstanding
  | PR_ConfirmationMismatch u64 u64
  | PR_JournalViewDivergence slot slot
  | PR_Progress progress_error
  | PR_NotPrimary ballot "node_id option"
  | PR_UnexpectedApplied "slot option" slot
  | PR_CheckpointExceedsApplied slot slot
  | PR_JournalEntryUnavailable slot
  | PR_SlotSpaceExhausted
  | PR_Reconfigure config_error
  | PR_ReconfigureQuorum quorum_error
  | PR_ReconfigurePivot pivot_error
  | PR_EraTransitionOutstanding era era
  | PR_ReconfigureOutstanding slot
  | PR_AdminTargetNotAhead ballot ballot
  | PR_AdminEraNotCurrent era era
  | PR_AdminViewExhausted ballot
  | PR_ReconfigureViewExhausted ballot
  | PR_Panic

datatype publish_refusal =
    PuR_Faulted fault
  | PuR_RevisionMismatch u64 u64
  | PuR_IllegalCandidate fault
  | PuR_TransitionOutstanding
  | PuR_JournalRefused journal_error

datatype publish_outcome = Published u64 "effect list" | Parked u64 "effect list"

datatype lifecycle_refusal =
    LR_NotAMember node_id
  | LR_Configuration config_error
  | LR_Quorum quorum_error
  | LR_Progress progress_error
  | LR_Journal journal_error
  | LR_JournalNotEmpty
  | LR_NotAFreshJoiner
  | LR_ProgressJournalDivergence slot slot
  | LR_Panic

record knobs =
  kn_primary_timeout :: u64
  kn_view_change_budget :: nat

record persisted_progress =
  pp_current :: ballot
  pp_retained :: ballot
  pp_status :: status
  pp_accepted :: slot
  pp_committed :: slot
  pp_applied :: slot
  pp_checkpoint :: slot
  pp_revision :: u64
  pp_fault :: "fault option"

definition persisted_of :: "progress \<Rightarrow> persisted_progress" where
  "persisted_of p = \<lparr>pp_current = p_current p, pp_retained = p_retained p, pp_status = p_status p,
     pp_accepted = p_accepted p, pp_committed = p_committed p, pp_applied = p_applied p,
     pp_checkpoint = p_checkpoint p, pp_revision = p_revision p, pp_fault = p_fault p\<rparr>"


section \<open>Transitions\<close>

datatype journal_mutation = JM_None | JM_Accept "log_entry list" | JM_InstallSuffix slot "log_entry list"

definition mutation_intent :: "journal_mutation \<Rightarrow> journal_intent" where
  "mutation_intent m =
     (case m of
        JM_None \<Rightarrow> JI_Unchanged
      | JM_Accept entries \<Rightarrow>
          (case entries of
             [] \<Rightarrow> JI_Unchanged
           | first # _ \<Rightarrow> JI_Accept (le_slot first) (le_slot (last entries)))
      | JM_InstallSuffix from suffix \<Rightarrow>
          JI_InstallSuffix from (if suffix = [] then from else le_slot (last suffix)))"

text \<open>The votes a proposal has gathered from others.\<close>

type_synonym proposal = "node_id list"

record evidence =
  ev_retained :: ballot
  ev_accepted :: slot
  ev_committed :: slot
  ev_suffix :: "log_entry list"

record view_change_volatile =
  vc_target :: ballot
  vc_fences :: "node_id list"
  vc_evidence :: "(node_id \<times> evidence) list"
  vc_selected :: "(node_id \<times> evidence) option"

record transfer_volatile =
  tv_view :: ballot
  tv_to :: node_id
  tv_next :: slot

record stalled_start_view =
  ss_from :: node_id
  ss_message :: message

record planned_overlap =
  po_establishing :: slot
  po_pivot :: pivot
  po_target :: ballot
  po_solicited :: bool
  po_evidence :: "(node_id \<times> evidence) list"

record forced_sequence =
  fs_old :: node_id
  fs_new :: node_id

record planned_sequence =
  pq_steps :: "sysop list list"
  pq_next :: nat

text \<open>The update of a volatile machine; the source has one such type per machine.\<close>

datatype 'a update = Unchanged | SetTo 'a | Clear

datatype witnesses_update = W_Unchanged | W_Add node_id

record bookkeeping =
  bk_proposals :: "(slot \<times> proposal) list"
  bk_oks :: "(slot \<times> node_id) list"
  bk_resolved :: "slot list"
  bk_view_change :: "view_change_volatile update"
  bk_transfer :: "transfer_volatile update"
  bk_stalled :: "stalled_start_view update"
  bk_planned :: "planned_overlap update"
  bk_reincarnation :: "forced_sequence update"
  bk_plan_execution :: "planned_sequence update"
  bk_witnesses :: witnesses_update
  bk_activity :: "tick option"

definition no_bookkeeping :: bookkeeping where
  "no_bookkeeping = \<lparr>bk_proposals = [], bk_oks = [], bk_resolved = [], bk_view_change = Unchanged,
     bk_transfer = Unchanged, bk_stalled = Unchanged, bk_planned = Unchanged,
     bk_reincarnation = Unchanged, bk_plan_execution = Unchanged, bk_witnesses = W_Unchanged,
     bk_activity = None\<rparr>"

record planned_transition =
  pt_base :: u64
  pt_candidate :: progress
  pt_journal :: journal_mutation
  pt_intent :: persistence_intent
  pt_effects :: "effect list"
  pt_kind :: input_kind
  pt_completion :: bool
  pt_bookkeeping :: bookkeeping
  pt_diagnostic :: diagnostic
  pt_fault :: "fault option"

record parked_transition =
  pk_base :: u64
  pk_candidate :: progress
  pk_journal :: journal_mutation
  pk_effects :: "effect list"
  pk_kind :: input_kind
  pk_bookkeeping :: bookkeeping
  pk_diagnostic :: diagnostic

definition with_bookkeeping :: "planned_transition \<Rightarrow> bookkeeping \<Rightarrow> planned_transition" where
  "with_bookkeeping p b = p\<lparr>pt_bookkeeping := b\<rparr>"

definition with_diagnostic :: "planned_transition \<Rightarrow> diagnostic \<Rightarrow> planned_transition" where
  "with_diagnostic p d = p\<lparr>pt_diagnostic := d\<rparr>"

definition with_fault_declared :: "planned_transition \<Rightarrow> fault \<Rightarrow> planned_transition" where
  "with_fault_declared p f = p\<lparr>pt_fault := Some f\<rparr>"

definition with_activity :: "planned_transition \<Rightarrow> tick \<Rightarrow> planned_transition" where
  "with_activity p at = p\<lparr>pt_bookkeeping := (pt_bookkeeping p)\<lparr>bk_activity := Some at\<rparr>\<rparr>"

definition with_fetch :: "planned_transition \<Rightarrow> effect \<times> transfer_volatile \<Rightarrow> planned_transition" where
  "with_fetch p f = p\<lparr>pt_effects := pt_effects p @ [fst f],
     pt_bookkeeping := (pt_bookkeeping p)\<lparr>bk_transfer := SetTo (snd f)\<rparr>\<rparr>"

definition with_reincarnation :: "planned_transition \<Rightarrow> forced_sequence update \<Rightarrow> planned_transition" where
  "with_reincarnation p u = p\<lparr>pt_bookkeeping := (pt_bookkeeping p)\<lparr>bk_reincarnation := u\<rparr>\<rparr>"

definition with_plan_execution :: "planned_transition \<Rightarrow> planned_sequence update \<Rightarrow> planned_transition" where
  "with_plan_execution p u = p\<lparr>pt_bookkeeping := (pt_bookkeeping p)\<lparr>bk_plan_execution := u\<rparr>\<rparr>"

definition with_witness :: "planned_transition \<Rightarrow> witnesses_update \<Rightarrow> planned_transition" where
  "with_witness p u = p\<lparr>pt_bookkeeping := (pt_bookkeeping p)\<lparr>bk_witnesses := u\<rparr>\<rparr>"

definition with_effect :: "planned_transition \<Rightarrow> effect \<Rightarrow> planned_transition" where
  "with_effect p e = p\<lparr>pt_effects := pt_effects p @ [e]\<rparr>"

definition with_stalled_offer :: "planned_transition \<Rightarrow> node_id \<Rightarrow> message \<Rightarrow> planned_transition" where
  "with_stalled_offer p from m = p\<lparr>pt_bookkeeping :=
     (pt_bookkeeping p)\<lparr>bk_stalled := SetTo \<lparr>ss_from = from, ss_message = m\<rparr>\<rparr>\<rparr>"


section \<open>The replica\<close>

record replica =
  rp_own :: node_id
  rp_progress :: progress
  rp_journal :: segmented_log
  rp_strategy :: strategy
  rp_stability :: stability
  rp_observation :: progress_snapshot
  rp_diagnostics :: diagnostic
  rp_proposals :: "slot \<rightharpoonup> proposal"
  rp_parked :: "parked_transition option"
  rp_knobs :: knobs
  rp_primary_activity :: tick
  rp_view_change :: "view_change_volatile option"
  rp_transfer :: "transfer_volatile option"
  rp_stalled :: "stalled_start_view option"
  rp_planned :: "planned_overlap option"
  rp_reincarnation :: "forced_sequence option"
  rp_plan_execution :: "planned_sequence option"
  rp_witnesses :: "node_id list"

text \<open>Ordered sets and maps of nodes, with the entry of a present key kept.\<close>

definition set_insert :: "node_id \<Rightarrow> node_id list \<Rightarrow> node_id list" where
  "set_insert n s = (if n \<in> set s then s else insort n s)"

fun map_or_insert :: "node_id \<Rightarrow> 'a \<Rightarrow> (node_id \<times> 'a) list \<Rightarrow> (node_id \<times> 'a) list" where
  "map_or_insert n a [] = [(n, a)]"
| "map_or_insert n a ((m, b) # xs) =
     (if n = m then (m, b) # xs
      else if n < m then (n, a) # (m, b) # xs
      else (m, b) # map_or_insert n a xs)"

end
