(* ===== verification/Replica_Core.thy ===== *)
theory Replica_Core
  imports Replica_State
begin

text \<open>
  What every handler of the replica shares (\<open>src/replica/mod.rs\<close>, with \<open>memo_target\<close> and
  \<open>stream_targets\<close> of \<open>src/replica/reincarnation.rs\<close>): the candidate records, the plans built on
  them, the walks over the log, the suffixes a message carries and their check against the log.

  A loop \<open>while let Some(next) = slot.next()\<close> that stops above a bound runs over \<open>slots_after\<close>.
  Handlers are pure: they take the replica and the log view and return a refusal or a planned
  transition. Byte budgets are naturals, so \<open>checked_add\<close> that overflows and a total above the budget
  are one branch. Tracing is left out.
\<close>

section \<open>Walks over slots\<close>

function slots_after :: "slot \<Rightarrow> slot \<Rightarrow> slot list" where
  "slots_after slot through =
     (case slot_next slot of
        None \<Rightarrow> []
      | Some next \<Rightarrow> if next > through then [] else next # slots_after next through)"
  by auto
termination
  by (relation "measure (\<lambda>(slot, through). unat through - unat slot)")
     (auto simp: slot_next_Some word_le_nat_alt not_less)

declare slots_after.simps [simp del]

definition is_system :: "log_entry \<Rightarrow> bool" where
  "is_system e \<longleftrightarrow> (case le_payload e of P_System _ \<Rightarrow> True | P_Operation _ _ \<Rightarrow> False)"

text \<open>The entry of a slot, an overlay of entries not yet in the log first.\<close>

definition overlay_get :: "log_view \<Rightarrow> log_entry list \<Rightarrow> slot \<Rightarrow> log_entry option" where
  "overlay_get j overlay s =
     (case find (\<lambda>e. le_slot e = s) overlay of Some e \<Rightarrow> Some e | None \<Rightarrow> view_get j s)"

definition entry_or :: "log_view \<Rightarrow> log_entry list \<Rightarrow> slot \<Rightarrow> plan_refusal + log_entry" where
  "entry_or j overlay s = ok_or (overlay_get j overlay s) (PR_JournalEntryUnavailable s)"

fun walk_systems :: "log_view \<Rightarrow> log_entry list \<Rightarrow> slot \<Rightarrow> slot list \<Rightarrow> plan_refusal + slot" where
  "walk_systems j overlay walked [] = Ok walked"
| "walk_systems j overlay walked (next # rest) =
     rbind (entry_or j overlay next) (\<lambda>e.
       if \<not> is_system e then Ok walked else walk_systems j overlay next rest)"

definition applied_walk :: "log_view \<Rightarrow> log_entry list \<Rightarrow> slot \<Rightarrow> slot \<Rightarrow> plan_refusal + slot" where
  "applied_walk j overlay applied committed =
     walk_systems j overlay applied (slots_after applied committed)"

definition apply_of :: "log_entry \<Rightarrow> slot \<Rightarrow> effect list" where
  "apply_of e s = (case le_payload e of P_Operation i bytes \<Rightarrow> [Eff_Apply s i bytes] | P_System _ \<Rightarrow> [])"

fun gather_effects :: "log_view \<Rightarrow> log_entry list \<Rightarrow> slot list \<Rightarrow> plan_refusal + effect list" where
  "gather_effects j overlay [] = Ok []"
| "gather_effects j overlay (s # rest) =
     rbind (entry_or j overlay s) (\<lambda>e.
     rbind (gather_effects j overlay rest) (\<lambda>effects. Ok (apply_of e s @ effects)))"

definition apply_effects_merged ::
    "log_view \<Rightarrow> log_entry list \<Rightarrow> slot \<Rightarrow> slot \<Rightarrow> plan_refusal + effect list" where
  "apply_effects_merged j suffix from through =
     (if through \<le> from then Ok [] else gather_effects j suffix (slots_after from through))"

definition apply_effects :: "log_view \<Rightarrow> slot \<Rightarrow> slot \<Rightarrow> plan_refusal + effect list" where
  "apply_effects j from through =
     (if through \<le> from then Ok [] else gather_effects j [] (slots_after from through))"

definition installed_proposals ::
    "log_view \<Rightarrow> log_entry list \<Rightarrow> slot \<Rightarrow> slot \<Rightarrow> (slot \<times> proposal) list" where
  "installed_proposals j overlay committed accepted =
     concat (map (\<lambda>cursor. case overlay_get j overlay cursor of
                     Some _ \<Rightarrow> [(cursor, [])]
                   | None \<Rightarrow> []) (slots_after committed accepted))"


section \<open>Candidates and plans\<close>

definition identity_candidate :: "replica \<Rightarrow> plan_refusal + progress" where
  "identity_candidate r = map_err PR_Progress (with_status (rp_progress r) (p_status (rp_progress r)))"

definition unwrap_or :: "'a option \<Rightarrow> 'a \<Rightarrow> 'a" where
  "unwrap_or x a = (case x of Some b \<Rightarrow> b | None \<Rightarrow> a)"

definition next_revision :: "replica \<Rightarrow> plan_refusal + u64" where
  "next_revision r = ok_or (checked_add (p_revision (rp_progress r)) 1) (PR_Progress RevisionExhausted)"

definition candidate_with ::
    "replica \<Rightarrow> status \<Rightarrow> slot \<Rightarrow> slot \<Rightarrow> slot \<Rightarrow> era_table \<Rightarrow> ballot option \<Rightarrow> plan_refusal + progress" where
  "candidate_with r st accepted committed applied config view =
     rbind (next_revision r) (\<lambda>revision.
       map_err PR_Progress (reconstitute
         (unwrap_or view (p_current (rp_progress r))) (unwrap_or view (p_retained (rp_progress r)))
         st accepted committed applied (p_checkpoint (rp_progress r)) revision config None))"

definition install_candidate ::
    "replica \<Rightarrow> ballot \<Rightarrow> slot \<Rightarrow> slot \<Rightarrow> slot \<Rightarrow> era_table \<Rightarrow> plan_refusal + progress" where
  "install_candidate r view accepted committed applied config =
     rbind (next_revision r) (\<lambda>revision.
       map_err PR_Progress (reconstitute view view St_Normal accepted committed applied
         (p_checkpoint (rp_progress r)) revision config None))"

definition progress_intent :: "progress \<Rightarrow> progress \<Rightarrow> progress_intent" where
  "progress_intent old new =
     (if p_current old \<noteq> p_current new \<or> p_retained old \<noteq> p_retained new
         \<or> p_status old \<noteq> p_status new \<or> p_accepted old \<noteq> p_accepted new
         \<or> p_committed old \<noteq> p_committed new \<or> p_applied old \<noteq> p_applied new
         \<or> p_checkpoint old \<noteq> p_checkpoint new \<or> p_fault old \<noteq> p_fault new
      then PI_Record else PI_Unchanged)"

definition candidate_plan ::
    "replica \<Rightarrow> progress \<Rightarrow> journal_mutation \<Rightarrow> effect list \<Rightarrow> input_kind \<Rightarrow> bool \<Rightarrow> planned_transition" where
  "candidate_plan r candidate mutation effects kind completion =
     \<lparr>pt_base = p_revision (rp_progress r), pt_candidate = candidate, pt_journal = mutation,
      pt_intent = \<lparr>pi_revision = p_revision (rp_progress r),
                   pi_progress = progress_intent (rp_progress r) candidate,
                   pi_journal = mutation_intent mutation\<rparr>,
      pt_effects = effects, pt_kind = kind, pt_completion = completion,
      pt_bookkeeping = no_bookkeeping, pt_diagnostic = D_None, pt_fault = None\<rparr>"

text \<open>The plan that changes nothing but the revision, with the given effects.\<close>

definition identity_plan :: "replica \<Rightarrow> effect list \<Rightarrow> input_kind \<Rightarrow> plan_refusal + planned_transition" where
  "identity_plan r effects kind =
     rbind (identity_candidate r) (\<lambda>candidate. Ok (candidate_plan r candidate JM_None effects kind False))"

definition drop_plan :: "replica \<Rightarrow> diagnostic \<Rightarrow> input_kind \<Rightarrow> plan_refusal + planned_transition" where
  "drop_plan r d kind = rbind (identity_plan r [] kind) (\<lambda>p. Ok (with_diagnostic p d))"

definition breach_plan :: "replica \<Rightarrow> input_kind \<Rightarrow> plan_refusal + planned_transition" where
  "breach_plan r kind = rbind (identity_plan r [] kind) (\<lambda>p. Ok (with_fault_declared p IllegalTransition))"

definition refuse_if_parked :: "replica \<Rightarrow> plan_refusal + unit" where
  "refuse_if_parked r = (if rp_parked r \<noteq> None then Err PR_TransitionOutstanding else Ok ())"


section \<open>Views, members and recipients\<close>

definition view_change_target :: "replica \<Rightarrow> ballot option" where
  "view_change_target r =
     (let current = p_current (rp_progress r);
          established = er_era (et_current (p_config (rp_progress r)))
      in if Some established = era_next (b_era current) then next_in_next_era current
         else next_in_era current)"

definition stop_the_world_transition_outstanding :: "replica \<Rightarrow> bool" where
  "stop_the_world_transition_outstanding r \<longleftrightarrow>
     er_era (et_current (p_config (rp_progress r))) \<noteq> b_era (p_current (rp_progress r)) \<and> rp_planned r = None"

definition primary_of :: "replica \<Rightarrow> ballot \<Rightarrow> node_id option" where
  "primary_of r view =
     (case et_record (p_config (rp_progress r)) (b_era view) of
        None \<Rightarrow> None
      | Some record \<Rightarrow> primary (er_config record) (b_view view))"

definition current_record :: "replica \<Rightarrow> era_record option" where
  "current_record r = et_record (p_config (rp_progress r)) (b_era (p_current (rp_progress r)))"

definition current_config :: "replica \<Rightarrow> configuration" where
  "current_config r = er_config (et_current (p_config (rp_progress r)))"

definition backups :: "replica \<Rightarrow> node_id list" where
  "backups r =
     (case current_record r of
        Some record \<Rightarrow> filter (\<lambda>node. node \<noteq> rp_own r) (map m_node (cfg_order (er_config record)))
      | None \<Rightarrow> [])"

definition votes :: "configuration \<Rightarrow> node_id \<Rightarrow> bool" where
  "votes config node \<longleftrightarrow> (case weight_of config node of Some w \<Rightarrow> 1 \<le> w | None \<Rightarrow> False)"

definition memo_target :: "replica \<Rightarrow> node_id option" where
  "memo_target r =
     (case rp_reincarnation r of
        None \<Rightarrow> None
      | Some machine \<Rightarrow> if votes (current_config r) (fs_new machine) then None else Some (fs_new machine))"

definition add_absent :: "node_id list \<Rightarrow> node_id list \<Rightarrow> node_id list" where
  "add_absent targets ns = fold (\<lambda>n targets. if n \<in> set targets then targets else targets @ [n]) ns targets"

definition stream_targets :: "replica \<Rightarrow> node_id list" where
  "stream_targets r =
     add_absent (case memo_target r of Some standby \<Rightarrow> [standby] | None \<Rightarrow> [])
       (filter (\<lambda>witness. \<not> votes (current_config r) witness) (rp_witnesses r))"

text \<open>The backups of the current view and, after them, the streamed nodes that are not backups.\<close>

definition recipients :: "replica \<Rightarrow> node_id list" where
  "recipients r = add_absent (backups r) (stream_targets r)"

definition mk_message :: "tag \<Rightarrow> ballot \<Rightarrow> slot \<Rightarrow> body \<Rightarrow> message" where
  "mk_message t view s b = \<lparr>msg_header = \<lparr>h_tag = t, h_view = view, h_slot = s\<rparr>, msg_body = b\<rparr>"

definition send_all :: "node_id list \<Rightarrow> era \<Rightarrow> message \<Rightarrow> effect list" where
  "send_all targets e m = map (\<lambda>target. Eff_Send target e m) targets"

definition broadcast_commit :: "replica \<Rightarrow> slot \<Rightarrow> effect list" where
  "broadcast_commit r committed =
     (let current = p_current (rp_progress r)
      in send_all (recipients r) (b_era current) (mk_message Tag_Commit current committed (B_Commit committed)))"

text \<open>A node that is fenced at its boot point: it restarted or joined and has entered no view since.\<close>

definition boot_fenced :: "replica \<Rightarrow> bool" where
  "boot_fenced r \<longleftrightarrow>
     p_status (rp_progress r) \<in> {St_Restarting, St_Joining} \<and> p_current (rp_progress r) = p_retained (rp_progress r)"

definition is_leader :: "replica \<Rightarrow> bool" where
  "is_leader r \<longleftrightarrow> p_status (rp_progress r) = St_Normal \<and> primary_of r (p_current (rp_progress r)) = Some (rp_own r)"

definition member_of_view :: "replica \<Rightarrow> ballot \<Rightarrow> bool" where
  "member_of_view r view \<longleftrightarrow>
     (case et_record (p_config (rp_progress r)) (b_era view) of
        Some record \<Rightarrow> weight_of (er_config record) (rp_own r) \<noteq> None
      | None \<Rightarrow> False)"


section \<open>Proofs and suffixes\<close>

definition make_era_proof :: "replica \<Rightarrow> era \<Rightarrow> plan_refusal + era_proof" where
  "make_era_proof r e =
     rbind (ok_or (et_record (p_config (rp_progress r)) e) (PR_Progress EraSlotDiscipline)) (\<lambda>record.
       Ok \<lparr>epf_op = er_operation record, epf_committed_at = er_established_by record\<rparr>)"

definition era_proof_ok :: "era_record \<Rightarrow> era_proof \<Rightarrow> bool" where
  "era_proof_ok record evidence \<longleftrightarrow>
     epf_committed_at evidence = er_established_by record \<and> epf_op evidence = er_operation record"

text \<open>The newest entries of the overlay within the budget, newest first, and their bytes. The outer
  \<open>None\<close> is the panic on a payload too long to frame.\<close>

fun pick_back :: "nat \<Rightarrow> log_entry list \<Rightarrow> log_entry list \<Rightarrow> nat \<Rightarrow> (log_entry list \<times> nat) option" where
  "pick_back budget [] picked bytes = Some (picked, bytes)"
| "pick_back budget (e # es) picked bytes =
     (case packed_len_entry e of
        None \<Rightarrow> None
      | Some len \<Rightarrow>
          if bytes + len > budget then Some (picked, bytes)
          else pick_back budget es (picked @ [e]) (bytes + len))"

function walk_back :: "log_view \<Rightarrow> nat \<Rightarrow> slot option \<Rightarrow> log_entry list \<Rightarrow> nat \<Rightarrow> log_entry list option" where
  "walk_back j budget None picked bytes = Some picked"
| "walk_back j budget (Some cursor) picked bytes =
     (case view_retained j of
        (lowest, highest) \<Rightarrow>
          if cursor < lowest \<or> cursor > highest then Some picked
          else (case view_get j cursor of
                  None \<Rightarrow> Some picked
                | Some e \<Rightarrow>
                    (case packed_len_entry e of
                       None \<Rightarrow> None
                     | Some len \<Rightarrow>
                         if bytes + len > budget then Some picked
                         else walk_back j budget (slot_prev cursor) (picked @ [e]) (bytes + len))))"
  by pat_completeness auto
termination
  by (relation "measure (\<lambda>(j, budget, cursor, picked, bytes). case cursor of None \<Rightarrow> 0 | Some s \<Rightarrow> Suc (unat s))")
     (auto simp: slot_prev_Some split: option.split)

declare walk_back.simps(2) [simp del]

definition bounded_suffix :: "replica \<Rightarrow> log_view \<Rightarrow> slot \<Rightarrow> log_entry list \<Rightarrow> log_entry list option" where
  "bounded_suffix r j frontier overlay =
     (let budget = kn_view_change_budget (rp_knobs r)
      in case pick_back budget (rev overlay) [] 0 of
           None \<Rightarrow> None
         | Some (picked, bytes) \<Rightarrow>
             (let cursor = (case overlay of
                              first # _ \<Rightarrow> if length picked = length overlay then slot_prev (le_slot first) else None
                            | [] \<Rightarrow> Some frontier)
              in map_option rev (walk_back j budget cursor picked bytes)))"

datatype suffix_check = SC_Install journal_mutation | SC_Gap slot slot | SC_Conflict

text \<open>The first offered slot that has to be installed: the loop returns early on a gap or a conflict.\<close>

fun scan_suffix ::
    "replica \<Rightarrow> log_view \<Rightarrow> slot \<Rightarrow> slot \<Rightarrow> slot \<Rightarrow> log_entry list \<Rightarrow> suffix_check + slot" where
  "scan_suffix r j base discharged from [] = Ok from"
| "scan_suffix r j base discharged from (e # es) =
     (if le_slot e > p_accepted (rp_progress r) then Ok (le_slot e)
      else case view_get j (le_slot e) of
        Some held \<Rightarrow>
          if held = e then scan_suffix r j base discharged from es
          else if le_slot e \<le> p_committed (rp_progress r) then Err SC_Conflict
          else Ok (le_slot e)
      | None \<Rightarrow>
          if le_slot e \<le> discharged then scan_suffix r j base discharged from es
          else Err (SC_Gap (le_slot e) base))"

definition check_suffix ::
    "replica \<Rightarrow> log_view \<Rightarrow> log_entry list \<Rightarrow> slot \<Rightarrow> slot \<Rightarrow> slot \<Rightarrow> plan_refusal + suffix_check" where
  "check_suffix r j suffix accepted committed discharged =
     (let local_accepted = p_accepted (rp_progress r)
      in case suffix of
        [] \<Rightarrow>
          if accepted = local_accepted \<and> committed = local_accepted then Ok (SC_Install JM_None)
          else Ok (SC_Gap (unwrap_or (slot_next local_accepted) local_accepted)
                          (unwrap_or (slot_next accepted) accepted))
      | first # _ \<Rightarrow>
          (let base = le_slot first
           in if slot_next local_accepted \<noteq> Some base \<and> base > local_accepted
              then Ok (SC_Gap (unwrap_or (slot_next local_accepted) local_accepted) base)
              else case scan_suffix r j base discharged (unwrap_or (slot_next accepted) accepted) suffix of
                Inl outcome \<Rightarrow> Ok outcome
              | Inr from \<Rightarrow>
                  if from > accepted then
                    Ok (SC_Install (if accepted < local_accepted then JM_InstallSuffix base suffix else JM_None))
                  else (case position (\<lambda>e. le_slot e = from) suffix of
                          None \<Rightarrow> Err PR_Panic
                        | Some skip \<Rightarrow> Ok (SC_Install (JM_InstallSuffix from (drop skip suffix))))))"

definition planned_evidence_solicited :: "replica \<Rightarrow> node_id \<Rightarrow> message \<Rightarrow> bool" where
  "planned_evidence_solicited r from m \<longleftrightarrow>
     (case msg_body m of
        B_DoViewChange _ _ _ _ evidence _ \<Rightarrow>
          evidence = Planned \<and>
          (case rp_planned r of
             None \<Rightarrow> False
           | Some planned \<Rightarrow> po_solicited planned \<and> h_view (msg_header m) = po_target planned
                             \<and> from \<in> set (q_i (po_pivot planned)))
      | _ \<Rightarrow> False)"

definition with_join_gossip_witness :: "replica \<Rightarrow> planned_transition \<Rightarrow> node_id \<Rightarrow> planned_transition" where
  "with_join_gossip_witness r p from =
     (if votes (current_config r) from then p else with_witness p (W_Add from))"

text \<open>The evidence with the highest retained view, then the highest accepted slot; ties keep the lowest
  node. \<open>None\<close> is the panic on an empty map.\<close>

definition better_evidence :: "evidence \<Rightarrow> evidence \<Rightarrow> bool" where
  "better_evidence m incumbent \<longleftrightarrow>
     ev_retained incumbent < ev_retained m
     \<or> ev_retained incumbent = ev_retained m \<and> ev_accepted incumbent < ev_accepted m"

definition select_history :: "(node_id \<times> evidence) list \<Rightarrow> (node_id \<times> evidence) option" where
  "select_history evidence =
     fold (\<lambda>(sender, m) best.
       case best of
         None \<Rightarrow> Some (sender, m)
       | Some (_, incumbent) \<Rightarrow> if better_evidence m incumbent then Some (sender, m) else best) evidence None"

fun shape_from :: "slot option \<Rightarrow> log_entry list \<Rightarrow> bool" where
  "shape_from expected [] = True"
| "shape_from expected (e # es) =
     (if (case expected of None \<Rightarrow> le_slot e \<noteq> SLOT_NONE | Some next \<Rightarrow> le_slot e = next)
      then shape_from (slot_next (le_slot e)) es else False)"

definition suffix_shape_ok :: "log_entry list \<Rightarrow> slot \<Rightarrow> bool" where
  "suffix_shape_ok suffix accepted \<longleftrightarrow>
     shape_from None suffix \<and> (suffix = [] \<or> le_slot (last suffix) = accepted)"

text \<open>A request for state and the cursor that remembers it (\<open>src/replica/transfer.rs\<close>).\<close>

definition fetch :: "ballot \<Rightarrow> node_id \<Rightarrow> slot \<Rightarrow> effect \<times> transfer_volatile" where
  "fetch view target from =
     (Eff_Send target (b_era view)
        (mk_message Tag_GetState view (unwrap_or (slot_prev from) SLOT_NONE) (B_GetState from)),
      \<lparr>tv_view = view, tv_to = target, tv_next = from\<rparr>)"

end
