(* ===== verification/Commit_Fold.thy ===== *)
theory Commit_Fold
  imports Replica_Core
begin

text \<open>
  The fold of committed slots into the era table (\<open>src/replica/reconfiguration.rs\<close>:
  \<open>run_nominations\<close>, \<open>fold_committed\<close>). A run of system operations that carry one era stamp folds as
  one batch, or one operation at a time where the batch is refused; a paced fold stops before a run
  that leads more than one era past the running view and nominates none. \<open>et_extend\<close> never panics
  (\<open>apply_never_panics\<close>), so the fold has no panic of its own.
\<close>

datatype commit_fold = CF_Unavailable slot | CF_SplitBatch | CF_Breach slot config_error

record folded =
  fd_table :: era_table
  fd_covered :: slot
  fd_stopped :: bool
  fd_bump :: "ballot option"

definition nominate :: "era \<Rightarrow> ballot option \<Rightarrow> sysop \<Rightarrow> ballot option" where
  "nominate e running rider =
     (case rider of
        Nominate from offset \<Rightarrow>
          (case running of
             None \<Rightarrow> None
           | Some view \<Rightarrow>
               if b_view view \<noteq> from then running
               else (case checked_add from offset of
                       Some number \<Rightarrow> Some (Ballot e number)
                     | None \<Rightarrow> running))
      | _ \<Rightarrow> running)"

definition riders_of :: "sysop \<Rightarrow> sysop list" where
  "riders_of op = (case op of Nominate _ _ \<Rightarrow> [op] | Batch sub \<Rightarrow> sub | _ \<Rightarrow> [])"

definition run_nominations :: "ballot option \<Rightarrow> sysop list \<Rightarrow> era \<Rightarrow> ballot option" where
  "run_nominations running ops e = foldl (nominate e) running (concat (map riders_of ops))"

text \<open>The operations that extend a run and the slot where it ends: system entries of one era stamp.\<close>

function follow_run :: "log_view \<Rightarrow> log_entry list \<Rightarrow> era \<Rightarrow> sysop list \<Rightarrow> slot \<Rightarrow> sysop list \<times> slot" where
  "follow_run j overlay e ops cursor =
     (case slot_next cursor of
        None \<Rightarrow> (ops, cursor)
      | Some follow \<Rightarrow>
          (case overlay_get j overlay follow of
             None \<Rightarrow> (ops, cursor)
           | Some entry \<Rightarrow>
               if le_era entry \<noteq> e then (ops, cursor)
               else (case le_payload entry of
                       P_System op \<Rightarrow> follow_run j overlay e (ops @ [op]) follow
                     | P_Operation _ _ \<Rightarrow> (ops, cursor))))"
  by auto
termination
proof (relation "measure (\<lambda>(j, overlay, e, ops, cursor). 2 ^ 64 - unat cursor)", goal_cases)
  case (2 j overlay e ops cursor follow entry op)
  then show ?case using unsigned_less [of follow, where ?'a = nat] by (simp add: slot_next_Some)
qed simp

declare follow_run.simps [simp del]

text \<open>The table a run folds to, the operations folded and the last slot folded.\<close>

definition fold_run ::
    "era_table \<Rightarrow> sysop \<Rightarrow> sysop list \<Rightarrow> slot \<Rightarrow> slot \<Rightarrow> slot \<Rightarrow> commit_fold + era_table \<times> sysop list \<times> slot" where
  "fold_run table op ops next stop through =
     (let single = rbind (map_err (CF_Breach next) (et_extend table op next)) (\<lambda>extended.
                     Ok (extended, [op], next))
      in if length ops \<ge> 2 then
           (if stop > through then Err CF_SplitBatch
            else case et_extend table (Batch ops) next of
              Inr extended \<Rightarrow> Ok (extended, ops, stop)
            | Inl _ \<Rightarrow> single)
         else single)"

definition past_window :: "ballot \<Rightarrow> ballot option \<Rightarrow> era \<Rightarrow> bool" where
  "past_window current running established \<longleftrightarrow>
     (case era_next (case running of Some b \<Rightarrow> b_era b | None \<Rightarrow> b_era current) of
        Some cap \<Rightarrow> established > cap
      | None \<Rightarrow> True)"

lemma follow_run_ge: "follow_run j overlay e ops cursor = (ops', stop) \<Longrightarrow> cursor \<le> stop"
proof (induction j overlay e ops cursor arbitrary: ops' stop rule: follow_run.induct)
  case (1 j overlay e ops cursor)
  show ?case
  proof (cases "follow_run j overlay e ops cursor = (ops, cursor)")
    case False
    then obtain follow entry op where s: "slot_next cursor = Some follow" "overlay_get j overlay follow = Some entry"
      "le_era entry = e" "le_payload entry = P_System op"
      by (subst (asm) follow_run.simps) (auto split: option.splits if_splits payload.splits)
    with 1(2) have "follow_run j overlay e (ops @ [op]) follow = (ops', stop)"
      by (subst (asm) follow_run.simps) simp
    with 1(1) s have "follow \<le> stop" by blast
    with s(1) show ?thesis by (simp add: slot_next_Some word_le_nat_alt)
  qed (use 1(2) in simp)
qed

lemma fold_run_ge: "fold_run table op ops next stop through = Inr (t, rs, s) \<Longrightarrow> next \<le> stop \<Longrightarrow> next \<le> s"
  by (auto simp: fold_run_def Let_def split: if_splits sum.splits)

lemma folded_run_ge:
  "(ops, stop) = follow_run j overlay e os s \<Longrightarrow> fold_run table op ops s stop through = Inr (t, rs, s') \<Longrightarrow>
   unat s \<le> unat s'"
  by (metis follow_run_ge fold_run_ge word_le_nat_alt)

text \<open>The loop. Its two cursors, the slot walked and the slot covered, are always equal.\<close>

function fold_walk ::
    "log_view \<Rightarrow> log_entry list \<Rightarrow> ballot \<Rightarrow> slot \<Rightarrow> bool \<Rightarrow> era_table \<Rightarrow> slot \<Rightarrow> ballot option \<Rightarrow> ballot option
     \<Rightarrow> commit_fold + folded" where
  "fold_walk j overlay current through paced table covered running bumped =
     (let finish = Ok \<lparr>fd_table = table, fd_covered = covered, fd_stopped = False, fd_bump = bumped\<rparr>
      in case slot_next covered of
        None \<Rightarrow> finish
      | Some next \<Rightarrow>
          if next > through then finish
          else (case overlay_get j overlay next of
            None \<Rightarrow> Err (CF_Unavailable next)
          | Some entry \<Rightarrow>
              (case le_payload entry of
                 P_Operation _ _ \<Rightarrow> fold_walk j overlay current through paced table next running bumped
               | P_System op \<Rightarrow>
                   (case follow_run j overlay (le_era entry) [op] next of (ops, stop) \<Rightarrow>
                     (case fold_run table op ops next stop through of
                        Inl e \<Rightarrow> Err e
                      | Inr (extended, riders, stop) \<Rightarrow>
                          (let established = er_era (et_current extended);
                               nominated = run_nominations running riders established
                           in if paced \<and> past_window current running established \<and> nominated = running
                              then Ok \<lparr>fd_table = table, fd_covered = covered, fd_stopped = True, fd_bump = bumped\<rparr>
                              else fold_walk j overlay current through paced extended stop nominated
                                     (case nominated of
                                        Some view \<Rightarrow> if view \<noteq> current then Some view else None
                                      | None \<Rightarrow> None)))))))"
  by pat_completeness auto
termination
proof (relation "measure (\<lambda>(j, overlay, current, through, paced, table, covered, running, bumped).
    unat through - unat covered)", goal_cases)
  case (2 j overlay current through paced table covered running bumped finish nx)
  then show ?case by (auto simp: slot_next_Some word_le_nat_alt not_less)
next
  case 3
  then show ?case by (auto simp: slot_next_Some word_le_nat_alt not_less dest: folded_run_ge)
qed simp

declare fold_walk.simps [simp del]

definition fold_committed ::
    "replica \<Rightarrow> log_view \<Rightarrow> log_entry list \<Rightarrow> slot \<Rightarrow> slot \<Rightarrow> bool \<Rightarrow> commit_fold + folded" where
  "fold_committed r j overlay from through paced =
     (let p = rp_progress r
      in fold_walk j overlay (p_current p) through paced (p_config p) from
           (if p_status p = St_Normal then Some (p_current p) else None) None)"

text \<open>What every handler does when the fold fails; \<open>k\<close> goes on with the folded table.\<close>

definition on_fold ::
    "replica \<Rightarrow> input_kind \<Rightarrow> commit_fold + folded \<Rightarrow> (folded \<Rightarrow> plan_refusal + planned_transition)
     \<Rightarrow> plan_refusal + planned_transition" where
  "on_fold r kind outcome k =
     (case outcome of
        Inr fd \<Rightarrow> k fd
      | Inl e \<Rightarrow>
          (case e of
             CF_Unavailable s \<Rightarrow> Err (PR_JournalEntryUnavailable s)
           | CF_SplitBatch \<Rightarrow> drop_plan r D_FuseRefusal kind
           | CF_Breach _ _ \<Rightarrow> breach_plan r kind))"

end
