(* ===== verification/Reconfigure.thy ===== *)
theory Reconfigure
  imports Commit_Fold
begin

text \<open>
  Planning a reconfiguration (\<open>src/replica/reconfiguration.rs\<close>): the gates, the single proposal with
  its pivot, the packed slab of a batch, the solicitation of a planned view change once its
  establishing slot commits, the answer to it and the planned evidence that installs the view.
  \<open>plan_fuse\<close>, which signals a higher view, is in theory \<open>Normal\<close>.
\<close>

definition FUSE_MAX_OPS :: nat where "FUSE_MAX_OPS = 7"

definition quorum_gate :: "(quorum_error + unit) option \<Rightarrow> plan_refusal + unit" where
  "quorum_gate verdict =
     (case verdict of None \<Rightarrow> Err PR_Panic | Some res \<Rightarrow> map_err PR_ReconfigureQuorum res)"

fun uncommitted_system :: "log_view \<Rightarrow> slot list \<Rightarrow> plan_refusal + unit" where
  "uncommitted_system j [] = Ok ()"
| "uncommitted_system j (next # rest) =
     rbind (entry_or j [] next) (\<lambda>e.
       if is_system e then Err (PR_ReconfigureOutstanding next) else uncommitted_system j rest)"

definition reconfigure_gates :: "replica \<Rightarrow> log_view \<Rightarrow> sysop \<Rightarrow> slot \<Rightarrow> plan_refusal + era_table" where
  "reconfigure_gates r j op s =
     (let p = rp_progress r; current = p_current p; established = er_era (et_current (p_config p))
      in if established \<noteq> b_era current then Err (PR_EraTransitionOutstanding (b_era current) established)
         else
           rbind (uncommitted_system j (slots_after (p_committed p) (p_accepted p))) (\<lambda>_.
           rbind (map_err PR_Reconfigure (et_extend (p_config p) op s)) (\<lambda>next_table.
           rbind (ok_or (current_record r) (PR_Progress EraSlotDiscipline)) (\<lambda>record.
           rbind (quorum_gate (validate_transition (rp_strategy r) (er_config record)
                    (er_config (et_current next_table)))) (\<lambda>_.
           rbind (quorum_gate (validate_era (rp_strategy r) (er_config (et_current next_table)))) (\<lambda>_.
           Ok next_table))))))"

text \<open>The record of the current view and the next slot, when the replica is the primary in service.\<close>

definition primary_gate :: "replica \<Rightarrow> plan_refusal + era_record \<times> slot" where
  "primary_gate r =
     (let p = rp_progress r; current = p_current p
      in rbind (ok_or (current_record r) (PR_Progress EraSlotDiscipline)) (\<lambda>record.
         let designated = primary (er_config record) (b_view current)
         in if \<not> (p_status p = St_Normal \<and> designated = Some (rp_own r)) then Err (PR_NotPrimary current designated)
            else rbind (ok_or (slot_next (p_accepted p)) PR_SlotSpaceExhausted) (\<lambda>s. Ok (record, s))))"

text \<open>The view a pivot aims at and the recipients it restricts the proposal to.\<close>

definition planned_target :: "replica \<Rightarrow> era_table \<Rightarrow> plan_refusal + ballot" where
  "planned_target r next_table =
     (let current = p_current (rp_progress r);
          next_record = et_current next_table;
          order = cfg_order (er_config next_record)
      in if length order \<ge> 2 ^ 32 then Err PR_Panic
         else case position (\<lambda>m. m_node m = rp_own r) order of
           None \<Rightarrow> Err PR_Panic
         | Some index \<Rightarrow>
             rbind (ok_or (next_view_selecting (b_view current) (of_nat index) (of_nat (length order)))
                      (PR_ReconfigureViewExhausted current)) (\<lambda>view.
             Ok (Ballot (er_era next_record) view)))"

definition plan_reconfigure :: "replica \<Rightarrow> log_view \<Rightarrow> sysop \<Rightarrow> pivot option \<Rightarrow> plan_refusal + planned_transition" where
  "plan_reconfigure r j op pv =
     (let p = rp_progress r; current = p_current p
      in rbind (primary_gate r) (\<lambda>(record, s).
         rbind (reconfigure_gates r j op s) (\<lambda>next_table.
         rbind (case pv of
                  None \<Rightarrow> Ok ()
                | Some pv \<Rightarrow> map_err PR_ReconfigurePivot (validate_pivot (rp_strategy r) (er_config record)
                               (er_config (et_current next_table)) (rp_own r) pv)) (\<lambda>_.
         rbind (case pv of
                  None \<Rightarrow> Ok (recipients r, Unchanged)
                | Some pv \<Rightarrow> rbind (planned_target r next_table) (\<lambda>target.
                    Ok (filter (\<lambda>node. node \<noteq> rp_own r) (q_ii pv),
                        SetTo \<lparr>po_establishing = s, po_pivot = pv, po_target = target,
                               po_solicited = False, po_evidence = []\<rparr>))) (\<lambda>(targets, planned).
         let entry = \<lparr>le_slot = s, le_era = b_era current, le_payload = P_System op\<rparr>
         in rbind (candidate_with r (p_status p) s (p_committed p) (p_applied p) (p_config p) None) (\<lambda>candidate.
            Ok (with_bookkeeping
                  (candidate_plan r candidate (JM_Accept [entry])
                     (send_all targets (b_era current)
                        (mk_message Tag_Prepare current s (B_Prepare entry (p_committed p))))
                     Reconfiguration False)
                  (no_bookkeeping\<lparr>bk_proposals := [(s, [])], bk_planned := planned\<rparr>))))))))"

text \<open>The entries of a slab: one slot for each operation, stamped by the per-slot fold.\<close>

fun number_entries :: "slot option \<Rightarrow> (sysop \<times> era) list \<Rightarrow> plan_refusal + log_entry list" where
  "number_entries cursor [] = Ok []"
| "number_entries cursor ((op, e) # rest) =
     rbind (ok_or cursor PR_SlotSpaceExhausted) (\<lambda>s.
     rbind (number_entries (slot_next s) rest) (\<lambda>entries.
     Ok (\<lparr>le_slot = s, le_era = e, le_payload = P_System op\<rparr> # entries)))"

text \<open>The per-slot fold panics on a genesis operation or a batch.\<close>

definition slab_stamps :: "configuration \<Rightarrow> sysop list \<Rightarrow> plan_refusal + (config_error + era list)" where
  "slab_stamps config ops =
     (case fold_slots config ops of
        Inl e \<Rightarrow> if e = ConfigPanic then Err PR_Panic else Ok (Err e)
      | Inr (eras, _) \<Rightarrow> Ok (Ok eras))"

definition plan_fuse_batch :: "replica \<Rightarrow> log_view \<Rightarrow> sysop list \<Rightarrow> plan_refusal + planned_transition" where
  "plan_fuse_batch r j ops =
     (let p = rp_progress r; current = p_current p
      in rbind (primary_gate r) (\<lambda>(record, first_slot).
         rbind (reconfigure_gates r j (Batch ops) first_slot) (\<lambda>_.
         rbind (slab_stamps (er_config record) ops) (\<lambda>stamps.
         rbind (map_err PR_Reconfigure stamps) (\<lambda>eras.
         rbind (number_entries (Some first_slot) (zip ops eras)) (\<lambda>entries.
         if entries = [] then Err PR_Panic
         else rbind (candidate_with r (p_status p) (le_slot (last entries)) (p_committed p) (p_applied p)
                       (p_config p) None) (\<lambda>candidate.
              Ok (with_bookkeeping
                    (candidate_plan r candidate (JM_Accept entries)
                       (send_all (recipients r) (b_era current)
                          (mk_message Tag_Fuse current first_slot (B_Fuse ops)))
                       Reconfiguration False)
                    (no_bookkeeping\<lparr>bk_proposals := map (\<lambda>e. (le_slot e, [])) entries\<rparr>)))))))))"

definition plan_step_proposal :: "replica \<Rightarrow> log_view \<Rightarrow> sysop \<Rightarrow> plan_refusal + planned_transition" where
  "plan_step_proposal r j batch =
     (case batch of
        Batch ops \<Rightarrow>
          if length ops \<ge> 2 \<and> length ops \<le> FUSE_MAX_OPS then plan_fuse_batch r j ops
          else plan_reconfigure r j batch None
      | _ \<Rightarrow> plan_reconfigure r j batch None)"


section \<open>The planned view change\<close>

definition overlap_solicitation ::
    "replica \<Rightarrow> era_table \<Rightarrow> slot \<Rightarrow> plan_refusal + era_table \<times> effect list \<times> planned_overlap update" where
  "overlap_solicitation r config covered =
     (case rp_planned r of
        None \<Rightarrow> Ok (config, [], Unchanged)
      | Some planned \<Rightarrow>
          if po_solicited planned \<or> po_establishing planned \<le> p_committed (rp_progress r)
             \<or> po_establishing planned > covered
             \<or> er_established_by (et_current config) \<noteq> po_establishing planned
          then Ok (config, [], Unchanged)
          else
            rbind (ok_or (with_transition_pivot config (er_era (et_current config)) (po_pivot planned)) PR_Panic)
              (\<lambda>config.
                Ok (config,
                    send_all (filter (\<lambda>node. node \<noteq> rp_own r) (q_i (po_pivot planned)))
                      (b_era (p_current (rp_progress r)))
                      (mk_message Tag_PlannedViewChange (po_target planned) SLOT_NONE B_PlannedViewChange),
                    SetTo (planned\<lparr>po_solicited := True, po_evidence := []\<rparr>))))"

definition plan_planned_view_change ::
    "replica \<Rightarrow> log_view \<Rightarrow> node_id \<Rightarrow> message \<Rightarrow> input_kind \<Rightarrow> plan_refusal + planned_transition" where
  "plan_planned_view_change r j from m kind =
     (let p = rp_progress r; current = p_current p; view = h_view (msg_header m); accepted = p_accepted p;
          known = et_record (p_config p) (b_era view) \<noteq> None
      in if Some (b_era view) \<noteq> era_next (b_era current) then
           (if \<not> known then drop_plan r (D_UnevaluableEra (b_era view)) kind
            else drop_plan r (D_StaleEvidence view current) kind)
         else if primary_of r current \<noteq> Some from then drop_plan r (D_SenderNotPrimary from current) kind
         else if p_status p \<noteq> St_Normal then drop_plan r (D_StaleViewChange view current) kind
         else
           rbind (ok_or (bounded_suffix r j accepted []) PR_Panic) (\<lambda>suffix.
           rbind (make_era_proof r (b_era current)) (\<lambda>evidence.
           rbind (identity_plan r
                    [Eff_Send from (b_era current) (mk_message Tag_DoViewChange view accepted
                       (B_DoViewChange (p_retained p) accepted (p_committed p) suffix Planned evidence))] kind)
             (\<lambda>pl. Ok (if known then pl
                       else case slot_next accepted of
                              Some next \<Rightarrow> with_fetch pl (fetch current from next)
                            | None \<Rightarrow> pl)))))"

definition plan_planned_evidence ::
    "replica \<Rightarrow> log_view \<Rightarrow> node_id \<Rightarrow> message \<Rightarrow> ballot \<Rightarrow> slot \<Rightarrow> slot \<Rightarrow> log_entry list \<Rightarrow> era_proof \<Rightarrow> tick
     \<Rightarrow> input_kind \<Rightarrow> plan_refusal + planned_transition" where
  "plan_planned_evidence r j from m retained accepted committed suffix evidence at kind =
     (let p = rp_progress r; current = p_current p; view = h_view (msg_header m)
      in case rp_planned r of
        None \<Rightarrow> drop_plan r (D_StaleEvidence view current) kind
      | Some planned \<Rightarrow>
          if \<not> po_solicited planned \<or> view \<noteq> po_target planned
          then drop_plan r (D_StaleEvidence view current) kind
          else if from = rp_own r \<or> from \<notin> set (q_i (po_pivot planned))
          then drop_plan r (D_EvidenceNotCollected from view) kind
          else rbind (ok_or (current_record r) (PR_Progress EraSlotDiscipline)) (\<lambda>record.
            if h_slot (msg_header m) \<noteq> accepted \<or> committed > accepted
               \<or> \<not> suffix_shape_ok suffix accepted \<or> \<not> era_proof_ok record evidence
            then drop_plan r D_MalformedViewChange kind
            else
              let planned = planned\<lparr>po_evidence := map_or_insert from
                    \<lparr>ev_retained = retained, ev_accepted = accepted, ev_committed = committed, ev_suffix = suffix\<rparr>
                    (po_evidence planned)\<rparr>;
                  quorum = list_all (\<lambda>n. n = rp_own r \<or> n \<in> fst ` set (po_evidence planned)) (q_i (po_pivot planned))
              in if \<not> quorum then
                   rbind (identity_plan r [] kind) (\<lambda>pl.
                     Ok (with_bookkeeping pl (no_bookkeeping\<lparr>bk_planned := SetTo planned\<rparr>)))
                 else
                   rbind (install_candidate r (po_target planned) (p_accepted p) (p_committed p) (p_applied p)
                            (p_config p)) (\<lambda>candidate.
                   rbind (ok_or (bounded_suffix r j (p_accepted p) []) PR_Panic) (\<lambda>own_suffix.
                   rbind (make_era_proof r (b_era (po_target planned))) (\<lambda>own_proof.
                   Ok (with_bookkeeping
                         (candidate_plan r candidate JM_None
                            (send_all
                               (filter (\<lambda>node. node \<noteq> rp_own r) (map m_node (cfg_order (current_config r))))
                               (b_era (po_target planned))
                               (mk_message Tag_StartView (po_target planned) (p_accepted p)
                                  (B_StartView own_suffix (p_accepted p) (p_committed p) own_proof)))
                            kind False)
                         (no_bookkeeping\<lparr>bk_planned := Clear, bk_activity := Some at\<rparr>)))))))"

end
