(* ===== verification/View_Change.thy ===== *)
theory View_Change
  imports Reconfigure
begin

text \<open>
  The view change (\<open>src/replica/view_change.rs\<close>): entering a view, collecting fences and evidence,
  selecting a history, winning the view, adopting an announced one, and the administrative entry.
  A win is installed, or waits for the entries it lacks.
\<close>

definition own_evidence :: "replica \<Rightarrow> log_view \<Rightarrow> plan_refusal + evidence" where
  "own_evidence r j =
     (let p = rp_progress r
      in rbind (ok_or (bounded_suffix r j (p_accepted p) []) PR_Panic) (\<lambda>suffix.
         Ok \<lparr>ev_retained = p_retained p, ev_accepted = p_accepted p, ev_committed = p_committed p,
             ev_suffix = suffix\<rparr>))"

definition do_view_change_effect :: "replica \<Rightarrow> evidence \<Rightarrow> ballot \<Rightarrow> plan_refusal + effect" where
  "do_view_change_effect r own target =
     rbind (ok_or (primary_of r target) (PR_Progress EraSlotDiscipline)) (\<lambda>designated.
     rbind (make_era_proof r (b_era target)) (\<lambda>evidence.
     Ok (Eff_Send designated (b_era target)
           (mk_message Tag_DoViewChange target (ev_accepted own)
              (B_DoViewChange (ev_retained own) (ev_accepted own) (ev_committed own) (ev_suffix own)
                 Ordinary evidence)))))"

definition highest_committed :: "replica \<Rightarrow> (node_id \<times> evidence) list \<Rightarrow> slot" where
  "highest_committed r evidence =
     fold (\<lambda>(_, m) s. max s (ev_committed m)) evidence (p_committed (rp_progress r))"

datatype win_outcome = WO_Installed planned_transition | WO_Insufficient slot slot "effect list"

definition plan_win_view ::
    "replica \<Rightarrow> log_view \<Rightarrow> ballot \<Rightarrow> evidence \<Rightarrow> (node_id \<times> evidence) list \<Rightarrow> effect list \<Rightarrow> tick \<Rightarrow> input_kind
     \<Rightarrow> plan_refusal + win_outcome" where
  "plan_win_view r j target selected evidence effects at kind =
     (let p = rp_progress r; committed = highest_committed r evidence
      in if committed > ev_accepted selected
         then Ok (WO_Insufficient (unwrap_or (slot_next (ev_accepted selected)) (ev_accepted selected)) committed effects)
         else rbind (check_suffix r j (ev_suffix selected) (ev_accepted selected) committed (p_checkpoint p)) (\<lambda>verdict.
           case verdict of
             SC_Gap expected got \<Rightarrow> Ok (WO_Insufficient expected got effects)
           | SC_Conflict \<Rightarrow> rbind (breach_plan r kind) (\<lambda>pl. Ok (WO_Installed pl))
           | SC_Install mutation \<Rightarrow>
               rbind (applied_walk j (ev_suffix selected) (p_applied p) committed) (\<lambda>applied.
               rbind (on_fold r kind (fold_committed r j (ev_suffix selected) (p_committed p) committed False) (\<lambda>fd.
                 rbind (install_candidate r target (ev_accepted selected) committed applied (fd_table fd)) (\<lambda>candidate.
                 rbind (apply_effects_merged j (ev_suffix selected) (p_committed p) committed) (\<lambda>applies.
                 rbind (ok_or (bounded_suffix r j (ev_accepted selected) (ev_suffix selected)) PR_Panic) (\<lambda>suffix.
                 rbind (make_era_proof r (b_era target)) (\<lambda>evidence_of_era.
                 Ok (with_bookkeeping
                       (candidate_plan r candidate mutation
                          (effects @ applies @ send_all (backups r) (b_era target)
                             (mk_message Tag_StartView target (ev_accepted selected)
                                (B_StartView suffix (ev_accepted selected) committed evidence_of_era)))
                          kind False)
                       (no_bookkeeping\<lparr>bk_proposals := installed_proposals j (ev_suffix selected) committed (ev_accepted selected),
                          bk_view_change := Clear, bk_planned := Clear, bk_activity := Some at\<rparr>)))))))) (\<lambda>pl.
               Ok (WO_Installed pl)))))"

text \<open>The own evidence once the fences form a quorum, sent to the target's primary by everyone else.\<close>

definition record_own_evidence ::
    "replica \<Rightarrow> log_view \<Rightarrow> configuration \<Rightarrow> view_change_volatile \<Rightarrow> effect list
     \<Rightarrow> plan_refusal + view_change_volatile \<times> effect list" where
  "record_own_evidence r j config vc effects =
     (if rp_own r \<in> fst ` set (vc_evidence vc) \<or> \<not> rp_strategy r Fence config (vc_fences vc) then Ok (vc, effects)
      else rbind (own_evidence r j) (\<lambda>own.
        let vc' = vc\<lparr>vc_evidence := map_or_insert (rp_own r) own (vc_evidence vc)\<rparr>
        in if primary_of r (vc_target vc) = Some (rp_own r) then Ok (vc', effects)
           else rbind (do_view_change_effect r own (vc_target vc)) (\<lambda>effect. Ok (vc', effects @ [effect]))))"

text \<open>A history is selected once, when the reporters form a quorum. The map holds the own evidence
  there, so \<open>select_history\<close> does not panic.\<close>

definition select_when_quorum :: "replica \<Rightarrow> configuration \<Rightarrow> view_change_volatile \<Rightarrow> view_change_volatile" where
  "select_when_quorum r config vc =
     (if vc_selected vc = None \<and> rp_strategy r ViewChange config (map fst (vc_evidence vc))
      then vc\<lparr>vc_selected := select_history (vc_evidence vc)\<rparr> else vc)"

definition continue_view_change ::
    "replica \<Rightarrow> log_view \<Rightarrow> progress \<Rightarrow> view_change_volatile \<Rightarrow> effect list \<Rightarrow> tick \<Rightarrow> input_kind
     \<Rightarrow> plan_refusal + planned_transition" where
  "continue_view_change r j candidate vc effects at kind =
     (let target = vc_target vc;
          waiting = (\<lambda>vc effects. with_bookkeeping (candidate_plan r candidate JM_None effects kind False)
             (no_bookkeeping\<lparr>bk_view_change := SetTo vc, bk_planned := Clear\<rparr>))
      in case et_record (p_config (rp_progress r)) (b_era target) of
        None \<Rightarrow> drop_plan r (D_UnevaluableEra (b_era target)) kind
      | Some record \<Rightarrow>
          rbind (record_own_evidence r j (er_config record) vc effects) (\<lambda>(vc, effects).
            if primary_of r target = Some (rp_own r) \<and> rp_own r \<in> fst ` set (vc_evidence vc) then
              (let vc = select_when_quorum r (er_config record) vc
               in case vc_selected vc of
                 None \<Rightarrow> Ok (waiting vc effects)
               | Some (reporter, selected) \<Rightarrow>
                   rbind (plan_win_view r j target selected (vc_evidence vc) effects at kind) (\<lambda>outcome.
                     case outcome of
                       WO_Installed pl \<Rightarrow> Ok pl
                     | WO_Insufficient expected got effects \<Rightarrow>
                         (let pl = with_diagnostic (waiting vc effects) (D_GapDetected expected got)
                          in Ok (if rp_transfer r = None then with_fetch pl (fetch target reporter expected) else pl))))
            else Ok (waiting vc effects)))"

definition enter_view_change ::
    "replica \<Rightarrow> log_view \<Rightarrow> ballot \<Rightarrow> node_id list \<Rightarrow> tick \<Rightarrow> input_kind \<Rightarrow> plan_refusal + planned_transition" where
  "enter_view_change r j target heard at kind =
     rbind (map_err PR_Progress (with_view_change (rp_progress r) target)) (\<lambda>candidate.
       continue_view_change r j candidate
         \<lparr>vc_target = target, vc_fences = set_insert (rp_own r) heard, vc_evidence = [], vc_selected = None\<rparr>
         (send_all (backups r) (b_era target) (mk_message Tag_StartViewChange target SLOT_NONE B_StartViewChange))
         at kind)"

definition plan_admin_force_view ::
    "replica \<Rightarrow> log_view \<Rightarrow> ballot \<Rightarrow> tick \<Rightarrow> plan_refusal + planned_transition" where
  "plan_admin_force_view r j target at =
     (let p = rp_progress r; current = p_current p; established = er_era (et_current (p_config p))
      in if b_view target \<le> b_view current then Err (PR_AdminTargetNotAhead current target)
         else if b_era target \<noteq> b_era current \<and> b_era target \<noteq> established
         then Err (PR_AdminEraNotCurrent (b_era current) (b_era target))
         else if next_in_era target = None then Err (PR_AdminViewExhausted target)
         else enter_view_change r j target [] at Admin)"

definition plan_start_view_change ::
    "replica \<Rightarrow> log_view \<Rightarrow> node_id \<Rightarrow> message \<Rightarrow> tick \<Rightarrow> input_kind \<Rightarrow> plan_refusal + planned_transition" where
  "plan_start_view_change r j from m at kind =
     (let p = rp_progress r; view = h_view (msg_header m)
      in case et_record (p_config p) (b_era view) of
        None \<Rightarrow> drop_plan r (D_UnevaluableEra (b_era view)) kind
      | Some record \<Rightarrow>
          if weight_of (er_config record) from = None then drop_plan r (D_UnknownSender from) kind
          else
            let target = (case rp_view_change r of Some vc \<Rightarrow> vc_target vc | None \<Rightarrow> p_current p)
            in if view < target \<or> view = target \<and> rp_view_change r = None
               then drop_plan r (D_StaleViewChange view target) kind
               else if view > target then enter_view_change r j view [from] at kind
               else (case rp_view_change r of
                       None \<Rightarrow> Err PR_Panic
                     | Some vc \<Rightarrow>
                         rbind (identity_candidate r) (\<lambda>candidate.
                           continue_view_change r j candidate
                             (vc\<lparr>vc_fences := set_insert from (vc_fences vc)\<rparr>) [] at kind)))"

definition plan_do_view_change ::
    "replica \<Rightarrow> log_view \<Rightarrow> node_id \<Rightarrow> message \<Rightarrow> ballot \<Rightarrow> slot \<Rightarrow> slot \<Rightarrow> log_entry list \<Rightarrow> evidence_kind \<Rightarrow> era_proof
     \<Rightarrow> tick \<Rightarrow> input_kind \<Rightarrow> plan_refusal + planned_transition" where
  "plan_do_view_change r j from m retained accepted committed suffix ek evidence at kind =
     (let p = rp_progress r; view = h_view (msg_header m)
      in if ek = Planned
         then plan_planned_evidence r j from m retained accepted committed suffix evidence at kind
         else case et_record (p_config p) (b_era view) of
           None \<Rightarrow> drop_plan r (D_UnevaluableEra (b_era view)) kind
         | Some record \<Rightarrow>
             if weight_of (er_config record) from = None then drop_plan r (D_UnknownSender from) kind
             else if h_slot (msg_header m) \<noteq> accepted \<or> committed > accepted
                     \<or> \<not> suffix_shape_ok suffix accepted \<or> \<not> era_proof_ok record evidence
             then drop_plan r D_MalformedViewChange kind
             else case rp_view_change r of
               None \<Rightarrow> drop_plan r (D_StaleEvidence view (p_current p)) kind
             | Some vc \<Rightarrow>
                 if view < vc_target vc then drop_plan r (D_StaleEvidence view (vc_target vc)) kind
                 else if view > vc_target vc \<or> primary_of r (vc_target vc) \<noteq> Some (rp_own r)
                 then drop_plan r (D_EvidenceNotCollected from view) kind
                 else
                   rbind (identity_candidate r) (\<lambda>candidate.
                     continue_view_change r j candidate
                       (vc\<lparr>vc_evidence := map_or_insert from
                          \<lparr>ev_retained = retained, ev_accepted = accepted, ev_committed = committed,
                           ev_suffix = suffix\<rparr> (vc_evidence vc)\<rparr>) [] at kind))"

fun establishing_op_names :: "sysop \<Rightarrow> node_id \<Rightarrow> bool" where
  "establishing_op_names (Join joined _) node = (joined = node)"
| "establishing_op_names (Increment named) node = (named = node)"
| "establishing_op_names (Batch ops) node = list_ex (\<lambda>op. establishing_op_names op node) ops"
| "establishing_op_names _ node = False"

text \<open>An announcement of an era not recorded here: kept to be read again once the era is known, when it
  is the next era, or when a fenced node is named by the operation that establishes it.\<close>

definition plan_unknown_era_offer ::
    "replica \<Rightarrow> node_id \<Rightarrow> message \<Rightarrow> era_proof \<Rightarrow> input_kind \<Rightarrow> plan_refusal + planned_transition" where
  "plan_unknown_era_offer r from m evidence kind =
     (let p = rp_progress r; current = p_current p; e = b_era (h_view (msg_header m));
          next = era_next (b_era current)
      in rbind (drop_plan r (D_UnevaluableEra e) kind) (\<lambda>pl.
         let retainable = (if Some e = next then True
               else (case next of Some successor \<Rightarrow> e > successor | None \<Rightarrow> False)
                    \<and> boot_fenced r \<and> establishing_op_names (epf_op evidence) (rp_own r))
         in if \<not> retainable then Ok pl
            else let pl = with_stalled_offer pl from m
                 in Ok (case slot_next (p_committed p) of
                          Some next_slot \<Rightarrow>
                            if rp_transfer r = None then with_fetch pl (fetch current from next_slot) else pl
                        | None \<Rightarrow> pl)))"

definition plan_start_view ::
    "replica \<Rightarrow> log_view \<Rightarrow> node_id \<Rightarrow> message \<Rightarrow> log_entry list \<Rightarrow> slot \<Rightarrow> slot \<Rightarrow> era_proof \<Rightarrow> tick \<Rightarrow> input_kind
     \<Rightarrow> plan_refusal + planned_transition" where
  "plan_start_view r j from m suffix accepted committed evidence at kind =
     (let p = rp_progress r; current = p_current p; view = h_view (msg_header m)
      in case et_record (p_config p) (b_era view) of
        None \<Rightarrow> plan_unknown_era_offer r from m evidence kind
      | Some record \<Rightarrow>
          if primary_of r view \<noteq> Some from then drop_plan r (D_StartViewNotFromPrimary from view) kind
          else if h_slot (msg_header m) \<noteq> accepted \<or> committed > accepted
                  \<or> \<not> suffix_shape_ok suffix accepted \<or> \<not> era_proof_ok record evidence
          then drop_plan r D_MalformedViewChange kind
          else if \<not> (view > current \<or> view = current \<and> p_status p = St_ViewChange)
          then drop_plan r (D_StartViewFromStaleView view current) kind
          else if committed < p_committed p \<or> accepted < p_committed p
          then drop_plan r (D_StaleEvidence view current) kind
          else rbind (check_suffix r j suffix accepted committed (p_checkpoint p)) (\<lambda>verdict.
            case verdict of
              SC_Gap expected got \<Rightarrow>
                rbind (drop_plan r (D_GapDetected expected got) kind) (\<lambda>pl.
                  Ok (with_stalled_offer (with_fetch pl (fetch view from expected)) from m))
            | SC_Conflict \<Rightarrow> breach_plan r kind
            | SC_Install mutation \<Rightarrow>
                rbind (applied_walk j suffix (p_applied p) committed) (\<lambda>applied.
                on_fold r kind (fold_committed r j suffix (p_committed p) committed False) (\<lambda>fd.
                rbind (install_candidate r view accepted committed applied (fd_table fd)) (\<lambda>candidate.
                rbind (apply_effects_merged j suffix (p_committed p) committed) (\<lambda>effects.
                Ok (with_bookkeeping (candidate_plan r candidate mutation effects kind False)
                      (no_bookkeeping\<lparr>bk_view_change := Clear, bk_stalled := Clear, bk_planned := Clear,
                                      bk_activity := Some at\<rparr>))))))))"

end
