(* ===== verification/State_Transfer.thy ===== *)
theory State_Transfer
  imports View_Change
begin

text \<open>
  State transfer (\<open>src/replica/transfer.rs\<close>): the entry into a higher view with a fetch from the node
  that showed it, the answer to a fetch and the installation of a transferred range. A node fenced at
  its boot point takes committed entries only, up to the frontier of a kept announcement, and walks
  one era at a time.
\<close>

definition plan_higher_view_signal ::
    "replica \<Rightarrow> log_view \<Rightarrow> node_id \<Rightarrow> ballot \<Rightarrow> tick \<Rightarrow> input_kind \<Rightarrow> plan_refusal + planned_transition" where
  "plan_higher_view_signal r j from view at kind =
     rbind (enter_view_change r j view [] at kind) (\<lambda>pl.
       Ok (case slot_next (p_accepted (rp_progress r)) of
             Some next \<Rightarrow> with_fetch pl (fetch view from next)
           | None \<Rightarrow> pl))"

text \<open>The entries from a slot up to a bound that fit the budget; \<open>None\<close> is the panic on a payload too
  long to frame.\<close>

fun take_forward :: "log_view \<Rightarrow> nat \<Rightarrow> slot list \<Rightarrow> nat \<Rightarrow> log_entry list option" where
  "take_forward j budget [] bytes = Some []"
| "take_forward j budget (s # rest) bytes =
     (case view_get j s of
        None \<Rightarrow> Some []
      | Some e \<Rightarrow>
          (case packed_len_entry e of
             None \<Rightarrow> None
           | Some len \<Rightarrow>
               if bytes + len > budget then Some []
               else map_option (\<lambda>es. e # es) (take_forward j budget rest (bytes + len))))"

definition forward_run :: "replica \<Rightarrow> log_view \<Rightarrow> slot \<Rightarrow> slot \<Rightarrow> plan_refusal + log_entry list" where
  "forward_run r j from bound =
     ok_or (take_forward j (kn_view_change_budget (rp_knobs r))
              (if from > bound then [] else from # slots_after from bound) 0) PR_Panic"

definition plan_get_state ::
    "replica \<Rightarrow> log_view \<Rightarrow> node_id \<Rightarrow> message \<Rightarrow> slot \<Rightarrow> input_kind \<Rightarrow> plan_refusal + planned_transition" where
  "plan_get_state r j from m fetch_from kind =
     (let p = rp_progress r; view = h_view (msg_header m); frontier = p_accepted p;
          served = (case et_record (p_config p) (b_era view) of
                      Some record \<Rightarrow> weight_of (er_config record) from \<noteq> None
                    | None \<Rightarrow> False)
                   \<or> weight_of (current_config r) from \<noteq> None
      in if \<not> served then drop_plan r (D_UnknownSender from) kind
         else if p_status p \<in> {St_Restarting, St_Joining, St_Replaying}
         then drop_plan r (D_TransferNotServed from view) kind
         else rbind (forward_run r j fetch_from frontier) (\<lambda>entries.
           if entries = [] then drop_plan r (D_TransferNotServed from view) kind
           else let through = le_slot (last entries)
                in identity_plan r
                     [Eff_Send from (b_era view) (mk_message Tag_NewState view through
                        (B_NewState entries through (p_committed p) (through < frontier)))] kind))"

text \<open>The part of a transfer that is journalled when the fold stopped short of it.\<close>

definition truncated_mutation ::
    "replica \<Rightarrow> log_view \<Rightarrow> log_entry list \<Rightarrow> slot \<Rightarrow> slot \<Rightarrow> plan_refusal + suffix_check" where
  "truncated_mutation r j entries new_committed committed =
     (let covered = filter (\<lambda>e. le_slot e \<le> new_committed) entries
      in if covered = [] then Ok (SC_Install JM_None)
         else check_suffix r j covered new_committed committed SLOT_NONE)"

definition transfer_take :: "replica \<Rightarrow> bool \<Rightarrow> slot \<Rightarrow> slot" where
  "transfer_take r boot_acquisition committed =
     (let boot_cap = (if boot_acquisition
                      then (case rp_stalled r of
                              Some offer \<Rightarrow> (case msg_body (ss_message offer) of
                                               B_StartView _ _ cap _ \<Rightarrow> Some cap
                                             | _ \<Rightarrow> None)
                            | None \<Rightarrow> None)
                      else None)
      in case boot_cap of Some cap \<Rightarrow> min committed cap | None \<Rightarrow> committed)"

text \<open>The candidate of a transfer: a fenced node whose fold stopped at an era boundary walks into the next
  view of the next era and stays fenced there.\<close>

definition transfer_candidate ::
    "replica \<Rightarrow> log_view \<Rightarrow> log_entry list \<Rightarrow> slot \<Rightarrow> slot \<Rightarrow> era_table \<Rightarrow> ballot option \<Rightarrow> ballot option
     \<Rightarrow> plan_refusal + progress" where
  "transfer_candidate r j overlay new_accepted new_committed config walked_view bump =
     (let p = rp_progress r
      in case walked_view of
        Some target \<Rightarrow>
          rbind (next_revision r) (\<lambda>revision.
          rbind (applied_walk j overlay (p_applied p) new_committed) (\<lambda>applied.
          map_err PR_Progress (reconstitute target target (p_status p) new_accepted new_committed applied
            (p_checkpoint p) revision config None)))
      | None \<Rightarrow>
          rbind (applied_walk j overlay (p_applied p) new_committed) (\<lambda>applied.
          candidate_with r (p_status p) new_accepted new_committed applied config bump))"

text \<open>What follows the fold: \<open>fd\<close> is the folded table and \<open>mutation\<close> the check of the whole range.\<close>

definition install_transfer ::
    "replica \<Rightarrow> log_view \<Rightarrow> node_id \<Rightarrow> ballot \<Rightarrow> log_entry list \<Rightarrow> slot \<Rightarrow> slot \<Rightarrow> bool \<Rightarrow> input_kind
     \<Rightarrow> journal_mutation \<Rightarrow> bool \<Rightarrow> folded \<Rightarrow> plan_refusal + planned_transition" where
  "install_transfer r j from view entries through committed follows kind mutation boot_acquisition fd =
     (let p = rp_progress r; current = p_current p; accepted = p_accepted p;
          new_committed = fd_covered fd; config = fd_table fd;
          bump = (if boot_acquisition then None else fd_bump fd);
          new_accepted = (if boot_acquisition then max accepted new_committed else max accepted through);
          truncated = (boot_acquisition \<and> new_committed < through);
          covered = filter (\<lambda>e. le_slot e \<le> new_committed) entries;
          overlay = (if truncated \<and> covered \<noteq> [] then covered else entries)
      in rbind (if truncated then truncated_mutation r j entries new_committed committed
                else Ok (SC_Install mutation)) (\<lambda>verdict.
         case verdict of
           SC_Gap expected got \<Rightarrow> drop_plan r (D_GapDetected expected got) kind
         | SC_Conflict \<Rightarrow> breach_plan r kind
         | SC_Install mutation \<Rightarrow>
             rbind (if new_committed > p_committed p
                    then apply_effects_merged j covered (p_committed p) new_committed else Ok []) (\<lambda>effects.
             let walked = (boot_acquisition \<and> fd_stopped fd \<and> er_era (et_current config) > b_era current)
             in rbind (if walked
                       then map_err PR_Progress (rbind (ok_or (next_in_next_era current) ViewSuccessor) (\<lambda>b. Ok (Some b)))
                       else Ok None) (\<lambda>walked_view.
                rbind (transfer_candidate r j overlay new_accepted new_committed config walked_view bump) (\<lambda>candidate.
                let fetch_view = (if boot_acquisition then unwrap_or walked_view current else view);
                    request = (if follows \<or> walked \<or> truncated \<and> new_accepted > accepted
                               then map_option (fetch fetch_view from) (slot_next new_accepted) else None)
                in Ok (with_bookkeeping
                         (candidate_plan r candidate mutation
                            (effects @ (case request of Some (effect, _) \<Rightarrow> [effect] | None \<Rightarrow> [])) kind False)
                         (no_bookkeeping\<lparr>bk_transfer :=
                            (case request of Some (_, cursor) \<Rightarrow> SetTo cursor | None \<Rightarrow> Clear)\<rparr>)))))))"

definition plan_new_state ::
    "replica \<Rightarrow> log_view \<Rightarrow> node_id \<Rightarrow> message \<Rightarrow> log_entry list \<Rightarrow> slot \<Rightarrow> slot \<Rightarrow> bool \<Rightarrow> input_kind
     \<Rightarrow> plan_refusal + planned_transition" where
  "plan_new_state r j from m entries through committed follows kind =
     (let p = rp_progress r; current = p_current p; view = h_view (msg_header m); accepted = p_accepted p
      in case et_record (p_config p) (b_era view) of
        None \<Rightarrow> drop_plan r (D_UnevaluableEra (b_era view)) kind
      | Some record \<Rightarrow>
          if weight_of (er_config record) from = None then drop_plan r (D_UnknownSender from) kind
          else if h_slot (msg_header m) \<noteq> through \<or> (\<not> follows \<and> committed > through)
                  \<or> \<not> suffix_shape_ok entries through \<or> (entries = [] \<and> follows)
          then drop_plan r D_MalformedTransfer kind
          else
            let qualified = (case rp_transfer r of
                   Some cursor \<Rightarrow> tv_view cursor = view \<and> tv_to cursor = from
                 | None \<Rightarrow> boot_fenced r \<and> view = current)
            in if \<not> qualified then drop_plan r (D_StaleTransfer from view) kind
               else if committed < p_committed p then drop_plan r (D_StaleEvidence view current) kind
               else if through \<le> accepted then
                 (if follows then drop_plan r (D_StaleTransfer from view) kind
                  else rbind (identity_plan r [] kind) (\<lambda>pl.
                         Ok (with_bookkeeping pl (no_bookkeeping\<lparr>bk_transfer := Clear\<rparr>))))
               else rbind (check_suffix r j entries through committed SLOT_NONE) (\<lambda>verdict.
                 case verdict of
                   SC_Gap expected got \<Rightarrow> drop_plan r (D_GapDetected expected got) kind
                 | SC_Conflict \<Rightarrow> breach_plan r kind
                 | SC_Install mutation \<Rightarrow>
                     (let new_accepted = max accepted through;
                          current_view_transfer = (view = current \<and> p_status p = St_Normal);
                          boot_acquisition = (view = current \<and> boot_fenced r);
                          take = transfer_take r boot_acquisition committed;
                          new_committed = (if current_view_transfer \<or> boot_acquisition
                                           then max (p_committed p) (min take new_accepted) else p_committed p)
                      in on_fold r kind (fold_committed r j entries (p_committed p) new_committed True)
                           (install_transfer r j from view entries through committed follows kind mutation
                              boot_acquisition))))"

end
