(* ===== verification/Plan_Execution.thy ===== *)
theory Plan_Execution
  imports State_Transfer
begin

text \<open>
  The leader's execution of a submitted plan (\<open>src/replica/plan_execution.rs\<close>): the verdict, the
  proposal of the next step when nothing stands in its way, the abort when a step no longer folds, and
  the advance of the machine over committed runs. A verdict carries the rejection itself where the
  source carries its printed form.
\<close>

definition admin_verdict :: "replica \<Rightarrow> plan_verdict \<Rightarrow> input_kind \<Rightarrow> plan_refusal + planned_transition" where
  "admin_verdict r verdict kind = identity_plan r [Eff_AdminResponse verdict] kind"

text \<open>Whether a step can be proposed now: no era change stands, no system operation is uncommitted, and
  the operation extends the table.\<close>

definition plan_step_plannable :: "replica \<Rightarrow> log_view \<Rightarrow> sysop \<Rightarrow> bool" where
  "plan_step_plannable r j op \<longleftrightarrow>
     (let p = rp_progress r
      in if er_era (et_current (p_config p)) \<noteq> b_era (p_current p) then False
         else if \<not> list_all (\<lambda>next. case view_get j next of Some e \<Rightarrow> \<not> is_system e | None \<Rightarrow> False)
                    (slots_after (p_committed p) (p_accepted p)) then False
         else case slot_next (p_accepted p) of
                None \<Rightarrow> False
              | Some s \<Rightarrow> (case et_extend (p_config p) op s of Inr _ \<Rightarrow> True | Inl _ \<Rightarrow> False))"

definition plan_submit_plan ::
    "replica \<Rightarrow> log_view \<Rightarrow> host_plan \<Rightarrow> input_kind \<Rightarrow> plan_refusal + planned_transition" where
  "plan_submit_plan r j hp kind =
     (if \<not> is_leader r then admin_verdict r RejectedNotLeader kind
      else case validate_against hp (current_config r) of
        Inl rejection \<Rightarrow> admin_verdict r (Rejected rejection) kind
      | Inr _ \<Rightarrow>
          (case pl_steps hp of
             [] \<Rightarrow> admin_verdict r Accepted kind
           | step # _ \<Rightarrow>
               let machine = \<lparr>pq_steps = pl_steps hp, pq_next = 0\<rparr>
               in if plan_step_plannable r j (Batch step) then
                    rbind (plan_step_proposal r j (Batch step)) (\<lambda>pl.
                      Ok (with_plan_execution (with_effect pl (Eff_AdminResponse Accepted)) (SetTo machine)))
                  else
                    rbind (admin_verdict r Accepted kind) (\<lambda>pl. Ok (with_plan_execution pl (SetTo machine)))))"

definition plan_execution_continuation ::
    "replica \<Rightarrow> log_view \<Rightarrow> (plan_refusal + planned_transition) option" where
  "plan_execution_continuation r j =
     (case rp_plan_execution r of
        None \<Rightarrow> None
      | Some machine \<Rightarrow>
          if \<not> is_leader r then None
          else case nth_opt (pq_steps machine) (pq_next machine) of
            None \<Rightarrow> Some (Err PR_Panic)
          | Some step \<Rightarrow>
              (case apply_sysop (current_config r) (Batch step) 0 of
                 Inl _ \<Rightarrow>
                   Some (rbind (drop_plan r (D_PlanAborted (pq_next machine)) Tick) (\<lambda>pl.
                     Ok (with_plan_execution pl Clear)))
               | Inr _ \<Rightarrow>
                   if plan_step_plannable r j (Batch step) then
                     Some (rbind (plan_step_proposal r j (Batch step)) (\<lambda>pl.
                       Ok (with_plan_execution pl (SetTo machine))))
                   else None))"

text \<open>The operations of a run of system entries up to a bound, whatever era they are stamped with.\<close>

function follow_systems :: "log_view \<Rightarrow> slot \<Rightarrow> sysop list \<Rightarrow> slot \<Rightarrow> sysop list \<times> slot" where
  "follow_systems j through ops cursor =
     (case slot_next cursor of
        None \<Rightarrow> (ops, cursor)
      | Some follow \<Rightarrow>
          if follow > through then (ops, cursor)
          else (case view_get j follow of
                  None \<Rightarrow> (ops, cursor)
                | Some e \<Rightarrow>
                    (case le_payload e of
                       P_System op \<Rightarrow> follow_systems j through (ops @ [op]) follow
                     | P_Operation _ _ \<Rightarrow> (ops, cursor))))"
  by auto
termination
  by (relation "measure (\<lambda>(j, through, ops, cursor). unat through - unat cursor)")
     (auto simp: slot_next_Some word_le_nat_alt not_less)

declare follow_systems.simps [simp del]

lemma follow_systems_ge: "follow_systems j through ops cursor = (ops', stop) \<Longrightarrow> unat cursor \<le> unat stop"
proof (induction j through ops cursor arbitrary: ops' stop rule: follow_systems.induct)
  case (1 j through ops cursor)
  show ?case
  proof (cases "follow_systems j through ops cursor = (ops, cursor)")
    case False
    then obtain follow e op where s: "slot_next cursor = Some follow" "\<not> follow > through"
      "view_get j follow = Some e" "le_payload e = P_System op"
      by (subst (asm) follow_systems.simps) (auto split: option.splits if_splits payload.splits)
    with 1(2) have "follow_systems j through (ops @ [op]) follow = (ops', stop)"
      by (subst (asm) follow_systems.simps) simp
    with 1(1) s have "unat follow \<le> unat stop" by blast
    with s(1) show ?thesis by (simp add: slot_next_Some)
  qed (use 1(2) in simp)
qed

definition step_of_run :: "sysop \<Rightarrow> sysop list \<Rightarrow> sysop list option" where
  "step_of_run op ops = (if length ops \<ge> 2 then Some ops else case op of Batch sub \<Rightarrow> Some sub | _ \<Rightarrow> None)"

function execution_walk :: "log_view \<Rightarrow> sysop list list \<Rightarrow> slot \<Rightarrow> nat \<Rightarrow> slot \<Rightarrow> nat" where
  "execution_walk j steps through step slot =
     (case slot_next slot of
        None \<Rightarrow> step
      | Some cursor \<Rightarrow>
          if cursor > through then step
          else (case view_get j cursor of
                  None \<Rightarrow> step
                | Some e \<Rightarrow>
                    (case le_payload e of
                       P_Operation _ _ \<Rightarrow> execution_walk j steps through step cursor
                     | P_System op \<Rightarrow>
                         (case follow_systems j through [op] cursor of (ops, stop) \<Rightarrow>
                            execution_walk j steps through
                              (if step < length steps \<and> step_of_run op ops = Some (steps ! step)
                               then Suc step else step) stop))))"
  by auto
termination
  by (relation "measure (\<lambda>(j, steps, through, step, slot). unat through - unat slot)")
     (auto simp: slot_next_Some word_le_nat_alt not_less dest!: sym [of "(_, _)" "follow_systems _ _ _ _"]
        follow_systems_ge)

declare execution_walk.simps [simp del]

definition plan_execution_commit :: "replica \<Rightarrow> log_view \<Rightarrow> slot \<Rightarrow> slot \<Rightarrow> planned_sequence update" where
  "plan_execution_commit r j from through =
     (case rp_plan_execution r of
        None \<Rightarrow> Unchanged
      | Some machine \<Rightarrow>
          let step = execution_walk j (pq_steps machine) through (pq_next machine) from
          in if step = pq_next machine then Unchanged
             else if step \<ge> length (pq_steps machine) then Clear
             else SetTo \<lparr>pq_steps = pq_steps machine, pq_next = step\<rparr>)"

end
