(* ===== verification/Normal.thy ===== *)
theory Normal
  imports Plan_Execution
begin

text \<open>
  Normal operation (\<open>src/replica/normal.rs\<close>): proposals, prepares and their acknowledgements, the
  commit cascade over segments, the commit frontier a primary announces; and \<open>plan_fuse\<close> of
  \<open>src/replica/reconfiguration.rs\<close>, the acceptance of a packed slab. A segment is a slot with
  the system entries of its era stamp that follow it; it commits as a whole.
\<close>

section \<open>Proposals and prepares\<close>

definition prepare_ok :: "ballot \<Rightarrow> node_id \<Rightarrow> slot \<Rightarrow> effect" where
  "prepare_ok view target s = Eff_Send target (b_era view) (mk_message Tag_PrepareOk view s B_PrepareOk)"

definition plan_propose :: "replica \<Rightarrow> operation \<Rightarrow> plan_refusal + planned_transition" where
  "plan_propose r op =
     (let p = rp_progress r; current = p_current p
      in rbind (primary_gate r) (\<lambda>(record, s).
         let e = er_era (et_current (p_config p));
             entry = \<lparr>le_slot = s, le_era = e, le_payload = P_Operation (op_id op) (op_payload op)\<rparr>
         in rbind (candidate_with r (p_status p) s (p_committed p) (p_applied p) (p_config p) None) (\<lambda>candidate.
            Ok (with_bookkeeping
                  (candidate_plan r candidate (JM_Accept [entry])
                     (send_all (recipients r) e
                        (mk_message Tag_Prepare current s (B_Prepare entry (p_committed p))))
                     ClientRequest False)
                  (no_bookkeeping\<lparr>bk_proposals := [(s, [])]\<rparr>)))))"

text \<open>The status a member takes when it accepts from its fenced boot point.\<close>

definition adopted_status :: "replica \<Rightarrow> ballot \<Rightarrow> status" where
  "adopted_status r view =
     (if p_status (rp_progress r) \<in> {St_Restarting, St_Joining} \<and> member_of_view r view then St_Normal
      else p_status (rp_progress r))"

text \<open>The system entries the log holds between the committed frontier and the offered slot, folded one
  by one, with the run of those that share the offered entry's stamp. The inner sum is a drop.\<close>

fun chain_walk ::
    "log_view \<Rightarrow> era \<Rightarrow> slot list \<Rightarrow> era_table \<Rightarrow> sysop list \<Rightarrow> slot \<Rightarrow> era_table
     \<Rightarrow> plan_refusal + (diagnostic + era_table \<times> sysop list \<times> slot \<times> era_table)" where
  "chain_walk j e [] chain run run_first chain_at_run = Ok (Ok (chain, run, run_first, chain_at_run))"
| "chain_walk j e (next # rest) chain run run_first chain_at_run =
     rbind (entry_or j [] next) (\<lambda>held.
       case le_payload held of
         P_Operation _ _ \<Rightarrow> chain_walk j e rest chain run run_first chain_at_run
       | P_System predecessor \<Rightarrow>
           (let same = (le_era held = e); starts = (same \<and> run = []);
                run_first = (if starts then next else run_first);
                chain_at_run = (if starts then chain else chain_at_run);
                run = (if same then run @ [predecessor] else run)
            in case et_extend chain predecessor next of
                 Inr chain' \<Rightarrow> chain_walk j e rest chain' run run_first chain_at_run
               | Inl err \<Rightarrow> Ok (Err (D_InvalidSystemOperation next err))))"

definition slots_between :: "slot \<Rightarrow> slot \<Rightarrow> slot list" where
  "slots_between from bound = (case slot_prev bound of Some b \<Rightarrow> slots_after from b | None \<Rightarrow> [])"

text \<open>Whether an offered system operation folds on top of what precedes it; a diagnostic drops it.\<close>

definition judge_system ::
    "log_view \<Rightarrow> log_entry \<Rightarrow> sysop \<Rightarrow> era_table \<Rightarrow> slot \<Rightarrow> plan_refusal + diagnostic option" where
  "judge_system j entry op config covered =
     rbind (chain_walk j (le_era entry) (slots_between covered (le_slot entry)) config [] (le_slot entry) config)
       (\<lambda>walk. case walk of
          Inl d \<Rightarrow> Ok (Some d)
        | Inr (chain, run, run_first, chain_at_run) \<Rightarrow>
            (let alone = et_extend chain op (le_slot entry);
                 judged = (if run = [] then alone
                           else case et_extend chain_at_run (Batch (run @ [op])) run_first of
                                  Inr t \<Rightarrow> Ok t
                                | Inl _ \<Rightarrow> alone)
             in case judged of
                  Inl err \<Rightarrow> Ok (Some (D_InvalidSystemOperation (le_slot entry) err))
                | Inr _ \<Rightarrow> Ok None))"

definition judge_entry ::
    "log_view \<Rightarrow> log_entry \<Rightarrow> ballot \<Rightarrow> era_table \<Rightarrow> slot \<Rightarrow> plan_refusal + diagnostic option" where
  "judge_entry j entry view config covered =
     (if \<not> covered < le_slot entry then Ok None
      else rbind (case le_payload entry of
                    P_System op \<Rightarrow> judge_system j entry op config covered
                  | P_Operation _ _ \<Rightarrow> Ok None) (\<lambda>verdict.
        case verdict of
          Some d \<Rightarrow> Ok (Some d)
        | None \<Rightarrow> if er_era (et_current config) < le_era entry then Ok (Some (D_EraDiscipline (le_era entry) view))
                  else Ok None))"

text \<open>The gates before an entry: the view is known, led by the sender, and the replica's own.\<close>

definition primary_message_gate ::
    "replica \<Rightarrow> log_view \<Rightarrow> node_id \<Rightarrow> ballot \<Rightarrow> tick \<Rightarrow> input_kind \<Rightarrow> plan_refusal + planned_transition
     \<Rightarrow> plan_refusal + planned_transition" where
  "primary_message_gate r j from view at kind rest =
     (let p = rp_progress r; current = p_current p
      in if et_record (p_config p) (b_era view) = None then drop_plan r (D_UnevaluableEra (b_era view)) kind
         else if primary_of r view \<noteq> Some from then drop_plan r (D_SenderNotPrimary from view) kind
         else if view > current \<and> \<not> boot_fenced r then plan_higher_view_signal r j from view at kind
         else if view \<noteq> current then drop_plan r (D_ViewMismatch view current) kind
         else if p_status p \<noteq> St_Normal \<and> \<not> boot_fenced r
         then drop_plan r (D_StatusGate view current (p_status p)) kind
         else rest)"

text \<open>An entry at or below the accepted frontier: acknowledged again when it is the held one.\<close>

definition plan_prepare_again ::
    "replica \<Rightarrow> log_view \<Rightarrow> node_id \<Rightarrow> log_entry \<Rightarrow> slot \<Rightarrow> status \<Rightarrow> input_kind \<Rightarrow> plan_refusal + planned_transition" where
  "plan_prepare_again r j from entry piggybacked st kind =
     (let p = rp_progress r; current = p_current p; accepted = p_accepted p
      in rbind (entry_or j [] (le_slot entry)) (\<lambda>held.
         if held \<noteq> entry then drop_plan r (D_ConflictingEntry (le_slot entry)) kind
         else on_fold r kind
                (fold_committed r j [] (p_committed p) (max (p_committed p) (min piggybacked accepted)) True) (\<lambda>fd.
           rbind (applied_walk j [] (p_applied p) (fd_covered fd)) (\<lambda>applied.
           rbind (candidate_with r st accepted (fd_covered fd) applied (fd_table fd) (fd_bump fd)) (\<lambda>candidate.
           rbind (apply_effects j (p_committed p) (fd_covered fd)) (\<lambda>applies.
           Ok (candidate_plan r candidate JM_None (prepare_ok current from (le_slot entry) # applies) kind False)))))))"

text \<open>The entry of the next slot: judged, accepted and acknowledged.\<close>

definition plan_prepare_next ::
    "replica \<Rightarrow> log_view \<Rightarrow> node_id \<Rightarrow> ballot \<Rightarrow> log_entry \<Rightarrow> slot \<Rightarrow> status \<Rightarrow> input_kind \<Rightarrow> plan_refusal + planned_transition" where
  "plan_prepare_next r j from view entry piggybacked st kind =
     (let p = rp_progress r; current = p_current p;
          outcome = fold_committed r j [entry] (p_committed p) (max (p_committed p) (min piggybacked (le_slot entry))) True;
          own_breach = (case outcome of
                          Inl (CF_Breach s err) \<Rightarrow> if s = le_slot entry then Some err else None
                        | _ \<Rightarrow> None)
      in case own_breach of
        Some err \<Rightarrow> drop_plan r (D_InvalidSystemOperation (le_slot entry) err) kind
      | None \<Rightarrow> on_fold r kind outcome (\<lambda>fd.
          rbind (judge_entry j entry view (fd_table fd) (fd_covered fd)) (\<lambda>verdict.
            case verdict of
              Some d \<Rightarrow> drop_plan r d kind
            | None \<Rightarrow>
                rbind (applied_walk j [entry] (p_applied p) (fd_covered fd)) (\<lambda>applied.
                rbind (candidate_with r st (le_slot entry) (fd_covered fd) applied (fd_table fd) (fd_bump fd)) (\<lambda>candidate.
                rbind (apply_effects j (p_committed p) (fd_covered fd)) (\<lambda>applies.
                Ok (candidate_plan r candidate (JM_Accept [entry])
                      (prepare_ok current from (le_slot entry) # applies) kind False)))))))"

definition plan_prepare ::
    "replica \<Rightarrow> log_view \<Rightarrow> node_id \<Rightarrow> message \<Rightarrow> log_entry \<Rightarrow> slot \<Rightarrow> tick \<Rightarrow> input_kind
     \<Rightarrow> plan_refusal + planned_transition" where
  "plan_prepare r j from m entry piggybacked at kind =
     (let p = rp_progress r; view = h_view (msg_header m); st = adopted_status r view
      in primary_message_gate r j from view at kind
        (if \<not> (le_era entry = b_era view \<or> era_next (b_era view) = Some (le_era entry))
         then drop_plan r (D_EraDiscipline (le_era entry) view) kind
         else if h_slot (msg_header m) \<noteq> le_slot entry
         then drop_plan r (D_PrepareSlotMismatch (h_slot (msg_header m)) (le_slot entry)) kind
         else if le_slot entry \<le> p_accepted p then plan_prepare_again r j from entry piggybacked st kind
         else case slot_next (p_accepted p) of
           None \<Rightarrow> Err PR_SlotSpaceExhausted
         | Some next \<Rightarrow>
             if le_slot entry \<noteq> next then
               rbind (drop_plan r (D_GapDetected next (le_slot entry)) kind) (\<lambda>pl.
                 Ok (with_fetch pl (fetch (p_current p) from next)))
             else plan_prepare_next r j from view entry piggybacked st kind))"


section \<open>The commit cascade\<close>

text \<open>The last slot of the segment that starts at a slot.\<close>

function segment_stop :: "log_view \<Rightarrow> era \<Rightarrow> slot \<Rightarrow> slot \<Rightarrow> slot" where
  "segment_stop j e accepted cursor =
     (case slot_next cursor of
        None \<Rightarrow> cursor
      | Some follow \<Rightarrow>
          if follow > accepted then cursor
          else (case view_get j follow of
                  Some entry \<Rightarrow>
                    if is_system entry \<and> le_era entry = e then segment_stop j e accepted follow else cursor
                | None \<Rightarrow> cursor))"
  by auto
termination
  by (relation "measure (\<lambda>(j, e, accepted, cursor). unat accepted - unat cursor)")
     (auto simp: slot_next_Some word_le_nat_alt not_less)

declare segment_stop.simps [simp del]

lemma segment_stop_bounds:
  "unat cursor \<le> unat (segment_stop j e accepted cursor)
   \<and> (cursor \<le> accepted \<longrightarrow> segment_stop j e accepted cursor \<le> accepted)"
proof (induction j e accepted cursor rule: segment_stop.induct)
  case (1 j e accepted cursor)
  show ?case
  proof (cases "segment_stop j e accepted cursor = cursor")
    case False
    then obtain follow entry where s: "slot_next cursor = Some follow" "\<not> follow > accepted"
      "view_get j follow = Some entry" "is_system entry \<and> le_era entry = e"
      by (subst (asm) segment_stop.simps) (auto split: option.splits if_splits)
    then have eq: "segment_stop j e accepted cursor = segment_stop j e accepted follow"
      by (subst segment_stop.simps) simp
    from s(1) have "unat cursor \<le> unat follow" by (simp add: slot_next_Some)
    with 1 [OF s] s(2) eq show ?thesis by auto
  qed simp
qed

definition commit_segment :: "log_view \<Rightarrow> slot \<Rightarrow> slot \<Rightarrow> slot \<times> slot" where
  "commit_segment j next accepted =
     (case view_get j next of
        None \<Rightarrow> (next, next)
      | Some head \<Rightarrow> (next, segment_stop j (le_era head) accepted next))"

lemma commit_segment_bounds:
  "fst (commit_segment j next accepted) = next"
  "unat next \<le> unat (snd (commit_segment j next accepted))"
  "next \<le> accepted \<Longrightarrow> snd (commit_segment j next accepted) \<le> accepted"
  using segment_stop_bounds by (auto simp: commit_segment_def split: option.splits)

text \<open>The nodes that voted for a slot: the replica, the recorded votes and the vote in hand.\<close>

definition voters_of :: "replica \<Rightarrow> (node_id \<times> slot) option \<Rightarrow> slot \<Rightarrow> node_id list" where
  "voters_of r vote cursor =
     (let members = rp_own r # (case rp_proposals r cursor of Some oks \<Rightarrow> oks | None \<Rightarrow> [])
      in case vote of
           Some (from, s) \<Rightarrow> if cursor \<le> s \<and> from \<notin> set members then members @ [from] else members
         | None \<Rightarrow> members)"

definition segment_holds :: "replica \<Rightarrow> (node_id \<times> slot) option \<Rightarrow> slot \<times> slot \<Rightarrow> bool" where
  "segment_holds r vote segment \<longleftrightarrow>
     list_all (\<lambda>cursor. rp_strategy r Commit (current_config r) (voters_of r vote cursor))
       (fst segment # slots_after (fst segment) (snd segment))"

function cascade :: "replica \<Rightarrow> log_view \<Rightarrow> (node_id \<times> slot) option \<Rightarrow> slot \<Rightarrow> slot" where
  "cascade r j vote committed =
     (case slot_next committed of
        None \<Rightarrow> committed
      | Some next \<Rightarrow>
          if next > p_accepted (rp_progress r) then committed
          else (let segment = commit_segment j next (p_accepted (rp_progress r))
                in if segment_holds r vote segment then cascade r j vote (snd segment) else committed))"
  by auto
termination
  by (relation "measure (\<lambda>(r, j, vote, committed). unat (p_accepted (rp_progress r)) - unat committed)")
     (auto simp: slot_next_Some word_le_nat_alt not_less
       intro!: diff_less_mono2 less_le_trans [OF _ commit_segment_bounds(2)])

declare cascade.simps [simp del]

definition commit_cascade_frontier :: "replica \<Rightarrow> log_view \<Rightarrow> (node_id \<times> slot) option \<Rightarrow> slot" where
  "commit_cascade_frontier r j vote = cascade r j vote (p_committed (rp_progress r))"

definition standing_commit_frontier :: "replica \<Rightarrow> log_view \<Rightarrow> slot" where
  "standing_commit_frontier r j = commit_cascade_frontier r j None"

text \<open>The announcement of every committed segment longer than one slot.\<close>

function batch_effects :: "replica \<Rightarrow> log_view \<Rightarrow> slot \<Rightarrow> slot \<Rightarrow> effect list" where
  "batch_effects r j through slot =
     (case slot_next slot of
        None \<Rightarrow> []
      | Some next \<Rightarrow>
          if next > through then []
          else (case view_get j next of
            None \<Rightarrow> []
          | Some e \<Rightarrow>
              if \<not> is_system e then batch_effects r j through next
              else (let segment = commit_segment j next through; current = p_current (rp_progress r)
                    in (if snd segment > fst segment
                        then send_all (recipients r) (b_era current)
                               (mk_message Tag_CommitBatch current (snd segment)
                                  (B_CommitBatch (fst segment # slots_after (fst segment) (snd segment))))
                        else [])
                       @ batch_effects r j through (snd segment))))"
  by auto
termination
  by (relation "measure (\<lambda>(r, j, through, slot). unat through - unat slot)")
     (auto simp: slot_next_Some word_le_nat_alt not_less
       intro!: diff_less_mono2 less_le_trans [OF _ commit_segment_bounds(2)])

declare batch_effects.simps [simp del]

definition commit_batch_effects :: "replica \<Rightarrow> log_view \<Rightarrow> slot \<Rightarrow> slot \<Rightarrow> effect list" where
  "commit_batch_effects r j from through = batch_effects r j through from"

definition finish_commit_quorum ::
    "replica \<Rightarrow> log_view \<Rightarrow> slot \<Rightarrow> (slot \<times> node_id) list \<Rightarrow> input_kind \<Rightarrow> plan_refusal + planned_transition" where
  "finish_commit_quorum r j committed oks kind =
     (let p = rp_progress r
      in if committed = p_committed p then
           rbind (identity_plan r [] kind) (\<lambda>pl. Ok (with_bookkeeping pl (no_bookkeeping\<lparr>bk_oks := oks\<rparr>)))
         else on_fold r kind (fold_committed r j [] (p_committed p) committed True) (\<lambda>fd.
           let committed = fd_covered fd
           in rbind (overlap_solicitation r (fd_table fd) committed) (\<lambda>(config, solicitation, planned).
              rbind (applied_walk j [] (p_applied p) committed) (\<lambda>applied.
              rbind (candidate_with r St_Normal (p_accepted p) committed applied config (fd_bump fd)) (\<lambda>candidate.
              rbind (apply_effects j (p_committed p) committed) (\<lambda>applies.
              Ok (with_bookkeeping
                    (candidate_plan r candidate JM_None
                       (applies @ broadcast_commit r committed
                        @ commit_batch_effects r j (p_committed p) committed @ solicitation) kind False)
                    (no_bookkeeping\<lparr>bk_oks := oks, bk_planned := planned,
                       bk_plan_execution := plan_execution_commit r j (p_committed p) committed\<rparr>))))))))"

text \<open>The outstanding slots a vote covers: every one above the committed frontier up to the voted slot.\<close>

definition vote_oks :: "replica \<Rightarrow> node_id \<Rightarrow> slot \<Rightarrow> (slot \<times> node_id) list" where
  "vote_oks r from s =
     map (\<lambda>covered. (covered, from))
       (filter (\<lambda>covered. rp_proposals r covered \<noteq> None) (slots_after (p_committed (rp_progress r)) s))"

definition outstanding :: "replica \<Rightarrow> slot \<Rightarrow> proposal option" where
  "outstanding r s = (if s \<le> p_committed (rp_progress r) then None else rp_proposals r s)"

definition plan_prepare_ok ::
    "replica \<Rightarrow> log_view \<Rightarrow> node_id \<Rightarrow> message \<Rightarrow> input_kind \<Rightarrow> plan_refusal + planned_transition" where
  "plan_prepare_ok r j from m kind =
     (let s = h_slot (msg_header m); view = h_view (msg_header m); current = p_current (rp_progress r)
      in if \<not> is_leader r then drop_plan r (D_PrepareOkNotPrimary from s) kind
         else if view \<noteq> current then drop_plan r (D_ViewMismatch view current) kind
         else case weight_of (current_config r) from of
           None \<Rightarrow> drop_plan r (D_UnknownSender from) kind
         | Some w \<Rightarrow>
             if w = 0 then
               rbind (finish_commit_quorum r j (standing_commit_frontier r j) [] kind) (\<lambda>pl.
                 Ok (with_diagnostic pl (D_LearnerSender from)))
             else case outstanding r s of
               None \<Rightarrow> drop_plan r (D_SlotNotOutstanding s from) kind
             | Some oks \<Rightarrow>
                 if from \<in> set oks then drop_plan r (D_DuplicatePrepareOk s from) kind
                 else finish_commit_quorum r j (commit_cascade_frontier r j (Some (from, s))) (vote_oks r from s) kind)"

definition plan_fuse_ok ::
    "replica \<Rightarrow> log_view \<Rightarrow> node_id \<Rightarrow> message \<Rightarrow> input_kind \<Rightarrow> plan_refusal + planned_transition" where
  "plan_fuse_ok r j from m kind =
     (let s = h_slot (msg_header m)
      in if \<not> is_leader r then drop_plan r D_FuseRefusal kind
         else if h_view (msg_header m) \<noteq> p_current (rp_progress r) then drop_plan r D_FuseRefusal kind
         else case weight_of (current_config r) from of
           None \<Rightarrow> drop_plan r D_FuseRefusal kind
         | Some w \<Rightarrow>
             if w = 0 then
               rbind (finish_commit_quorum r j (standing_commit_frontier r j) [] kind) (\<lambda>pl.
                 Ok (with_diagnostic pl D_FuseRefusal))
             else case outstanding r s of
               None \<Rightarrow> drop_plan r D_FuseRefusal kind
             | Some oks \<Rightarrow>
                 if from \<in> set oks then drop_plan r D_FuseRefusal kind
                 else finish_commit_quorum r j (commit_cascade_frontier r j (Some (from, s))) (vote_oks r from s) kind)"

definition plan_commit ::
    "replica \<Rightarrow> log_view \<Rightarrow> node_id \<Rightarrow> message \<Rightarrow> slot \<Rightarrow> tick \<Rightarrow> input_kind \<Rightarrow> plan_refusal + planned_transition" where
  "plan_commit r j from m frontier at kind =
     (let p = rp_progress r; view = h_view (msg_header m); st = adopted_status r view;
          new_committed = max (p_committed p) (min frontier (p_accepted p))
      in primary_message_gate r j from view at kind
        (if new_committed = p_committed p \<and> st = p_status p then identity_plan r [] kind
         else on_fold r kind (fold_committed r j [] (p_committed p) new_committed True) (\<lambda>fd.
           rbind (applied_walk j [] (p_applied p) (fd_covered fd)) (\<lambda>applied.
           rbind (candidate_with r st (p_accepted p) (fd_covered fd) applied (fd_table fd) (fd_bump fd)) (\<lambda>candidate.
           rbind (apply_effects j (p_committed p) (fd_covered fd)) (\<lambda>effects.
           Ok (candidate_plan r candidate JM_None effects kind False)))))))"


section \<open>The packed slab\<close>

definition plan_fuse ::
    "replica \<Rightarrow> log_view \<Rightarrow> node_id \<Rightarrow> message \<Rightarrow> sysop list \<Rightarrow> tick \<Rightarrow> input_kind \<Rightarrow> plan_refusal + planned_transition" where
  "plan_fuse r j from m ops at kind =
     (let p = rp_progress r; current = p_current p; view = h_view (msg_header m);
          eligible = (view = current \<and> (p_status p = St_Normal \<or> boot_fenced r))
      in if et_record (p_config p) (b_era view) = None then drop_plan r D_FuseRefusal kind
         else if primary_of r view \<noteq> Some from then drop_plan r D_FuseRefusal kind
         else if primary_of r view = Some (rp_own r) then drop_plan r D_FuseRefusal kind
         else if view > current \<and> \<not> boot_fenced r then plan_higher_view_signal r j from view at kind
         else if \<not> eligible then drop_plan r D_FuseRefusal kind
         else case slot_next (p_accepted p) of
           None \<Rightarrow> Err PR_SlotSpaceExhausted
         | Some first_slot \<Rightarrow>
             if h_slot (msg_header m) \<noteq> first_slot then drop_plan r D_FuseRefusal kind
             else rbind (slab_stamps (current_config r) ops) (\<lambda>stamps.
               case stamps of
                 Inl _ \<Rightarrow> drop_plan r D_FuseRefusal kind
               | Inr eras \<Rightarrow>
                   rbind (number_entries (Some first_slot) (zip ops eras)) (\<lambda>entries.
                   if entries = [] then Err PR_Panic
                   else let stop = le_slot (last entries)
                        in rbind (candidate_with r (adopted_status r view) stop (p_committed p) (p_applied p)
                                    (p_config p) None) (\<lambda>candidate.
                           Ok (candidate_plan r candidate (JM_Accept entries)
                                 [Eff_Send from (b_era view)
                                    (mk_message Tag_FuseOk current stop (B_FuseOk (map le_slot entries)))]
                                 kind False)))))"

end
