(* ===== verification/Reincarnation.thy ===== *)
theory Reincarnation
  imports Normal
begin

text \<open>
  Reincarnation (\<open>src/replica/reincarnation.rs\<close>): the announcement of a new life, the leader's forced
  sequence that seats it, one step at a time, the push of the committed range it missed, and gossip.
  The sequence itself, \<open>forced_steps\<close>, is in theory \<open>Planner\<close>.
\<close>

definition missed_range_push :: "replica \<Rightarrow> log_view \<Rightarrow> ballot \<Rightarrow> node_id \<Rightarrow> slot \<Rightarrow> plan_refusal + effect option" where
  "missed_range_push r j view target prepared =
     (let committed = p_committed (rp_progress r)
      in case slot_next prepared of
        None \<Rightarrow> Ok None
      | Some from \<Rightarrow>
          if from > committed then Ok None
          else rbind (forward_run r j from committed) (\<lambda>entries.
            if entries = [] then Ok None
            else let through = le_slot (last entries)
                 in Ok (Some (Eff_Send target (b_era view) (mk_message Tag_NewState view through
                      (B_NewState entries through committed (through < committed)))))))"

definition forced_step_plannable :: "replica \<Rightarrow> log_view \<Rightarrow> sysop \<Rightarrow> bool" where
  "forced_step_plannable r j op \<longleftrightarrow>
     (let p = rp_progress r
      in if er_era (et_current (p_config p)) \<noteq> b_era (p_current p) then False
         else if \<not> list_all (\<lambda>next. case view_get j next of Some e \<Rightarrow> \<not> is_system e | None \<Rightarrow> False)
                    (slots_after (p_committed p) (p_accepted p)) then False
         else case slot_next (p_accepted p) of
                None \<Rightarrow> False
              | Some s \<Rightarrow> (case et_extend (p_config p) op s of Inr _ \<Rightarrow> True | Inl _ \<Rightarrow> False))"

text \<open>The first prepare a plan sends, which the new life is sent as well.\<close>

definition prepare_of :: "effect \<Rightarrow> message option" where
  "prepare_of eff =
     (case eff of
        Eff_Send _ _ m \<Rightarrow> if h_tag (msg_header m) = Tag_Prepare then Some m else None
      | _ \<Rightarrow> None)"

definition with_effect_option :: "planned_transition \<Rightarrow> effect option \<Rightarrow> planned_transition" where
  "with_effect_option pl ack = (case ack of Some eff \<Rightarrow> with_effect pl eff | None \<Rightarrow> pl)"

definition plan_reincarnation ::
    "replica \<Rightarrow> log_view \<Rightarrow> node_id \<Rightarrow> message \<Rightarrow> input_kind \<Rightarrow> plan_refusal + planned_transition" where
  "plan_reincarnation r j from m kind =
     (let current = p_current (rp_progress r); refused = drop_plan r (D_ReincarnationRefused from current) kind;
          announced_view = h_view (msg_header m)
      in case msg_body m of
        B_Reincarnation old new _ prepared \<Rightarrow>
          if \<not> is_leader r \<or> from \<noteq> new \<or> old = new then refused
          else
            rbind (ok_or (current_record r) (PR_Progress EraSlotDiscipline)) (\<lambda>record.
            rbind (missed_range_push r j announced_view new prepared) (\<lambda>ack.
            let machine = \<lparr>fs_old = old, fs_new = new\<rparr>
            in case forced_steps (er_config record) old new of
                 [] \<Rightarrow>
                   rbind (drop_plan r D_None kind) (\<lambda>pl.
                     Ok (with_effect_option (with_reincarnation pl Clear) ack))
               | first # _ \<Rightarrow>
                   if forced_step_plannable r j first then
                     rbind (plan_reconfigure r j first None) (\<lambda>pl.
                       let effects = (case ack of Some eff \<Rightarrow> [eff] | None \<Rightarrow> []) @ pt_effects pl;
                           effects = effects @ (case first_some prepare_of effects of
                             Some establishing \<Rightarrow> [Eff_Send new (b_era announced_view) establishing]
                           | None \<Rightarrow> [])
                       in Ok (with_reincarnation (pl\<lparr>pt_effects := effects\<rparr>) (SetTo machine)))
                   else
                     rbind (drop_plan r D_None kind) (\<lambda>pl.
                       Ok (with_effect_option (with_reincarnation pl (SetTo machine)) ack))))
      | _ \<Rightarrow> refused)"

definition plan_gossip_request ::
    "replica \<Rightarrow> log_view \<Rightarrow> node_id \<Rightarrow> message \<Rightarrow> input_kind \<Rightarrow> plan_refusal + planned_transition" where
  "plan_gossip_request r j from m kind =
     (let p = rp_progress r; current = p_current p; committed = p_committed p
      in case msg_body m of
        B_GossipRequest prepared _ \<Rightarrow>
          if \<not> is_leader r then drop_plan r D_None kind
          else
            rbind (drop_plan r D_None kind) (\<lambda>pl.
            rbind (missed_range_push r j (h_view (msg_header m)) from prepared) (\<lambda>push.
            Ok (with_effect (with_effect_option pl push)
                  (Eff_Send from (b_era current) (mk_message Tag_Commit current committed (B_Commit committed))))))
      | _ \<Rightarrow> drop_plan r D_None kind)"

definition next_forced_step :: "replica \<Rightarrow> sysop option" where
  "next_forced_step r =
     (case (rp_reincarnation r, current_record r) of
        (Some machine, Some record) \<Rightarrow>
          (case forced_steps (er_config record) (fs_old machine) (fs_new machine) of
             first # _ \<Rightarrow> Some first
           | [] \<Rightarrow> None)
      | (_, _) \<Rightarrow> None)"

definition plan_forced_continuation ::
    "replica \<Rightarrow> log_view \<Rightarrow> (plan_refusal + planned_transition) option" where
  "plan_forced_continuation r j =
     (case rp_reincarnation r of
        None \<Rightarrow> None
      | Some machine \<Rightarrow>
          if \<not> is_leader r then None
          else case next_forced_step r of
            None \<Rightarrow>
              (case identity_plan r [] Tick of
                 Inl _ \<Rightarrow> None
               | Inr pl \<Rightarrow> Some (Ok (with_reincarnation pl Clear)))
          | Some first \<Rightarrow>
              if forced_step_plannable r j first then
                Some (rbind (plan_reconfigure r j first None) (\<lambda>pl.
                  Ok (with_reincarnation pl (SetTo machine))))
              else None)"

definition plan_reincarnate ::
    "replica \<Rightarrow> log_view \<Rightarrow> node_id \<Rightarrow> input_kind \<Rightarrow> plan_refusal + planned_transition" where
  "plan_reincarnate r j old kind =
     (let p = rp_progress r; current = p_current p; committed = p_committed p
      in rbind (ok_or (current_record r) (PR_Progress EraSlotDiscipline)) (\<lambda>record.
         if old = rp_own r \<or> votes (er_config record) (rp_own r) then drop_plan r D_None kind
         else
           let announcement = mk_message Tag_Reincarnation current SLOT_NONE
                 (B_Reincarnation old (rp_own r) committed (unwrap_or (lv_last j) SLOT_NONE))
           in if is_leader r then plan_reincarnation r j (rp_own r) announcement kind
              else identity_plan r
                     (send_all (filter (\<lambda>node. node \<noteq> rp_own r) (map m_node (cfg_order (er_config record))))
                        (b_era current) announcement) kind))"

end
