(* ===== verification/Replica_Plan.thy ===== *)
theory Replica_Plan
  imports Reincarnation
begin

text \<open>
  Planning an input (\<open>src/replica/mod.rs\<close>: \<open>plan\<close> and the handlers it dispatches to directly):
  the tick, the host's applied and checkpointed frontiers, the stability confirmation and the dispatch
  of a peer's message by its body. \<open>plan\<close> reads the replica and changes nothing.
\<close>

definition plan_applied :: "replica \<Rightarrow> log_view \<Rightarrow> slot \<Rightarrow> plan_refusal + planned_transition" where
  "plan_applied r j s =
     (let p = rp_progress r; committed = p_committed p
      in rbind (applied_walk j [] (p_applied p) committed) (\<lambda>walked.
         let expected = (case slot_next walked of
                           Some next \<Rightarrow> if next \<le> committed then Some next else None
                         | None \<Rightarrow> None)
         in if expected \<noteq> Some s then Err (PR_UnexpectedApplied expected s)
            else rbind (applied_walk j [] s committed) (\<lambda>applied.
              let st = (if p_status p = St_Replaying \<and> applied = committed then St_Normal else p_status p)
              in rbind (candidate_with r st (p_accepted p) committed applied (p_config p) None) (\<lambda>candidate.
                 Ok (with_bookkeeping (candidate_plan r candidate JM_None [] Applied False)
                       (no_bookkeeping\<lparr>bk_resolved := [s]\<rparr>))))))"

definition plan_checkpointed :: "replica \<Rightarrow> slot \<Rightarrow> plan_refusal + planned_transition" where
  "plan_checkpointed r through =
     (let p = rp_progress r
      in if through > p_applied p then Err (PR_CheckpointExceedsApplied (p_applied p) through)
         else rbind (if through \<le> p_checkpoint p then identity_candidate r
                     else map_err PR_Progress (with_checkpoint p through)) (\<lambda>candidate.
           Ok (candidate_plan r candidate JM_None [] Checkpointed False)))"

definition plan_confirmation :: "replica \<Rightarrow> u64 \<Rightarrow> stability_result \<Rightarrow> plan_refusal + planned_transition" where
  "plan_confirmation r revision outcome =
     (case rp_parked r of
        None \<Rightarrow> Err PR_NoTransitionOutstanding
      | Some parked \<Rightarrow>
          if revision \<noteq> pk_base parked then Err (PR_ConfirmationMismatch (pk_base parked) revision)
          else (case outcome of
            Stable _ \<Rightarrow>
              Ok (with_diagnostic
                    (with_bookkeeping
                      (candidate_plan r (pk_candidate parked) (pk_journal parked) (pk_effects parked)
                         (pk_kind parked) True)
                      (pk_bookkeeping parked))
                    (pk_diagnostic parked))
          | Failed _ \<Rightarrow>
              rbind (map_err PR_Progress (with_status (rp_progress r) (p_status (rp_progress r)))) (\<lambda>candidate.
                Ok (candidate_plan r candidate JM_None [] StabilityConfirmed True))
          | Indeterminate _ \<Rightarrow>
              rbind (map_err PR_Progress (with_fault (rp_progress r) IndeterminatePersistence)) (\<lambda>candidate.
                Ok (candidate_plan r candidate JM_None [] StabilityConfirmed True))))"


section \<open>The tick\<close>

text \<open>The first primary of the genesis era leaves its boot point by itself.\<close>

definition promotable :: "replica \<Rightarrow> log_view \<Rightarrow> bool" where
  "promotable r j \<longleftrightarrow>
     (let p = rp_progress r; current = p_current p
      in p_status p \<in> {St_Restarting, St_Joining} \<and> current = p_retained p \<and> b_view current = 0
         \<and> p_accepted p = INIT_SLOT \<and> p_committed p = INIT_SLOT
         \<and> view_get j VOID_SLOT \<noteq> None \<and> view_get j INIT_SLOT \<noteq> None
         \<and> primary_of r current = Some (rp_own r))"

definition suspects :: "replica \<Rightarrow> tick \<Rightarrow> bool" where
  "suspects r at \<longleftrightarrow>
     kn_primary_timeout (rp_knobs r) \<noteq> 0 \<and> votes (current_config r) (rp_own r)
     \<and> p_status (rp_progress r) \<in> {St_Normal, St_Restarting}
     \<and> (case checked_add (rp_primary_activity r) (kn_primary_timeout (rp_knobs r)) of
          Some deadline \<Rightarrow> at > deadline
        | None \<Rightarrow> False)"

definition installs :: "plan_refusal + suffix_check \<Rightarrow> plan_refusal + bool" where
  "installs verdict = rbind verdict (\<lambda>v. Ok (case v of SC_Install _ \<Rightarrow> True | _ \<Rightarrow> False))"

text \<open>The kept announcement, when its view can be adopted now and its suffix installs.\<close>

definition retry_offer :: "replica \<Rightarrow> log_view \<Rightarrow> tick \<Rightarrow> (plan_refusal + planned_transition) option" where
  "retry_offer r j at =
     (case rp_stalled r of
        None \<Rightarrow> None
      | Some offer \<Rightarrow>
          let p = rp_progress r; current = p_current p; m = ss_message offer; view = h_view (msg_header m)
          in if view > current \<or> view = current \<and> (p_status p = St_ViewChange \<or> boot_fenced r)
             then (case msg_body m of
                     B_StartView suffix accepted committed evidence \<Rightarrow>
                       (case installs (check_suffix r j suffix accepted committed SLOT_NONE) of
                          Inl e \<Rightarrow> Some (Err e)
                        | Inr ok \<Rightarrow>
                            if ok then
                              Some (plan_start_view r j (ss_from offer) m suffix accepted committed evidence at
                                      (PeerMessage Tag_StartView (h_slot (msg_header m))))
                            else None)
                   | _ \<Rightarrow> None)
             else None)"

text \<open>The win that waited for entries, when the log now holds them.\<close>

definition retry_win :: "replica \<Rightarrow> log_view \<Rightarrow> tick \<Rightarrow> (plan_refusal + planned_transition) option" where
  "retry_win r j at =
     (case rp_view_change r of
        None \<Rightarrow> None
      | Some vc \<Rightarrow>
          if p_status (rp_progress r) \<noteq> St_ViewChange then None
          else case vc_selected vc of
            None \<Rightarrow> None
          | Some (_, selected) \<Rightarrow>
              let committed = highest_committed r (vc_evidence vc)
              in if committed > ev_accepted selected then None
                 else case installs (check_suffix r j (ev_suffix selected) (ev_accepted selected) committed
                                       (p_checkpoint (rp_progress r))) of
                   Inl e \<Rightarrow> Some (Err e)
                 | Inr ok \<Rightarrow>
                     if ok then
                       Some (rbind (identity_candidate r) (\<lambda>candidate.
                         continue_view_change r j candidate vc [] at (PeerMessage Tag_DoViewChange (ev_accepted selected))))
                     else None)"

definition retry_fetch :: "replica \<Rightarrow> (plan_refusal + planned_transition) option" where
  "retry_fetch r =
     (case rp_transfer r of
        None \<Rightarrow> None
      | Some cursor \<Rightarrow>
          let request = fetch (tv_view cursor) (tv_to cursor) (tv_next cursor)
          in Some (rbind (identity_plan r [fst request] Tick) (\<lambda>pl.
               Ok (with_bookkeeping pl (no_bookkeeping\<lparr>bk_transfer := SetTo (snd request)\<rparr>)))))"

definition plan_tick :: "replica \<Rightarrow> log_view \<Rightarrow> tick \<Rightarrow> plan_refusal + planned_transition" where
  "plan_tick r j at =
     (let p = rp_progress r
      in if promotable r j then
           rbind (map_err PR_Progress (with_status p St_Normal)) (\<lambda>candidate.
             Ok (with_activity (candidate_plan r candidate JM_None (broadcast_commit r (p_committed p)) Tick False) at))
         else if suspects r at then
           rbind (ok_or (view_change_target r) (PR_Progress ViewSuccessor)) (\<lambda>target.
             enter_view_change r j target [] at Tick)
         else case retry_offer r j at of
           Some res \<Rightarrow> res
         | None \<Rightarrow> (case retry_win r j at of
             Some res \<Rightarrow> res
           | None \<Rightarrow> (case retry_fetch r of
               Some res \<Rightarrow> res
             | None \<Rightarrow> (case plan_forced_continuation r j of
                 Some res \<Rightarrow> res
               | None \<Rightarrow> (case plan_execution_continuation r j of
                   Some res \<Rightarrow> res
                 | None \<Rightarrow> identity_plan r [] Tick)))))"


section \<open>The dispatch\<close>

text \<open>Whether a message is a sign of life of the primary, judged before it is handled.\<close>

definition primary_life :: "replica \<Rightarrow> node_id \<Rightarrow> message \<Rightarrow> bool" where
  "primary_life r from m \<longleftrightarrow>
     (let view = h_view (msg_header m); current = p_current (rp_progress r);
          from_primary = (view = current \<and> primary_of r view = Some from)
      in case msg_body m of
           B_Prepare _ _ \<Rightarrow> from_primary
         | B_Commit _ \<Rightarrow> from_primary
         | B_PrepareOk \<Rightarrow> view = current \<and> is_leader r \<and> \<not> stop_the_world_transition_outstanding r
         | B_Fuse _ \<Rightarrow> from_primary
         | B_NewState _ _ _ _ \<Rightarrow> from_primary
         | _ \<Rightarrow> False)"

definition plan_body ::
    "replica \<Rightarrow> log_view \<Rightarrow> node_id \<Rightarrow> message \<Rightarrow> tick \<Rightarrow> input_kind \<Rightarrow> plan_refusal + planned_transition" where
  "plan_body r j from m at kind =
     (case msg_body m of
        B_Prepare entry committed \<Rightarrow> plan_prepare r j from m entry committed at kind
      | B_PrepareOk \<Rightarrow> plan_prepare_ok r j from m kind
      | B_Commit committed \<Rightarrow> plan_commit r j from m committed at kind
      | B_StartViewChange \<Rightarrow> plan_start_view_change r j from m at kind
      | B_DoViewChange retained accepted committed suffix ek evidence \<Rightarrow>
          plan_do_view_change r j from m retained accepted committed suffix ek evidence at kind
      | B_StartView suffix accepted committed evidence \<Rightarrow>
          plan_start_view r j from m suffix accepted committed evidence at kind
      | B_GetState fetch_from \<Rightarrow> plan_get_state r j from m fetch_from kind
      | B_NewState entries through committed follows \<Rightarrow>
          plan_new_state r j from m entries through committed follows kind
      | B_PlannedViewChange \<Rightarrow> plan_planned_view_change r j from m kind
      | B_Reincarnation _ _ _ _ \<Rightarrow>
          rbind (plan_reincarnation r j from m kind) (\<lambda>pl. Ok (with_join_gossip_witness r pl from))
      | B_GossipRequest _ _ \<Rightarrow>
          rbind (plan_gossip_request r j from m kind) (\<lambda>pl. Ok (with_join_gossip_witness r pl from))
      | B_Fuse ops \<Rightarrow> plan_fuse r j from m ops at kind
      | B_FuseOk _ \<Rightarrow> plan_fuse_ok r j from m kind
      | B_CommitBatch _ \<Rightarrow> drop_plan r D_FuseRefusal kind)"

definition plan_peer ::
    "replica \<Rightarrow> log_view \<Rightarrow> node_id \<Rightarrow> message \<Rightarrow> tick \<Rightarrow> input_kind \<Rightarrow> plan_refusal + planned_transition" where
  "plan_peer r j from m at kind =
     (if h_tag (msg_header m) \<noteq> Tag_Reincarnation \<and> h_tag (msg_header m) \<noteq> Tag_GossipRequest
         \<and> \<not> planned_evidence_solicited r from m \<and> weight_of (current_config r) from = None
      then drop_plan r (D_UnknownSender from) kind
      else rbind (plan_body r j from m at kind) (\<lambda>pl.
        Ok (if primary_life r from m then with_activity pl at else pl)))"

definition plan_event :: "replica \<Rightarrow> log_view \<Rightarrow> timed_input \<Rightarrow> plan_refusal + planned_transition" where
  "plan_event r j ti =
     (case ti_event ti of
        In_StabilityConfirmation revision outcome \<Rightarrow> plan_confirmation r revision outcome
      | In_Tick \<Rightarrow> rbind (refuse_if_parked r) (\<lambda>_. plan_tick r j (ti_at ti))
      | In_Propose op \<Rightarrow> rbind (refuse_if_parked r) (\<lambda>_. plan_propose r op)
      | In_Peer from m \<Rightarrow>
          rbind (refuse_if_parked r) (\<lambda>_. plan_peer r j from m (ti_at ti) (kind_of (ti_event ti)))
      | In_Applied s \<Rightarrow> rbind (refuse_if_parked r) (\<lambda>_. plan_applied r j s)
      | In_AdminForceView target \<Rightarrow>
          rbind (refuse_if_parked r) (\<lambda>_. plan_admin_force_view r j target (ti_at ti))
      | In_Checkpointed through \<Rightarrow> rbind (refuse_if_parked r) (\<lambda>_. plan_checkpointed r through)
      | In_Reconfigure op pv \<Rightarrow> rbind (refuse_if_parked r) (\<lambda>_. plan_reconfigure r j op pv)
      | In_Reincarnate old \<Rightarrow>
          rbind (refuse_if_parked r) (\<lambda>_. plan_reincarnate r j old (kind_of (ti_event ti)))
      | In_SubmitPlan hp \<Rightarrow>
          rbind (refuse_if_parked r) (\<lambda>_. plan_submit_plan r j hp (kind_of (ti_event ti))))"

definition plan :: "replica \<Rightarrow> timed_input \<Rightarrow> log_view \<Rightarrow> plan_refusal + planned_transition" where
  "plan r ti j =
     (case p_fault (rp_progress r) of
        Some f \<Rightarrow> Err (PR_Faulted f)
      | None \<Rightarrow>
          let frontier = unwrap_or (lv_last j) SLOT_NONE
          in if frontier \<noteq> p_accepted (rp_progress r)
             then Err (PR_JournalViewDivergence (p_accepted (rp_progress r)) frontier)
             else plan_event r j ti)"

end
