(* ===== verification/Publish.thy ===== *)
theory Publish
  imports Replica_Plan
begin

text \<open>
  Publishing a planned transition and the ways a replica comes to be (\<open>src/replica/mod.rs\<close>:
  \<open>publish\<close>, \<open>install\<close>, \<open>fault_node\<close>, \<open>reclaim_journal\<close>, \<open>provision\<close>, \<open>join\<close>, \<open>reopen_fenced\<close>).
  The operations that mutate the replica return it with their result. The typestate tokens of
  \<open>resume\<close> and \<open>reincarnate\<close> carry no data, so both are \<open>reopen_fenced\<close>.
\<close>

section \<open>Publishing\<close>

fun apply_update :: "'a update \<Rightarrow> 'a option \<Rightarrow> 'a option" where
  "apply_update Unchanged old = old"
| "apply_update (SetTo a) old = Some a"
| "apply_update Clear old = None"

definition fault_node :: "replica \<Rightarrow> fault \<Rightarrow> replica" where
  "fault_node r f =
     (case with_fault (rp_progress r) f of
        Inr faulted \<Rightarrow> r\<lparr>rp_progress := faulted, rp_observation := to_progress_snapshot faulted\<rparr>
      | Inl _ \<Rightarrow> r)"

definition mutate_journal :: "segmented_log \<Rightarrow> journal_mutation \<Rightarrow> journal_error + segmented_log" where
  "mutate_journal l m =
     (case m of
        JM_None \<Rightarrow> Ok l
      | JM_Accept entries \<Rightarrow> accept_entries l entries
      | JM_InstallSuffix from suffix \<Rightarrow> install_suffix l from suffix)"

definition record_ok :: "slot \<times> node_id \<Rightarrow> (slot \<rightharpoonup> proposal) \<Rightarrow> slot \<rightharpoonup> proposal" where
  "record_ok vote ps =
     (case ps (fst vote) of
        Some oks \<Rightarrow> if snd vote \<in> set oks then ps else ps(fst vote \<mapsto> oks @ [snd vote])
      | None \<Rightarrow> ps)"

definition update_proposals :: "bookkeeping \<Rightarrow> (slot \<rightharpoonup> proposal) \<Rightarrow> slot \<rightharpoonup> proposal" where
  "update_proposals bk ps =
     (let ps = (if bk_view_change bk = Clear then Map.empty else ps);
          ps = fold (\<lambda>(s, proposal) ps. ps(s \<mapsto> proposal)) (bk_proposals bk) ps;
          ps = fold record_ok (bk_oks bk) ps
      in fold (\<lambda>s ps. ps(s := None)) (bk_resolved bk) ps)"

definition update_witnesses :: "configuration \<Rightarrow> witnesses_update \<Rightarrow> node_id list \<Rightarrow> node_id list" where
  "update_witnesses config u ws =
     filter (\<lambda>w. \<not> votes config w)
       (case u of W_Unchanged \<Rightarrow> ws | W_Add n \<Rightarrow> if n \<in> set ws then ws else ws @ [n])"

text \<open>The replica once the journal has taken the mutation.\<close>

definition installed_replica :: "replica \<Rightarrow> segmented_log \<Rightarrow> progress \<Rightarrow> bookkeeping \<Rightarrow> diagnostic \<Rightarrow> replica" where
  "installed_replica r log candidate bk d =
     r\<lparr>rp_journal := log,
       rp_progress := candidate,
       rp_observation := to_progress_snapshot candidate,
       rp_diagnostics := d,
       rp_view_change := apply_update (bk_view_change bk) (rp_view_change r),
       rp_transfer := apply_update (bk_transfer bk) (rp_transfer r),
       rp_stalled := apply_update (bk_stalled bk) (rp_stalled r),
       rp_planned := apply_update (bk_planned bk) (rp_planned r),
       rp_reincarnation := apply_update (bk_reincarnation bk) (rp_reincarnation r),
       rp_plan_execution := apply_update (bk_plan_execution bk) (rp_plan_execution r),
       rp_witnesses := update_witnesses (er_config (et_current (p_config candidate))) (bk_witnesses bk) (rp_witnesses r),
       rp_proposals := update_proposals bk (rp_proposals r),
       rp_primary_activity := unwrap_or (bk_activity bk) (rp_primary_activity r)\<rparr>"

definition install ::
    "replica \<Rightarrow> journal_mutation \<Rightarrow> progress \<Rightarrow> bookkeeping \<Rightarrow> diagnostic \<Rightarrow> replica \<times> (publish_refusal + unit)" where
  "install r mutation candidate bk d =
     (case mutate_journal (rp_journal r) mutation of
        Inl e \<Rightarrow> (fault_node r ProgressJournalDivergence, Err (PuR_JournalRefused e))
      | Inr log \<Rightarrow> (installed_replica r log candidate bk d, Ok ()))"

definition publish :: "replica \<Rightarrow> planned_transition \<Rightarrow> replica \<times> (publish_refusal + publish_outcome)" where
  "publish r pl =
     (case p_fault (rp_progress r) of
        Some f \<Rightarrow> (r, Err (PuR_Faulted f))
      | None \<Rightarrow>
     (let expected = p_revision (rp_progress r)
      in if pt_base pl \<noteq> expected then (r, Err (PuR_RevisionMismatch expected (pt_base pl)))
         else case pt_fault pl of
           Some f \<Rightarrow> (fault_node r f, Err (PuR_IllegalCandidate f))
         | None \<Rightarrow>
        (case legal (rp_progress r) (pt_candidate pl) (pt_kind pl) of
           Some f \<Rightarrow> (fault_node r f, Err (PuR_IllegalCandidate f))
         | None \<Rightarrow>
             if pt_completion pl \<or> rp_stability r = Volatile then
               (case install (r\<lparr>rp_parked := None\<rparr>) (pt_journal pl) (pt_candidate pl) (pt_bookkeeping pl)
                       (pt_diagnostic pl) of
                  (r', Inl e) \<Rightarrow> (r', Err e)
                | (r', Inr _) \<Rightarrow> (r', Ok (Published (p_revision (rp_progress r')) (pt_effects pl))))
             else if rp_parked r \<noteq> None then (r, Err PuR_TransitionOutstanding)
             else (r\<lparr>rp_parked := Some \<lparr>pk_base = pt_base pl, pk_candidate = pt_candidate pl,
                       pk_journal = pt_journal pl, pk_effects = pt_effects pl, pk_kind = pt_kind pl,
                       pk_bookkeeping = pt_bookkeeping pl, pk_diagnostic = pt_diagnostic pl\<rparr>\<rparr>,
                   Ok (Parked (pt_base pl) [Eff_Persist (pt_intent pl)])))))"

definition reclaim_journal :: "replica \<Rightarrow> replica" where
  "reclaim_journal r =
     (let ckpt = p_checkpoint (rp_progress r)
      in if ckpt = SLOT_NONE then r else r\<lparr>rp_journal := reclaim_through (rp_journal r) ckpt\<rparr>)"


section \<open>Coming to be\<close>

definition assemble ::
    "node_id \<Rightarrow> strategy \<Rightarrow> segmented_log \<Rightarrow> stability \<Rightarrow> knobs \<Rightarrow> progress \<Rightarrow> replica" where
  "assemble own is_quorum log st kn p =
     \<lparr>rp_own = own, rp_progress = p, rp_journal = log, rp_strategy = is_quorum, rp_stability = st,
      rp_observation = to_progress_snapshot p, rp_diagnostics = D_None, rp_proposals = Map.empty,
      rp_parked = None, rp_knobs = kn, rp_primary_activity = 0, rp_view_change = None, rp_transfer = None,
      rp_stalled = None, rp_planned = None, rp_reincarnation = None, rp_plan_execution = None,
      rp_witnesses = []\<rparr>"

definition lifecycle_gate :: "(quorum_error + unit) option \<Rightarrow> lifecycle_refusal + unit" where
  "lifecycle_gate verdict = (case verdict of None \<Rightarrow> Err LR_Panic | Some res \<Rightarrow> map_err LR_Quorum res)"

definition provision ::
    "node_id \<Rightarrow> node_id list \<Rightarrow> strategy \<Rightarrow> segmented_log \<Rightarrow> stability \<Rightarrow> knobs \<Rightarrow> lifecycle_refusal + replica" where
  "provision own genesis_order is_quorum log st kn =
     (if lv_last (log_view_of log) \<noteq> None then Err LR_JournalNotEmpty
      else
        rbind (map_err LR_Configuration (rbind (et_extend et_genesis Void VOID_SLOT) (\<lambda>table.
                 et_extend table (Init genesis_order) INIT_SLOT))) (\<lambda>table.
        if own \<notin> set genesis_order then Err (LR_NotAMember own)
        else
          let e = er_era (et_current table);
              entries = [\<lparr>le_slot = VOID_SLOT, le_era = 0, le_payload = P_System Void\<rparr>,
                         \<lparr>le_slot = INIT_SLOT, le_era = e, le_payload = P_System (Init genesis_order)\<rparr>]
          in rbind (lifecycle_gate (validate_era is_quorum (er_config (et_current table)))) (\<lambda>_.
             rbind (map_err LR_Journal (install_suffix log VOID_SLOT entries)) (\<lambda>log.
             rbind (map_err LR_Progress (reconstitute (Ballot e 0) (Ballot e 0) St_Joining INIT_SLOT INIT_SLOT
                      INIT_SLOT SLOT_NONE 0 table None)) (\<lambda>p.
             Ok (assemble own is_quorum log st kn p))))))"

definition reopen_fenced ::
    "node_id \<Rightarrow> strategy \<Rightarrow> segmented_log \<Rightarrow> persisted_progress \<Rightarrow> era_table \<Rightarrow> stability \<Rightarrow> knobs
     \<Rightarrow> lifecycle_refusal + replica" where
  "reopen_fenced own is_quorum log pp config st kn =
     rbind (lifecycle_gate (validate_era is_quorum (er_config (et_current config)))) (\<lambda>_.
     let frontier = unwrap_or (lv_last (log_view_of log)) SLOT_NONE
     in if frontier \<noteq> pp_accepted pp then Err (LR_ProgressJournalDivergence (pp_accepted pp) frontier)
        else rbind (map_err LR_Progress (reconstitute (pp_current pp) (pp_retained pp) St_Restarting
               (pp_accepted pp) (pp_committed pp) (pp_applied pp) (pp_checkpoint pp) (pp_revision pp) config
               (pp_fault pp))) (\<lambda>p.
             Ok (assemble own is_quorum log st kn p)))"

definition join ::
    "node_id \<Rightarrow> strategy \<Rightarrow> segmented_log \<Rightarrow> persisted_progress \<Rightarrow> era_table \<Rightarrow> stability \<Rightarrow> knobs
     \<Rightarrow> lifecycle_refusal + replica" where
  "join own is_quorum log pp config st kn =
     (let frontier = unwrap_or (lv_last (log_view_of log)) SLOT_NONE
      in if frontier \<noteq> INIT_SLOT \<or> pp_accepted pp \<noteq> INIT_SLOT then Err LR_NotAFreshJoiner
         else reopen_fenced own is_quorum log pp config st kn)"

definition resume ::
    "node_id \<Rightarrow> strategy \<Rightarrow> segmented_log \<Rightarrow> persisted_progress \<Rightarrow> era_table \<Rightarrow> stability \<Rightarrow> knobs
     \<Rightarrow> lifecycle_refusal + replica" where
  "resume own is_quorum log pp config st kn = reopen_fenced own is_quorum log pp config st kn"

definition reincarnate ::
    "node_id \<Rightarrow> strategy \<Rightarrow> segmented_log \<Rightarrow> persisted_progress \<Rightarrow> era_table \<Rightarrow> stability \<Rightarrow> knobs
     \<Rightarrow> lifecycle_refusal + replica" where
  "reincarnate own is_quorum log pp config st kn = reopen_fenced own is_quorum log pp config st kn"

definition rejoined :: "replica \<Rightarrow> bool" where
  "rejoined r \<longleftrightarrow> p_status (rp_progress r) = St_Normal \<and> votes (current_config r) (rp_own r)"

definition with_witnesses :: "replica \<Rightarrow> node_id list \<Rightarrow> replica" where
  "with_witnesses r ns =
     r\<lparr>rp_witnesses := fold (\<lambda>w ws. if w \<noteq> rp_own r \<and> w \<notin> set ws then ws @ [w] else ws) ns (rp_witnesses r)\<rparr>"


section \<open>A host's turn\<close>

text \<open>One input: planned on the replica's own log view and published when the plan is not refused.\<close>

definition host_step :: "replica \<Rightarrow> timed_input \<Rightarrow> (plan_refusal + publish_refusal + publish_outcome) \<times> replica" where
  "host_step r ti =
     (case plan r ti (log_view_of (rp_journal r)) of
        Inl e \<Rightarrow> (Inl e, r)
      | Inr pl \<Rightarrow> (case publish r pl of (r', outcome) \<Rightarrow> (Inr outcome, r')))"

end
