(* ===== verification/Replica_Props.thy ===== *)
theory Replica_Props
  imports Publish
begin

text \<open>
  Lemmas on the shared parts of the replica: the slots a walk visits, what a fallible computation
  ensures, the slots an effect list applies, the frontier a mutation leaves, the suffix check and the
  bounded suffix.
\<close>

section \<open>What a computation ensures\<close>

definition ensures :: "('a \<Rightarrow> bool) \<Rightarrow> 'e + 'a \<Rightarrow> bool" where
  "ensures P m \<longleftrightarrow> (\<forall>a. m = Inr a \<longrightarrow> P a)"

lemma ensuresI: "(\<And>a. m = Inr a \<Longrightarrow> P a) \<Longrightarrow> ensures P m"
  by (simp add: ensures_def)

lemma ensuresD: "ensures P m \<Longrightarrow> m = Inr a \<Longrightarrow> P a"
  by (simp add: ensures_def)

lemma ensures_mono: "ensures P m \<Longrightarrow> (\<And>a. P a \<Longrightarrow> Q a) \<Longrightarrow> ensures Q m"
  by (simp add: ensures_def)

named_theorems ensures_simps

lemma ensures_basic [simp, ensures_simps]:
  "ensures P (Inl e)" "ensures P (Inr a) \<longleftrightarrow> P a"
  by (simp_all add: ensures_def)

lemma ensures_bind [ensures_simps]: "ensures P (rbind m f) \<longleftrightarrow> ensures (\<lambda>a. ensures P (f a)) m"
  by (cases m) simp_all

lemma ensures_ok_or [ensures_simps]: "ensures P (ok_or x e) \<longleftrightarrow> (\<forall>a. x = Some a \<longrightarrow> P a)"
  by (cases x) simp_all

lemma ensures_map_err [ensures_simps]: "ensures P (map_err g m) \<longleftrightarrow> ensures P m"
  by (cases m) simp_all

lemma ensures_if [ensures_simps]:
  "ensures P (if b then x else y) \<longleftrightarrow> (b \<longrightarrow> ensures P x) \<and> (\<not> b \<longrightarrow> ensures P y)"
  by simp

lemma ensures_trivial: "(\<And>a. P a) \<Longrightarrow> ensures P m"
  by (simp add: ensures_def)


section \<open>The slots a walk visits\<close>

lemma slots_after_None [simp]: "slot_next s = None \<Longrightarrow> slots_after s through = []"
  by (simp add: slots_after.simps)

lemma set_slots_after: "s \<in> set (slots_after lo through) \<longleftrightarrow> lo < s \<and> s \<le> through"
proof (induction lo through rule: slots_after.induct)
  case (1 lo through)
  show ?case
  proof (cases "slot_next lo")
    case None
    then have "\<not> lo < s" using unsigned_less [of s, where ?'a = nat] by (simp add: slot_next_None word_less_nat_alt)
    then show ?thesis using None by simp
  next
    case (Some n)
    then have n: "unat n = unat lo + 1" by (simp add: slot_next_Some)
    then have "lo < s \<longleftrightarrow> s = n \<or> n < s" by (auto simp: word_less_nat_alt word_eq_nat)
    moreover have "n \<le> through \<or> through < n" by auto
    ultimately show ?thesis
      using 1 [OF Some] Some by (subst slots_after.simps) auto
  qed
qed

lemma sorted_slots_after: "sorted_wrt (<) (slots_after lo through)"
proof (induction lo through rule: slots_after.induct)
  case (1 lo through)
  show ?case
    using 1 by (subst slots_after.simps) (auto split: option.split simp: set_slots_after)
qed

lemma slots_after_empty: "slots_after lo through = [] \<longleftrightarrow> through \<le> lo"
proof -
  have "slots_after lo through = [] \<longleftrightarrow> (\<forall>s. \<not> (lo < s \<and> s \<le> through))"
    by (simp add: set_slots_after [symmetric])
  then show ?thesis by (meson leD leI order_refl order_trans)
qed

text \<open>The walk visits exactly the slots between, in order: the list is determined by its set.\<close>

lemma slots_after_unique:
  "sorted_wrt (<) xs \<Longrightarrow> (\<And>s. s \<in> set xs \<longleftrightarrow> lo < s \<and> s \<le> through) \<Longrightarrow> slots_after lo through = xs"
  by (rule strict_sorted_equal [OF _ sorted_slots_after]) (assumption, rule set_eqI, simp only: set_slots_after)

lemma slots_after_append:
  assumes "lo \<le> mid" "mid \<le> through"
  shows "slots_after lo through = slots_after lo mid @ slots_after mid through"
proof (rule slots_after_unique)
  show "sorted_wrt (<) (slots_after lo mid @ slots_after mid through)"
    by (auto simp: sorted_wrt_append sorted_slots_after set_slots_after)
qed (use assms in \<open>auto simp: set_slots_after\<close>)


section \<open>Applied operations\<close>

fun apply_slot :: "effect \<Rightarrow> slot option" where
  "apply_slot (Eff_Apply s _ _) = Some s"
| "apply_slot _ = None"

definition apply_slots :: "effect list \<Rightarrow> slot list" where
  "apply_slots effects = List.map_filter apply_slot effects"

lemma apply_slots_simps [simp]:
  "apply_slots [] = []"
  "apply_slots (e # es) = (case apply_slot e of Some s \<Rightarrow> s # apply_slots es | None \<Rightarrow> apply_slots es)"
  "apply_slots (xs @ ys) = apply_slots xs @ apply_slots ys"
  by (auto simp: apply_slots_def List.map_filter_def split: option.split)

lemma apply_slots_send_all [simp]: "apply_slots (send_all targets e m) = []"
  by (induction targets) (simp_all add: send_all_def)

lemma apply_slots_broadcast [simp]: "apply_slots (broadcast_commit r s) = []"
  by (simp add: broadcast_commit_def Let_def)

text \<open>The slots an effect list applies are strictly increasing and lie above one frontier up to another.\<close>

definition applies_in :: "slot \<Rightarrow> slot \<Rightarrow> effect list \<Rightarrow> bool" where
  "applies_in lo hi effects \<longleftrightarrow>
     sorted_wrt (<) (apply_slots effects) \<and> (\<forall>s \<in> set (apply_slots effects). lo < s \<and> s \<le> hi)"

lemma applies_in_none [simp]: "apply_slots effects = [] \<Longrightarrow> applies_in lo hi effects"
  by (simp add: applies_in_def)

lemma applies_in_append_none:
  "apply_slots ys = [] \<Longrightarrow> applies_in lo hi (xs @ ys) \<longleftrightarrow> applies_in lo hi xs"
  "apply_slots xs = [] \<Longrightarrow> applies_in lo hi (xs @ ys) \<longleftrightarrow> applies_in lo hi ys"
  "apply_slot e = None \<Longrightarrow> applies_in lo hi (e # ys) \<longleftrightarrow> applies_in lo hi ys"
  by (simp_all add: applies_in_def)

text \<open>What is applied: the operations of the slots walked, in slot order, and nothing else.\<close>

lemma gather_effects_applies:
  assumes "gather_effects j overlay ss = Ok effects"
  shows "apply_slots effects = filter (\<lambda>s. \<exists>e. overlay_get j overlay s = Some e \<and> \<not> is_system e) ss"
    and "s \<in> set ss \<Longrightarrow> overlay_get j overlay s \<noteq> None"
    and "Eff_Apply s i bytes \<in> set effects \<Longrightarrow>
      s \<in> set ss \<and> (\<exists>e. overlay_get j overlay s = Some e \<and> le_payload e = P_Operation i bytes)"
  using assms
proof (induction ss arbitrary: effects)
  case (Cons x ss)
  {
    case 1
    then obtain e es where e: "overlay_get j overlay x = Some e" "gather_effects j overlay ss = Ok es"
      "effects = apply_of e x @ es" by (auto simp: entry_or_def)
    show ?case using Cons.IH(1) [OF e(2)] e(1,3) by (cases "le_payload e") (simp_all add: apply_of_def is_system_def)
  next
    case 2
    then show ?case
      using Cons.IH(2) by (auto simp: entry_or_def)
  next
    case 3
    then obtain e es where e: "overlay_get j overlay x = Some e" "gather_effects j overlay ss = Ok es"
      "effects = apply_of e x @ es" by (auto simp: entry_or_def)
    show ?case using Cons.IH(3) [OF _ e(2)] e(1,3) 3(1) by (cases "le_payload e") (auto simp: apply_of_def)
  }
qed simp_all

lemma gather_effects_in:
  assumes "gather_effects j overlay (slots_after lo through) = Ok effects"
  shows "applies_in lo through effects"
  using gather_effects_applies(1) [OF assms] sorted_slots_after [of lo through]
  by (auto simp: applies_in_def set_slots_after sorted_wrt_filter)

lemma apply_effects_in:
  "ensures (applies_in lo through) (apply_effects j lo through)"
  "ensures (applies_in lo through) (apply_effects_merged j overlay lo through)"
  by (auto simp: ensures_def apply_effects_def apply_effects_merged_def gather_effects_in split: if_splits)


section \<open>Candidates\<close>

lemma reconstitute_Ok:
  "reconstitute current retained st accepted committed applied ckpt revision config f = Ok p \<longleftrightarrow>
     p = \<lparr>p_current = current, p_retained = retained, p_status = st, p_accepted = accepted,
          p_committed = committed, p_applied = applied, p_checkpoint = ckpt,
          p_revision = revision, p_config = config, p_fault = f\<rparr> \<and> check p = Ok ()"
  by (auto simp: reconstitute_def Let_def)

lemma candidate_with_ensures:
  "(\<And>p. p_accepted p = accepted \<Longrightarrow> p_committed p = committed \<Longrightarrow> p_config p = config \<Longrightarrow> p_status p = st \<Longrightarrow>
      check p = Ok () \<Longrightarrow> P p) \<Longrightarrow> ensures P (candidate_with r st accepted committed applied config view)"
  by (auto simp: ensures_def candidate_with_def reconstitute_Ok)

lemma install_candidate_ensures:
  "(\<And>p. p_accepted p = accepted \<Longrightarrow> p_committed p = committed \<Longrightarrow> p_config p = config \<Longrightarrow>
      check p = Ok () \<Longrightarrow> P p) \<Longrightarrow> ensures P (install_candidate r view accepted committed applied config)"
  by (auto simp: ensures_def install_candidate_def reconstitute_Ok)

lemma transition_keeps:
  "with_status p st = Ok p' \<Longrightarrow> p_accepted p' = p_accepted p \<and> p_committed p' = p_committed p
     \<and> p_config p' = p_config p \<and> check p' = Ok ()"
  "with_view_change p b = Ok p' \<Longrightarrow> p_accepted p' = p_accepted p \<and> p_committed p' = p_committed p
     \<and> p_config p' = p_config p \<and> check p' = Ok ()"
  "with_checkpoint p s = Ok p' \<Longrightarrow> p_accepted p' = p_accepted p \<and> p_committed p' = p_committed p
     \<and> p_config p' = p_config p \<and> check p' = Ok ()"
  "with_fault p f = Ok p' \<Longrightarrow> p_accepted p' = p_accepted p \<and> p_committed p' = p_committed p
     \<and> p_config p' = p_config p \<and> check p' = Ok ()"
  by (auto simp: with_defs progress_simps split: if_splits)


section \<open>The suffix check\<close>

text \<open>The accepted frontier a mutation leaves behind when the journal takes it.\<close>

fun mutation_frontier :: "slot \<Rightarrow> journal_mutation \<Rightarrow> slot" where
  "mutation_frontier accepted JM_None = accepted"
| "mutation_frontier accepted (JM_Accept es) = (if es = [] then accepted else le_slot (last es))"
| "mutation_frontier accepted (JM_InstallSuffix _ es) = le_slot (last es)"

text \<open>Where the scan ends: it falls through with every offered entry held or discharged, or it breaks at
  an offered slot above the committed frontier and at most one past the accepted one.\<close>

lemma scan_suffix_cases:
  assumes "scan_suffix r j base d init es = Inr f" "shape_from ex es"
    "es = [] \<or> unat (le_slot (hd es)) \<le> unat (p_accepted (rp_progress r)) + 1"
    "p_committed (rp_progress r) \<le> p_accepted (rp_progress r)"
  shows "f = init \<and> (\<forall>e \<in> set es. le_slot e \<le> p_accepted (rp_progress r)
            \<and> (view_get j (le_slot e) = Some e \<or> view_get j (le_slot e) = None))
       \<or> f \<in> le_slot ` set es \<and> unat f \<le> unat (p_accepted (rp_progress r)) + 1 \<and> p_committed (rp_progress r) < f"
  using assms
proof (induction es arbitrary: ex)
  case (Cons e es)
  let ?a = "p_accepted (rp_progress r)"
  show ?case
  proof (cases "le_slot e > ?a")
    case True
    then have "f = le_slot e" using Cons.prems(1) by simp
    then show ?thesis using True Cons.prems(3,4) by auto
  next
    case le: False
    have shape: "shape_from (slot_next (le_slot e)) es" using Cons.prems(2) by (auto split: if_splits)
    have hd: "es = [] \<or> unat (le_slot (hd es)) \<le> unat ?a + 1"
    proof (cases es)
      case (Cons e' es')
      show ?thesis
      proof (cases "slot_next (le_slot e)")
        case None
        then have "unat (le_slot e') \<le> unat ?a + 1"
          using le unsigned_less [of "le_slot e'", where ?'a = nat] by (simp add: slot_next_None not_less word_le_nat_alt)
        then show ?thesis using Cons by simp
      next
        case (Some n)
        then have n: "unat n = unat (le_slot e) + 1" by (simp add: slot_next_Some)
        have "le_slot e' = n" using shape Cons Some by (auto split: if_splits)
        then show ?thesis using n le Cons by (simp add: not_less word_le_nat_alt)
      qed
    qed simp
    show ?thesis
    proof (cases "view_get j (le_slot e)")
      case None
      then have "scan_suffix r j base d init es = Inr f" using Cons.prems(1) le by (auto split: if_splits)
      from Cons.IH [OF this shape hd Cons.prems(4)] None le show ?thesis by auto
    next
      case (Some held)
      show ?thesis
      proof (cases "held = e")
        case True
        then have "scan_suffix r j base d init es = Inr f" using Cons.prems(1) le Some by auto
        from Cons.IH [OF this shape hd Cons.prems(4)] Some True le show ?thesis by auto
      next
        case False
        then have "f = le_slot e" "\<not> le_slot e \<le> p_committed (rp_progress r)"
          using Cons.prems(1) le Some by (auto split: if_splits)
        then show ?thesis using le by (auto simp: not_less word_le_nat_alt)
      qed
    qed
  qed
qed simp

lemma last_drop_position: "position P xs = Some k \<Longrightarrow> drop k xs \<noteq> [] \<and> last (drop k xs) = last xs"
  using position_SomeD [of P xs k] by (simp add: last_drop)

lemma check_suffix_base:
  assumes "check_suffix r j suffix accepted committed d = Ok (SC_Install m)" "suffix \<noteq> []"
  obtains f where "scan_suffix r j (le_slot (hd suffix)) d (unwrap_or (slot_next accepted) accepted) suffix = Inr f"
    "unat (le_slot (hd suffix)) \<le> unat (p_accepted (rp_progress r)) + 1"
    "m = (if f > accepted then (if accepted < p_accepted (rp_progress r) then JM_InstallSuffix (le_slot (hd suffix)) suffix else JM_None)
          else JM_InstallSuffix f (drop (the (position (\<lambda>e. le_slot e = f) suffix)) suffix))"
    "f > accepted \<or> position (\<lambda>e. le_slot e = f) suffix \<noteq> None"
proof -
  obtain e es where es: "suffix = e # es" using assms(2) by (cases suffix) auto
  let ?a = "p_accepted (rp_progress r)"
  have gap: "\<not> (slot_next ?a \<noteq> Some (le_slot e) \<and> le_slot e > ?a)"
    using assms(1) es by (auto simp: check_suffix_def Let_def split: if_splits)
  then have base: "unat (le_slot e) \<le> unat ?a + 1"
    by (auto simp: slot_next_Some not_less word_le_nat_alt)
  define outcome where "outcome = scan_suffix r j (le_slot e) d (unwrap_or (slot_next accepted) accepted) suffix"
  have eq: "check_suffix r j suffix accepted committed d =
      (case outcome of Inl v \<Rightarrow> Ok v
       | Inr from \<Rightarrow>
           if from > accepted then
             Ok (SC_Install (if accepted < ?a then JM_InstallSuffix (le_slot e) suffix else JM_None))
           else (case position (\<lambda>e. le_slot e = from) suffix of
                   None \<Rightarrow> Err PR_Panic
                 | Some skip \<Rightarrow> Ok (SC_Install (JM_InstallSuffix from (drop skip suffix)))))"
    using gap unfolding check_suffix_def Let_def outcome_def by (simp only: es list.case if_False)
  show thesis
  proof (cases outcome)
    case (Inl v)
    with eq assms(1) have "v = SC_Install m" by simp
    with Inl have "scan_suffix r j (le_slot e) d (unwrap_or (slot_next accepted) accepted) suffix = Inl (SC_Install m)"
      by (simp add: outcome_def)
    moreover have "scan_suffix r j b d i xs \<noteq> Inl (SC_Install m)" for b i xs
      by (induction xs) (auto split: option.splits)
    ultimately show thesis by blast
  next
    case (Inr f)
    let ?k = "position (\<lambda>e. le_slot e = f) suffix"
    show thesis
    proof (rule that)
      show "scan_suffix r j (le_slot (hd suffix)) d (unwrap_or (slot_next accepted) accepted) suffix = Inr f"
        using Inr by (simp add: outcome_def es del: scan_suffix.simps)
      show "unat (le_slot (hd suffix)) \<le> unat ?a + 1" using base es by simp
      have "f > accepted \<or> ?k \<noteq> None"
        using eq assms(1) unfolding Inr by (cases ?k) (auto split: if_splits simp del: position_eq_None)
      then show "f > accepted \<or> ?k \<noteq> None" .
      show "m = (if f > accepted then (if accepted < ?a then JM_InstallSuffix (le_slot (hd suffix)) suffix else JM_None)
          else JM_InstallSuffix f (drop (the ?k) suffix))"
        using eq assms(1) unfolding Inr
        by (cases "f > accepted"; cases ?k)
           (simp_all add: es del: position.simps position_eq_None split: if_splits)
    qed
  qed
qed

lemma check_suffix_frontier:
  assumes ok: "check_suffix r j suffix accepted committed d = Ok (SC_Install m)"
    and shape: "suffix_shape_ok suffix accepted"
    and chain: "p_committed (rp_progress r) \<le> p_accepted (rp_progress r)"
  shows "mutation_frontier (p_accepted (rp_progress r)) m = accepted"
proof (cases "suffix = []")
  case True
  then show ?thesis using ok by (auto simp: check_suffix_def Let_def split: if_splits)
next
  case False
  let ?a = "p_accepted (rp_progress r)"
  have sh: "shape_from None suffix" and la: "le_slot (last suffix) = accepted"
    using shape False by (auto simp: suffix_shape_ok_def)
  obtain f where
    f: "scan_suffix r j (le_slot (hd suffix)) d (unwrap_or (slot_next accepted) accepted) suffix = Inr f"
    "unat (le_slot (hd suffix)) \<le> unat ?a + 1"
    and m: "m = (if f > accepted then (if accepted < ?a then JM_InstallSuffix (le_slot (hd suffix)) suffix else JM_None)
          else JM_InstallSuffix f (drop (the (position (\<lambda>e. le_slot e = f) suffix)) suffix))"
    and pos: "f > accepted \<or> position (\<lambda>e. le_slot e = f) suffix \<noteq> None"
    by (rule check_suffix_base [OF ok False])
  show ?thesis
  proof (cases "f > accepted")
    case True
    have "accepted \<le> ?a"
      using scan_suffix_cases [OF f(1) sh _ chain] f(2) False True la
      by (auto simp: word_less_nat_alt word_le_nat_alt dest!: bspec [of _ _ "last suffix"])
    then show ?thesis using m True la by auto
  next
    case nf: False
    with pos obtain k where k: "position (\<lambda>e. le_slot e = f) suffix = Some k" by (metis option.exhaust)
    then have "m = JM_InstallSuffix f (drop k suffix)" using m nf by (metis option.sel)
    with last_drop_position [OF k] la show ?thesis by simp
  qed
qed

lemma check_contiguous_contig:
  "check_contiguous c es = Ok () \<Longrightarrow> contig (unat c) es"
proof (induction es arbitrary: c)
  case (Cons e es)
  then have "le_slot e = c" by (auto split: if_splits)
  moreover obtain n where "slot_next c = Some n" "check_contiguous n es = Ok ()"
    using Cons.prems by (auto split: if_splits)
  ultimately show ?case using Cons.IH [of n] by (simp add: slot_next_Some)
qed simp

lemma install_suffix_contig:
  assumes "install_suffix l c es = Ok l'" "sl_accepted l = Some fr" "le_slot (hd es) = c"
  shows "contig (unat c) es" "es \<noteq> []"
proof -
  obtain x where x: "check_contiguous x es = Ok ()" "es \<noteq> []"
    using assms(1,2) by (auto simp: install_suffix_def split: if_splits)
  moreover from this have "unat x = unat c" using assms(3) by (cases es) (auto split: if_splits)
  ultimately show "contig (unat c) es" "es \<noteq> []" using check_contiguous_contig [of x es] by auto
qed

abbreviation matched :: "log_view \<Rightarrow> log_entry \<Rightarrow> bool" where
  "matched j e \<equiv> view_get j (le_slot e) = Some e \<or> view_get j (le_slot e) = None"

text \<open>The scan falls through with every entry held or discharged, or breaks above the committed frontier
  after a prefix of such entries.\<close>

lemma scan_suffix_breaks:
  assumes "scan_suffix r j base d init es = Inr f" "p_committed (rp_progress r) \<le> p_accepted (rp_progress r)"
  shows "f = init \<and> (\<forall>e \<in> set es. matched j e)
       \<or> p_committed (rp_progress r) < f \<and> (\<exists>k < length es. f = le_slot (es ! k) \<and> (\<forall>i < k. matched j (es ! i)))"
  using assms
proof (induction es)
  case (Cons e es)
  show ?case
  proof (cases "scan_suffix r j base d init es = Inr f \<and> matched j e \<and> \<not> le_slot e > p_accepted (rp_progress r)")
    case True
    from Cons.IH [OF conjunct1 [OF True] Cons.prems(2)] show ?thesis
    proof (elim disjE conjE exE)
      fix k
      assume k: "p_committed (rp_progress r) < f" "k < length es" "f = le_slot (es ! k)" "\<forall>i < k. matched j (es ! i)"
      have "\<forall>i < Suc k. matched j ((e # es) ! i)"
      proof (intro allI impI)
        fix i assume "i < Suc k"
        then show "matched j ((e # es) ! i)" using True k(4) by (cases i) auto
      qed
      then show ?thesis using k by (intro disjI2 conjI exI [of _ "Suc k"]) auto
    qed (use True in auto)
  next
    case False
    then have "f = le_slot e" "p_committed (rp_progress r) < le_slot e"
      using Cons.prems by (auto split: if_splits option.splits)
    then show ?thesis by (auto intro!: exI [of _ 0])
  qed
qed simp

text \<open>No installation a check allows changes an entry at or below the committed frontier.\<close>

lemma check_suffix_keeps:
  assumes ok: "check_suffix r (log_view_of l) suffix accepted committed d = Ok (SC_Install m)"
    and chain: "p_committed (rp_progress r) \<le> p_accepted (rp_progress r)"
    and covers: "suffix \<noteq> [] \<Longrightarrow> \<exists>e \<in> set suffix. p_committed (rp_progress r) \<le> le_slot e"
    and wf: "wf_log l" and frontier: "unwrap_or (sl_accepted l) SLOT_NONE = p_accepted (rp_progress r)"
    and l': "mutate_journal l m = Ok l'"
    and s: "s \<le> p_committed (rp_progress r)" "log_get l s = Some e"
  shows "log_get l' s = Some e"
proof (cases "m = JM_None")
  case True
  then show ?thesis using l' s by (simp add: mutate_journal_def)
next
  case nn: False
  let ?a = "p_accepted (rp_progress r)" and ?c = "p_committed (rp_progress r)"
  have "physical l \<noteq> []" using s(2) seg.get_Some_iff [OF wf] by fastforce
  then have fr: "sl_accepted l = Some ?a"
    using frontier wf by (auto simp: wf_log_def unwrap_or_def split: option.splits)
  have ne: "suffix \<noteq> []" using ok nn by (auto simp: check_suffix_def Let_def split: if_splits)
  obtain f where
    f: "scan_suffix r (log_view_of l) (le_slot (hd suffix)) d (unwrap_or (slot_next accepted) accepted) suffix = Inr f"
    and m: "m = (if f > accepted then (if accepted < ?a then JM_InstallSuffix (le_slot (hd suffix)) suffix else JM_None)
          else JM_InstallSuffix f (drop (the (position (\<lambda>e. le_slot e = f) suffix)) suffix))"
    and pos: "f > accepted \<or> position (\<lambda>e. le_slot e = f) suffix \<noteq> None"
    by (rule check_suffix_base [OF ok ne])
  note breaks = scan_suffix_breaks [OF f chain]
  show ?thesis
  proof (cases "f > accepted")
    case True
    then have inst: "install_suffix l (le_slot (hd suffix)) suffix = Ok l'"
      using m nn l' by (auto simp: mutate_journal_def split: if_splits)
    note contig = install_suffix_contig [OF inst fr refl]
    show ?thesis
    proof (cases "s < le_slot (hd suffix)")
      case False
      obtain x where x: "x \<in> set suffix" "?c \<le> le_slot x" using covers [OF ne] by blast
      then obtain k where k: "k < length suffix" "unat (le_slot x) = unat (le_slot (hd suffix)) + k"
        using contig(1) by (auto simp: contig_def in_set_conv_nth)
      define i where "i = unat s - unat (le_slot (hd suffix))"
      have si: "unat s = unat (le_slot (hd suffix)) + i" using False by (simp add: i_def word_less_nat_alt)
      moreover have "unat s \<le> unat (le_slot x)" using s(1) x(2) by (simp add: word_le_nat_alt)
      ultimately have i: "i < length suffix" using k by linarith
      then have at: "le_slot (suffix ! i) = s" "suffix ! i \<in> set suffix"
        using contig(1) si by (simp_all add: contig_def word_eq_nat)
      have "matched (log_view_of l) (suffix ! i)"
        using breaks
      proof
        assume "?c < f \<and> (\<exists>k < length suffix. f = le_slot (suffix ! k) \<and> (\<forall>i < k. matched (log_view_of l) (suffix ! i)))"
        then obtain k where k: "?c < f" "k < length suffix" "f = le_slot (suffix ! k)"
          "\<forall>i < k. matched (log_view_of l) (suffix ! i)" by blast
        have "unat f = unat (le_slot (hd suffix)) + k" using contig(1) k(2,3) by (simp add: contig_def)
        moreover have "unat s < unat f" using k(1) s(1) by (simp add: word_less_nat_alt word_le_nat_alt)
        ultimately have "i < k" using si by simp
        then show ?thesis by (rule k(4) [rule_format])
      next
        assume "f = unwrap_or (slot_next accepted) accepted \<and> (\<forall>e \<in> set suffix. matched (log_view_of l) e)"
        then show ?thesis using at(2) by (elim conjE) (rule bspec)
      qed
      then have "e = suffix ! i" unfolding at(1) s(2) by simp
      then have "e \<in> set suffix \<and> le_slot e = s" using at by simp
      then show ?thesis by (intro iffD2 [OF seg.install_reads [OF wf inst, of s e]] disjI2)
    qed (use seg.install_reads [OF wf inst] s in blast)
  next
    case nf: False
    with pos obtain k where k: "position (\<lambda>e. le_slot e = f) suffix = Some k" by (metis option.exhaust)
    let ?es = "drop k suffix"
    have "m = JM_InstallSuffix f ?es" using m nf k by (metis option.sel)
    then have inst: "install_suffix l f ?es = Ok l'" using l' by (simp add: mutate_journal_def)
    have hd: "hd ?es \<in> set ?es" "hd ?es \<in> set suffix" "le_slot (hd ?es) = f"
      using position_SomeD [OF k] hd_in_set [of ?es] by (simp_all add: hd_drop_conv_nth)
    show ?thesis
    proof (cases "s < f")
      case False
      then have init: "f = unwrap_or (slot_next accepted) accepted"
        and all: "\<forall>e \<in> set suffix. matched (log_view_of l) e"
        using breaks s(1) by auto
      from init nf have "slot_next accepted = None \<and> f = accepted"
      proof (cases "slot_next accepted")
        case (Some n)
        then have "unat n = unat accepted + 1" by (simp add: slot_next_Some)
        with nf init Some show ?thesis by (simp add: unwrap_or_def word_less_nat_alt)
      qed (simp add: unwrap_or_def)
      then have "f = s" using False unsigned_less [of s, where ?'a = nat]
        by (auto simp: slot_next_None word_less_nat_alt word_eq_nat)
      then have "e = hd ?es" using bspec [OF all hd(2)] hd(3) s(2) by simp
      then have "e \<in> set ?es \<and> le_slot e = s" using hd(1,3) \<open>f = s\<close> by simp
      then show ?thesis by (intro iffD2 [OF seg.install_reads [OF wf inst, of s e]] disjI2)
    qed (use seg.install_reads [OF wf inst] s in blast)
  qed
qed

section \<open>The bounded suffix\<close>

definition entries_bytes :: "log_entry list \<Rightarrow> nat" where
  "entries_bytes es = sum_list (map (\<lambda>e. the (packed_len_entry e)) es)"

lemma entries_bytes_simps [simp]:
  "entries_bytes [] = 0" "entries_bytes (e # es) = the (packed_len_entry e) + entries_bytes es"
  "entries_bytes (xs @ ys) = entries_bytes xs + entries_bytes ys" "entries_bytes (rev es) = entries_bytes es"
  by (simp_all add: entries_bytes_def rev_map [symmetric])

lemma pick_back_Some:
  assumes "pick_back budget es picked bytes = Some (out, b)" "bytes \<le> budget"
  shows "b \<le> budget \<and> (\<exists>k \<le> length es. out = picked @ take k es \<and> b = bytes + entries_bytes (take k es))"
  using assms
proof (induction es arbitrary: picked bytes)
  case (Cons e es)
  obtain len where len: "packed_len_entry e = Some len" using Cons.prems(1) by (cases "packed_len_entry e") auto
  show ?case
  proof (cases "bytes + len > budget")
    case True
    then have "out = picked \<and> b = bytes" using Cons.prems(1) len by simp
    then show ?thesis using Cons.prems(2) by (auto intro: exI [of _ 0])
  next
    case False
    then have "pick_back budget es (picked @ [e]) (bytes + len) = Some (out, b)" using Cons.prems(1) len by simp
    from Cons.IH [OF this] False obtain k where
      "b \<le> budget" "k \<le> length es" "out = picked @ e # take k es" "b = bytes + len + entries_bytes (take k es)" by auto
    then show ?thesis using len by (intro conjI exI [of _ "Suc k"]) auto
  qed
qed simp

text \<open>Entries that go down from a cursor, each read in the view.\<close>

fun descends :: "log_view \<Rightarrow> slot option \<Rightarrow> log_entry list \<Rightarrow> bool" where
  "descends j cursor [] \<longleftrightarrow> True"
| "descends j cursor (e # es) \<longleftrightarrow>
     (case cursor of
        None \<Rightarrow> False
      | Some c \<Rightarrow> view_get j c = Some e \<and> lv_first j \<le> c \<and> descends j (slot_prev c) es)"

lemma walk_back_Some:
  assumes "walk_back j budget cursor picked bytes = Some out" "bytes \<le> budget"
  shows "\<exists>es. out = picked @ es \<and> descends j cursor es \<and> bytes + entries_bytes es \<le> budget"
  using assms
proof (induction j budget cursor picked bytes rule: walk_back.induct)
  case (2 j budget cursor picked bytes)
  show ?case
  proof (cases "out = picked")
    case False
    obtain hi where r: "view_retained j = (lv_first j, hi)" by (simp add: view_retained_def)
    then obtain e len where e: "\<not> (cursor < lv_first j \<or> cursor > hi)" "view_get j cursor = Some e"
      "packed_len_entry e = Some len" "\<not> bytes + len > budget"
      "walk_back j budget (slot_prev cursor) (picked @ [e]) (bytes + len) = Some out"
      using 2(2) False by (subst (asm) walk_back.simps) (auto split: if_splits option.splits)
    from 2(1) [OF r [symmetric] e(1,2,3,4,5)] e(4)
    obtain es where "out = (picked @ [e]) @ es" "descends j (slot_prev cursor) es" "bytes + len + entries_bytes es \<le> budget"
      by auto
    then show ?thesis using e by (intro exI [of _ "e # es"]) (auto simp: not_less)
  qed (auto intro: exI [of _ "[]"] simp: 2(3))
qed simp

lemma descends_contig:
  assumes "\<And>c e. view_get j c = Some e \<Longrightarrow> le_slot e = c" "descends j (Some c) es"
  shows "\<exists>b. contig b (rev es) \<and> b + length es = unat c + 1 \<and> (es \<noteq> [] \<longrightarrow> unat (lv_first j) \<le> b)"
  using assms(2)
proof (induction es arbitrary: c)
  case (Cons e es)
  then have e: "le_slot e = c" "unat (lv_first j) \<le> unat c" using assms(1) by (auto simp: word_le_nat_alt)
  show ?case
  proof (cases "slot_prev c")
    case None
    then have "es = []" using Cons.prems by (cases es) auto
    then show ?thesis using e by (intro exI [of _ "unat c"]) auto
  next
    case (Some d)
    then have d: "unat c = unat d + 1" by (simp add: slot_prev_Some)
    from Some Cons.prems have "descends j (Some d) es" by simp
    from Cons.IH [OF this] obtain b where b: "contig b (rev es)" "b + length es = unat d + 1"
      "es \<noteq> [] \<longrightarrow> unat (lv_first j) \<le> b" by blast
    then show ?thesis using d e by (intro exI [of _ b]) (auto simp: contig_append)
  qed
qed simp

lemma contig_shape:
  assumes "contig b es" "1 \<le> b" "es \<noteq> [] \<Longrightarrow> le_slot (last es) = accepted"
  shows "suffix_shape_ok es accepted"
proof -
  have "shape_from (Some s) es" if "contig (unat s) es" for s es
    using that
  proof (induction es arbitrary: s)
    case (Cons e es)
    then have "le_slot e = s" by (simp add: word_eq_nat)
    show ?case
    proof (cases es)
      case (Cons e' es')
      then have "unat (le_slot e') = Suc (unat s)" using Cons.prems by simp
      then have "slot_next s = Some (le_slot e')" by (simp add: slot_next_Some)
      then show ?thesis using Cons.IH [of "le_slot e'"] Cons.prems \<open>le_slot e = s\<close> Cons by auto
    qed (use \<open>le_slot e = s\<close> in simp)
  qed simp
  then have tail: "shape_from (Some s) es" if "contig (unat s) es" for s es using that by blast
  have "shape_from None es"
  proof (cases es)
    case (Cons e es')
    then have "le_slot e \<noteq> SLOT_NONE" using assms(1,2) by (auto simp: SLOT_NONE_def)
    moreover have "shape_from (Some (le_slot e)) (e # es')" using tail [of "le_slot e" "e # es'"] assms(1) Cons by auto
    ultimately show ?thesis using Cons by auto
  qed simp
  then show ?thesis using assms(3) by (auto simp: suffix_shape_ok_def)
qed

lemma bounded_suffix_own:
  assumes "\<And>c e. view_get j c = Some e \<Longrightarrow> le_slot e = c" "1 \<le> lv_first j"
    and "bounded_suffix r j frontier [] = Some es"
  shows "suffix_shape_ok es frontier"
proof -
  obtain out where out: "walk_back j (kn_view_change_budget (rp_knobs r)) (Some frontier) [] 0 = Some out" "es = rev out"
    using assms(3) by (auto simp: bounded_suffix_def Let_def)
  from walk_back_Some [OF out(1)] have "descends j (Some frontier) out" by auto
  from descends_contig [OF assms(1) this] obtain b where b: "contig b (rev out)" "b + length out = unat frontier + 1"
    "out \<noteq> [] \<longrightarrow> unat (lv_first j) \<le> b" by blast
  show ?thesis
  proof (cases "out = []")
    case True
    then show ?thesis using out(2) by (simp add: suffix_shape_ok_def)
  next
    case False
    have "le_slot (hd out) = frontier" using \<open>descends j (Some frontier) out\<close> assms(1) False by (cases out) auto
    moreover have "last (rev out) = hd out" by (simp add: last_rev False)
    moreover have "1 \<le> b" using b(3) False assms(2) by (auto simp: word_le_nat_alt)
    ultimately show ?thesis using contig_shape [OF b(1)] out(2) by simp
  qed
qed


section \<open>The fold\<close>

lemma fold_run_bounds:
  assumes "fold_run table op ops s stop through = Inr (t, rs, s')" "s \<le> through" "s \<le> stop"
  shows "s \<le> s'" "s' \<le> through" "wf_table table \<Longrightarrow> wf_table t"
  using assms
  by (auto simp: fold_run_def Let_def split: if_splits sum.splits dest: et_extend_wf)

lemma fold_walk_result:
  assumes "fold_walk j overlay current through paced table covered running bumped = Inr fd"
  shows "covered \<le> fd_covered fd \<and> fd_covered fd \<le> max covered through
    \<and> (\<not> fd_stopped fd \<longrightarrow> fd_covered fd = max covered through)
    \<and> (fd_stopped fd \<longrightarrow> paced) \<and> (wf_table table \<longrightarrow> wf_table (fd_table fd))"
  using assms
proof (induction j overlay current through paced table covered running bumped rule: fold_walk.induct)
  case (1 j overlay current through paced table covered running bumped)
  let ?finish = "Ok \<lparr>fd_table = table, fd_covered = covered, fd_stopped = False, fd_bump = bumped\<rparr> :: commit_fold + folded"
  show ?case
  proof (cases "slot_next covered")
    case None
    then have "\<not> covered < through"
      using unsigned_less [of through, where ?'a = nat] by (simp add: slot_next_None word_less_nat_alt)
    then show ?thesis using 1(3) None by (subst (asm) fold_walk.simps) (auto simp: max_def)
  next
    case (Some n)
    then have n: "unat n = unat covered + 1" by (simp add: slot_next_Some)
    show ?thesis
    proof (cases "n > through")
      case True
      then have "\<not> covered < through" using n by (simp add: word_less_nat_alt)
      then show ?thesis using 1(3) Some True by (subst (asm) fold_walk.simps) (auto simp: max_def)
    next
      case le: False
      then have ct: "covered < n" "n \<le> through" using le n by (simp_all add: word_less_nat_alt word_le_nat_alt not_less)
      obtain e where e: "overlay_get j overlay n = Some e"
        using 1(3) Some le by (subst (asm) fold_walk.simps) (auto simp: Let_def split: option.splits)
      show ?thesis
      proof (cases "le_payload e")
        case (P_Operation i bytes)
        then have "fold_walk j overlay current through paced table n running bumped = Inr fd"
          using 1(3) Some le e by (subst (asm) fold_walk.simps) (simp add: Let_def)
        from 1(1) [OF refl Some le e P_Operation this] ct show ?thesis by (auto simp: max_def)
      next
        case (P_System op)
        obtain ops stop where run: "follow_run j overlay (le_era e) [op] n = (ops, stop)" by fastforce
        have step: "fold_walk j overlay current through paced table covered running bumped =
          (case fold_run table op ops n stop through of Inl e \<Rightarrow> Err e
           | Inr (extended, riders, stop) \<Rightarrow>
              (let established = er_era (et_current extended);
                   nominated = run_nominations running riders established
               in if paced \<and> past_window current running established \<and> nominated = running
                  then Ok \<lparr>fd_table = table, fd_covered = covered, fd_stopped = True, fd_bump = bumped\<rparr>
                  else fold_walk j overlay current through paced extended stop nominated
                         (case nominated of Some view \<Rightarrow> if view \<noteq> current then Some view else None | None \<Rightarrow> None)))"
          using Some le e P_System run by (subst fold_walk.simps) (simp add: Let_def)
        then obtain t rs s' where fr: "fold_run table op ops n stop through = Inr (t, rs, s')"
          using 1(3) by (cases "fold_run table op ops n stop through") auto
        note bounds = fold_run_bounds [OF fr ct(2) follow_run_ge [OF run]]
        let ?nom = "run_nominations running rs (er_era (et_current t))"
        show ?thesis
        proof (cases "paced \<and> past_window current running (er_era (et_current t)) \<and> ?nom = running")
          case True
          then have "fd = \<lparr>fd_table = table, fd_covered = covered, fd_stopped = True, fd_bump = bumped\<rparr>"
            using 1(3) step fr by (simp add: Let_def)
          then show ?thesis using ct True by (auto simp: max_def)
        next
          case False
          then have "fold_walk j overlay current through paced t s' ?nom
              (case ?nom of Some view \<Rightarrow> if view \<noteq> current then Some view else None | None \<Rightarrow> None) = Inr fd"
            using 1(3) step fr by (auto simp: Let_def)
          from 1(2) [OF refl Some le e P_System run [symmetric] fr refl refl refl refl False this]
          show ?thesis using bounds ct by (auto simp: max_def)
        qed
      qed
    qed
  qed
qed

lemma fold_committed_result:
  assumes "fold_committed r j overlay lo through paced = Inr fd"
  shows "lo \<le> fd_covered fd" "fd_covered fd \<le> max lo through"
    "\<not> fd_stopped fd \<Longrightarrow> fd_covered fd = max lo through" "\<not> paced \<Longrightarrow> \<not> fd_stopped fd"
    "wf_table (p_config (rp_progress r)) \<Longrightarrow> wf_table (fd_table fd)"
  using fold_walk_result [of j overlay "p_current (rp_progress r)" through paced "p_config (rp_progress r)" lo] assms
  by (auto simp: fold_committed_def Let_def)

end
