(* ===== verification/Replica_Sound.thy ===== *)
theory Replica_Sound
  imports Replica_Props
begin

text \<open>
  What every plan guarantees. A replica is well formed when its record passes its check, its era table
  and its log are well formed and the evidence it keeps has the shape a suffix must have; a plan is sound
  when its candidate keeps that, when it applies slots of the newly committed range only, in order, when
  its mutation leaves the log at the candidate's accepted frontier and when it changes no committed
  entry. One lemma per handler; the claim about the accepted frontier is made under a flag.
\<close>

section \<open>Well-formed replicas and sound plans\<close>

definition ev_ok :: "evidence \<Rightarrow> bool" where
  "ev_ok ev \<longleftrightarrow> suffix_shape_ok (ev_suffix ev) (ev_accepted ev)"

definition vc_ok :: "view_change_volatile \<Rightarrow> bool" where
  "vc_ok vc \<longleftrightarrow> (\<forall>(n, ev) \<in> set (vc_evidence vc). ev_ok ev)
     \<and> (\<forall>n ev. vc_selected vc = Some (n, ev) \<longrightarrow> ev_ok ev)"

definition wf_replica :: "replica \<Rightarrow> bool" where
  "wf_replica r \<longleftrightarrow> check (rp_progress r) = Ok () \<and> wf_table (p_config (rp_progress r))
     \<and> wf_log (rp_journal r) \<and> 1 \<le> sl_first (rp_journal r)
     \<and> (\<forall>vc. rp_view_change r = Some vc \<longrightarrow> vc_ok vc)"

definition in_step :: "replica \<Rightarrow> bool" where
  "in_step r \<longleftrightarrow> unwrap_or (sl_accepted (rp_journal r)) SLOT_NONE = p_accepted (rp_progress r)"

definition ready :: "replica \<Rightarrow> bool" where
  "ready r \<longleftrightarrow> wf_replica r \<and> in_step r"

abbreviation own_view :: "replica \<Rightarrow> log_view" where
  "own_view r \<equiv> log_view_of (rp_journal r)"

definition keeps_committed :: "replica \<Rightarrow> journal_mutation \<Rightarrow> bool" where
  "keeps_committed r m \<longleftrightarrow>
     (\<forall>l s e. mutate_journal (rp_journal r) m = Ok l \<longrightarrow> s \<le> p_committed (rp_progress r)
        \<longrightarrow> log_get (rp_journal r) s = Some e \<longrightarrow> log_get l s = Some e)"

definition bk_ok :: "bookkeeping \<Rightarrow> bool" where
  "bk_ok bk \<longleftrightarrow> (\<forall>vc. bk_view_change bk = SetTo vc \<longrightarrow> vc_ok vc)"

definition sound :: "bool \<Rightarrow> replica \<Rightarrow> planned_transition \<Rightarrow> bool" where
  "sound b r pl \<longleftrightarrow>
     pt_base pl = p_revision (rp_progress r) \<and> \<not> pt_completion pl
     \<and> check (pt_candidate pl) = Ok () \<and> wf_table (p_config (pt_candidate pl))
     \<and> applies_in (p_committed (rp_progress r)) (p_committed (pt_candidate pl)) (pt_effects pl)
     \<and> bk_ok (pt_bookkeeping pl) \<and> keeps_committed r (pt_journal pl)
     \<and> (b \<longrightarrow> mutation_frontier (p_accepted (rp_progress r)) (pt_journal pl) = p_accepted (pt_candidate pl))"

lemma ready_facts:
  assumes "ready r"
  shows "wf_table (p_config (rp_progress r))" "wf_log (rp_journal r)" "check (rp_progress r) = Ok ()"
    "p_committed (rp_progress r) \<le> p_accepted (rp_progress r)" "1 \<le> lv_first (own_view r)"
    "view_get (own_view r) c = Some e \<Longrightarrow> le_slot e = c"
    "rp_view_change r = Some vc \<Longrightarrow> vc_ok vc"
proof -
  show wf: "wf_log (rp_journal r)" and t: "wf_table (p_config (rp_progress r))" and c: "check (rp_progress r) = Ok ()"
    using assms by (simp_all add: ready_def wf_replica_def)
  show "p_committed (rp_progress r) \<le> p_accepted (rp_progress r)" using c by (simp add: check_Ok)
  show "1 \<le> lv_first (own_view r)" using assms by (simp add: ready_def wf_replica_def log_view_of_def)
  show "view_get (own_view r) c = Some e \<Longrightarrow> le_slot e = c" using seg.get_Some_iff [OF wf] by blast
  show "rp_view_change r = Some vc \<Longrightarrow> vc_ok vc" using assms by (simp add: ready_def wf_replica_def)
qed

lemma keeps_none [simp]: "keeps_committed r JM_None"
  by (simp add: keeps_committed_def mutate_journal_def)

lemma keeps_accept: "ready r \<Longrightarrow> keeps_committed r (JM_Accept es)"
  using seg.accept_reads [OF ready_facts(2)] by (auto simp: keeps_committed_def mutate_journal_def)

lemma keeps_covered:
  assumes "ready r" "check_suffix r (own_view r) suffix accepted committed d = Ok (SC_Install m)"
    "suffix \<noteq> [] \<Longrightarrow> \<exists>e \<in> set suffix. p_committed (rp_progress r) \<le> le_slot e"
  shows "keeps_committed r m"
  unfolding keeps_committed_def
  using check_suffix_keeps [OF assms(2) ready_facts(4) [OF assms(1)] assms(3) ready_facts(2) [OF assms(1)]]
    assms(1) by (auto simp: ready_def in_step_def)

lemma keeps_check:
  assumes "ready r" "check_suffix r (own_view r) suffix accepted committed d = Ok (SC_Install m)"
    "suffix_shape_ok suffix accepted" "p_committed (rp_progress r) \<le> accepted"
  shows "keeps_committed r m"
  by (rule keeps_covered [OF assms(1,2)]) (use assms(3,4) in \<open>auto simp: suffix_shape_ok_def intro: last_in_set\<close>)

lemma frontier_check:
  assumes "ready r" "check_suffix r j suffix accepted committed d = Ok (SC_Install m)" "suffix_shape_ok suffix accepted"
  shows "mutation_frontier (p_accepted (rp_progress r)) m = accepted"
  by (rule check_suffix_frontier [OF assms(2,3) ready_facts(4) [OF assms(1)]])


section \<open>Soundness of the building blocks\<close>

named_theorems sound_simps

lemma bk_ok_simps [simp]:
  "bk_ok no_bookkeeping" "bk_ok (bk\<lparr>bk_proposals := a\<rparr>) = bk_ok bk" "bk_ok (bk\<lparr>bk_oks := b\<rparr>) = bk_ok bk"
  "bk_ok (bk\<lparr>bk_resolved := c\<rparr>) = bk_ok bk" "bk_ok (bk\<lparr>bk_transfer := d\<rparr>) = bk_ok bk"
  "bk_ok (bk\<lparr>bk_stalled := e\<rparr>) = bk_ok bk" "bk_ok (bk\<lparr>bk_planned := f\<rparr>) = bk_ok bk"
  "bk_ok (bk\<lparr>bk_reincarnation := g\<rparr>) = bk_ok bk" "bk_ok (bk\<lparr>bk_plan_execution := h\<rparr>) = bk_ok bk"
  "bk_ok (bk\<lparr>bk_witnesses := i\<rparr>) = bk_ok bk" "bk_ok (bk\<lparr>bk_activity := t\<rparr>) = bk_ok bk"
  "bk_ok (bk\<lparr>bk_view_change := Clear\<rparr>)" "bk_ok (bk\<lparr>bk_view_change := SetTo vc\<rparr>) = vc_ok vc"
  by (simp_all add: bk_ok_def no_bookkeeping_def)

lemma sound_candidate_plan [sound_simps]:
  "sound b r (candidate_plan r cand m effects kind False) \<longleftrightarrow>
     check cand = Ok () \<and> wf_table (p_config cand)
     \<and> applies_in (p_committed (rp_progress r)) (p_committed cand) effects \<and> keeps_committed r m
     \<and> (b \<longrightarrow> mutation_frontier (p_accepted (rp_progress r)) m = p_accepted cand)"
  by (auto simp: sound_def candidate_plan_def)

lemma sound_with [sound_simps]:
  "sound b r (with_diagnostic pl d) = sound b r pl"
  "sound b r (with_fault_declared pl f) = sound b r pl"
  "sound b r (with_activity pl at) = sound b r pl"
  "sound b r (with_reincarnation pl u) = sound b r pl"
  "sound b r (with_plan_execution pl v) = sound b r pl"
  "sound b r (with_witness pl w) = sound b r pl"
  "sound b r (with_stalled_offer pl n m) = sound b r pl"
  "sound b r (with_fetch pl (fetch view target s)) = sound b r pl"
  "apply_slot e = None \<Longrightarrow> sound b r (with_effect pl e) = sound b r pl"
  by (auto simp: sound_def with_diagnostic_def with_fault_declared_def with_activity_def with_reincarnation_def
      with_plan_execution_def with_witness_def with_stalled_offer_def with_fetch_def with_effect_def fetch_def
      applies_in_append_none)

lemma sound_with_bookkeeping: "sound b r pl \<Longrightarrow> bk_ok bk \<Longrightarrow> sound b r (with_bookkeeping pl bk)"
  by (simp add: sound_def with_bookkeeping_def)

lemma sound_weaken: "sound True r pl \<Longrightarrow> sound b r pl"
  by (simp add: sound_def)

lemma ensures_weaken: "ensures (sound True r) m \<Longrightarrow> ensures (sound b r) m"
  using ensures_mono sound_weaken by blast

lemma identity_candidate_ensures:
  "(\<And>p. p_accepted p = p_accepted (rp_progress r) \<Longrightarrow> p_committed p = p_committed (rp_progress r) \<Longrightarrow>
      p_config p = p_config (rp_progress r) \<Longrightarrow> check p = Ok () \<Longrightarrow> P p) \<Longrightarrow> ensures P (identity_candidate r)"
  unfolding identity_candidate_def ensures_map_err by (rule ensuresI) (auto dest: transition_keeps(1))

lemma with_ensures:
  assumes "\<And>p. p_accepted p = p_accepted q \<Longrightarrow> p_committed p = p_committed q \<Longrightarrow> p_config p = p_config q \<Longrightarrow>
      check p = Ok () \<Longrightarrow> P p"
  shows "ensures P (with_status q st)" "ensures P (with_view_change q v)" "ensures P (with_checkpoint q s)"
    "ensures P (with_fault q f)"
  using assms by (auto intro!: ensuresI dest!: transition_keeps)

lemma identity_plan_sound:
  "ready r \<Longrightarrow> apply_slots effects = [] \<Longrightarrow> ensures (sound b r) (identity_plan r effects kind)"
  unfolding identity_plan_def ensures_bind
  by (rule identity_candidate_ensures) (simp add: sound_simps ready_facts(1))

lemma drop_plan_sound: "ready r \<Longrightarrow> ensures (sound b r) (drop_plan r d kind)"
  unfolding drop_plan_def ensures_bind
  by (rule ensures_mono [OF identity_plan_sound]) (simp_all add: sound_simps)

lemma breach_plan_sound: "ready r \<Longrightarrow> ensures (sound b r) (breach_plan r kind)"
  unfolding breach_plan_def ensures_bind
  by (rule ensures_mono [OF identity_plan_sound]) (simp_all add: sound_simps)

text \<open>The rules a handler's proof closes its leaves with.\<close>

lemmas leaf_sound = drop_plan_sound breach_plan_sound identity_plan_sound

lemma on_fold_sound:
  assumes "ready r"
    and "\<And>fd. fold_committed r j overlay lo through paced = Inr fd \<Longrightarrow> ensures (sound b r) (k fd)"
  shows "ensures (sound b r) (on_fold r kind (fold_committed r j overlay lo through paced) k)"
  using assms leaf_sound [OF assms(1)]
  by (auto simp: on_fold_def split: sum.split commit_fold.split)

lemma apply_slots_Send [simp]: "apply_slots (Eff_Send a b m # es) = apply_slots es"
  by simp

lemma apply_slots_AdminResponse [simp]: "apply_slots (Eff_AdminResponse v # es) = apply_slots es"
  by simp


lemma verdict_eq:
  "case_suffix_check I G C v = Inr a \<longleftrightarrow>
     (\<exists>m. v = SC_Install m \<and> I m = Inr a) \<or> (\<exists>e g. v = SC_Gap e g \<and> G e g = Inr a)
     \<or> v = SC_Conflict \<and> C = Inr a"
  by (cases v) auto

text \<open>The same facts read from a successful computation.\<close>

lemma candidate_withD:
  "candidate_with r st accepted committed applied config view = Inr p \<Longrightarrow>
     p_accepted p = accepted \<and> p_committed p = committed \<and> p_config p = config \<and> check p = Ok ()"
  by (auto simp: candidate_with_def reconstitute_Ok)

lemma install_candidateD:
  "install_candidate r view accepted committed applied config = Inr p \<Longrightarrow>
     p_accepted p = accepted \<and> p_committed p = committed \<and> p_config p = config \<and> check p = Ok ()"
  by (auto simp: install_candidate_def reconstitute_Ok)

lemma identity_candidateD:
  "identity_candidate r = Inr p \<Longrightarrow>
     p_accepted p = p_accepted (rp_progress r) \<and> p_committed p = p_committed (rp_progress r)
     \<and> p_config p = p_config (rp_progress r) \<and> check p = Ok ()"
  by (auto simp: identity_candidate_def dest: transition_keeps(1))

lemmas candidateD = candidate_withD install_candidateD identity_candidateD transition_keeps

lemma apply_effectsD:
  "apply_effects j lo through = Inr es \<Longrightarrow> applies_in lo through es"
  "apply_effects_merged j overlay lo through = Inr es \<Longrightarrow> applies_in lo through es"
  using apply_effects_in ensuresD by metis+

lemma leafD:
  assumes "ready r"
  shows "drop_plan r d kind = Inr pl \<Longrightarrow> sound b r pl" "breach_plan r kind = Inr pl \<Longrightarrow> sound b r pl"
    "identity_plan r effects kind = Inr pl \<Longrightarrow> apply_slots effects = [] \<Longrightarrow> sound b r pl"
  using leaf_sound [OF assms] ensuresD by metis+


section \<open>Reconfiguration\<close>

lemma number_entries_last:
  "number_entries cursor xs = Inr es \<Longrightarrow> length es = length xs"
  by (induction cursor xs arbitrary: es rule: number_entries.induct) auto

lemma plan_reconfigure_sound:
  assumes "ready r" "plan_reconfigure r j op pv = Inr pl"
  shows "sound b r pl"
  using assms(2) keeps_accept [OF assms(1)] ready_facts(1) [OF assms(1)]
  by (auto simp: plan_reconfigure_def Let_def sound_simps intro!: sound_with_bookkeeping dest!: candidateD
      split: prod.splits)

lemma plan_fuse_batch_sound:
  assumes "ready r" "plan_fuse_batch r j ops = Inr pl"
  shows "sound b r pl"
  using assms(2) keeps_accept [OF assms(1)] ready_facts(1) [OF assms(1)]
  by (auto simp: plan_fuse_batch_def Let_def sound_simps intro!: sound_with_bookkeeping dest!: candidateD
      split: prod.splits if_splits)

lemma plan_step_proposal_sound:
  assumes "ready r" "plan_step_proposal r j op = Inr pl"
  shows "sound b r pl"
  using assms plan_reconfigure_sound plan_fuse_batch_sound
  by (auto simp: plan_step_proposal_def split: sysop.splits if_splits)

lemma plan_planned_view_change_sound:
  assumes "ready r" "plan_planned_view_change r j sender m kind = Inr pl"
  shows "sound b r pl"
  using assms(2) leafD [OF assms(1), where b = b]
  by (auto simp: plan_planned_view_change_def Let_def sound_simps split: if_splits option.splits)

lemma plan_planned_evidence_sound:
  assumes "ready r" "plan_planned_evidence r j sender m retained accepted committed suffix evidence at kind = Inr pl"
  shows "sound b r pl"
  using assms(2) leafD [OF assms(1), where b = b] ready_facts(1) [OF assms(1)]
  by (auto simp: plan_planned_evidence_def Let_def sound_simps intro!: sound_with_bookkeeping dest!: candidateD
      split: if_splits option.splits)

lemma overlap_solicitation_sound:
  assumes "overlap_solicitation r config covered = Inr (config', effects, u)" "wf_table config"
  shows "wf_table config'" "apply_slots effects = []"
  using assms transition_pivot_recorded [of config]
  by (auto simp: overlap_solicitation_def split: option.splits if_splits)


section \<open>The view change\<close>

lemma own_evidence_ok:
  assumes "ready r" "own_evidence r (own_view r) = Inr ev"
  shows "ev_ok ev"
  using assms(2) bounded_suffix_own [OF ready_facts(6) [OF assms(1)] ready_facts(5) [OF assms(1)]]
  by (auto simp: own_evidence_def Let_def ev_ok_def)

lemma highest_committed_ge: "p_committed (rp_progress r) \<le> highest_committed r evidence"
proof -
  have "s \<le> fold (\<lambda>(_, m) s. max s (ev_committed m)) xs s" for s and xs :: "(node_id \<times> evidence) list"
  proof (induction xs arbitrary: s)
    case (Cons x xs)
    show ?case
      using Cons.IH [of "max s (ev_committed (snd x))"] by (auto simp: case_prod_unfold intro: order_trans [rotated])
  qed simp
  then show ?thesis by (simp add: highest_committed_def)
qed

lemma on_foldD:
  assumes "ready r" "on_fold r kind (fold_committed r j overlay lo through paced) k = Inr pl"
    and "\<And>fd. fold_committed r j overlay lo through paced = Inr fd \<Longrightarrow> k fd = Inr pl \<Longrightarrow> sound b r pl"
  shows "sound b r pl"
  using assms(2,3) leafD [OF assms(1)] by (auto simp: on_fold_def split: sum.splits commit_fold.splits)

lemma plan_win_view_sound:
  assumes "ready r" "ev_ok selected" "apply_slots effects = []"
    and "plan_win_view r (own_view r) target selected evidence effects at kind = Inr outcome"
  shows "outcome = WO_Installed pl \<Longrightarrow> sound b r pl"
    and "outcome = WO_Insufficient expected got effects' \<Longrightarrow> effects' = effects"
proof -
  let ?c = "highest_committed r evidence"
  have installed: "sound b r pl"
    if le: "\<not> ?c > ev_accepted selected"
      and ck: "check_suffix r (own_view r) (ev_suffix selected) (ev_accepted selected) ?c
                 (p_checkpoint (rp_progress r)) = Inr (SC_Install mutation)"
      and f: "on_fold r kind (fold_committed r (own_view r) (ev_suffix selected) (p_committed (rp_progress r)) ?c False) (\<lambda>fd.
                 rbind (install_candidate r target (ev_accepted selected) ?c applied (fd_table fd)) (\<lambda>candidate.
                 rbind (apply_effects_merged (own_view r) (ev_suffix selected) (p_committed (rp_progress r)) ?c) (\<lambda>applies.
                 rbind (ok_or (bounded_suffix r (own_view r) (ev_accepted selected) (ev_suffix selected)) PR_Panic) (\<lambda>suffix.
                 rbind (make_era_proof r (b_era target)) (\<lambda>evidence_of_era.
                 Ok (with_bookkeeping
                       (candidate_plan r candidate mutation
                          (effects @ applies @ send_all (backups r) (b_era target)
                             (mk_message Tag_StartView target (ev_accepted selected)
                                (B_StartView suffix (ev_accepted selected) ?c evidence_of_era)))
                          kind False)
                       (no_bookkeeping\<lparr>bk_proposals := installed_proposals (own_view r) (ev_suffix selected) ?c (ev_accepted selected),
                          bk_view_change := Clear, bk_planned := Clear, bk_activity := Some at\<rparr>))))))) = Inr pl"
    for mutation applied pl
  proof (rule on_foldD [OF assms(1) f], goal_cases)
    case (1 fd)
    have shape: "suffix_shape_ok (ev_suffix selected) (ev_accepted selected)" using assms(2) by (simp add: ev_ok_def)
    have "p_committed (rp_progress r) \<le> ev_accepted selected"
      using highest_committed_ge [of r evidence] le by simp
    note keeps = keeps_check [OF assms(1) ck shape this] and fr = frontier_check [OF assms(1) ck shape]
    show ?case
      using 1 keeps fr assms(3) fold_committed_result(5) [OF 1(1)] ready_facts(1) [OF assms(1)]
      by (auto simp: sound_simps applies_in_append_none intro!: sound_with_bookkeeping dest!: candidateD apply_effectsD)
  qed
  show "outcome = WO_Installed pl \<Longrightarrow> sound b r pl"
  proof -
    assume o: "outcome = WO_Installed pl"
    have le: "\<not> ?c > ev_accepted selected"
      using assms(4) o by (auto simp: plan_win_view_def Let_def)
    then obtain verdict where v: "check_suffix r (own_view r) (ev_suffix selected) (ev_accepted selected) ?c
        (p_checkpoint (rp_progress r)) = Inr verdict"
      using assms(4) by (auto simp: plan_win_view_def Let_def)
    show ?thesis
    proof (cases verdict)
      case (SC_Install m)
      then show ?thesis
        using assms(4) o le v by (auto simp: plan_win_view_def Let_def intro: installed [OF le])
    next
      case SC_Conflict
      then show ?thesis
        using assms(4) o le v by (auto simp: plan_win_view_def Let_def intro: leafD(2) [OF assms(1)])
    qed (use assms(4) o le v in \<open>simp add: plan_win_view_def Let_def\<close>)
  qed
  show "outcome = WO_Insufficient expected got effects' \<Longrightarrow> effects' = effects"
  proof (cases "?c > ev_accepted selected")
    case False
    then obtain verdict where v: "check_suffix r (own_view r) (ev_suffix selected) (ev_accepted selected) ?c
        (p_checkpoint (rp_progress r)) = Inr verdict"
      using assms(4) by (auto simp: plan_win_view_def Let_def)
    then show "outcome = WO_Insufficient expected got effects' \<Longrightarrow> effects' = effects"
      using assms(4) False by (cases verdict) (auto simp: plan_win_view_def Let_def)
  qed (use assms(4) in \<open>simp add: plan_win_view_def Let_def\<close>)
qed

lemma set_map_or_insert: "set (map_or_insert n a xs) \<subseteq> insert (n, a) (set xs)"
  by (induction xs) (auto split: if_splits)

lemma vc_ok_insert: "vc_ok vc \<Longrightarrow> ev_ok a \<Longrightarrow> vc_ok (vc\<lparr>vc_evidence := map_or_insert n a (vc_evidence vc)\<rparr>)"
  using set_map_or_insert [of n a "vc_evidence vc"] by (fastforce simp: vc_ok_def)

lemma vc_ok_fences [simp]: "vc_ok (vc\<lparr>vc_fences := f\<rparr>) = vc_ok vc"
  by (simp add: vc_ok_def)

lemma select_history_in: "select_history xs = Some (n, ev) \<Longrightarrow> (n, ev) \<in> set xs"
proof -
  have "fold (\<lambda>(sender, m) best. case best of None \<Rightarrow> Some (sender, m)
      | Some (_, incumbent) \<Rightarrow> if better_evidence m incumbent then Some (sender, m) else best) xs best = Some (n, ev) \<Longrightarrow>
      (n, ev) \<in> set xs \<or> best = Some (n, ev)" for best
  proof (induction xs arbitrary: best)
    case (Cons x xs)
    show ?case
    proof (cases best)
      case None
      then show ?thesis using Cons.IH [of "Some x"] Cons.prems by (cases x) auto
    next
      case (Some incumbent)
      then show ?thesis
        using Cons.IH [of "if better_evidence (snd x) (snd incumbent) then Some x else best"] Cons.prems
        by (cases x; cases incumbent) (auto split: if_split_asm)
    qed
  qed simp
  from this [of None] show "select_history xs = Some (n, ev) \<Longrightarrow> (n, ev) \<in> set xs"
    by (simp add: select_history_def)
qed

lemma vc_ok_select: "vc_ok vc \<Longrightarrow> vc_ok (select_when_quorum r config vc)"
  using select_history_in [of "vc_evidence vc"] by (auto simp: select_when_quorum_def vc_ok_def)

lemma record_own_evidence_ok:
  assumes "ready r" "record_own_evidence r (own_view r) config vc effects = Inr (vc', effects')"
    "vc_ok vc" "apply_slots effects = []"
  shows "vc_ok vc'" "apply_slots effects' = []" "vc_target vc' = vc_target vc"
  using assms(2-4) own_evidence_ok [OF assms(1)]
  by (auto simp: record_own_evidence_def Let_def do_view_change_effect_def intro: vc_ok_insert split: if_splits)

lemma continue_view_change_sound:
  assumes "ready r" and ok: "continue_view_change r (own_view r) candidate vc effects at kind = Inr pl"
    and "vc_ok vc" "apply_slots effects = []"
    and cand: "p_accepted candidate = p_accepted (rp_progress r)" "p_committed candidate = p_committed (rp_progress r)"
      "p_config candidate = p_config (rp_progress r)" "check candidate = Ok ()"
  shows "sound b r pl"
proof (cases "et_record (p_config (rp_progress r)) (b_era (vc_target vc))")
  case None
  then show ?thesis using ok leafD(1) [OF assms(1)] by (simp add: continue_view_change_def)
next
  case (Some era_rec)
  have waiting: "sound b r (with_bookkeeping (candidate_plan r candidate JM_None effs kind False)
      (no_bookkeeping\<lparr>bk_view_change := SetTo vc', bk_planned := Clear\<rparr>))"
    if "vc_ok vc'" "apply_slots effs = []" for vc' effs
    using that cand ready_facts(1) [OF assms(1)]
    by (intro sound_with_bookkeeping) (simp_all add: sound_simps)
  obtain vc' effects' where re: "record_own_evidence r (own_view r) (er_config era_rec) vc effects = Inr (vc', effects')"
    using ok Some
    by (cases "record_own_evidence r (own_view r) (er_config era_rec) vc effects") (auto simp: continue_view_change_def)
  note own = record_own_evidence_ok [OF assms(1) re assms(3,4)]
  let ?vc = "select_when_quorum r (er_config era_rec) vc'"
  have sel: "vc_ok ?vc" by (rule vc_ok_select [OF own(1)])
  show ?thesis
  proof (cases "primary_of r (vc_target vc) = Some (rp_own r) \<and> rp_own r \<in> fst ` set (vc_evidence vc')")
    case False
    then have "pl = with_bookkeeping (candidate_plan r candidate JM_None effects' kind False)
      (no_bookkeeping\<lparr>bk_view_change := SetTo vc', bk_planned := Clear\<rparr>)"
      using ok Some re by (auto simp: continue_view_change_def)
    then show ?thesis using waiting own by simp
  next
    case lead: True
    show ?thesis
    proof (cases "vc_selected ?vc")
      case None
      then have "pl = with_bookkeeping (candidate_plan r candidate JM_None effects' kind False)
        (no_bookkeeping\<lparr>bk_view_change := SetTo ?vc, bk_planned := Clear\<rparr>)"
        using ok Some re lead by (simp add: continue_view_change_def Let_def)
      then show ?thesis using waiting sel own by simp
    next
      case (Some choice)
      obtain reporter selected where c: "choice = (reporter, selected)" by fastforce
      have evs: "ev_ok selected" using sel Some c by (auto simp: vc_ok_def)
      obtain outcome where win: "plan_win_view r (own_view r) (vc_target vc) selected (vc_evidence ?vc) effects' at kind = Inr outcome"
        using ok \<open>et_record _ _ = Some era_rec\<close> re lead Some c by (auto simp: continue_view_change_def Let_def)
      note w = plan_win_view_sound [OF assms(1) evs own(2) win]
      show ?thesis
      proof (cases outcome)
        case (WO_Installed pl')
        then have "pl = pl'"
          using ok \<open>et_record _ _ = Some era_rec\<close> re lead Some c win by (simp add: continue_view_change_def Let_def)
        then show ?thesis using w(1) WO_Installed by simp
      next
        case (WO_Insufficient lacking seen effs)
        then have "effs = effects'" using w(2) by simp
        then show ?thesis
          using ok \<open>et_record _ _ = Some era_rec\<close> re lead Some c win WO_Insufficient waiting [OF sel own(2)]
          by (auto simp: continue_view_change_def Let_def sound_simps)
      qed
    qed
  qed
qed

lemma vc_ok_fresh: "vc_ok \<lparr>vc_target = t, vc_fences = f, vc_evidence = [], vc_selected = None\<rparr>"
  by (simp add: vc_ok_def)

lemma enter_view_change_sound:
  assumes "ready r" "enter_view_change r (own_view r) target heard at kind = Inr pl"
  shows "sound b r pl"
  using assms(2)
  by (auto simp: enter_view_change_def vc_ok_fresh dest!: transition_keeps(2)
      intro: continue_view_change_sound [OF assms(1)])

lemma plan_admin_force_view_sound:
  assumes "ready r" "plan_admin_force_view r (own_view r) target at = Inr pl"
  shows "sound b r pl"
  using assms(2)
  by (auto intro: enter_view_change_sound [OF assms(1)] simp: plan_admin_force_view_def Let_def split: if_splits)

lemma plan_start_view_change_sound:
  assumes "ready r" "plan_start_view_change r (own_view r) sender m at kind = Inr pl"
  shows "sound b r pl"
  using assms(2)
  by (auto simp: plan_start_view_change_def Let_def ready_facts(7) [OF assms(1)]
      intro: enter_view_change_sound [OF assms(1)] leafD [OF assms(1)] continue_view_change_sound [OF assms(1)]
      split: if_splits option.splits dest!: identity_candidateD)

lemma plan_do_view_change_sound:
  assumes "ready r" "plan_do_view_change r (own_view r) sender m retained accepted committed suffix ek evidence at kind = Inr pl"
  shows "sound b r pl"
proof -
  have ins: "vc_ok (vc\<lparr>vc_evidence := map_or_insert n ev (vc_evidence vc)\<rparr>)"
    if "rp_view_change r = Some vc" "ev_ok ev" for vc n ev
    using that ready_facts(7) [OF assms(1)] by (intro vc_ok_insert) auto
  show ?thesis
    using assms(2)
    by (auto simp: plan_do_view_change_def Let_def ins ev_ok_def
        intro: leafD [OF assms(1)] plan_planned_evidence_sound [OF assms(1)] continue_view_change_sound [OF assms(1)]
        split: if_splits option.splits dest!: identity_candidateD)
qed

lemma plan_start_view_sound:
  assumes "ready r" "plan_start_view r (own_view r) sender m suffix accepted committed evidence at kind = Inr pl"
  shows "sound b r pl"
proof -
  let ?p = "rp_progress r"
  have offer: "plan_unknown_era_offer r sender m evidence kind = Inr pl \<Longrightarrow> sound b r pl"
    using leafD [OF assms(1)] by (auto simp: plan_unknown_era_offer_def Let_def sound_simps split: if_splits option.splits)
  have installed: "sound b r pl"
    if shape: "suffix_shape_ok suffix accepted" and cov: "p_committed ?p \<le> accepted"
      and ck: "check_suffix r (own_view r) suffix accepted committed (p_checkpoint ?p) = Inr (SC_Install mutation)"
      and f: "on_fold r kind (fold_committed r (own_view r) suffix (p_committed ?p) committed False) (\<lambda>fd.
                rbind (install_candidate r (h_view (msg_header m)) accepted committed applied (fd_table fd)) (\<lambda>candidate.
                rbind (apply_effects_merged (own_view r) suffix (p_committed ?p) committed) (\<lambda>effects.
                Ok (with_bookkeeping (candidate_plan r candidate mutation effects kind False)
                      (no_bookkeeping\<lparr>bk_view_change := Clear, bk_stalled := Clear, bk_planned := Clear,
                                      bk_activity := Some at\<rparr>))))) = Inr pl"
    for mutation applied
  proof (rule on_foldD [OF assms(1) f], goal_cases)
    case (1 fd)
    show ?case
      using 1 keeps_check [OF assms(1) ck shape cov] frontier_check [OF assms(1) ck shape]
        fold_committed_result(5) [OF 1(1)] ready_facts(1) [OF assms(1)]
      by (auto simp: sound_simps intro!: sound_with_bookkeeping dest!: candidateD apply_effectsD)
  qed
  show ?thesis
    using assms(2)
    by (auto simp: plan_start_view_def Let_def sound_simps not_less verdict_eq intro: offer installed leafD [OF assms(1)]
        split: if_splits option.splits)
qed

end
