(* ===== verification/Handlers_Sound.thy ===== *)
theory Handlers_Sound
  imports Replica_Sound
begin

text \<open>
  The soundness of the remaining handlers: state transfer, normal operation, plan execution,
  reincarnation and the tick; and of \<open>plan\<close> itself, for every input. The one claim that does not hold of
  every plan is the accepted frontier of a transfer into a fenced node, which \<open>boot_transfer\<close> singles out.
\<close>

section \<open>State transfer\<close>

lemma plan_higher_view_signal_sound:
  assumes "ready r" "plan_higher_view_signal r (own_view r) sender view at kind = Inr pl"
  shows "sound b r pl"
  using assms(2) enter_view_change_sound [OF assms(1)]
  by (auto simp: plan_higher_view_signal_def sound_simps split: option.splits)

lemma plan_get_state_sound:
  assumes "ready r" "plan_get_state r j sender m lo kind = Inr pl"
  shows "sound b r pl"
  using assms(2)
  by (auto simp: plan_get_state_def Let_def intro: leafD [OF assms(1)] split: if_splits)

lemma transfer_candidateD:
  "transfer_candidate r j overlay acc com config walked bump = Inr p \<Longrightarrow>
     p_accepted p = acc \<and> p_committed p = com \<and> p_config p = config \<and> check p = Ok ()"
  by (auto simp: transfer_candidate_def Let_def reconstitute_Ok split: option.splits dest!: candidate_withD)

text \<open>A suffix of the right shape that starts at or below a slot and ends above it holds that slot.\<close>

lemma shape_reaches:
  assumes "shape_from ex es" "e \<in> set es" "le_slot e \<le> n" "n < le_slot (last es)"
  shows "\<exists>x \<in> set es. le_slot x = n"
  using assms
proof (induction es arbitrary: ex e)
  case (Cons y ys)
  show ?case
  proof (cases "e \<in> set ys")
    case True
    then have "ys \<noteq> []" by auto
    with Cons.IH [OF _ True Cons.prems(3)] Cons.prems(1,4) show ?thesis by (auto split: if_splits)
  next
    case False
    then have e: "e = y" using Cons.prems(2) by simp
    show ?thesis
    proof (cases "le_slot y = n")
      case lt: False
      then have "ys \<noteq> []" using Cons.prems(3,4) e by auto
      then obtain z zs where z: "ys = z # zs" by (cases ys) auto
      have "unat (le_slot y) < unat n" using lt Cons.prems(3) e by (simp add: word_le_nat_alt word_eq_nat)
      then have "slot_next (le_slot y) \<noteq> None"
        using unsigned_less [of n, where ?'a = nat] by (auto simp: slot_next_None)
      then obtain k where k: "slot_next (le_slot y) = Some k" by blast
      have sh: "shape_from (Some k) ys" using Cons.prems(1) k by (auto split: if_splits)
      then have "le_slot z = k" using z by (auto split: if_splits)
      moreover have "unat k = unat (le_slot y) + 1" using k by (simp add: slot_next_Some)
      ultimately have "le_slot z \<le> n" using \<open>unat (le_slot y) < unat n\<close> by (simp add: word_le_nat_alt)
      from Cons.IH [OF sh _ this] z Cons.prems(4) show ?thesis by auto
    qed auto
  qed
qed simp

lemma truncated_keeps:
  assumes "ready r" "suffix_shape_ok entries through" "nc < through" "p_committed (rp_progress r) \<le> nc"
    and ok: "truncated_mutation r (own_view r) entries nc committed = Inr (SC_Install k)"
  shows "keeps_committed r k"
proof (cases "filter (\<lambda>e. le_slot e \<le> nc) entries = []")
  case True
  then show ?thesis using ok by (simp add: truncated_mutation_def Let_def)
next
  case False
  then obtain e where e: "e \<in> set entries" "le_slot e \<le> nc" by (auto simp: filter_empty_conv)
  then have "shape_from None entries" "le_slot (last entries) = through"
    using assms(2) by (auto simp: suffix_shape_ok_def)
  from shape_reaches [OF this(1) e] this(2) assms(3) obtain x where x: "x \<in> set entries" "le_slot x = nc" by auto
  show ?thesis
    by (rule keeps_covered [OF assms(1), of "filter (\<lambda>e. le_slot e \<le> nc) entries" nc committed SLOT_NONE])
       (use ok False x assms(4) in \<open>auto simp: truncated_mutation_def Let_def\<close>)
qed

lemma transfer_plan_sound:
  assumes "applies_in (p_committed (rp_progress r)) (p_committed cand) effects" "check cand = Ok ()"
    "wf_table (p_config cand)" "keeps_committed r k"
    "b \<Longrightarrow> mutation_frontier (p_accepted (rp_progress r)) k = p_accepted cand"
  shows "sound b r (with_bookkeeping
         (candidate_plan r cand k
            (effects @ (case (if c then map_option (fetch v n) s else None) of Some (effect, _) \<Rightarrow> [effect] | None \<Rightarrow> [])) kind False)
         (no_bookkeeping\<lparr>bk_transfer := u\<rparr>))"
proof -
  have "apply_slots (case (if c then map_option (fetch v n) s else None) of Some (effect, _) \<Rightarrow> [effect] | None \<Rightarrow> []) = []"
    by (cases s) (auto simp: fetch_def)
  then show ?thesis
    using assms by (intro sound_with_bookkeeping) (simp_all add: sound_simps applies_in_append_none)
qed

lemma install_transfer_sound:
  assumes "ready r" and shape: "suffix_shape_ok entries through"
    and ck: "check_suffix r (own_view r) entries through committed SLOT_NONE = Inr (SC_Install mutation)"
    and fd: "wf_table (fd_table fd)" "p_committed (rp_progress r) \<le> fd_covered fd" "p_accepted (rp_progress r) < through"
    and ok: "install_transfer r (own_view r) sender view entries through committed follows kind mutation boot fd = Inr pl"
    and b: "b \<Longrightarrow> \<not> boot"
  shows "sound b r pl"
proof -
  let ?p = "rp_progress r" and ?nc = "fd_covered fd"
  let ?cov = "filter (\<lambda>e. le_slot e \<le> ?nc) entries"
  have whole: "keeps_committed r mutation" "mutation_frontier (p_accepted ?p) mutation = through"
    using keeps_check [OF assms(1) ck shape] frontier_check [OF assms(1) ck shape] fd(3)
      ready_facts(4) [OF assms(1)] by auto
  obtain verdict where v: "(if boot \<and> ?nc < through then truncated_mutation r (own_view r) entries ?nc committed
      else Ok (SC_Install mutation)) = Inr verdict"
    using ok by (auto simp: install_transfer_def Let_def)
  show ?thesis
  proof (cases verdict)
    case (SC_Install k)
    have keeps: "keeps_committed r k"
    proof (cases "boot \<and> ?nc < through")
      case True
      then show ?thesis using v SC_Install truncated_keeps [OF assms(1) shape _ fd(2)] by auto
    qed (use v SC_Install whole in auto)
    have frontier: "mutation_frontier (p_accepted ?p) k = max (p_accepted ?p) through" if b
      using v SC_Install whole(2) b [OF that] fd(3) by (auto simp: max_def)
    have applies: "applies_in (p_committed ?p) ?nc effects"
      if "(if ?nc > p_committed ?p then apply_effects_merged (own_view r) ?cov (p_committed ?p) ?nc else Ok []) = Inr effects"
      for effects
      using that by (auto split: if_splits dest: apply_effectsD)
    show ?thesis
      using ok v SC_Install keeps fd(1) frontier b
      by (auto simp: install_transfer_def Let_def split del: if_split dest!: applies transfer_candidateD
          intro!: transfer_plan_sound)
  qed (use ok v in \<open>auto simp: install_transfer_def Let_def intro: leafD [OF assms(1)] split del: if_split\<close>)
qed

lemma plan_new_state_sound:
  assumes "ready r" "plan_new_state r (own_view r) sender m entries through committed follows kind = Inr pl"
    and "b \<Longrightarrow> \<not> (h_view (msg_header m) = p_current (rp_progress r) \<and> boot_fenced r)"
  shows "sound b r pl"
proof -
  have inst: "sound b r pl"
    if "suffix_shape_ok entries through" "p_accepted (rp_progress r) < through"
      "check_suffix r (own_view r) entries through committed SLOT_NONE = Inr (SC_Install mutation)"
      "on_fold r kind (fold_committed r (own_view r) entries (p_committed (rp_progress r)) nc True)
         (install_transfer r (own_view r) sender (h_view (msg_header m)) entries through committed follows kind mutation boot) = Inr pl"
      "b \<Longrightarrow> \<not> boot" for mutation nc boot
  proof (rule on_foldD [OF assms(1) that(4)], goal_cases)
    case (1 fd)
    show ?case
      using fold_committed_result(1,5) [OF 1(1)] ready_facts(1) [OF assms(1)] that(5)
      by (intro install_transfer_sound [OF assms(1) that(1,3) _ _ that(2) 1(2)]) auto
  qed
  show ?thesis
    using assms(2,3)
    by (auto simp: plan_new_state_def Let_def verdict_eq not_le intro: leafD [OF assms(1)] inst
        intro!: sound_with_bookkeeping split: if_splits option.splits)
qed


section \<open>Plan execution\<close>

lemma admin_verdict_sound: "ready r \<Longrightarrow> admin_verdict r v kind = Inr pl \<Longrightarrow> sound b r pl"
  using leafD(3) [of r "[Eff_AdminResponse v]" kind pl b] by (simp add: admin_verdict_def)

lemma plan_submit_plan_sound:
  assumes "ready r" "plan_submit_plan r j hp kind = Inr pl"
  shows "sound b r pl"
  using assms(2) admin_verdict_sound [OF assms(1)] plan_step_proposal_sound [OF assms(1)]
  by (auto simp: plan_submit_plan_def Let_def sound_simps split: if_splits sum.splits list.splits)

lemma plan_execution_continuation_sound:
  assumes "ready r" "plan_execution_continuation r j = Some (Inr pl)"
  shows "sound b r pl"
  using assms(2) leafD [OF assms(1)] plan_step_proposal_sound [OF assms(1)]
  by (auto simp: plan_execution_continuation_def sound_simps split: if_splits sum.splits option.splits)


section \<open>Normal operation\<close>

lemma plan_propose_sound:
  assumes "ready r" "plan_propose r op = Inr pl"
  shows "sound b r pl"
  using assms(2) keeps_accept [OF assms(1)] ready_facts(1) [OF assms(1)]
  by (auto simp: plan_propose_def Let_def sound_simps intro!: sound_with_bookkeeping dest!: candidateD
      split: prod.splits)

lemma apply_slots_prepare_ok [simp]: "apply_slots (prepare_ok v n s # es) = apply_slots es"
  by (simp add: prepare_ok_def)

lemma applies_in_prepare_ok [simp]: "applies_in lo hi (prepare_ok v n s # es) = applies_in lo hi es"
  by (simp add: applies_in_def prepare_ok_def)

lemma plan_prepare_again_sound:
  assumes "ready r" "plan_prepare_again r j sender entry piggybacked st kind = Inr pl"
  shows "sound b r pl"
proof -
  have "sound b r pl"
    if "on_fold r kind (fold_committed r j [] (p_committed (rp_progress r)) c True) (\<lambda>fd.
           rbind (applied_walk j [] (p_applied (rp_progress r)) (fd_covered fd)) (\<lambda>applied.
           rbind (candidate_with r st (p_accepted (rp_progress r)) (fd_covered fd) applied (fd_table fd) (fd_bump fd)) (\<lambda>candidate.
           rbind (apply_effects j (p_committed (rp_progress r)) (fd_covered fd)) (\<lambda>applies.
           Ok (candidate_plan r candidate JM_None (prepare_ok (p_current (rp_progress r)) sender (le_slot entry) # applies) kind False))))) = Inr pl"
    for c
  proof (rule on_foldD [OF assms(1) that], goal_cases)
    case (1 fd)
    then show ?case
      using fold_committed_result(5) [OF 1(1)] ready_facts(1) [OF assms(1)]
      by (auto simp: sound_simps dest!: candidateD apply_effectsD)
  qed
  then show ?thesis
    using assms(2) by (auto simp: plan_prepare_again_def Let_def intro: leafD [OF assms(1)] split: if_splits)
qed

lemma plan_prepare_next_sound:
  assumes "ready r" "plan_prepare_next r j sender view entry piggybacked st kind = Inr pl"
  shows "sound b r pl"
proof -
  let ?c = "max (p_committed (rp_progress r)) (min piggybacked (le_slot entry))"
  let ?f = "fold_committed r j [entry] (p_committed (rp_progress r)) ?c True"
  define own where "own = (case ?f of Inl (CF_Breach s err) \<Rightarrow> if s = le_slot entry then Some err else None | _ \<Rightarrow> None)"
  have eq: "plan_prepare_next r j sender view entry piggybacked st kind =
      (case own of
        Some err \<Rightarrow> drop_plan r (D_InvalidSystemOperation (le_slot entry) err) kind
      | None \<Rightarrow> on_fold r kind ?f (\<lambda>fd.
          rbind (judge_entry j entry view (fd_table fd) (fd_covered fd)) (\<lambda>verdict.
            case verdict of
              Some d \<Rightarrow> drop_plan r d kind
            | None \<Rightarrow>
                rbind (applied_walk j [entry] (p_applied (rp_progress r)) (fd_covered fd)) (\<lambda>applied.
                rbind (candidate_with r st (le_slot entry) (fd_covered fd) applied (fd_table fd) (fd_bump fd)) (\<lambda>candidate.
                rbind (apply_effects j (p_committed (rp_progress r)) (fd_covered fd)) (\<lambda>applies.
                Ok (candidate_plan r candidate (JM_Accept [entry])
                      (prepare_ok (p_current (rp_progress r)) sender (le_slot entry) # applies) kind False)))))))"
    unfolding plan_prepare_next_def Let_def own_def ..
  show ?thesis
  proof (cases own)
    case (Some err)
    then show ?thesis using assms(2) eq leafD(1) [OF assms(1)] by simp
  next
    case None
    with assms(2) eq have f: "on_fold r kind ?f (\<lambda>fd.
          rbind (judge_entry j entry view (fd_table fd) (fd_covered fd)) (\<lambda>verdict.
            case verdict of
              Some d \<Rightarrow> drop_plan r d kind
            | None \<Rightarrow>
                rbind (applied_walk j [entry] (p_applied (rp_progress r)) (fd_covered fd)) (\<lambda>applied.
                rbind (candidate_with r st (le_slot entry) (fd_covered fd) applied (fd_table fd) (fd_bump fd)) (\<lambda>candidate.
                rbind (apply_effects j (p_committed (rp_progress r)) (fd_covered fd)) (\<lambda>applies.
                Ok (candidate_plan r candidate (JM_Accept [entry])
                      (prepare_ok (p_current (rp_progress r)) sender (le_slot entry) # applies) kind False)))))) = Inr pl"
      by simp
    show ?thesis
    proof (rule on_foldD [OF assms(1) f], goal_cases)
      case (1 fd)
      then show ?case
        using fold_committed_result(5) [OF 1(1)] ready_facts(1) [OF assms(1)] keeps_accept [OF assms(1)]
        by (auto simp: sound_simps intro: leafD(1) [OF assms(1)] split: option.splits dest!: candidateD apply_effectsD)
    qed
  qed
qed

lemma primary_message_gateD:
  assumes "ready r" "primary_message_gate r (own_view r) sender view at kind rest = Inr pl" "rest = Inr pl \<Longrightarrow> sound b r pl"
  shows "sound b r pl"
  using assms(2,3)
  by (auto simp: primary_message_gate_def Let_def intro: leafD [OF assms(1)] plan_higher_view_signal_sound [OF assms(1)]
      split: if_splits)

lemma plan_prepare_sound:
  assumes "ready r" "plan_prepare r (own_view r) sender m entry piggybacked at kind = Inr pl"
  shows "sound b r pl"
proof (rule primary_message_gateD [OF assms(1) assms(2) [unfolded plan_prepare_def Let_def]])
  assume ok: "(if \<not> (le_era entry = b_era (h_view (msg_header m)) \<or> era_next (b_era (h_view (msg_header m))) = Some (le_era entry))
         then drop_plan r (D_EraDiscipline (le_era entry) (h_view (msg_header m))) kind
         else if h_slot (msg_header m) \<noteq> le_slot entry
         then drop_plan r (D_PrepareSlotMismatch (h_slot (msg_header m)) (le_slot entry)) kind
         else if le_slot entry \<le> p_accepted (rp_progress r)
         then plan_prepare_again r (own_view r) sender entry piggybacked (adopted_status r (h_view (msg_header m))) kind
         else case slot_next (p_accepted (rp_progress r)) of
           None \<Rightarrow> Err PR_SlotSpaceExhausted
         | Some next \<Rightarrow>
             if le_slot entry \<noteq> next then
               rbind (drop_plan r (D_GapDetected next (le_slot entry)) kind) (\<lambda>pl.
                 Ok (with_fetch pl (fetch (p_current (rp_progress r)) sender next)))
             else plan_prepare_next r (own_view r) sender (h_view (msg_header m)) entry piggybacked
                    (adopted_status r (h_view (msg_header m))) kind) = Inr pl"
  show "sound b r pl"
    using ok
    by (auto simp: sound_simps intro: leafD [OF assms(1)] plan_prepare_again_sound [OF assms(1)]
        plan_prepare_next_sound [OF assms(1)] split: if_splits option.splits)
qed

lemma apply_slots_batch: "apply_slots (batch_effects r j through s) = []"
proof (induction r j through s rule: batch_effects.induct)
  case (1 r j through s)
  then show ?case
    by (subst batch_effects.simps) (auto simp: Let_def split: option.split)
qed

lemma finish_commit_quorum_sound:
  assumes "ready r" "finish_commit_quorum r j committed oks kind = Inr pl"
  shows "sound b r pl"
proof (cases "committed = p_committed (rp_progress r)")
  case True
  then show ?thesis
    using assms(2) leafD(3) [OF assms(1), of "[]" kind]
    by (auto simp: finish_commit_quorum_def Let_def intro: sound_with_bookkeeping)
next
  case False
  have "on_fold r kind (fold_committed r j [] (p_committed (rp_progress r)) committed True) (\<lambda>fd.
           let committed = fd_covered fd
           in rbind (overlap_solicitation r (fd_table fd) committed) (\<lambda>(config, solicitation, planned).
              rbind (applied_walk j [] (p_applied (rp_progress r)) committed) (\<lambda>applied.
              rbind (candidate_with r St_Normal (p_accepted (rp_progress r)) committed applied config (fd_bump fd)) (\<lambda>candidate.
              rbind (apply_effects j (p_committed (rp_progress r)) committed) (\<lambda>applies.
              Ok (with_bookkeeping
                    (candidate_plan r candidate JM_None
                       (applies @ broadcast_commit r committed
                        @ commit_batch_effects r j (p_committed (rp_progress r)) committed @ solicitation) kind False)
                    (no_bookkeeping\<lparr>bk_oks := oks, bk_planned := planned,
                       bk_plan_execution := plan_execution_commit r j (p_committed (rp_progress r)) committed\<rparr>)))))))
      = Inr pl"
    using assms(2) False by (simp add: finish_commit_quorum_def Let_def)
  then show ?thesis
  proof (rule on_foldD [OF assms(1)], goal_cases)
    case (1 fd)
    have wf: "wf_table (fd_table fd)"
      using fold_committed_result(5) [OF 1(1)] ready_facts(1) [OF assms(1)] by blast
    show ?case
      using 1(2) overlap_solicitation_sound [OF _ wf]
      by (auto simp: Let_def sound_simps applies_in_append_none commit_batch_effects_def apply_slots_batch
          intro!: sound_with_bookkeeping dest!: candidateD apply_effectsD)
  qed
qed

lemma plan_prepare_ok_sound:
  assumes "ready r" "plan_prepare_ok r j sender m kind = Inr pl"
  shows "sound b r pl"
  using assms(2)
  by (auto simp: plan_prepare_ok_def Let_def sound_simps intro: leafD [OF assms(1)] finish_commit_quorum_sound [OF assms(1)]
      split: if_splits option.splits)

lemma plan_fuse_ok_sound:
  assumes "ready r" "plan_fuse_ok r j sender m kind = Inr pl"
  shows "sound b r pl"
  using assms(2)
  by (auto simp: plan_fuse_ok_def Let_def sound_simps intro: leafD [OF assms(1)] finish_commit_quorum_sound [OF assms(1)]
      split: if_splits option.splits)

lemma plan_commit_sound:
  assumes "ready r" "plan_commit r (own_view r) sender m frontier at kind = Inr pl"
  shows "sound b r pl"
proof -
  have folded: "sound b r pl"
    if "on_fold r kind (fold_committed r (own_view r) [] (p_committed (rp_progress r)) c True) (\<lambda>fd.
           rbind (applied_walk (own_view r) [] (p_applied (rp_progress r)) (fd_covered fd)) (\<lambda>applied.
           rbind (candidate_with r st (p_accepted (rp_progress r)) (fd_covered fd) applied (fd_table fd) (fd_bump fd)) (\<lambda>candidate.
           rbind (apply_effects (own_view r) (p_committed (rp_progress r)) (fd_covered fd)) (\<lambda>effects.
           Ok (candidate_plan r candidate JM_None effects kind False))))) = Inr pl" for c st
  proof (rule on_foldD [OF assms(1) that], goal_cases)
    case (1 fd)
    then show ?case
      using fold_committed_result(5) [OF 1(1)] ready_facts(1) [OF assms(1)]
      by (auto simp: sound_simps dest!: candidateD apply_effectsD)
  qed
  show ?thesis
  proof (rule primary_message_gateD [OF assms(1) assms(2) [unfolded plan_commit_def Let_def]], goal_cases)
    case 1
    then show ?case
      using leafD(3) [OF assms(1), of "[]" kind pl b] by (auto intro: folded split: if_splits)
  qed
qed

lemma case_sum_eq:
  "case_sum L R x = Inr a \<longleftrightarrow> (\<exists>e. x = Inl e \<and> L e = Inr a) \<or> (\<exists>b. x = Inr b \<and> R b = Inr a)"
  by (cases x) auto

lemma plan_fuse_sound:
  assumes "ready r" "plan_fuse r (own_view r) sender m ops at kind = Inr pl"
  shows "sound b r pl"
  using assms(2) ready_facts(1) [OF assms(1)]
  by (auto simp: plan_fuse_def Let_def sound_simps keeps_accept [OF assms(1)] case_sum_eq
      intro: leafD [OF assms(1)] plan_higher_view_signal_sound [OF assms(1)]
      dest!: candidateD split: if_splits option.splits)

end
