(* ===== verification/Plan_Sound.thy ===== *)
theory Plan_Sound
  imports Handlers_Sound
begin

text \<open>
  The soundness of \<open>plan\<close>: reincarnation, the host's frontiers, the tick and the dispatch, for every input
  but a stability confirmation, and the parked transition that a confirmation completes.
\<close>

section \<open>Reincarnation\<close>

lemma identity_plan_none: "ready r \<Longrightarrow> identity_plan r [] kind = Inr pl \<Longrightarrow> sound b r pl"
  using leafD(3) [of r "[]" kind pl b] by simp

lemma sound_effects:
  "sound b r pl \<Longrightarrow> apply_slots es = apply_slots (pt_effects pl) \<Longrightarrow> sound b r (pl\<lparr>pt_effects := es\<rparr>)"
  by (simp add: sound_def applies_in_def)

lemma missed_range_push_send: "missed_range_push r j v t s = Inr (Some eff) \<Longrightarrow> apply_slot eff = None"
  by (auto simp: missed_range_push_def Let_def split: option.splits if_splits)

lemma with_effect_option_sound:
  "sound b r pl \<Longrightarrow> (\<And>eff. ack = Some eff \<Longrightarrow> apply_slot eff = None) \<Longrightarrow> sound b r (with_effect_option pl ack)"
  by (auto simp: with_effect_option_def sound_simps split: option.split)

lemma case_list_eq:
  "case_list N C xs = Inr a \<longleftrightarrow> xs = [] \<and> N = Inr a \<or> (\<exists>y ys. xs = y # ys \<and> C y ys = Inr a)"
  by (cases xs) auto

lemma plan_reincarnation_sound:
  assumes "ready r" "plan_reincarnation r j sender m kind = Inr pl"
  shows "sound b r pl"
proof -
  have push: "sound b r (with_effect_option (with_reincarnation pl u) ack)"
    if "drop_plan r d kind = Inr pl" "missed_range_push r j v t s = Inr ack" for pl d u ack v t s
    using that leafD(1) [OF assms(1)] missed_range_push_send [of r j v t s]
    by (intro with_effect_option_sound) (auto simp: sound_simps)
  have forced: "sound b r (with_reincarnation (pl\<lparr>pt_effects :=
      (case ack of Some eff \<Rightarrow> [eff] | None \<Rightarrow> []) @ pt_effects pl
        @ (case x of Some establishing \<Rightarrow> [Eff_Send n e establishing] | None \<Rightarrow> [])\<rparr>) u)"
    if "plan_reconfigure r j op None = Inr pl" "missed_range_push r j v t s = Inr ack" for pl op u ack v t s x n e
    using that plan_reconfigure_sound [OF assms(1)] missed_range_push_send [of r j v t s]
    by (auto simp: sound_simps intro!: sound_effects split: option.split)
  show ?thesis
    using assms(2)
    by (auto simp: plan_reincarnation_def Let_def case_list_eq intro: leafD [OF assms(1)] push forced
        split: body.splits if_splits)
qed

lemma plan_gossip_request_sound:
  assumes "ready r" "plan_gossip_request r j sender m kind = Inr pl"
  shows "sound b r pl"
  using assms(2) missed_range_push_send
  by (auto simp: plan_gossip_request_def Let_def sound_simps intro: leafD [OF assms(1)]
      intro!: with_effect_option_sound split: body.splits if_splits)

lemma plan_forced_continuation_sound:
  assumes "ready r" "plan_forced_continuation r j = Some (Inr pl)"
  shows "sound b r pl"
  using assms(2) plan_reconfigure_sound [OF assms(1)]
  by (auto simp: plan_forced_continuation_def sound_simps intro: identity_plan_none [OF assms(1)]
      split: option.splits if_splits sum.splits)

lemma plan_reincarnate_sound:
  assumes "ready r" "plan_reincarnate r j old kind = Inr pl"
  shows "sound b r pl"
  using assms(2)
  by (auto simp: plan_reincarnate_def Let_def intro: leafD [OF assms(1)] plan_reincarnation_sound [OF assms(1)]
      split: if_splits)


section \<open>The host's frontiers and the tick\<close>

lemma plan_applied_sound:
  assumes "ready r" "plan_applied r j s = Inr pl"
  shows "sound b r pl"
  using assms(2) ready_facts(1) [OF assms(1)]
  by (auto simp: plan_applied_def Let_def sound_simps intro!: sound_with_bookkeeping dest!: candidateD
      split: if_splits)

lemma plan_checkpointed_sound:
  assumes "ready r" "plan_checkpointed r s = Inr pl"
  shows "sound b r pl"
  using assms(2) ready_facts(1) [OF assms(1)]
  by (auto simp: plan_checkpointed_def Let_def sound_simps dest!: candidateD split: if_splits)

lemma retry_offer_sound:
  assumes "ready r" "retry_offer r (own_view r) at = Some (Inr pl)"
  shows "sound b r pl"
  using assms(2)
  by (auto simp: retry_offer_def Let_def intro: plan_start_view_sound [OF assms(1)]
      split: option.splits if_splits body.splits sum.splits)

lemma retry_win_sound:
  assumes "ready r" "retry_win r (own_view r) at = Some (Inr pl)"
  shows "sound b r pl"
proof -
  have "sound b r pl"
    if "rp_view_change r = Some vc" and cand: "identity_candidate r = Inr c"
      and ok: "continue_view_change r (own_view r) c vc [] at k = Inr pl" for vc c k
    by (rule continue_view_change_sound [OF assms(1) ok])
       (use identity_candidateD [OF cand] ready_facts(7) [OF assms(1) that(1)] in simp_all)
  then show ?thesis
    using assms(2) by (auto simp: retry_win_def Let_def split: option.splits if_splits sum.splits)
qed

lemma retry_fetch_sound:
  assumes "ready r" "retry_fetch r = Some (Inr pl)"
  shows "sound b r pl"
proof -
  have "identity_plan r [fst (fetch v n s)] kind = Inr pl' \<Longrightarrow> sound b r pl'" for v n s kind pl'
    using leafD(3) [OF assms(1), of "[fst (fetch v n s)]"] by (simp add: fetch_def)
  then show ?thesis
    using assms(2)
    by (auto simp: retry_fetch_def Let_def intro!: sound_with_bookkeeping split: option.splits)
qed

lemma plan_tick_sound:
  assumes "ready r" "plan_tick r (own_view r) at = Inr pl"
  shows "sound b r pl"
  using assms(2) ready_facts(1) [OF assms(1)]
  by (auto simp: plan_tick_def Let_def sound_simps dest!: candidateD
      intro: enter_view_change_sound [OF assms(1)] retry_offer_sound [OF assms(1)] retry_win_sound [OF assms(1)]
        retry_fetch_sound [OF assms(1)] plan_forced_continuation_sound [OF assms(1)]
        plan_execution_continuation_sound [OF assms(1)] identity_plan_none [OF assms(1)]
      split: if_splits option.splits)


section \<open>The dispatch\<close>

text \<open>The input whose plan may leave the accepted frontier behind the log: a state transfer of the
  running view into a node that is still fenced.\<close>

definition boot_transfer :: "replica \<Rightarrow> timed_input \<Rightarrow> bool" where
  "boot_transfer r ti \<longleftrightarrow>
     (case ti_event ti of
        In_Peer sender m \<Rightarrow>
          (case msg_body m of
             B_NewState _ _ _ _ \<Rightarrow> h_view (msg_header m) = p_current (rp_progress r) \<and> boot_fenced r
           | _ \<Rightarrow> False)
      | _ \<Rightarrow> False)"

lemma sound_gossip_witness: "sound b r pl \<Longrightarrow> sound b r (with_join_gossip_witness r pl sender)"
  by (simp add: with_join_gossip_witness_def sound_simps)

lemma plan_body_sound:
  assumes "ready r" "plan_body r (own_view r) sender m at kind = Inr pl"
    and "b \<Longrightarrow> \<not> boot_transfer r \<lparr>ti_at = at', ti_event = In_Peer sender m\<rparr>"
  shows "sound b r pl"
  using assms(2,3)
  by (cases "msg_body m")
    (auto simp: plan_body_def boot_transfer_def
      intro: plan_prepare_sound [OF assms(1)] plan_prepare_ok_sound [OF assms(1)] plan_commit_sound [OF assms(1)]
        plan_start_view_change_sound [OF assms(1)] plan_do_view_change_sound [OF assms(1)]
        plan_start_view_sound [OF assms(1)] plan_get_state_sound [OF assms(1)] plan_new_state_sound [OF assms(1)]
        plan_planned_view_change_sound [OF assms(1)] plan_reincarnation_sound [OF assms(1)]
        plan_gossip_request_sound [OF assms(1)] plan_fuse_sound [OF assms(1)] plan_fuse_ok_sound [OF assms(1)]
        leafD(1) [OF assms(1)] sound_gossip_witness)

lemma plan_peer_sound:
  assumes "ready r" "plan_peer r (own_view r) sender m at kind = Inr pl"
    and "b \<Longrightarrow> \<not> boot_transfer r \<lparr>ti_at = at', ti_event = In_Peer sender m\<rparr>"
  shows "sound b r pl"
  using assms(2) plan_body_sound [OF assms(1) _ assms(3)] leafD(1) [OF assms(1)]
  by (auto simp: plan_peer_def sound_simps split: if_splits)

definition confirmation :: "timed_input \<Rightarrow> bool" where
  "confirmation ti \<longleftrightarrow> (case ti_event ti of In_StabilityConfirmation _ _ \<Rightarrow> True | _ \<Rightarrow> False)"

lemma plan_event_sound:
  assumes "ready r" "plan_event r (own_view r) ti = Inr pl" "\<not> confirmation ti"
    and "b \<Longrightarrow> \<not> boot_transfer r ti"
  shows "sound b r pl" "rp_parked r = None"
proof -
  have boot: "\<not> boot_transfer r \<lparr>ti_at = ti_at ti, ti_event = In_Peer sender m\<rparr>"
    if "ti_event ti = In_Peer sender m" "b" for sender m
    using assms(4) that by (cases ti) simp
  show "sound b r pl"
    using assms(2,3) boot
    by (auto simp: plan_event_def confirmation_def split: input.splits
        intro: plan_tick_sound [OF assms(1)] plan_propose_sound [OF assms(1)] plan_peer_sound [OF assms(1)]
          plan_applied_sound [OF assms(1)] plan_admin_force_view_sound [OF assms(1)]
          plan_checkpointed_sound [OF assms(1)] plan_reconfigure_sound [OF assms(1)]
          plan_reincarnate_sound [OF assms(1)] plan_submit_plan_sound [OF assms(1)])
  show "rp_parked r = None"
    using assms(2,3)
    by (auto simp: plan_event_def confirmation_def refuse_if_parked_def split: input.splits if_splits)
qed

lemma own_view_last: "lv_last (own_view r) = sl_accepted (rp_journal r)"
  by (simp add: log_view_of_def)

lemma plan_planned:
  assumes "plan r ti (own_view r) = Inr pl"
  shows "p_fault (rp_progress r) = None" "in_step r" "plan_event r (own_view r) ti = Inr pl"
  using assms by (auto simp: plan_def Let_def in_step_def own_view_last split: option.splits if_splits)

lemma plan_sound:
  assumes "wf_replica r" "plan r ti (own_view r) = Inr pl" "\<not> confirmation ti" "b \<Longrightarrow> \<not> boot_transfer r ti"
  shows "sound b r pl" "rp_parked r = None"
  using plan_event_sound [OF _ plan_planned(3) [OF assms(2)] assms(3,4)] plan_planned(2) [OF assms(2)] assms(1)
  by (simp_all add: ready_def)

end
