(* ===== verification/Host_Run.thy ===== *)
theory Host_Run
  imports Plan_Sound
begin

text \<open>
  Runs of a host: turns, each planned and published, interleaved with journal reclaims, and the
  invariant every run keeps. A host releases the effects a publish returns, in order.
\<close>

section \<open>Runs\<close>

datatype host_event = Turn timed_input | Reclaim

definition released :: "plan_refusal + publish_refusal + publish_outcome \<Rightarrow> effect list" where
  "released outcome =
     (case outcome of
        Inr (Inr (Published _ effects)) \<Rightarrow> effects
      | Inr (Inr (Parked _ effects)) \<Rightarrow> effects
      | _ \<Rightarrow> [])"

definition host_event_step :: "replica \<Rightarrow> host_event \<Rightarrow> effect list \<times> replica" where
  "host_event_step r ev =
     (case ev of
        Turn ti \<Rightarrow> (case host_step r ti of (outcome, r') \<Rightarrow> (released outcome, r'))
      | Reclaim \<Rightarrow> ([], reclaim_journal r))"

fun host_run :: "replica \<Rightarrow> host_event list \<Rightarrow> effect list \<times> replica" where
  "host_run r [] = ([], r)"
| "host_run r (ev # evs) =
     (case host_event_step r ev of (es, r') \<Rightarrow> (case host_run r' evs of (es', r'') \<Rightarrow> (es @ es', r'')))"


section \<open>The invariant\<close>

text \<open>A parked transition is a sound plan of the revision it was planned at.\<close>

definition parked_of :: "planned_transition \<Rightarrow> parked_transition" where
  "parked_of pl = \<lparr>pk_base = pt_base pl, pk_candidate = pt_candidate pl, pk_journal = pt_journal pl,
     pk_effects = pt_effects pl, pk_kind = pt_kind pl, pk_bookkeeping = pt_bookkeeping pl,
     pk_diagnostic = pt_diagnostic pl\<rparr>"

definition parked_ok :: "bool \<Rightarrow> replica \<Rightarrow> bool" where
  "parked_ok b r \<longleftrightarrow> (\<forall>pk. rp_parked r = Some pk \<longrightarrow> (\<exists>pl. sound b r pl \<and> pk = parked_of pl))"

definition host_ok :: "bool \<Rightarrow> replica \<Rightarrow> bool" where
  "host_ok b r \<longleftrightarrow> wf_replica r \<and> rp_observation r = to_progress_snapshot (rp_progress r)
     \<and> (b \<longrightarrow> in_step r) \<and> (p_fault (rp_progress r) = None \<longrightarrow> parked_ok b r)"

lemma host_ok_unparked:
  "rp_parked r = None \<Longrightarrow> host_ok b r \<longleftrightarrow> wf_replica r
     \<and> rp_observation r = to_progress_snapshot (rp_progress r) \<and> (b \<longrightarrow> in_step r)"
  by (auto simp: host_ok_def parked_ok_def)

text \<open>What an event may not do: move the committed frontier back, apply outside the range it commits,
  or let a committed entry go that the log still retains.\<close>

definition advances :: "replica \<Rightarrow> effect list \<Rightarrow> replica \<Rightarrow> bool" where
  "advances r es r' \<longleftrightarrow>
     p_committed (rp_progress r) \<le> p_committed (rp_progress r')
     \<and> applies_in (p_committed (rp_progress r)) (p_committed (rp_progress r')) es
     \<and> sl_first (rp_journal r) \<le> sl_first (rp_journal r')
     \<and> (\<forall>s e. s \<le> p_committed (rp_progress r) \<longrightarrow> log_get (rp_journal r) s = Some e \<longrightarrow>
          log_get (rp_journal r') s = Some e \<or> s < sl_first (rp_journal r'))"

lemma advances_refl: "rp_journal r' = rp_journal r \<Longrightarrow> p_committed (rp_progress r') = p_committed (rp_progress r) \<Longrightarrow>
    apply_slots es = [] \<Longrightarrow> advances r es r'"
  by (simp add: advances_def)

lemma applies_in_trans:
  "applies_in a b xs \<Longrightarrow> applies_in b c ys \<Longrightarrow> a \<le> b \<Longrightarrow> b \<le> c \<Longrightarrow> applies_in a c (xs @ ys)"
  unfolding applies_in_def by (fastforce simp: sorted_wrt_append)

lemma advances_trans:
  assumes "advances r es r'" "advances r' es' r''"
  shows "advances r (es @ es') r''"
proof -
  have "log_get (rp_journal r'') s = Some e \<or> s < sl_first (rp_journal r'')"
    if "s \<le> p_committed (rp_progress r)" "log_get (rp_journal r) s = Some e" for s e
    using assms that unfolding advances_def by (meson order_trans le_less_trans less_le_trans)
  moreover have "applies_in (p_committed (rp_progress r)) (p_committed (rp_progress r'')) (es @ es')"
    using assms by (auto simp: advances_def intro: applies_in_trans)
  ultimately show ?thesis using assms by (auto simp: advances_def)
qed


section \<open>The journal under a mutation\<close>

lemma mutate_cases:
  assumes "mutate_journal l m = Ok l'" "wf_log l"
  shows "wf_log l'" "sl_first l \<le> sl_first l'"
    "unwrap_or (sl_accepted l') SLOT_NONE = mutation_frontier (unwrap_or (sl_accepted l) SLOT_NONE) m"
proof -
  show "wf_log l'" "sl_first l \<le> sl_first l'"
    using assms seg.accept_Ok [OF assms(2)] seg.install_Ok [OF assms(2)]
    by (auto simp: mutate_journal_def word_le_nat_alt split: journal_mutation.splits)
  show "unwrap_or (sl_accepted l') SLOT_NONE = mutation_frontier (unwrap_or (sl_accepted l) SLOT_NONE) m"
    using assms(1) by (auto simp: mutate_journal_def accept_entries_def install_suffix_def Let_def unwrap_or_def
        split: journal_mutation.splits list.splits prod.splits if_splits)
qed

lemma reclaim_accepted [simp]: "sl_accepted (reclaim_through l c) = sl_accepted l"
  by (simp add: reclaim_through_def Let_def split: option.split list.split prod.split)

lemma reclaim_wf: "wf_log l \<Longrightarrow> wf_log (reclaim_through l c)" "wf_log l \<Longrightarrow> sl_first l \<le> sl_first (reclaim_through l c)"
  using seg.reclaim_run [of l c] seg.base_mono(3) [of l c] by (auto simp: word_le_nat_alt)

text \<open>A mutation the reclaimed log takes, the whole log takes.\<close>

lemma mutate_reclaimed:
  assumes "wf_log l" "mutate_journal (reclaim_through l c) (JM_InstallSuffix at es) = Ok l'"
  obtains l2 where "mutate_journal l (JM_InstallSuffix at es) = Ok l2" "sl_first l \<le> at"
proof -
  have "sl_first l \<le> at"
    using assms(2) reclaim_wf(2) [OF assms(1), of c] by (auto simp: mutate_journal_def install_suffix_def split: if_splits)
  moreover from this have "\<exists>l2. mutate_journal l (JM_InstallSuffix at es) = Ok l2"
    using assms(2) by (auto simp: mutate_journal_def install_suffix_def Let_def not_less split: if_splits prod.splits)
  ultimately show ?thesis using that by blast
qed

lemma keeps_committed_reclaim:
  assumes "wf_log (rp_journal r)" "keeps_committed r m"
  shows "keeps_committed (r\<lparr>rp_journal := reclaim_through (rp_journal r) c\<rparr>) m"
proof -
  have "log_get l s = Some e"
    if mut: "mutate_journal (reclaim_through (rp_journal r) c) m = Ok l" and s: "s \<le> p_committed (rp_progress r)"
      and g: "log_get (reclaim_through (rp_journal r) c) s = Some e" for l s e
  proof (cases m)
    case JM_None
    then show ?thesis using mut g by (simp add: mutate_journal_def)
  next
    case (JM_Accept es)
    then show ?thesis
      using mut g seg.accept_reads [OF reclaim_wf(1) [OF assms(1)]] by (auto simp: mutate_journal_def)
  next
    case (JM_InstallSuffix at es)
    from mutate_reclaimed [OF assms(1) mut [unfolded JM_InstallSuffix]] obtain l2 where
      l2: "mutate_journal (rp_journal r) m = Ok l2" unfolding JM_InstallSuffix by blast
    have "log_get (rp_journal r) s = Some e" using g seg.reclaim_reads(1) [OF assms(1)] by blast
    then have "log_get l2 s = Some e" using assms(2) l2 s by (auto simp: keeps_committed_def)
    then show ?thesis
      using g mut l2 seg.install_reads [OF assms(1)] seg.install_reads [OF reclaim_wf(1) [OF assms(1)]]
      by (auto simp: JM_InstallSuffix mutate_journal_def)
  qed
  then show ?thesis by (simp add: keeps_committed_def)
qed


section \<open>Publishing keeps the invariant\<close>

lemma vc_ok_update: "(\<And>vc. old = Some vc \<Longrightarrow> vc_ok vc) \<Longrightarrow> (\<And>vc. u = SetTo vc \<Longrightarrow> vc_ok vc) \<Longrightarrow>
    apply_update u old = Some vc \<Longrightarrow> vc_ok vc"
  by (cases u) auto

lemma fault_node_keeps:
  "rp_journal (fault_node r f) = rp_journal r" "rp_view_change (fault_node r f) = rp_view_change r"
  "p_accepted (rp_progress (fault_node r f)) = p_accepted (rp_progress r)"
  "p_committed (rp_progress (fault_node r f)) = p_committed (rp_progress r)"
  "p_config (rp_progress (fault_node r f)) = p_config (rp_progress r)"
  "check (rp_progress r) = Ok () \<Longrightarrow> check (rp_progress (fault_node r f)) = Ok ()"
  "rp_observation r = to_progress_snapshot (rp_progress r) \<Longrightarrow>
     rp_observation (fault_node r f) = to_progress_snapshot (rp_progress (fault_node r f))"
  "p_fault (rp_progress (fault_node r f)) = None \<Longrightarrow> fault_node r f = r"
  by (auto simp: fault_node_def dest: transition_keeps(4) split: sum.split)
     (auto simp: with_fault_def progress_simps split: sum.splits)

lemma fault_node_ok: "host_ok b r \<Longrightarrow> host_ok b (fault_node r f)"
proof (cases "p_fault (rp_progress (fault_node r f)) = None")
  case True
  then have "fault_node r f = r" by (rule fault_node_keeps(8))
  then show "host_ok b r \<Longrightarrow> host_ok b (fault_node r f)" by simp
qed (auto simp: host_ok_def wf_replica_def in_step_def fault_node_keeps)

lemma fault_node_advances: "advances r [] (fault_node r f)"
  by (rule advances_refl) (simp_all add: fault_node_keeps)

text \<open>A transition the gate passes, installed: sound as a plan, whatever its completion flag.\<close>

lemma install_ok:
  assumes ok: "host_ok b r" and cand: "check c = Ok ()" "wf_table (p_config c)" "bk_ok bk" "keeps_committed r m"
    and fr: "b \<longrightarrow> mutation_frontier (p_accepted (rp_progress r)) m = p_accepted c"
    and leg: "legal (rp_progress r) c kind = None"
    and app: "applies_in (p_committed (rp_progress r)) (p_committed c) es"
    and ins: "install (r\<lparr>rp_parked := None\<rparr>) m c bk d = (r', res)"
  shows "host_ok b r'" "advances r (case res of Inr _ \<Rightarrow> es | Inl _ \<Rightarrow> []) r'"
proof -
  have wf: "wf_replica r" and st: "b \<Longrightarrow> in_step r" and ob: "rp_observation r = to_progress_snapshot (rp_progress r)"
    using ok by (simp_all add: host_ok_def)
  have up: "host_ok b (r\<lparr>rp_parked := None\<rparr>)"
    using wf st ob by (simp add: host_ok_unparked) (simp add: wf_replica_def in_step_def)
  show "host_ok b r'"
  proof (cases "mutate_journal (rp_journal r) m")
    case (Inl e)
    then show ?thesis using ins fault_node_ok [OF up] by (auto simp: install_def)
  next
    case (Inr log)
    have m: "wf_log log" "sl_first (rp_journal r) \<le> sl_first log"
      "unwrap_or (sl_accepted log) SLOT_NONE = mutation_frontier (unwrap_or (sl_accepted (rp_journal r)) SLOT_NONE) m"
      using mutate_cases [OF Inr] wf by (simp_all add: wf_replica_def)
    have vc: "\<And>vc. apply_update (bk_view_change bk) (rp_view_change r) = Some vc \<Longrightarrow> vc_ok vc"
      by (rule vc_ok_update [rotated 2]) (use wf cand(3) in \<open>auto simp: wf_replica_def bk_ok_def\<close>)
    have "1 \<le> sl_first log" using m(2) wf unfolding wf_replica_def by (meson order_trans)
    then show ?thesis
      using Inr ins m cand(1,2) vc fr st
      by (auto simp: install_def installed_replica_def host_ok_unparked wf_replica_def in_step_def)
  qed
  show "advances r (case res of Inr _ \<Rightarrow> es | Inl _ \<Rightarrow> []) r'"
  proof (cases "mutate_journal (rp_journal r) m")
    case (Inl e)
    then have "res = Err (PuR_JournalRefused e)" "r' = fault_node (r\<lparr>rp_parked := None\<rparr>) ProgressJournalDivergence"
      using ins by (auto simp: install_def)
    then show ?thesis by (simp add: advances_refl fault_node_keeps)
  next
    case (Inr log)
    have "p_committed (rp_progress r) \<le> p_committed c" using legal_frontiers [OF leg] by simp
    moreover have "sl_first (rp_journal r) \<le> sl_first log" using mutate_cases [OF Inr] wf by (simp add: wf_replica_def)
    moreover have "res = Ok ()" "rp_journal r' = log" "rp_progress r' = c"
      using Inr ins by (auto simp: install_def installed_replica_def)
    ultimately show ?thesis using app cand(4) Inr by (auto simp: advances_def keeps_committed_def)
  qed
qed

lemma legal_admits: "legal p p' kind = None \<Longrightarrow> p_fault p = None"
  by (simp add: legal_None)

definition install_of :: "replica \<Rightarrow> planned_transition \<Rightarrow> replica \<times> (publish_refusal + publish_outcome)" where
  "install_of r pl =
     (case install (r\<lparr>rp_parked := None\<rparr>) (pt_journal pl) (pt_candidate pl) (pt_bookkeeping pl) (pt_diagnostic pl) of
        (r', Inl e) \<Rightarrow> (r', Err e)
      | (r', Inr _) \<Rightarrow> (r', Ok (Published (p_revision (rp_progress r')) (pt_effects pl))))"

lemma publish_uncompleted:
  assumes "\<not> pt_completion pl"
  shows "publish r pl =
    (case p_fault (rp_progress r) of
       Some f \<Rightarrow> (r, Err (PuR_Faulted f))
     | None \<Rightarrow>
         if pt_base pl \<noteq> p_revision (rp_progress r)
         then (r, Err (PuR_RevisionMismatch (p_revision (rp_progress r)) (pt_base pl)))
         else case pt_fault pl of
           Some f \<Rightarrow> (fault_node r f, Err (PuR_IllegalCandidate f))
         | None \<Rightarrow>
             (case legal (rp_progress r) (pt_candidate pl) (pt_kind pl) of
                Some f \<Rightarrow> (fault_node r f, Err (PuR_IllegalCandidate f))
              | None \<Rightarrow>
                  if rp_stability r = Volatile then install_of r pl
                  else if rp_parked r \<noteq> None then (r, Err PuR_TransitionOutstanding)
                  else (r\<lparr>rp_parked := Some (parked_of pl)\<rparr>,
                        Ok (Parked (pt_base pl) [Eff_Persist (pt_intent pl)]))))"
  using assms by (simp add: publish_def install_of_def parked_of_def Let_def cong: option.case_cong if_cong)

lemma publish_cases:
  assumes "publish r pl = (r', res)" "\<not> pt_completion pl"
  obtains (refused) e where "r' = r" "res = Err e"
    | (faulted) f e where "r' = fault_node r f" "res = Err e"
    | (now) "legal (rp_progress r) (pt_candidate pl) (pt_kind pl) = None" "install_of r pl = (r', res)"
    | (parked) "r' = r\<lparr>rp_parked := Some (parked_of pl)\<rparr>"
        "res = Ok (Parked (pt_base pl) [Eff_Persist (pt_intent pl)])"
proof -
  let ?p = "rp_progress r"
  note eq = assms(1) [unfolded publish_uncompleted [OF assms(2)]]
  show ?thesis
  proof (cases "p_fault ?p = None \<and> pt_base pl = p_revision ?p \<and> pt_fault pl = None
      \<and> legal ?p (pt_candidate pl) (pt_kind pl) = None")
    case True
    then have e: "(if rp_stability r = Volatile then install_of r pl
        else if rp_parked r \<noteq> None then (r, Err PuR_TransitionOutstanding)
        else (r\<lparr>rp_parked := Some (parked_of pl)\<rparr>, Ok (Parked (pt_base pl) [Eff_Persist (pt_intent pl)]))) = (r', res)"
      using eq by simp
    consider "rp_stability r = Volatile" | "rp_stability r \<noteq> Volatile" "rp_parked r = None"
      | "rp_stability r \<noteq> Volatile" "rp_parked r \<noteq> None" by blast
    then show ?thesis
    proof cases
      case 1
      then show ?thesis using True e now by simp
    next
      case 2
      then show ?thesis using e by (intro parked) simp_all
    next
      case 3
      then show ?thesis using e by (intro refused [of PuR_TransitionOutstanding]) simp_all
    qed
  next
    case False
    then have "(\<exists>e. r' = r \<and> res = Err e) \<or> (\<exists>f e. r' = fault_node r f \<and> res = Err e)"
      using eq by (auto split: option.splits if_splits)
    then show ?thesis using refused faulted by blast
  qed
qed

text \<open>A planned transition, published or parked.\<close>

lemma publish_sound:
  assumes "host_ok b r" "sound b r pl" "publish r pl = (r', res)"
  shows "host_ok b r'" "advances r (released (Inr res)) r'"
proof -
  let ?p = "rp_progress r"
  have pl: "\<not> pt_completion pl" "check (pt_candidate pl) = Ok ()" "wf_table (p_config (pt_candidate pl))"
    "bk_ok (pt_bookkeeping pl)" "keeps_committed r (pt_journal pl)"
    "b \<longrightarrow> mutation_frontier (p_accepted ?p) (pt_journal pl) = p_accepted (pt_candidate pl)"
    "applies_in (p_committed ?p) (p_committed (pt_candidate pl)) (pt_effects pl)"
    using assms(2) by (simp_all add: sound_def)
  have "host_ok b r' \<and> advances r (released (Inr res)) r'"
    using assms(3) pl(1)
  proof (cases rule: publish_cases)
    case refused
    then show ?thesis using assms(1) by (simp add: released_def advances_refl)
  next
    case faulted
    then show ?thesis using fault_node_ok [OF assms(1)] fault_node_advances by (simp add: released_def)
  next
    case now
    obtain r2 res' where i: "install (r\<lparr>rp_parked := None\<rparr>) (pt_journal pl) (pt_candidate pl) (pt_bookkeeping pl)
        (pt_diagnostic pl) = (r2, res')" by fastforce
    with now(2) have r2: "r2 = r'"
      "res = (case res' of Inl e \<Rightarrow> Err e | Inr _ \<Rightarrow> Ok (Published (p_revision (rp_progress r2)) (pt_effects pl)))"
      by (auto simp: install_of_def split: sum.splits)
    note install_ok [OF assms(1) pl(2-6) now(1) pl(7) i]
    then show ?thesis using r2 by (cases res') (simp_all add: released_def)
  next
    case parked
    have "parked_ok b r'"
      using assms(2) parked(1) by (auto simp: parked_ok_def sound_def keeps_committed_def)
    then show ?thesis
      using assms(1) parked by (auto simp: host_ok_def wf_replica_def in_step_def released_def intro: advances_refl)
  qed
  then show "host_ok b r'" "advances r (released (Inr res)) r'" by simp_all
qed

text \<open>A confirmation: the parked transition installed, discarded, or the node faulted.\<close>

lemma publish_completion:
  assumes "p_fault (rp_progress r) = None" "pt_base pl = p_revision (rp_progress r)" "pt_fault pl = None" "pt_completion pl"
  shows "publish r pl =
    (case legal (rp_progress r) (pt_candidate pl) (pt_kind pl) of
       Some f \<Rightarrow> (fault_node r f, Err (PuR_IllegalCandidate f))
     | None \<Rightarrow> install_of r pl)"
  using assms by (simp add: publish_def install_of_def Let_def split: option.split)

lemma completion_sound:
  assumes "host_ok b r" "p_fault (rp_progress r) = None" "sound b r pl" "publish r (q\<lparr>pt_completion := True\<rparr>) = (r', res)"
    and q: "pt_base q = p_revision (rp_progress r)" "pt_fault q = None" "pt_candidate q = pt_candidate pl"
      "pt_journal q = pt_journal pl" "pt_bookkeeping q = pt_bookkeeping pl" "pt_effects q = pt_effects pl"
  shows "host_ok b r'" "advances r (released (Inr res)) r'"
proof -
  let ?p = "rp_progress r" and ?q = "q\<lparr>pt_completion := True\<rparr>"
  have pub: "publish r ?q = (case legal ?p (pt_candidate q) (pt_kind q) of
       Some f \<Rightarrow> (fault_node r f, Err (PuR_IllegalCandidate f)) | None \<Rightarrow> install_of r ?q)"
    using publish_completion [of r ?q] assms(2) q(1,2) by simp
  show "host_ok b r'" "advances r (released (Inr res)) r'"
  proof (atomize (full), cases "legal ?p (pt_candidate q) (pt_kind q)")
    case None
    obtain r2 res' where i: "install (r\<lparr>rp_parked := None\<rparr>) (pt_journal q) (pt_candidate q) (pt_bookkeeping q) (pt_diagnostic q) = (r2, res')"
      by fastforce
    have r2: "r2 = r'" "res = (case res' of Inl e \<Rightarrow> Err e | Inr _ \<Rightarrow> Ok (Published (p_revision (rp_progress r2)) (pt_effects q)))"
      using pub assms(4) None i by (auto simp: install_of_def split: sum.splits)
    have pl: "check (pt_candidate q) = Ok ()" "wf_table (p_config (pt_candidate q))"
      "bk_ok (pt_bookkeeping q)" "keeps_committed r (pt_journal q)"
      "b \<longrightarrow> mutation_frontier (p_accepted ?p) (pt_journal q) = p_accepted (pt_candidate q)"
      "applies_in (p_committed ?p) (p_committed (pt_candidate q)) (pt_effects q)"
      using assms(3) q by (simp_all add: sound_def)
    note i = install_ok [OF assms(1) pl(1-5) None pl(6) i]
    then show "host_ok b r' \<and> advances r (released (Inr res)) r'"
      using r2 by (cases res') (simp_all add: released_def)
  next
    case (Some f)
    then show "host_ok b r' \<and> advances r (released (Inr res)) r'"
      using pub assms(4) fault_node_ok [OF assms(1)] fault_node_advances by (auto simp: released_def)
  qed
qed

text \<open>The transition a confirmation builds when it does not complete the parked one changes no frontier.\<close>

lemma sound_identity:
  assumes "wf_replica r" "p_accepted c = p_accepted (rp_progress r)" "p_committed c = p_committed (rp_progress r)"
    "p_config c = p_config (rp_progress r)" "check c = Ok ()"
  shows "sound b r (candidate_plan r c JM_None [] kind False)"
  using assms by (simp add: sound_simps wf_replica_def)

lemma candidate_plan_completion: "candidate_plan r c m es k True = (candidate_plan r c m es k False)\<lparr>pt_completion := True\<rparr>"
  by (simp add: candidate_plan_def)

lemma confirmation_sound:
  assumes "host_ok b r" "plan_confirmation r revision outcome = Inr pl" "p_fault (rp_progress r) = None"
    "publish r pl = (r', res)"
  shows "host_ok b r'" "advances r (released (Inr res)) r'"
proof -
  obtain pk where pk: "rp_parked r = Some pk"
    using assms(2) by (auto simp: plan_confirmation_def split: option.splits)
  obtain q where q: "sound b r q" "pk = parked_of q"
    using assms(1,3) pk by (auto simp: host_ok_def parked_ok_def)
  have wf: "wf_replica r" using assms(1) by (simp add: host_ok_def)
  have kept: "host_ok b r' \<and> advances r (released (Inr res)) r'"
    if "pl = candidate_plan r c JM_None [] StabilityConfirmed True"
      "p_accepted c = p_accepted (rp_progress r) \<and> p_committed c = p_committed (rp_progress r)
        \<and> p_config c = p_config (rp_progress r) \<and> check c = Ok ()" for c
    using completion_sound [OF assms(1,3) sound_identity [OF wf, of c b StabilityConfirmed],
        of "candidate_plan r c JM_None [] StabilityConfirmed False" r' res] that assms(4)
    by (simp add: candidate_plan_completion) (simp add: candidate_plan_def)
  have "host_ok b r' \<and> advances r (released (Inr res)) r'"
  proof (cases outcome)
    case (Stable token)
    let ?q = "with_diagnostic (with_bookkeeping (candidate_plan r (pk_candidate pk) (pk_journal pk) (pk_effects pk)
                (pk_kind pk) False) (pk_bookkeeping pk)) (pk_diagnostic pk)"
    have "pl = ?q\<lparr>pt_completion := True\<rparr>"
      using assms(2) pk Stable
      by (auto simp: plan_confirmation_def with_diagnostic_def with_bookkeeping_def candidate_plan_def split: if_splits)
    with completion_sound [OF assms(1,3) q(1), of ?q r' res] assms(4) q(2) show ?thesis
      by (simp add: with_diagnostic_def with_bookkeeping_def candidate_plan_def parked_of_def)
  qed (use assms(2) pk kept transition_keeps(1,4) in \<open>auto simp: plan_confirmation_def split: if_splits\<close>)
  then show "host_ok b r'" "advances r (released (Inr res)) r'" by simp_all
qed


section \<open>Every run keeps it\<close>

lemma host_step_ok:
  assumes "host_ok b r" "host_step r ti = (outcome, r')" "b \<Longrightarrow> \<not> boot_transfer r ti"
  shows "host_ok b r'" "advances r (released outcome) r'"
proof -
  have "host_ok b r' \<and> advances r (released outcome) r'"
  proof (cases "plan r ti (own_view r)")
    case (Inl e)
    then show ?thesis using assms(1,2) by (auto simp: host_step_def released_def intro: advances_refl)
  next
    case (Inr pl)
    obtain r2 res where pub: "publish r pl = (r2, res)" by fastforce
    then have o: "outcome = Inr res" "r' = r2" using assms(2) Inr by (simp_all add: host_step_def)
    show ?thesis
    proof (cases "confirmation ti")
      case True
      then obtain v x where "plan_confirmation r v x = Inr pl"
        using plan_planned(3) [OF Inr] by (auto simp: confirmation_def plan_event_def split: input.splits)
      then show ?thesis
        using confirmation_sound [OF assms(1) _ plan_planned(1) [OF Inr] pub] o by simp
    next
      case False
      have "wf_replica r" using assms(1) by (simp add: host_ok_def)
      then have "sound b r pl" using plan_sound(1) [OF _ Inr False assms(3)] by blast
      then show ?thesis using publish_sound [OF assms(1) _ pub] o by simp
    qed
  qed
  then show "host_ok b r'" "advances r (released outcome) r'" by simp_all
qed

lemma sound_reclaim:
  assumes "wf_log (rp_journal r)" "sound b r pl"
  shows "sound b (r\<lparr>rp_journal := reclaim_through (rp_journal r) c\<rparr>) pl"
  using assms keeps_committed_reclaim [OF assms(1)] by (simp add: sound_def)

lemma reclaim_ok:
  assumes "host_ok b r"
  shows "host_ok b (reclaim_journal r)" "advances r [] (reclaim_journal r)"
proof -
  have wf: "wf_log (rp_journal r)" "1 \<le> sl_first (rp_journal r)"
    using assms by (simp_all add: host_ok_def wf_replica_def)
  let ?l = "reclaim_through (rp_journal r) (p_checkpoint (rp_progress r))"
  note w = reclaim_wf [OF wf(1), of "p_checkpoint (rp_progress r)"]
  have "1 \<le> sl_first ?l" using wf(2) w(2) by (rule order_trans)
  then have "host_ok b (r\<lparr>rp_journal := ?l\<rparr>)"
    using assms w(1) sound_reclaim [OF wf(1)] by (fastforce simp: host_ok_def wf_replica_def in_step_def parked_ok_def)
  then show "host_ok b (reclaim_journal r)" using assms by (simp add: reclaim_journal_def Let_def)
  have "log_get ?l s = Some e \<or> s < sl_first ?l" if "log_get (rp_journal r) s = Some e" for s e
    using that seg.reclaim_reads(1) [OF wf(1)] by (auto simp: word_less_nat_alt)
  then show "advances r [] (reclaim_journal r)"
    using w(2) by (auto simp: reclaim_journal_def Let_def advances_def)
qed

text \<open>The events of a run that bring a fenced node a transfer of its own view.\<close>

fun boots :: "replica \<Rightarrow> host_event list \<Rightarrow> bool" where
  "boots r [] = False"
| "boots r (ev # evs) =
     ((case ev of Turn ti \<Rightarrow> boot_transfer r ti | Reclaim \<Rightarrow> False) \<or> boots (snd (host_event_step r ev)) evs)"

lemma host_event_ok:
  assumes "host_ok b r" "host_event_step r ev = (es, r')" "b \<Longrightarrow> \<not> boots r (ev # evs)"
  shows "host_ok b r' \<and> advances r es r'"
proof (cases ev)
  case (Turn ti)
  obtain outcome r2 where h: "host_step r ti = (outcome, r2)" by fastforce
  show ?thesis
    using host_step_ok [OF assms(1) h] assms(2,3) Turn h by (auto simp: host_event_step_def)
qed (use assms reclaim_ok in \<open>auto simp: host_event_step_def\<close>)

lemma host_run_ok:
  assumes "host_ok b r" "host_run r evs = (es, r')" "b \<Longrightarrow> \<not> boots r evs"
  shows "host_ok b r' \<and> advances r es r'"
  using assms
proof (induction evs arbitrary: r es r')
  case Nil
  then show ?case by (simp add: advances_refl)
next
  case (Cons ev evs)
  obtain es1 r1 where s: "host_event_step r ev = (es1, r1)" by fastforce
  obtain es2 r2 where n: "host_run r1 evs = (es2, r2)" by fastforce
  have one: "host_ok b r1 \<and> advances r es1 r1"
    using host_event_ok [OF Cons.prems(1) s] Cons.prems(3) by blast
  then have "host_ok b r2 \<and> advances r1 es2 r2"
    using Cons.IH [OF _ n] Cons.prems(3) s by auto
  then show ?case using one s n Cons.prems(2) advances_trans by auto
qed

text \<open>Acknowledging an application releases nothing, so a host's queue only shrinks while it is emptied.\<close>

lemma plan_applied_quiet:
  assumes "plan r \<lparr>ti_at = at, ti_event = In_Applied s\<rparr> j = Inr pl"
  shows "pt_effects pl = []" "\<not> pt_completion pl"
  using assms
  by (auto simp: plan_def plan_event_def refuse_if_parked_def plan_applied_def Let_def with_bookkeeping_def candidate_plan_def
      with_activity_def split: option.splits if_splits)

lemma publish_effects:
  assumes "publish r pl = (r', Inr (Published v es))" "\<not> pt_completion pl"
  shows "es = pt_effects pl"
  using assms unfolding publish_uncompleted [OF assms(2)]
  by (auto simp: install_of_def split: option.splits if_splits prod.splits sum.splits)

end
