(* ===== verification/Replica_Theorems.thy ===== *)
theory Replica_Theorems
  imports Host_Run
begin

text \<open>
  Properties of the whole replica: what any run of a host keeps, that parking a transition and
  confirming it is publishing it, that a refused transition leaves no trace, and how a replica comes
  to be. The sample is a three-node cluster with one operation accepted and not yet committed.
\<close>

section \<open>A sample replica\<close>

definition genesis_record :: era_record where
  "genesis_record = \<lparr>er_era = 1, er_config = \<lparr>cfg_era = 1, cfg_order =
      [\<lparr>m_node = 10, m_weight = 1\<rparr>, \<lparr>m_node = 20, m_weight = 1\<rparr>, \<lparr>m_node = 30, m_weight = 1\<rparr>]\<rparr>,
     er_total = 3, er_established_by = 2, er_operation = Init [10, 20, 30], er_pivot = None\<rparr>"

definition cluster_table :: era_table where
  "cluster_table = et_genesis @ [\<lparr>er_era = 0, er_config = void_config, er_total = 0, er_established_by = 1,
     er_operation = Void, er_pivot = None\<rparr>, genesis_record]"

definition sample_progress :: progress where
  "sample_progress = \<lparr>p_current = Ballot 1 0, p_retained = Ballot 1 0, p_status = St_Normal, p_accepted = 3,
     p_committed = 2, p_applied = 2, p_checkpoint = 0, p_revision = 2, p_config = cluster_table, p_fault = None\<rparr>"

definition third_entry :: log_entry where
  "third_entry = \<lparr>le_slot = 3, le_era = 1, le_payload = P_Operation \<lparr>msb = 7, lsb = 9\<rparr> [1, 2, 3]\<rparr>"

definition sample_entries :: "log_entry list" where
  "sample_entries = [\<lparr>le_slot = 1, le_era = 0, le_payload = P_System Void\<rparr>,
     \<lparr>le_slot = 2, le_era = 1, le_payload = P_System (Init [10, 20, 30])\<rparr>, third_entry]"

definition sample_run :: segmented_log where
  "sample_run = \<lparr>sl_slabs = [], sl_boundaries = [], sl_tail = sample_entries, sl_capacity = 64, sl_first = 1,
     sl_accepted = Some 3\<rparr>"

definition sample_knobs :: knobs where
  "sample_knobs = \<lparr>kn_primary_timeout = 5, kn_view_change_budget = 4096\<rparr>"

definition cluster_node :: "node_id \<Rightarrow> stability \<Rightarrow> replica" where
  "cluster_node own st = assemble own weighted_majority sample_run st sample_knobs sample_progress"

lemma cluster_node_sel [simp]:
  "rp_progress (cluster_node own st) = sample_progress" "rp_parked (cluster_node own st) = None" "rp_own (cluster_node own st) = own"
  "rp_planned (cluster_node own st) = None" "rp_journal (cluster_node own st) = sample_run" "rp_stability (cluster_node own st) = st"
  "rp_reincarnation (cluster_node own st) = None" "rp_witnesses (cluster_node own st) = []" "rp_view_change (cluster_node own st) = None"
  "rp_observation (cluster_node own st) = to_progress_snapshot sample_progress" "rp_knobs (cluster_node own st) = sample_knobs"
  "rp_plan_execution (cluster_node own st) = None" "rp_strategy (cluster_node own st) = weighted_majority"
  by (simp_all add: cluster_node_def assemble_def)

lemma cluster_table_wf: "wf_table cluster_table"
proof -
  note eval = et_extend_def et_current_def void_config_def Let_def partition_point_def total_def et_genesis_def
  have "et_run [(Void, 1), (Init [10, 20, 30], 2)] = Ok cluster_table"
    by (simp add: et_run_def eval cluster_table_def genesis_record_def INIT_SLOT_def VOID_SLOT_def MAX_MEMBERS_def)
  then show ?thesis by (rule et_run_wf)
qed

lemma sample_check: "check sample_progress = Ok ()" "check (sample_progress\<lparr>p_committed := 3, p_revision := 3\<rparr>) = Ok ()"
  by (simp_all add: check_Ok sample_progress_def era_of_slot_def et_current_def cluster_table_def genesis_record_def
      less_eq_ballot_def word_le_nat_alt Let_def)

lemma sample_run_wf: "wf_log sample_run"
  by (simp add: wf_log_def wf_physical_def physical_def sample_run_def sample_entries_def third_entry_def)

lemma cluster_node_ok: "host_ok True (cluster_node own st)"
  by (simp add: host_ok_unparked wf_replica_def sample_check cluster_table_wf sample_run_wf in_step_def unwrap_or_def)
     (simp add: sample_progress_def sample_run_def cluster_table_wf)

text \<open>The follower 20 hears from its primary that slot 3 is committed.\<close>

definition commit_turn :: timed_input where
  "commit_turn = \<lparr>ti_at = 7, ti_event = In_Peer 10 (mk_message Tag_Commit (Ballot 1 0) 3 (B_Commit 3))\<rparr>"

lemma sample_get: "log_get sample_run 3 = Some third_entry" "log_get sample_run 1 \<noteq> None"
  by (simp_all add: view_get_def entry_at_def log_view_of_def sample_run_def sample_entries_def partition_point_def nth_opt_def)

lemma sample_last: "lv_last (log_view_of sample_run) = Some 3"
  by (simp add: log_view_of_def sample_run_def)

lemma sample_next: "slot_next 2 = Some 3" "slot_next 3 = Some 4"
  by (simp_all add: slot_next_def checked_add_def)

lemma sample_record: "et_record cluster_table 1 = Some genesis_record" "et_current cluster_table = genesis_record"
  by (simp_all add: et_record_def et_current_def cluster_table_def genesis_record_def et_genesis_def)

lemma sample_members: "primary (er_config genesis_record) 0 = Some 10"
  "weight_of (er_config genesis_record) n = (if n \<in> {10, 20, 30} then Some 1 else None)"
  by (auto simp: primary_def voters_def weight_of_def genesis_record_def)

lemma sample_fold: "fold_committed (cluster_node own st) (log_view_of sample_run) [] 2 3 True =
    Ok \<lparr>fd_table = cluster_table, fd_covered = 3, fd_stopped = False, fd_bump = None\<rparr>"
  by (simp add: fold_committed_def fold_walk.simps sample_next overlay_get_def sample_get Let_def sample_progress_def
      third_entry_def)

lemma commit_plan: "plan (cluster_node 20 st) commit_turn (log_view_of sample_run) =
    Ok (with_activity (candidate_plan (cluster_node 20 st) (sample_progress\<lparr>p_committed := 3, p_revision := 3\<rparr>) JM_None
          [Eff_Apply 3 \<lparr>msb = 7, lsb = 9\<rparr> [1, 2, 3]] (PeerMessage Tag_Commit 3) False) 7)"
proof -
  note eval = sample_progress_def sample_last sample_record sample_members sample_next sample_get sample_fold
    sample_check [unfolded sample_progress_def, simplified]
  note defs = plan_def plan_event_def plan_peer_def plan_body_def plan_commit_def primary_message_gate_def
    commit_turn_def mk_message_def refuse_if_parked_def primary_of_def current_config_def adopted_status_def
    on_fold_def applied_walk_def slots_after.simps entry_or_def overlay_get_def is_system_def candidate_with_def
    next_revision_def checked_add_def reconstitute_def member_of_view_def apply_effects_def apply_of_def primary_life_def
  show ?thesis by (simp add: defs eval Let_def unwrap_or_def third_entry_def)
qed

definition committed_progress :: progress where
  "committed_progress = sample_progress\<lparr>p_committed := 3, p_revision := 3\<rparr>"

definition third_apply :: effect where
  "third_apply = Eff_Apply 3 \<lparr>msb = 7, lsb = 9\<rparr> [1, 2, 3]"

lemma sample_legal: "legal sample_progress committed_progress (PeerMessage Tag_Commit 3) = None"
  using sample_check(2)
  by (simp add: legal_None rule1_frontiers_violated_def rule2_view_succession_violated_def
      rule3_retained_violated_def rule4_revision_violated_def rule6_era_slot_violated_def
      rule7_header_slot_violated_def check_def checked_add_eq_Some committed_progress_def admits_def)
     (simp add: sample_progress_def)

lemma commit_publish:
  "\<exists>r'. publish (cluster_node 20 Volatile) (with_activity (candidate_plan (cluster_node 20 Volatile) committed_progress
       JM_None [third_apply] (PeerMessage Tag_Commit 3) False) 7) = (r', Ok (Published 3 [third_apply]))
     \<and> rp_progress r' = committed_progress \<and> rp_journal r' = sample_run"
proof -
  have "p_fault sample_progress = None" "p_revision sample_progress = 2" "p_revision committed_progress = 3"
    by (simp_all add: sample_progress_def committed_progress_def)
  then show ?thesis
    by (subst publish_uncompleted)
       (simp_all add: with_activity_def candidate_plan_def sample_legal install_of_def install_def mutate_journal_def
         installed_replica_def)
qed

lemma commit_run:
  obtains r' where "host_run (cluster_node 20 Volatile) [Turn commit_turn] = ([third_apply], r')"
    "rp_progress r' = committed_progress" "rp_journal r' = sample_run"
proof -
  obtain r' where r': "publish (cluster_node 20 Volatile) (with_activity (candidate_plan (cluster_node 20 Volatile) committed_progress
       JM_None [third_apply] (PeerMessage Tag_Commit 3) False) 7) = (r', Ok (Published 3 [third_apply]))"
     "rp_progress r' = committed_progress" "rp_journal r' = sample_run" using commit_publish by blast
  have "host_run (cluster_node 20 Volatile) [Turn commit_turn] = ([third_apply], r')"
    using r'(1) by (simp add: host_event_step_def host_step_def commit_plan released_def committed_progress_def third_apply_def)
  then show ?thesis using that r'(2,3) by blast
qed


section \<open>Runs of a host\<close>

text \<open>C3. The operations a host applies over any run of turns and reclaims have strictly increasing slots,
  every one above the frontier that was committed at the start and at most the one committed at the end:
  no operation is applied twice, none out of order, none before it is committed.\<close>

theorem applies_once_in_order:
  assumes "host_ok False r" "host_run r evs = (es, r')"
  shows "applies_in (p_committed (rp_progress r)) (p_committed (rp_progress r')) es"
  using host_run_ok [OF assms] by (simp add: advances_def)

lemma host_ok_weaken: "host_ok True r \<Longrightarrow> host_ok b r"
  unfolding host_ok_def parked_ok_def using sound_weaken by blast

lemma cluster_node_okb: "host_ok b (cluster_node own st)"
  by (rule host_ok_weaken [OF cluster_node_ok])

theorem applies_once_in_order_witness:
  "\<exists>es r'. host_run (cluster_node 20 Volatile) [Turn commit_turn] = (es, r') \<and> apply_slots es = [3] \<and> applies_in 2 3 es"
proof (rule commit_run)
  fix r' assume r': "host_run (cluster_node 20 Volatile) [Turn commit_turn] = ([third_apply], r')"
    "rp_progress r' = committed_progress"
  from applies_once_in_order [OF cluster_node_okb r'(1)] r' show ?thesis
    by (simp add: committed_progress_def sample_progress_def third_apply_def)
qed

text \<open>C4. A committed entry is never changed: over any run, the log reads at its slot the same entry, or
  the slot has been reclaimed.\<close>

theorem committed_entry_stays:
  assumes "host_ok False r" "host_run r evs = (es, r')"
    and "s \<le> p_committed (rp_progress r)" "log_get (rp_journal r) s = Some e"
  shows "log_get (rp_journal r') s = Some e \<or> s < sl_first (rp_journal r')"
  using host_run_ok [OF assms(1,2)] assms(3,4) by (simp add: advances_def)

theorem committed_entry_stays_witness:
  "\<exists>r' e. host_run (cluster_node 20 Volatile) [Turn commit_turn] = ([third_apply], r')
     \<and> (log_get (rp_journal r') 1 = Some e \<or> 1 < sl_first (rp_journal r'))"
proof (rule commit_run)
  fix r' assume r': "host_run (cluster_node 20 Volatile) [Turn commit_turn] = ([third_apply], r')"
  obtain e where e: "log_get sample_run 1 = Some e" using sample_get(2) by blast
  from committed_entry_stays [OF cluster_node_okb r', of 1 e] e r' show ?thesis
    by (auto simp: sample_progress_def)
qed

text \<open>C8. The accepted frontier of the record and the last slot of the log stay equal over any run, except
  when a fenced node is brought a transfer of the view it is fenced in.\<close>

theorem frontiers_agree:
  assumes "host_ok True r" "host_run r evs = (es, r')" "\<not> boots r evs"
  shows "in_step r'"
  using host_run_ok [OF assms(1,2)] assms(3) by (simp add: host_ok_def)

theorem frontiers_agree_witness:
  "\<exists>r'. host_run (cluster_node 20 Volatile) [Turn commit_turn] = ([third_apply], r') \<and> in_step r'"
proof (rule commit_run)
  fix r' assume r': "host_run (cluster_node 20 Volatile) [Turn commit_turn] = ([third_apply], r')"
  have "\<not> boots (cluster_node 20 Volatile) [Turn commit_turn]"
    by (simp add: boot_transfer_def commit_turn_def mk_message_def)
  from frontiers_agree [OF cluster_node_ok r' this] r' show ?thesis by blast
qed

text \<open>C9. Every replica a run reaches is well formed: its record passes its own check, its era table and
  its log satisfy their invariants, the evidence it keeps has the shape a suffix must have, and the
  observation cell holds the snapshot of its record.\<close>

theorem host_state_well_formed:
  assumes "host_ok False r" "host_run r evs = (es, r')"
  shows "wf_replica r' \<and> rp_observation r' = to_progress_snapshot (rp_progress r')"
  using host_run_ok [OF assms] by (simp add: host_ok_def)

theorem host_state_well_formed_witness:
  "\<exists>r'. host_run (cluster_node 20 Volatile) [Turn commit_turn] = ([third_apply], r') \<and> wf_replica r'"
proof (rule commit_run)
  fix r' assume r': "host_run (cluster_node 20 Volatile) [Turn commit_turn] = ([third_apply], r')"
  from host_state_well_formed [OF cluster_node_okb r'] r' show ?thesis by blast
qed

section \<open>Parking and confirming\<close>

lemma sound_base: "sound b r pl \<Longrightarrow> pt_base pl = p_revision (rp_progress r) \<and> \<not> pt_completion pl"
  by (simp add: sound_def)

lemma publish_parks:
  assumes "publish r pl = (r1, Ok (Parked v effects))" "\<not> pt_completion pl"
  shows "p_fault (rp_progress r) = None" "pt_base pl = p_revision (rp_progress r)" "pt_fault pl = None"
    "legal (rp_progress r) (pt_candidate pl) (pt_kind pl) = None" "rp_parked r = None"
    "r1 = r\<lparr>rp_parked := Some (parked_of pl)\<rparr>" "v = pt_base pl" "effects = [Eff_Persist (pt_intent pl)]"
    "rp_stability r \<noteq> Volatile"
  using assms(1) unfolding publish_uncompleted [OF assms(2)]
  by (auto simp: install_of_def split: option.splits if_splits prod.splits sum.splits)

text \<open>Installing ignores what parks: the stability setting and the parked transition itself.\<close>

lemma install_of_stability:
  assumes "pt_journal q = pt_journal pl" "pt_candidate q = pt_candidate pl" "pt_bookkeeping q = pt_bookkeeping pl"
    "pt_diagnostic q = pt_diagnostic pl" "pt_effects q = pt_effects pl"
  shows "map_prod (rp_stability_update (\<lambda>_. Volatile)) id (install_of (r\<lparr>rp_parked := x\<rparr>) q) =
         install_of (r\<lparr>rp_stability := Volatile\<rparr>) pl"
  using assms
  by (cases "mutate_journal (rp_journal r) (pt_journal pl)")
     (simp_all add: install_of_def install_def fault_node_def installed_replica_def split: sum.split)

text \<open>C10. Deferring changes when a transition takes effect and nothing else: when a publish parks a planned
  transition, the confirmation of stability that names its revision yields the outcome, the effects and
  the replica that publishing it at once would have, the stability setting aside.\<close>

theorem deferred_equals_volatile:
  assumes "wf_replica r" "plan r ti (own_view r) = Ok pl" "\<not> confirmation ti"
    and "publish r pl = (r1, Ok (Parked v effects))"
    and "host_step r1 \<lparr>ti_at = at, ti_event = In_StabilityConfirmation v (Stable token)\<rparr> = (outcome, r2)"
  shows "publish (r\<lparr>rp_stability := Volatile\<rparr>) pl = (r2\<lparr>rp_stability := Volatile\<rparr>, projr outcome) \<and> \<not> isl outcome"
proof -
  have base: "pt_base pl = p_revision (rp_progress r)" "\<not> pt_completion pl"
    using sound_base [OF plan_sound(1) [OF assms(1-3), of False]] by simp_all
  note p = publish_parks [OF assms(4) base(2)]
  let ?q = "with_diagnostic (with_bookkeeping (candidate_plan r1 (pt_candidate pl) (pt_journal pl) (pt_effects pl)
       (pt_kind pl) True) (pt_bookkeeping pl)) (pt_diagnostic pl)"
  have r1: "rp_progress r1 = rp_progress r" "rp_journal r1 = rp_journal r" "rp_parked r1 = Some (parked_of pl)"
    by (simp_all add: p(6))
  have "plan r1 \<lparr>ti_at = at, ti_event = In_StabilityConfirmation v (Stable token)\<rparr> (own_view r1) = Ok ?q"
    using plan_planned(2) [OF assms(2)] p(1,2,7)
    by (simp add: plan_def r1 Let_def own_view_last in_step_def plan_event_def plan_confirmation_def parked_of_def)
  moreover have "publish r1 ?q = install_of r1 ?q"
    using p(1,4) by (subst publish_completion)
      (simp_all add: r1 with_diagnostic_def with_bookkeeping_def candidate_plan_def)
  ultimately have o: "install_of r1 ?q = (r2, projr outcome) \<and> \<not> isl outcome"
    using assms(5) by (auto simp: host_step_def split: prod.splits)
  have "publish (r\<lparr>rp_stability := Volatile\<rparr>) pl = install_of (r\<lparr>rp_stability := Volatile\<rparr>) pl"
    using p(1-4) by (subst publish_uncompleted) (simp_all add: base(2))
  also have "\<dots> = map_prod (rp_stability_update (\<lambda>_. Volatile)) id (install_of r1 ?q)"
    unfolding p(6)
    by (rule install_of_stability [symmetric]) (simp_all add: with_diagnostic_def with_bookkeeping_def candidate_plan_def)
  finally show ?thesis using o by simp
qed

definition commit_planned :: "stability \<Rightarrow> planned_transition" where
  "commit_planned st = with_activity (candidate_plan (cluster_node 20 st) committed_progress JM_None [third_apply]
     (PeerMessage Tag_Commit 3) False) 7"

lemma commit_planned: "plan (cluster_node 20 st) commit_turn (log_view_of sample_run) = Ok (commit_planned st)"
  by (simp add: commit_plan commit_planned_def committed_progress_def third_apply_def)

definition parked_node :: replica where
  "parked_node = (cluster_node 20 Deferred)\<lparr>rp_parked := Some (parked_of (commit_planned Deferred))\<rparr>"

lemma commit_parks: "publish (cluster_node 20 Deferred) (commit_planned Deferred) =
    (parked_node, Ok (Parked 2 [Eff_Persist (pt_intent (commit_planned Deferred))]))"
proof -
  have "p_fault sample_progress = None" "p_revision sample_progress = 2"
    by (simp_all add: sample_progress_def)
  then show ?thesis
    by (subst publish_uncompleted)
       (simp_all add: commit_planned_def with_activity_def candidate_plan_def sample_legal parked_node_def)
qed

definition commit_stable :: timed_input where
  "commit_stable = \<lparr>ti_at = 9, ti_event = In_StabilityConfirmation 2 (Stable [])\<rparr>"

theorem deferred_equals_volatile_witness:
  "\<exists>outcome r2. host_step parked_node commit_stable = (outcome, r2)
     \<and> publish ((cluster_node 20 Deferred)\<lparr>rp_stability := Volatile\<rparr>) (commit_planned Deferred)
         = (r2\<lparr>rp_stability := Volatile\<rparr>, projr outcome) \<and> \<not> isl outcome"
proof -
  obtain outcome r2 where h: "host_step parked_node commit_stable = (outcome, r2)" by fastforce
  have wf: "wf_replica (cluster_node 20 Deferred)" using cluster_node_ok by (simp add: host_ok_def)
  have c: "\<not> confirmation commit_turn" by (simp add: confirmation_def commit_turn_def)
  from deferred_equals_volatile [OF wf _ c commit_parks h [unfolded commit_stable_def], simplified,
      OF commit_planned] h
  show ?thesis by blast
qed

lemma check_bumped: "check (p\<lparr>p_revision := v\<rparr>) = check p"
  by (cases "p_status p")
     (simp_all add: check_def check_frontier_chain_def check_status_relation_def check_era_discipline_def era_of_slot_def)

lemma identity_legal:
  assumes "check p = Ok ()" "p_fault p = None" "p_revision p \<noteq> -1"
  shows "legal p (p\<lparr>p_revision := p_revision p + 1\<rparr>) StabilityConfirmed = None"
    "with_status p (p_status p) = Ok (p\<lparr>p_revision := p_revision p + 1\<rparr>)"
proof -
  have "unat (p_revision p + 1) = unat (p_revision p) + 1"
    using assms(3) by (metis add.commute add_diff_cancel_right' diff_0 eq_iff_diff_eq_0 unatSuc Suc_eq_plus1)
  then have add: "checked_add (p_revision p) 1 = Some (p_revision p + 1)" by (simp add: checked_add_eq_Some)
  have c: "check (p\<lparr>p_revision := p_revision p + 1\<rparr>) = Ok ()" using assms(1) by (simp add: check_bumped)
  then show "legal p (p\<lparr>p_revision := p_revision p + 1\<rparr>) StabilityConfirmed = None"
    using assms add
    by (simp add: legal_None rule1_frontiers_violated_def rule2_view_succession_violated_def rule3_retained_violated_def
        rule4_revision_violated_def rule6_era_slot_violated_def rule7_header_slot_violated_def check_def [of "p\<lparr>p_revision := _\<rparr>"])
  show "with_status p (p_status p) = Ok (p\<lparr>p_revision := p_revision p + 1\<rparr>)"
    using assms(2) add c by (simp add: with_status_def transition_def refuse_if_faulted_def Let_def)
qed

text \<open>C11. A transition whose stability failed leaves no trace: the confirmation releases nothing and
  advances the revision, the journal, the volatile machines and the rest of the record are as they were,
  and nothing is parked any more.\<close>

theorem failed_stability_discards:
  assumes "wf_replica r" "in_step r" "p_fault (rp_progress r) = None" "p_revision (rp_progress r) \<noteq> -1"
    and "rp_parked r = Some pk"
  shows "host_step r \<lparr>ti_at = at, ti_event = In_StabilityConfirmation (pk_base pk) (Failed token)\<rparr> =
    (Inr (Ok (Published (p_revision (rp_progress r) + 1) [])),
     r\<lparr>rp_progress := (rp_progress r)\<lparr>p_revision := p_revision (rp_progress r) + 1\<rparr>,
       rp_observation := to_progress_snapshot ((rp_progress r)\<lparr>p_revision := p_revision (rp_progress r) + 1\<rparr>),
       rp_diagnostics := D_None, rp_parked := None,
       rp_witnesses := filter (\<lambda>w. \<not> votes (current_config r) w) (rp_witnesses r)\<rparr>)"
proof -
  let ?p = "rp_progress r" and ?c = "(rp_progress r)\<lparr>p_revision := p_revision (rp_progress r) + 1\<rparr>"
  note id = identity_legal [OF _ assms(3,4)]
  have check: "check ?p = Ok ()" using assms(1) by (simp add: wf_replica_def)
  let ?pl = "candidate_plan r ?c JM_None [] StabilityConfirmed True"
  have "plan r \<lparr>ti_at = at, ti_event = In_StabilityConfirmation (pk_base pk) (Failed token)\<rparr> (own_view r) = Ok ?pl"
    using assms(2,3,5) id(2) [OF check]
    by (simp add: plan_def Let_def own_view_last in_step_def plan_event_def plan_confirmation_def)
  moreover have "publish r ?pl = (r\<lparr>rp_progress := ?c, rp_observation := to_progress_snapshot ?c,
       rp_diagnostics := D_None, rp_parked := None,
       rp_witnesses := filter (\<lambda>w. \<not> votes (current_config r) w) (rp_witnesses r)\<rparr>,
      Ok (Published (p_revision ?p + 1) []))"
    using assms(3) id(1) [OF check]
    by (subst publish_completion)
       (simp_all add: candidate_plan_def install_of_def install_def mutate_journal_def installed_replica_def
         no_bookkeeping_def update_proposals_def update_witnesses_def unwrap_or_def current_config_def)
  ultimately show ?thesis by (simp add: host_step_def)
qed

theorem failed_stability_discards_witness:
  "rp_parked (snd (host_step parked_node \<lparr>ti_at = 9, ti_event = In_StabilityConfirmation 2 (Failed [])\<rparr>)) = None"
proof -
  have "wf_replica parked_node" "in_step parked_node" "p_fault (rp_progress parked_node) = None"
    "p_revision (rp_progress parked_node) \<noteq> -1"
    using cluster_node_ok [of 20 Deferred]
    by (simp_all add: parked_node_def host_ok_def wf_replica_def in_step_def) (simp_all add: sample_progress_def)
  moreover have "rp_parked parked_node = Some (parked_of (commit_planned Deferred))"
    "pk_base (parked_of (commit_planned Deferred)) = 2"
    by (simp_all add: parked_node_def parked_of_def commit_planned_def with_activity_def candidate_plan_def)
       (simp add: sample_progress_def)
  ultimately show ?thesis
    using failed_stability_discards [of parked_node "parked_of (commit_planned Deferred)" 9 "[]"] by simp
qed

section \<open>Coming to be\<close>

lemma assemble_ok:
  assumes "reconstitute cur ret st a c ap ck v t f = Ok p" "wf_table t" "wf_log l" "1 \<le> sl_first l"
    "unwrap_or (sl_accepted l) SLOT_NONE = a"
  shows "host_ok True (assemble own is_quorum l stab kn p)"
  using assms by (auto simp: host_ok_unparked assemble_def wf_replica_def in_step_def reconstitute_Ok)

lemma reopen_ok:
  assumes "reopen_fenced own is_quorum log pp config st kn = Ok r" "wf_table config" "wf_log log" "1 \<le> sl_first log"
  shows "host_ok True r"
proof -
  have "unwrap_or (lv_last (log_view_of log)) SLOT_NONE = pp_accepted pp"
    using assms(1) by (auto simp: reopen_fenced_def Let_def split: if_splits)
  then show ?thesis
    using assms assemble_ok [OF _ assms(2-4)]
    by (auto simp: reopen_fenced_def Let_def log_view_of_def)
qed

lemma provision_ok:
  assumes "provision own order is_quorum log st kn = Ok r" "wf_log log"
  shows "host_ok True r \<and> p_committed (rp_progress r) = INIT_SLOT \<and> p_accepted (rp_progress r) = INIT_SLOT
    \<and> map le_payload (physical (rp_journal r)) = [P_System Void, P_System (Init order)]"
proof -
  have empty: "sl_accepted log = None" using assms(1) by (auto simp: provision_def log_view_of_def split: if_splits)
  obtain table l where t: "rbind (et_extend et_genesis Void VOID_SLOT) (\<lambda>table. et_extend table (Init order) INIT_SLOT) = Ok table"
    and l: "install_suffix log VOID_SLOT [\<lparr>le_slot = VOID_SLOT, le_era = 0, le_payload = P_System Void\<rparr>,
              \<lparr>le_slot = INIT_SLOT, le_era = er_era (et_current table), le_payload = P_System (Init order)\<rparr>] = Ok l"
    and p: "\<exists>p. reconstitute (Ballot (er_era (et_current table)) 0) (Ballot (er_era (et_current table)) 0) St_Joining
              INIT_SLOT INIT_SLOT INIT_SLOT SLOT_NONE 0 table None = Ok p
            \<and> r = assemble own is_quorum l st kn p"
    using assms(1) by (auto simp: provision_def Let_def split: if_splits)
  then obtain p where p: "reconstitute (Ballot (er_era (et_current table)) 0) (Ballot (er_era (et_current table)) 0) St_Joining
              INIT_SLOT INIT_SLOT INIT_SLOT SLOT_NONE 0 table None = Ok p" "r = assemble own is_quorum l st kn p" by blast
  have "wf_table table"
    using t by (auto dest!: et_extend_wf [OF wf_genesis] dest: et_extend_wf)
  moreover note run = install_suffix_run(1) [OF assms(2) l]
  have "physical log = []" using assms(2) empty by (simp add: wf_log_def)
  then have log: "wf_log l" "sl_first l = VOID_SLOT" "sl_accepted l = Some INIT_SLOT"
      "map le_payload (physical l) = [P_System Void, P_System (Init order)]"
    using run empty by simp_all
  moreover have "host_ok True r"
    unfolding p(2) using calculation log
    by (intro assemble_ok [OF p(1)]) (simp_all add: VOID_SLOT_def unwrap_or_def)
  ultimately show ?thesis
    using p(1) by (auto simp: p(2) assemble_def reconstitute_Ok)
qed

text \<open>A replica that is provisioned starts inside the invariant of every later run, at the genesis
  frontier: the two genesis entries are in its log, committed and applied, and nothing else is.\<close>

theorem provision_establishes:
  assumes "provision own order is_quorum log st kn = Ok r" "wf_log log"
  shows "host_ok True r \<and> p_committed (rp_progress r) = INIT_SLOT \<and> p_accepted (rp_progress r) = INIT_SLOT
    \<and> map le_payload (physical (rp_journal r)) = [P_System Void, P_System (Init order)]"
  by (rule provision_ok [OF assms])

definition founded_log :: segmented_log where
  "founded_log = segmented_log_new\<lparr>sl_tail := take 2 sample_entries, sl_accepted := Some 2\<rparr>"

definition founded_progress :: progress where
  "founded_progress = sample_progress\<lparr>p_status := St_Joining, p_accepted := 2, p_revision := 0\<rparr>"

lemma genesis_members: "wf_members (cfg_order (er_config genesis_record))"
  using cluster_table_wf by (intro wf_config_members) (simp add: wf_table_def wf_record_def cluster_table_def)

lemma cluster_provision:
  "provision 10 [10, 20, 30] weighted_majority segmented_log_new st sample_knobs =
     Ok (assemble 10 weighted_majority founded_log st sample_knobs founded_progress)"
proof -
  note eval = et_extend_def et_current_def void_config_def Let_def partition_point_def total_def et_genesis_def
  have 1: "rbind (et_extend et_genesis Void VOID_SLOT) (\<lambda>table. et_extend table (Init [10, 20, 30]) INIT_SLOT) = Ok cluster_table"
    by (simp add: eval cluster_table_def genesis_record_def INIT_SLOT_def VOID_SLOT_def MAX_MEMBERS_def)
  have 2: "validate_era weighted_majority (er_config genesis_record) = Some (Ok ())"
    using weighted.validate_era_Ok [OF genesis_members] weighted_intersect [OF genesis_members genesis_members close_weights_refl [of "er_config genesis_record"]]
    by blast
  have 3: "install_suffix segmented_log_new VOID_SLOT (take 2 sample_entries) = Ok founded_log"
    by (simp add: founded_log_def sample_entries_def segmented_log_new_def with_tail_capacity_def VOID_SLOT_def
        install_suffix_def cut_last_slab_def partition_point_def slot_next_def checked_add_def)
  have 4: "check founded_progress = Ok ()"
    by (simp add: check_Ok founded_progress_def sample_progress_def era_of_slot_def et_current_def cluster_table_def
        genesis_record_def less_eq_ballot_def word_le_nat_alt Let_def)
  have 5: "lv_last (log_view_of segmented_log_new) = None"
    by (simp add: log_view_of_def segmented_log_new_def with_tail_capacity_def)
  show ?thesis
    using 2 3 4 unfolding provision_def 5 1
    by (simp add: sample_record lifecycle_gate_def reconstitute_def Let_def founded_progress_def
        sample_entries_def VOID_SLOT_def INIT_SLOT_def sample_progress_def SLOT_NONE_def genesis_record_def)
qed

theorem provision_establishes_witness:
  "(let r = assemble 10 weighted_majority founded_log Volatile sample_knobs founded_progress
    in host_ok True r \<and> p_committed (rp_progress r) = 2 \<and> p_accepted (rp_progress r) = 2
      \<and> map le_payload (physical (rp_journal r)) = [P_System Void, P_System (Init [10, 20, 30])])"
  using provision_establishes [OF cluster_provision [of Volatile]]
  by (simp add: segmented_log_new_def wf_new INIT_SLOT_def)

end
