(* ===== verification/Lifecycle.thy ===== *)
theory Lifecycle
  imports Ids
begin

text \<open>
  The boot gate (\<open>src/lifecycle.rs\<close>): the four superblock copies and their quorum read, the
  restart decision, and the typestate driver that owns the write schedules. The host's store, the
  trait \<open>LifecycleStore\<close>, is a record of its three operations over a store state of the host's own.
  A session type of the driver is a value that carries the store state and, where the source has it,
  the identity; a transition consumes the session and hands one back.
\<close>

section \<open>Markers and copies\<close>

datatype marker = Mk_Stopping | Mk_Stopped | Mk_Restarting | Mk_Joining

record copy_state =
  cs_identity :: node_id
  cs_marker :: marker

text \<open>The array of four copies, in their on-disk order.\<close>

type_synonym superblock_copies = "copy_state list"

definition four :: "node_id \<Rightarrow> marker \<Rightarrow> superblock_copies" where
  "four identity mk = replicate 4 \<lparr>cs_identity = identity, cs_marker = mk\<rparr>"

datatype restart_class = RC_Stopped | RC_NotStopped

datatype restart_refusal = RR_QuorumLost | RR_Exhausted node_id

datatype restart_decision = Continue node_id | Bump node_id node_id

text \<open>The tally of \<open>classify\<close>: per identity, the copies that carry it and those of them that hold
  \<open>Stopped\<close>, in the order the identities are first met.\<close>

type_synonym cohort = "node_id \<times> nat \<times> nat"

abbreviation stopped_copy :: "copy_state \<Rightarrow> nat" where
  "stopped_copy c \<equiv> (if cs_marker c = Mk_Stopped then 1 else 0)"

fun tally :: "copy_state \<Rightarrow> cohort list \<Rightarrow> cohort list" where
  "tally c [] = [(cs_identity c, 1, stopped_copy c)]"
| "tally c ((identity, count, stopped) # rest) =
     (if identity = cs_identity c then (identity, count + 1, stopped + stopped_copy c) # rest
      else (identity, count, stopped) # tally c rest)"

definition cohorts :: "superblock_copies \<Rightarrow> cohort list" where
  "cohorts copies = fold (\<lambda>c acc. if cs_identity c = 0 then acc else tally c acc) copies []"

text \<open>\<open>max_by_key\<close> keeps the last of the greatest.\<close>

fun max_by_identity :: "cohort list \<Rightarrow> cohort option" where
  "max_by_identity [] = None"
| "max_by_identity (c # cs) =
     (case max_by_identity cs of
        None \<Rightarrow> Some c
      | Some d \<Rightarrow> if fst c > fst d then Some c else Some d)"

definition classify :: "superblock_copies \<Rightarrow> (restart_class \<times> node_id) option" where
  "classify copies =
     (case max_by_identity (filter (\<lambda>(_, count, _). count \<ge> 2) (cohorts copies)) of
        None \<Rightarrow> None
      | Some (identity, _, stopped) \<Rightarrow> Some (if stopped \<ge> 2 then RC_Stopped else RC_NotStopped, identity))"

definition rewrite :: "superblock_copies \<Rightarrow> node_id \<Rightarrow> marker \<Rightarrow> superblock_copies" where
  "rewrite copies identity mk = map (\<lambda>_. \<lparr>cs_identity = identity, cs_marker = mk\<rparr>) copies"

definition restart :: "superblock_copies \<Rightarrow> restart_refusal + restart_decision \<times> superblock_copies" where
  "restart copies =
     rbind (ok_or (classify copies) RR_QuorumLost) (\<lambda>(class, identity).
       case class of
         RC_Stopped \<Rightarrow> Ok (Continue identity, rewrite copies identity Mk_Restarting)
       | RC_NotStopped \<Rightarrow>
           rbind (ok_or (next_life identity) (RR_Exhausted identity)) (\<lambda>new.
             Ok (Bump identity new, rewrite copies new Mk_Joining)))"

text \<open>The greatest of the four identities; zero is the least word.\<close>

definition read_identity :: "superblock_copies \<Rightarrow> node_id" where
  "read_identity copies = fold (\<lambda>c. max (cs_identity c)) copies 0"

definition begin_stop :: "superblock_copies \<Rightarrow> superblock_copies" where
  "begin_stop copies = rewrite copies (read_identity copies) Mk_Stopping"

definition finish_stop :: "superblock_copies \<Rightarrow> superblock_copies" where
  "finish_stop copies = rewrite copies (read_identity copies) Mk_Stopped"


section \<open>The driver\<close>

record ('s, 'e) lifecycle_store =
  ls_read_copies :: "'s \<Rightarrow> ('e + superblock_copies option) \<times> 's"
  ls_commit :: "superblock_copies \<Rightarrow> 's \<Rightarrow> ('e + unit) \<times> 's"
  ls_drain :: "'s \<Rightarrow> ('e + unit) \<times> 's"

datatype vouched = Vouched node_id

record bumped =
  bp_old :: node_id
  bp_new :: node_id

text \<open>The seated witness, minted by \<open>rejoined\<close> of the replica.\<close>

datatype rejoined_witness = Rejoined_Witness

datatype 'e boot_error = BE_Store 'e | BE_QuorumLost | BE_Exhausted node_id

datatype 's boot_outcome = First 's | Clean 's node_id | Crashed 's node_id

datatype 's running = Running 's node_id

datatype 's halting = Halting 's node_id

datatype 's draining = Draining 's node_id

datatype 's halted = Halted 's

definition boot :: "('s, 'e) lifecycle_store \<Rightarrow> 's \<Rightarrow> ('s \<times> 'e boot_error) + 's boot_outcome" where
  "boot ops store =
     (case ls_read_copies ops store of
        (Inl e, store) \<Rightarrow> Err (store, BE_Store e)
      | (Inr None, store) \<Rightarrow> Ok (First store)
      | (Inr (Some copies), store) \<Rightarrow>
          (case classify copies of
             None \<Rightarrow> Err (store, BE_QuorumLost)
           | Some (RC_Stopped, identity) \<Rightarrow> Ok (Clean store identity)
           | Some (RC_NotStopped, identity) \<Rightarrow> Ok (Crashed store identity)))"

text \<open>A latch or a halt round: four copies committed, and the next session or the same one back.\<close>

definition first_latch ::
    "('s, 'e) lifecycle_store \<Rightarrow> 's \<Rightarrow> node_id \<Rightarrow> ('s \<times> 'e) + 's running" where
  "first_latch ops store identity =
     (case ls_commit ops (four identity Mk_Joining) store of
        (Inr _, store) \<Rightarrow> Ok (Running store identity)
      | (Inl e, store) \<Rightarrow> Err (store, e))"

definition clean_latch ::
    "('s, 'e) lifecycle_store \<Rightarrow> 's \<Rightarrow> node_id \<Rightarrow> ('s \<times> 'e) + 's running \<times> vouched" where
  "clean_latch ops store identity =
     (case ls_commit ops (four identity Mk_Restarting) store of
        (Inr _, store) \<Rightarrow> Ok (Running store identity, Vouched identity)
      | (Inl e, store) \<Rightarrow> Err (store, e))"

definition crashed_pair :: "node_id \<Rightarrow> restart_refusal + bumped" where
  "crashed_pair identity =
     rbind (ok_or (next_life identity) (RR_Exhausted identity)) (\<lambda>new. Ok \<lparr>bp_old = identity, bp_new = new\<rparr>)"

definition crashed_latch ::
    "('s, 'e) lifecycle_store \<Rightarrow> 's \<Rightarrow> node_id \<Rightarrow> rejoined_witness \<Rightarrow> ('s \<times> 'e boot_error) + 's running" where
  "crashed_latch ops store identity witness =
     (case next_life identity of
        None \<Rightarrow> Err (store, BE_Exhausted identity)
      | Some new \<Rightarrow>
          (case ls_commit ops (four new Mk_Joining) store of
             (Inr _, store) \<Rightarrow> Ok (Running store new)
           | (Inl e, store) \<Rightarrow> Err (store, BE_Store e)))"

definition running_begin_stop ::
    "('s, 'e) lifecycle_store \<Rightarrow> 's running \<Rightarrow> ('s running \<times> 'e) + 's halting" where
  "running_begin_stop ops s =
     (case s of Running store identity \<Rightarrow>
        (case ls_commit ops (four identity Mk_Stopping) store of
           (Inr _, store) \<Rightarrow> Ok (Halting store identity)
         | (Inl e, store) \<Rightarrow> Err (Running store identity, e)))"

definition halting_drain ::
    "('s, 'e) lifecycle_store \<Rightarrow> 's halting \<Rightarrow> ('s halting \<times> 'e) + 's draining" where
  "halting_drain ops s =
     (case s of Halting store identity \<Rightarrow>
        (case ls_drain ops store of
           (Inr _, store) \<Rightarrow> Ok (Draining store identity)
         | (Inl e, store) \<Rightarrow> Err (Halting store identity, e)))"

definition draining_finish_stop ::
    "('s, 'e) lifecycle_store \<Rightarrow> 's draining \<Rightarrow> ('s draining \<times> 'e) + 's halted" where
  "draining_finish_stop ops s =
     (case s of Draining store identity \<Rightarrow>
        (case ls_commit ops (four identity Mk_Stopped) store of
           (Inr _, store) \<Rightarrow> Ok (Halted store)
         | (Inl e, store) \<Rightarrow> Err (Draining store identity, e)))"

end
