(* ===== verification/Lifecycle_Theorems.thy ===== *)
theory Lifecycle_Theorems
  imports Lifecycle
begin

text \<open>
  The boot gate over a disk that can tear: what the quorum read answers, a step relation in which
  any commit may stop after any of its four copies and any process may die between two transitions,
  the invariant of its reachable states, and the agreement of the driver with the restart decision.
\<close>

section \<open>The quorum read\<close>

definition carried :: "superblock_copies \<Rightarrow> node_id \<Rightarrow> nat" where
  "carried copies i = length (filter (\<lambda>c. cs_identity c = i) copies)"

definition stopped_of :: "superblock_copies \<Rightarrow> node_id \<Rightarrow> nat" where
  "stopped_of copies i = length (filter (\<lambda>c. cs_identity c = i \<and> cs_marker c = Mk_Stopped) copies)"

lemma counts_Cons [simp]:
  "carried (c # cs) i = (if cs_identity c = i then 1 else 0) + carried cs i"
  "stopped_of (c # cs) i = (if cs_identity c = i \<and> cs_marker c = Mk_Stopped then 1 else 0) + stopped_of cs i"
  by (simp_all add: carried_def stopped_of_def)

lemma counts_Nil [simp]: "carried [] i = 0" "stopped_of [] i = 0"
  by (simp_all add: carried_def stopped_of_def)

lemma stopped_le_carried: "stopped_of cs i \<le> carried cs i"
  by (induction cs) auto

text \<open>A tally holds each identity once, with its counts.\<close>

definition tallies :: "cohort list \<Rightarrow> superblock_copies \<Rightarrow> bool" where
  "tallies acc cs \<longleftrightarrow> distinct (map fst acc)
     \<and> set acc = {(i, carried cs i, stopped_of cs i) | i. i \<noteq> 0 \<and> 0 < carried cs i}"

lemma tally_fst: "fst ` set (tally c acc) = insert (cs_identity c) (fst ` set acc)"
  by (induction c acc rule: tally.induct) auto

lemma tally_distinct: "distinct (map fst acc) \<Longrightarrow> distinct (map fst (tally c acc))"
  using tally_fst by (induction c acc rule: tally.induct) (auto simp del: tally.simps, auto simp: image_iff)

lemma tally_set:
  "distinct (map fst acc) \<Longrightarrow> set (tally c acc) =
     {x \<in> set acc. fst x \<noteq> cs_identity c}
     \<union> {(cs_identity c, n + 1, s + stopped_copy c) | n s. (cs_identity c, n, s) \<in> set acc}
     \<union> (if cs_identity c \<in> fst ` set acc then {} else {(cs_identity c, 1, stopped_copy c)})"
  by (induction c acc rule: tally.induct) (auto simp: image_iff)

lemma tally_tallies:
  assumes "tallies acc cs" "cs_identity c \<noteq> 0"
  shows "tallies (tally c acc) (cs @ [c])"
proof -
  have d: "distinct (map fst acc)" and s: "set acc = {(i, carried cs i, stopped_of cs i) | i. i \<noteq> 0 \<and> 0 < carried cs i}"
    using assms(1) by (simp_all add: tallies_def)
  have app: "carried (cs @ [c]) i = carried cs i + (if cs_identity c = i then 1 else 0)"
    "stopped_of (cs @ [c]) i = stopped_of cs i + (if cs_identity c = i \<and> cs_marker c = Mk_Stopped then 1 else 0)" for i
    by (simp_all add: carried_def stopped_of_def)
  have none: "stopped_of cs i = 0" if "carried cs i = 0" for i using stopped_le_carried [of cs i] that by simp
  have "cs_identity c \<in> fst ` set acc \<longleftrightarrow> 0 < carried cs (cs_identity c)"
    using assms(2) by (auto simp: s image_iff)
  then have "set (tally c acc) = {(i, carried (cs @ [c]) i, stopped_of (cs @ [c]) i) | i. i \<noteq> 0 \<and> 0 < carried (cs @ [c]) i}"
    unfolding tally_set [OF d] s app using assms(2) none by (auto split: if_splits)
  then show ?thesis using tally_distinct [OF d] by (simp add: tallies_def)
qed

lemma cohorts_tallies: "tallies (cohorts copies) copies"
proof (induction copies rule: rev_induct)
  case Nil
  then show ?case by (simp add: cohorts_def tallies_def)
next
  case (snoc c cs)
  show ?case
  proof (cases "cs_identity c = 0")
    case True
    then have "carried (cs @ [c]) i = carried cs i" "stopped_of (cs @ [c]) i = stopped_of cs i" if "i \<noteq> 0" for i
      using that by (auto simp: carried_def stopped_of_def)
    then show ?thesis using snoc True by (auto simp: cohorts_def tallies_def)
  next
    case False
    then show ?thesis using tally_tallies [OF snoc False] by (simp add: cohorts_def)
  qed
qed

lemma max_by_identity_max:
  "max_by_identity cs = Some m \<Longrightarrow> m \<in> set cs \<and> (\<forall>c \<in> set cs. fst c \<le> fst m)"
  "max_by_identity cs = None \<longleftrightarrow> cs = []"
  by (induction cs arbitrary: m) (auto split: option.splits if_splits)

text \<open>The verdict, in counts: the greatest identity that two copies carry, clean when two of its
  copies hold \<open>Stopped\<close>.\<close>

abbreviation working :: "cohort list \<Rightarrow> cohort list" where
  "working \<equiv> filter (\<lambda>(_, count, _). count \<ge> 2)"

lemma working_set:
  "set (working (cohorts copies)) = (\<lambda>j. (j, carried copies j, stopped_of copies j)) ` {j. j \<noteq> 0 \<and> 2 \<le> carried copies j}"
  using cohorts_tallies [of copies] by (auto simp: tallies_def)

lemma classify_None: "classify copies = None \<longleftrightarrow> (\<forall>i. i \<noteq> 0 \<longrightarrow> carried copies i < 2)"
proof -
  have "classify copies = None \<longleftrightarrow> max_by_identity (working (cohorts copies)) = None"
    by (auto simp: classify_def split: option.split)
  then have "classify copies = None \<longleftrightarrow> set (working (cohorts copies)) = {}"
    unfolding max_by_identity_max(2) set_empty .
  then show ?thesis unfolding working_set by (auto simp: not_le)
qed

lemma classify_Some:
  "classify copies = Some (class, i) \<longleftrightarrow>
     i \<noteq> 0 \<and> 2 \<le> carried copies i \<and> (\<forall>j. j \<noteq> 0 \<longrightarrow> 2 \<le> carried copies j \<longrightarrow> j \<le> i)
     \<and> class = (if 2 \<le> stopped_of copies i then RC_Stopped else RC_NotStopped)"
proof (cases "max_by_identity (working (cohorts copies))")
  case None
  then have "classify copies = None" by (simp add: classify_def)
  then show ?thesis using classify_None [of copies] by (auto simp: not_le)
next
  case (Some m)
  note m = max_by_identity_max(1) [OF Some, unfolded working_set]
  then obtain j where j: "m = (j, carried copies j, stopped_of copies j)" "j \<noteq> 0" "2 \<le> carried copies j"
    by blast
  have "k \<le> j" if "k \<noteq> 0" "2 \<le> carried copies k" for k using m that by (force simp: j(1))
  then have "i \<noteq> 0 \<and> 2 \<le> carried copies i \<and> (\<forall>k. k \<noteq> 0 \<longrightarrow> 2 \<le> carried copies k \<longrightarrow> k \<le> i) \<longleftrightarrow> i = j"
    using j(2,3) by (auto intro: order_antisym)
  then show ?thesis using Some j(1) by (auto simp: classify_def)
qed

lemma counts_four [simp]:
  "carried (four i m) j = (if i = j then 4 else 0)"
  "stopped_of (four i m) j = (if i = j \<and> m = Mk_Stopped then 4 else 0)"
  by (simp_all add: four_def carried_def stopped_of_def)

lemma classify_four: "i \<noteq> 0 \<Longrightarrow> classify (four i m) = Some (if m = Mk_Stopped then RC_Stopped else RC_NotStopped, i)"
  by (auto simp: classify_Some split: if_splits)

section \<open>A disk that can tear\<close>

text \<open>The store of four copies. A commit succeeds, or it fails having written some of the copies; the
  first four copies ever written find blank ones. The disk of a process that dies inside a commit is the
  one the failed commit leaves.\<close>

type_synonym disk = "superblock_copies option"

definition tear :: "(nat \<Rightarrow> bool) \<Rightarrow> superblock_copies \<Rightarrow> disk \<Rightarrow> disk" where
  "tear written copies d =
     (if \<forall>k<4. \<not> written k then d
      else let old = (case d of None \<Rightarrow> four 0 Mk_Stopping | Some old \<Rightarrow> old)
           in Some (map (\<lambda>k. if written k then copies ! k else old ! k) [0..<4]))"

definition marker_disk :: "(nat \<Rightarrow> bool) option \<Rightarrow> (disk, unit) lifecycle_store" where
  "marker_disk torn =
     \<lparr>ls_read_copies = (\<lambda>d. (Ok d, d)),
      ls_commit = (\<lambda>copies d. case torn of None \<Rightarrow> (Ok (), Some copies)
                                | Some written \<Rightarrow> (Err (), tear written copies d)),
      ls_drain = (\<lambda>d. case torn of None \<Rightarrow> (Ok (), d) | Some _ \<Rightarrow> (Err (), d))\<rparr>"

lemma marker_disk_ops [simp]:
  "ls_read_copies (marker_disk torn) d = (Ok d, d)"
  "ls_commit (marker_disk torn) copies d =
     (case torn of None \<Rightarrow> (Ok (), Some copies) | Some written \<Rightarrow> (Err (), tear written copies d))"
  "ls_drain (marker_disk torn) d = (case torn of None \<Rightarrow> (Ok (), d) | Some _ \<Rightarrow> (Err (), d))"
  by (simp_all add: marker_disk_def)

text \<open>What a process is: down, or in a session of the driver. Two ghosts are carried along: whether
  everything done under an identity is beneath a drain, and the identity the process last acted under.
  A crashed session acts under the bumped identity before its latch, which the witness defers.\<close>

datatype gate =
    Down disk
  | Booted "disk boot_outcome"
  | Up "disk running"
  | Halts "disk halting"
  | Drains "disk draining"
  | Off "disk halted"

record machine =
  mc_gate :: gate
  mc_drained :: bool
  mc_ran :: "node_id option"

abbreviation machine_of :: "gate \<Rightarrow> bool \<Rightarrow> node_id option \<Rightarrow> machine" where
  "machine_of g b i \<equiv> \<lparr>mc_gate = g, mc_drained = b, mc_ran = i\<rparr>"

fun outcome_disk :: "disk boot_outcome \<Rightarrow> disk" where
  "outcome_disk (First d) = d"
| "outcome_disk (Clean d _) = d"
| "outcome_disk (Crashed d _) = d"

fun disk_of :: "gate \<Rightarrow> disk" where
  "disk_of (Down d) = d"
| "disk_of (Booted out) = outcome_disk out"
| "disk_of (Up (Running d _)) = d"
| "disk_of (Halts (Halting d _)) = d"
| "disk_of (Drains (Draining d _)) = d"
| "disk_of (Off (Halted d)) = d"

inductive gate_step :: "machine \<Rightarrow> machine \<Rightarrow> bool" where
  boots: "boot (marker_disk f) d = Ok out \<Longrightarrow> gate_step (machine_of (Down d) b r) (machine_of (Booted out) b r)"
| first_ok: "identity \<noteq> 0 \<Longrightarrow> first_latch (marker_disk f) d identity = Ok s \<Longrightarrow>
    gate_step (machine_of (Booted (First d)) b r) (machine_of (Up s) False (Some identity))"
| first_err: "identity \<noteq> 0 \<Longrightarrow> first_latch (marker_disk f) d identity = Err (d', e) \<Longrightarrow>
    gate_step (machine_of (Booted (First d)) b r) (machine_of (Booted (First d')) b r)"
| clean_ok: "clean_latch (marker_disk f) d i = Ok (s, v) \<Longrightarrow>
    gate_step (machine_of (Booted (Clean d i)) b r) (machine_of (Up s) False (Some i))"
| clean_err: "clean_latch (marker_disk f) d i = Err (d', e) \<Longrightarrow>
    gate_step (machine_of (Booted (Clean d i)) b r) (machine_of (Booted (Clean d' i)) b r)"
| announce: "crashed_pair i = Ok p \<Longrightarrow>
    gate_step (machine_of (Booted (Crashed d i)) b r) (machine_of (Booted (Crashed d i)) False (Some (bp_new p)))"
| crashed_ok: "crashed_latch (marker_disk f) d i w = Ok (Running d' n) \<Longrightarrow>
    gate_step (machine_of (Booted (Crashed d i)) b r) (machine_of (Up (Running d' n)) False (Some n))"
| crashed_err: "crashed_latch (marker_disk f) d i w = Err (d', e) \<Longrightarrow>
    gate_step (machine_of (Booted (Crashed d i)) b r) (machine_of (Booted (Crashed d' i)) b r)"
| stop_ok: "running_begin_stop (marker_disk f) s = Ok h \<Longrightarrow>
    gate_step (machine_of (Up s) b r) (machine_of (Halts h) b r)"
| stop_err: "running_begin_stop (marker_disk f) s = Err (s', e) \<Longrightarrow>
    gate_step (machine_of (Up s) b r) (machine_of (Up s') b r)"
| drain_ok: "halting_drain (marker_disk f) h = Ok dr \<Longrightarrow>
    gate_step (machine_of (Halts h) b r) (machine_of (Drains dr) True r)"
| drain_err: "halting_drain (marker_disk f) h = Err (h', e) \<Longrightarrow>
    gate_step (machine_of (Halts h) b r) (machine_of (Halts h') b r)"
| finish_ok: "draining_finish_stop (marker_disk f) dr = Ok x \<Longrightarrow>
    gate_step (machine_of (Drains dr) b r) (machine_of (Off x) b r)"
| finish_err: "draining_finish_stop (marker_disk f) dr = Err (dr', e) \<Longrightarrow>
    gate_step (machine_of (Drains dr) b r) (machine_of (Drains dr') b r)"
| dies: "gate_step (machine_of g b r) (machine_of (Down (disk_of g)) b r)"

inductive gate_reachable :: "machine \<Rightarrow> bool" where
  new: "gate_reachable (machine_of (Down None) True None)"
| step: "gate_reachable m \<Longrightarrow> gate_step m m' \<Longrightarrow> gate_reachable m'"


section \<open>The invariant of the gate\<close>

definition uniform :: "disk \<Rightarrow> node_id \<Rightarrow> bool" where
  "uniform d i \<longleftrightarrow> (\<exists>cs. d = Some cs \<and> length cs = 4 \<and> (\<forall>c \<in> set cs. cs_identity c = i))"

definition disk_stopped :: "disk \<Rightarrow> node_id \<Rightarrow> nat" where
  "disk_stopped d i = (case d of None \<Rightarrow> 0 | Some cs \<Rightarrow> stopped_of cs i)"

fun gate_ok :: "gate \<Rightarrow> bool \<Rightarrow> node_id option \<Rightarrow> bool" where
  "gate_ok (Down d) b r \<longleftrightarrow> (\<forall>i. i \<noteq> 0 \<longrightarrow> 2 \<le> disk_stopped d i \<longrightarrow> uniform d i \<and> b \<and> r = Some i)"
| "gate_ok (Booted (First d)) b r \<longleftrightarrow> (\<forall>i. i \<noteq> 0 \<longrightarrow> disk_stopped d i < 2)"
| "gate_ok (Booted (Clean d i)) b r \<longleftrightarrow> i \<noteq> 0 \<and> uniform d i \<and> b \<and> r = Some i"
| "gate_ok (Booted (Crashed d i)) b r \<longleftrightarrow> i \<noteq> 0 \<and> (\<forall>i. i \<noteq> 0 \<longrightarrow> disk_stopped d i < 2)"
| "gate_ok (Up (Running d i)) b r \<longleftrightarrow> i \<noteq> 0 \<and> uniform d i \<and> disk_stopped d i < 2 \<and> r = Some i"
| "gate_ok (Halts (Halting d i)) b r \<longleftrightarrow> i \<noteq> 0 \<and> uniform d i \<and> disk_stopped d i < 2 \<and> r = Some i"
| "gate_ok (Drains (Draining d i)) b r \<longleftrightarrow> i \<noteq> 0 \<and> uniform d i \<and> b \<and> r = Some i"
| "gate_ok (Off (Halted d)) b r \<longleftrightarrow> (\<exists>i. i \<noteq> 0 \<and> uniform d i \<and> b \<and> r = Some i)"

definition disk_ok :: "disk \<Rightarrow> bool" where
  "disk_ok d \<longleftrightarrow> (\<forall>cs. d = Some cs \<longrightarrow> length cs = 4)"

lemma stopped_of_map: "stopped_of (map f xs) i = length (filter (\<lambda>x. cs_identity (f x) = i \<and> cs_marker (f x) = Mk_Stopped) xs)"
  by (simp add: stopped_of_def filter_map o_def)

lemma four_nth: "k < 4 \<Longrightarrow> four i m ! k = \<lparr>cs_identity = i, cs_marker = m\<rparr>"
  by (simp add: four_def)

text \<open>A torn write of a marker other than \<open>Stopped\<close> never adds to the stopped copies.\<close>

lemma tear_stopped:
  assumes "m \<noteq> Mk_Stopped" "disk_ok d"
  shows "disk_stopped (tear w (four j m) d) i \<le> disk_stopped d i"
proof -
  define old where "old = (case d of None \<Rightarrow> four 0 Mk_Stopping | Some old \<Rightarrow> old)"
  have l: "length old = 4" using assms(2) by (auto simp: old_def disk_ok_def four_def split: option.split)
  have o: "stopped_of old i = disk_stopped d i"
    by (simp add: old_def disk_stopped_def split: option.split)
  have "stopped_of (map (\<lambda>k. if w k then four j m ! k else old ! k) [0..<4]) i \<le> stopped_of (map ((!) old) [0..<4]) i"
    using assms(1) by (simp add: upt_conv_Cons four_nth stopped_of_def)
  also have "map ((!) old) [0..<4] = old" using map_nth [of old] l by simp
  finally show ?thesis using o by (simp add: tear_def Let_def disk_stopped_def flip: old_def)
qed

lemma tear_uniform: "uniform d i \<Longrightarrow> uniform (tear w (four i m) d) i"
  by (auto simp: uniform_def tear_def four_nth Let_def)

lemma tear_disk_ok: "disk_ok d \<Longrightarrow> disk_ok (tear w c d)"
  by (auto simp: tear_def disk_ok_def Let_def)

lemma uniform_four [simp]: "uniform (Some (four i m)) i"
  by (simp add: uniform_def four_def)

lemma disk_stopped_four [simp]: "disk_stopped (Some (four i m)) j = (if i = j \<and> m = Mk_Stopped then 4 else 0)"
  by (simp add: disk_stopped_def)

lemma disk_ok_four [simp]: "disk_ok (Some (four i m))"
  by (simp add: disk_ok_def four_def)

definition machine_ok :: "machine \<Rightarrow> bool" where
  "machine_ok m \<longleftrightarrow> disk_ok (disk_of (mc_gate m)) \<and> gate_ok (mc_gate m) (mc_drained m) (mc_ran m)"

lemma uniform_stopped: "uniform d i \<Longrightarrow> 2 \<le> disk_stopped d j \<Longrightarrow> j = i"
  by (rule ccontr) (auto simp: uniform_def disk_stopped_def stopped_of_def filter_empty_conv)

lemma uniform_carried: "uniform (Some cs) i \<Longrightarrow> 0 < carried cs j \<Longrightarrow> j = i"
  by (auto simp: uniform_def carried_def filter_empty_conv simp flip: length_greater_0_conv)

lemma down_uniform:
  assumes "uniform d i" "r = Some i" "2 \<le> disk_stopped d i \<Longrightarrow> b"
  shows "gate_ok (Down d) b r"
proof -
  have "uniform d j \<and> b \<and> r = Some j" if "2 \<le> disk_stopped d j" for j
    using uniform_stopped [OF assms(1) that] assms that by simp
  then show ?thesis by simp
qed

lemma down_few: "(\<And>i. i \<noteq> 0 \<Longrightarrow> disk_stopped d i < 2) \<Longrightarrow> gate_ok (Down d) b r"
  using leD by fastforce

lemma gate_ok_dies: "gate_ok g b r \<Longrightarrow> gate_ok (Down (disk_of g)) b r"
proof (cases "(g, b, r)" rule: gate_ok.cases)
  case (1 d b' r')
  then show "gate_ok g b r \<Longrightarrow> ?thesis" by simp
qed (simp_all add: down_uniform down_few del: gate_ok.simps(1), auto intro: down_uniform simp del: gate_ok.simps(1))

lemma boots_ok:
  assumes "boot (marker_disk f) d = Ok out" "gate_ok (Down d) b r"
  shows "outcome_disk out = d" "gate_ok (Booted out) b r"
proof -
  show d: "outcome_disk out = d"
    using assms(1) by (auto simp: boot_def split: option.splits prod.splits restart_class.splits)
  show "gate_ok (Booted out) b r"
  proof (cases out)
    case (First x)
    then show ?thesis using assms(1) d by (auto simp: boot_def disk_stopped_def split: option.splits prod.splits restart_class.splits)
  next
    case (Clean x i)
    with assms(1) d obtain cs where "d = Some cs" "classify cs = Some (RC_Stopped, i)"
      by (auto simp: boot_def split: option.splits prod.splits restart_class.splits)
    then show ?thesis using assms(2) Clean d by (auto simp: classify_Some disk_stopped_def split: if_splits)
  next
    case (Crashed x i)
    with assms(1) d obtain cs where cs: "d = Some cs" "classify cs = Some (RC_NotStopped, i)"
      by (auto simp: boot_def split: option.splits prod.splits restart_class.splits)
    then have i: "i \<noteq> 0" "2 \<le> carried cs i" "\<not> 2 \<le> stopped_of cs i"
      by (simp_all add: classify_Some split: if_splits)
    have "disk_stopped d j < 2" if "j \<noteq> 0" for j
    proof (rule ccontr)
      assume "\<not> disk_stopped d j < 2"
      then have "uniform d j" "2 \<le> disk_stopped d j" using assms(2) that by (simp_all add: not_less)
      moreover from this(1) have "i = j" using uniform_carried [of cs j i] i(2) cs(1) by simp
      ultimately show False using i(3) cs(1) by (simp add: disk_stopped_def)
    qed
    then show ?thesis using Crashed d i(1) by simp
  qed
qed

lemma next_life_nonzero: "next_life n = Some k \<Longrightarrow> k \<noteq> 0"
  using node_id_new_inject [of _ _ 0 0]
  by (auto simp: next_life_def system_id_new_def system_id_def node_id_new_def split: option.splits if_splits)

lemmas driver_defs = first_latch_def clean_latch_def crashed_pair_def crashed_latch_def running_begin_stop_def
  halting_drain_def draining_finish_stop_def

lemma tear_below: "disk_ok d \<Longrightarrow> m \<noteq> Mk_Stopped \<Longrightarrow> disk_stopped d i < 2 \<Longrightarrow> disk_stopped (tear w (four j m) d) i < 2"
  using tear_stopped [of m d w j i] by simp

lemma gate_step_ok: "gate_step m m' \<Longrightarrow> machine_ok m \<Longrightarrow> machine_ok m'"
proof (induction rule: gate_step.induct)
  case (boots f d out b r)
  then show ?case using boots_ok [of f d out b r] by (simp add: machine_ok_def)
next
  case (dies g b r)
  then show ?case using gate_ok_dies [of g b r] by (simp add: machine_ok_def)
qed (auto simp: machine_ok_def driver_defs tear_uniform tear_disk_ok tear_below next_life_nonzero
      split: option.splits running.splits halting.splits draining.splits)

lemma gate_reachable_ok: "gate_reachable m \<Longrightarrow> machine_ok m"
  by (induction rule: gate_reachable.induct)
     (auto simp: machine_ok_def disk_ok_def disk_stopped_def dest: gate_step_ok)


section \<open>Any store that honours its contract\<close>

text \<open>What the driver asks of a host: a read answers what is durable and leaves it, and a commit that
  succeeds makes its copies durable.\<close>

locale marker_store =
  fixes ops :: "('s, 'e) lifecycle_store" and durable :: "'s \<Rightarrow> superblock_copies option"
  assumes read: "ls_read_copies ops s = (Ok c, s') \<Longrightarrow> c = durable s \<and> durable s' = durable s"
    and commit: "ls_commit ops copies s = (Ok (), s') \<Longrightarrow> durable s' = Some copies"
begin

lemma boot_four:
  assumes "durable s = Some (four i m)" "i \<noteq> 0" "boot ops s = Ok out"
  obtains t where "out = (if m = Mk_Stopped then Clean t i else Crashed t i)"
  using assms read [of s] classify_four [OF assms(2)]
  by (auto simp: boot_def split: prod.splits sum.splits option.splits restart_class.splits if_splits)

lemma halt_durable:
  assumes "running_begin_stop ops (Running s i) = Ok h" "halting_drain ops h = Ok dr"
    and "draining_finish_stop ops dr = Ok (Halted s')"
  shows "durable s' = Some (four i Mk_Stopped)"
  using assms commit by (auto simp: driver_defs split: prod.splits sum.splits)

end

interpretation torn_disk: marker_store "marker_disk torn" "\<lambda>d. d"
  by unfold_locales (auto split: option.splits)


section \<open>Properties\<close>

text \<open>C16. A clean start vouches for the drain: however the commits tear and wherever the process dies,
  when the boot gate answers a clean start then everything ever done is beneath a drain, and the
  identity it resumes is the one that last acted.\<close>

theorem clean_start_vouches:
  assumes "gate_reachable (machine_of (Down d) drained acted)" "boot (marker_disk torn) d = Ok (Clean d' i)"
  shows "drained \<and> acted = Some i"
  using boots_ok(2) [OF assms(2), of drained acted] gate_reachable_ok [OF assms(1)] by (simp add: machine_ok_def)

definition life :: "u16 \<Rightarrow> node_id" where
  "life k = node_id_new 1 k"

lemma life_facts: "life k = 0 \<longleftrightarrow> False" "life j = life k \<longleftrightarrow> j = k" "next_life (life 1) = Some (life 2)"
    "next_life (life 2) = Some (life 3)"
proof -
  have "node_id_new 0 0 = 0" by (simp add: node_id_new_def)
  then show "life k = 0 \<longleftrightarrow> False" using node_id_new_inject [of 1 k 0 0] by (simp add: life_def)
qed (simp_all add: life_def next_life_pack)

lemma born: "gate_reachable (machine_of (Up (Running (Some (four (life 1) Mk_Joining)) (life 1))) False (Some (life 1)))"
proof -
  have "gate_reachable (machine_of (Booted (First None)) True None)"
    by (rule step [OF new boots [of None]]) (simp add: boot_def)
  then show ?thesis
    by (rule step [OF _ first_ok [of "life 1" None]]) (simp_all add: life_facts first_latch_def)
qed

lemma halted: "gate_reachable (machine_of (Down (Some (four (life 1) Mk_Stopped))) True (Some (life 1)))"
proof -
  have "gate_reachable (machine_of (Halts (Halting (Some (four (life 1) Mk_Stopping)) (life 1))) False (Some (life 1)))"
    by (rule step [OF born stop_ok [of None]]) (simp add: running_begin_stop_def)
  then have "gate_reachable (machine_of (Drains (Draining (Some (four (life 1) Mk_Stopping)) (life 1))) True (Some (life 1)))"
    by (rule step [OF _ drain_ok [of None]]) (simp add: halting_drain_def)
  then have "gate_reachable (machine_of (Off (Halted (Some (four (life 1) Mk_Stopped)))) True (Some (life 1)))"
    by (rule step [OF _ finish_ok [of None]]) (simp add: draining_finish_stop_def)
  from step [OF this dies] show ?thesis by simp
qed

theorem clean_start_vouches_witness: "True \<and> Some (life 1) = Some (life 1)"
proof (rule clean_start_vouches [OF halted, of None "Some (four (life 1) Mk_Stopped)"])
  show "boot (marker_disk None) (Some (four (life 1) Mk_Stopped)) = Ok (Clean (Some (four (life 1) Mk_Stopped)) (life 1))"
    by (simp add: boot_def classify_four life_facts)
qed

text \<open>C17. A crash is never mistaken for a stop: the disk of a running process, its halt not begun or torn
  in its first round, boots as crashed under the identity that ran.\<close>

theorem crash_is_classified:
  assumes "gate_reachable (machine_of (Up (Running d i)) drained acted)"
  shows "boot (marker_disk torn) d = Ok (Crashed d i)"
proof -
  have ok: "i \<noteq> 0" "uniform d i" "disk_stopped d i < 2"
    using gate_reachable_ok [OF assms] by (simp_all add: machine_ok_def)
  then obtain cs where cs: "d = Some cs" "length cs = 4" "\<forall>c \<in> set cs. cs_identity c = i"
    by (auto simp: uniform_def)
  then have "carried cs i = 4" by (simp add: carried_def)
  moreover have "j = i" if "2 \<le> carried cs j" for j
    using uniform_carried [of cs i j] ok(2) cs(1) that by simp
  ultimately have "classify cs = Some (RC_NotStopped, i)"
    using ok(1,3) cs(1) by (auto simp: classify_Some disk_stopped_def)
  then show ?thesis using cs(1) by (simp add: boot_def)
qed

theorem crash_is_classified_witness:
  "boot (marker_disk None) (Some (four (life 1) Mk_Joining)) = Ok (Crashed (Some (four (life 1) Mk_Joining)) (life 1))"
  by (rule crash_is_classified [OF born])

lemma ex_four: "(\<forall>k<4. P k) \<longleftrightarrow> P 0 \<and> P 1 \<and> P 2 \<and> P (3 :: nat)"
  by (auto simp: less_Suc_eq numeral_eq_Suc)

definition torn_twice :: disk where
  "torn_twice = tear (\<lambda>k. k = 0) (four (life 3) Mk_Joining)
     (tear (\<lambda>k. k < 2) (four (life 2) Mk_Joining) (Some (four (life 1) Mk_Joining)))"

text \<open>C18. A deferred latch that tears can bring a dead identity back: life 2 was seated and crashed, life 3
  acted after it and tore its latch, and the next boot resolves life 1 and decides life 2 again.\<close>

theorem torn_latch_revives_dead_identity:
  "\<exists>m drained. gate_reachable m \<and> mc_ran m = Some (life 2)
     \<and> gate_step\<^sup>*\<^sup>* m (machine_of (Down torn_twice) drained (Some (life 3)))
     \<and> boot (marker_disk None) torn_twice = Ok (Crashed torn_twice (life 1))
     \<and> crashed_pair (life 1) = Ok \<lparr>bp_old = life 1, bp_new = life 2\<rparr>"
proof -
  let ?j = "\<lambda>i. \<lparr>cs_identity = life i, cs_marker = Mk_Joining\<rparr>"
  let ?d1 = "Some (four (life 1) Mk_Joining)" and ?d2 = "Some [?j 2, ?j 2, ?j 1, ?j 1]"
    and ?d3 = "Some [?j 3, ?j 2, ?j 1, ?j 1]"
  let ?m = "\<lambda>d i r. machine_of (Booted (Crashed d (life i))) False (Some (life r))"
  have tears: "tear (\<lambda>k. k < 2) (four (life 2) Mk_Joining) ?d1 = ?d2"
    "tear (\<lambda>k. k = 0) (four (life 3) Mk_Joining) ?d2 = ?d3"
    by (simp_all add: tear_def upt_conv_Cons four_nth ex_four)
  have boot: "boot (marker_disk None) ?d1 = Ok (Crashed ?d1 (life 1))" "boot (marker_disk None) ?d2 = Ok (Crashed ?d2 (life 2))"
    "boot (marker_disk None) ?d3 = Ok (Crashed ?d3 (life 1))"
    by (simp_all add: boot_def classify_def cohorts_def four_def numeral_eq_Suc life_facts) (simp add: life_def node_id_new_def)
  have pair: "crashed_pair (life 1) = Ok \<lparr>bp_old = life 1, bp_new = life 2\<rparr>"
    "crashed_pair (life 2) = Ok \<lparr>bp_old = life 2, bp_new = life 3\<rparr>"
    by (simp_all add: crashed_pair_def life_facts)
  have "gate_reachable (machine_of (Down ?d1) False (Some (life 1)))" using step [OF born dies] by simp
  then have "gate_reachable (?m ?d1 1 1)" by (rule step [OF _ boots [OF boot(1)]])
  then have r: "gate_reachable (?m ?d1 1 2)" using step [OF _ announce [OF pair(1)]] by simp
  have "gate_step (?m ?d1 1 2) (?m ?d2 1 2)"
    by (rule crashed_err [of "Some (\<lambda>k. k < 2)"]) (simp add: crashed_latch_def life_facts tears(1))
  moreover have "gate_step (?m ?d2 1 2) (machine_of (Down ?d2) False (Some (life 2)))"
    using dies [of "Booted (Crashed ?d2 (life 1))"] by simp
  moreover have "gate_step (machine_of (Down ?d2) False (Some (life 2))) (?m ?d2 2 2)" by (rule boots [OF boot(2)])
  moreover have "gate_step (?m ?d2 2 2) (?m ?d2 2 3)" using announce [OF pair(2)] by simp
  moreover have "gate_step (?m ?d2 2 3) (?m ?d3 2 3)"
    by (rule crashed_err [of "Some (\<lambda>k. k = 0)"]) (simp add: crashed_latch_def life_facts tears(2))
  moreover have "gate_step (?m ?d3 2 3) (machine_of (Down ?d3) False (Some (life 3)))"
    using dies [of "Booted (Crashed ?d3 (life 2))"] by simp
  ultimately have "gate_step\<^sup>*\<^sup>* (?m ?d1 1 2) (machine_of (Down ?d3) False (Some (life 3)))"
    by (meson converse_rtranclp_into_rtranclp r_into_rtranclp)
  moreover have "torn_twice = ?d3" by (simp only: torn_twice_def tears)
  ultimately show ?thesis using r boot(3) pair(1) by auto
qed

lemma rewrite_four: "length copies = 4 \<Longrightarrow> rewrite copies i m = four i m"
  by (simp add: rewrite_def four_def map_replicate_const)

lemma restart_cases:
  "restart copies =
     (case classify copies of
        None \<Rightarrow> Err RR_QuorumLost
      | Some (RC_Stopped, i) \<Rightarrow> Ok (Continue i, rewrite copies i Mk_Restarting)
      | Some (RC_NotStopped, i) \<Rightarrow>
          (case next_life i of None \<Rightarrow> Err (RR_Exhausted i) | Some n \<Rightarrow> Ok (Bump i n, rewrite copies n Mk_Joining)))"
  by (simp add: restart_def ok_or_def split: option.split restart_class.split prod.split)

text \<open>The typestate driver takes the restart decision: over any store that answers the copies read, the
  boot gate and the latch that follows it refuse what \<open>restart\<close> refuses, and otherwise open the session
  of its decision and commit exactly the copies it leaves on disk.\<close>

theorem restart_agrees_with_driver:
  assumes "length copies = 4" "ls_read_copies ops s = (Ok (Some copies), t)"
  shows "case restart copies of
      Inl RR_QuorumLost \<Rightarrow> boot ops s = Err (t, BE_QuorumLost)
    | Inl (RR_Exhausted i) \<Rightarrow> boot ops s = Ok (Crashed t i) \<and> crashed_pair i = Err (RR_Exhausted i)
        \<and> crashed_latch ops t i w = Err (t, BE_Exhausted i)
    | Inr (Continue i, c) \<Rightarrow> boot ops s = Ok (Clean t i)
        \<and> clean_latch ops t i = (case ls_commit ops c t of
            (Inl e, u) \<Rightarrow> Err (u, e) | (Inr _, u) \<Rightarrow> Ok (Running u i, Vouched i))
    | Inr (Bump old new, c) \<Rightarrow> boot ops s = Ok (Crashed t old) \<and> crashed_pair old = Ok \<lparr>bp_old = old, bp_new = new\<rparr>
        \<and> crashed_latch ops t old w = (case ls_commit ops c t of
            (Inl e, u) \<Rightarrow> Err (u, BE_Store e) | (Inr _, u) \<Rightarrow> Ok (Running u new))"
proof (cases "classify copies")
  case None
  then show ?thesis using assms by (simp add: restart_cases boot_def)
next
  case (Some v)
  obtain k i where v: "v = (k, i)" by fastforce
  show ?thesis
  proof (cases k)
    case RC_Stopped
    then show ?thesis using assms Some v
      by (simp add: restart_cases boot_def driver_defs rewrite_four split: prod.split sum.split)
  next
    case RC_NotStopped
    then show ?thesis using assms Some v
      by (cases "next_life i")
         (simp_all add: restart_cases boot_def driver_defs ok_or_def rewrite_four split: prod.split sum.split)
  qed
qed

theorem restart_agrees_with_driver_witness:
  "boot (marker_disk None) (Some (four (life 1) Mk_Joining)) = Ok (Crashed (Some (four (life 1) Mk_Joining)) (life 1))
   \<and> crashed_latch (marker_disk None) (Some (four (life 1) Mk_Joining)) (life 1) Rejoined_Witness =
       Ok (Running (Some (four (life 2) Mk_Joining)) (life 2))"
proof -
  have "restart (four (life 1) Mk_Joining) = Ok (Bump (life 1) (life 2), four (life 2) Mk_Joining)"
    by (simp add: restart_cases classify_four life_facts) (simp add: rewrite_four four_def)
  then show ?thesis
    using restart_agrees_with_driver [of "four (life 1) Mk_Joining" "marker_disk None" "Some (four (life 1) Mk_Joining)"
        "Some (four (life 1) Mk_Joining)" Rejoined_Witness]
    by (simp add: four_def)
qed

text \<open>C19. A controlled halt is read back as one: over any store that honours its contract, a running
  process that goes through both halt rounds and the drain boots clean under its identity.\<close>

theorem controlled_halt_boots_clean:
  assumes "marker_store ops durable" "i \<noteq> 0"
    and "running_begin_stop ops (Running s i) = Ok h" "halting_drain ops h = Ok dr"
      "draining_finish_stop ops dr = Ok (Halted s')" "boot ops s' = Ok out"
  shows "\<exists>t. out = Clean t i"
proof -
  have "durable s' = Some (four i Mk_Stopped)" by (rule marker_store.halt_durable [OF assms(1,3-5)])
  from marker_store.boot_four [OF assms(1) this assms(2,6)] show ?thesis by auto
qed

theorem controlled_halt_boots_clean_witness:
  "\<exists>t. (Clean (Some (four (life 1) Mk_Stopped)) (life 1) :: disk boot_outcome) = Clean t (life 1)"
proof (rule controlled_halt_boots_clean [OF torn_disk.marker_store_axioms])
  show "running_begin_stop (marker_disk None) (Running None (life 1)) = Ok (Halting (Some (four (life 1) Mk_Stopping)) (life 1))"
    "halting_drain (marker_disk None) (Halting (Some (four (life 1) Mk_Stopping)) (life 1)) =
       Ok (Draining (Some (four (life 1) Mk_Stopping)) (life 1))"
    "draining_finish_stop (marker_disk None) (Draining (Some (four (life 1) Mk_Stopping)) (life 1)) =
       Ok (Halted (Some (four (life 1) Mk_Stopped)))"
    "boot (marker_disk None) (Some (four (life 1) Mk_Stopped)) = Ok (Clean (Some (four (life 1) Mk_Stopped)) (life 1))"
    by (simp_all add: driver_defs boot_def classify_four life_facts)
qed (simp add: life_facts)

end
