(* ===== verification/Locks.thy ===== *)
theory Locks
  imports Prelude
begin

text \<open>
  The advisory lock table (\<open>src/locks.rs\<close>): leases on the replicated clock, the four requests over
  one client table, the generation watermark, snapshots, and the guard of the lazy load. The payload
  codec is \<open>serde_json\<close> and the store is the host's, so both are arguments.
\<close>

section \<open>Identities and leases\<close>

record client_id =
  ci_msb :: u64
  ci_lsb :: u64

definition client_id_new :: "u64 \<Rightarrow> u64 \<Rightarrow> client_id option" where
  "client_id_new msb lsb = (if msb = 0 \<and> lsb = 0 then None else Some \<lparr>ci_msb = msb, ci_lsb = lsb\<rparr>)"

definition client_id_nil :: client_id where
  "client_id_nil = \<lparr>ci_msb = 0, ci_lsb = 0\<rparr>"

text \<open>The door a request's client comes through.\<close>

definition named_client :: "client_id \<Rightarrow> string + client_id" where
  "named_client bits = ok_or (client_id_new (ci_msb bits) (ci_lsb bits)) ''the nil client identity is not a client''"

record lease =
  ls_lease_id :: u64
  ls_holder :: client_id
  ls_expiry :: u64
  ls_window :: u64

datatype request =
    Rq_Get u64
  | Rq_Set client_id u64 u64
  | Rq_Release client_id u64 u64
  | Rq_Break u64

datatype response =
    Rs_Get u64 "lease option" u64
  | Rs_Set u64 bool "lease option" u64
  | Rs_Release u64 bool "lease option" u64
  | Rs_Break u64 bool "lease option" u64

record state_snapshot =
  ss_locks :: "u64 \<rightharpoonup> lease"
  ss_generations :: "u64 \<rightharpoonup> u64"

record service =
  sv_locks :: "u64 \<rightharpoonup> lease"
  sv_generations :: "u64 \<rightharpoonup> u64"

definition service_default :: service where
  "service_default = \<lparr>sv_locks = Map.empty, sv_generations = Map.empty\<rparr>"


section \<open>The table\<close>

definition live_lease :: "service \<Rightarrow> u64 \<Rightarrow> u64 \<Rightarrow> lease option" where
  "live_lease sv clock lock_id =
     (case sv_locks sv lock_id of
        Some l \<Rightarrow> if ls_expiry l > clock then Some l else None
      | None \<Rightarrow> None)"

definition grant ::
    "service \<Rightarrow> u64 \<Rightarrow> u64 \<Rightarrow> client_id \<Rightarrow> u64 \<Rightarrow> lease option \<Rightarrow> lease \<times> service" where
  "grant sv clock lock_id client window held =
     (let spent = (case sv_generations sv lock_id of None \<Rightarrow> 0 | Some g \<Rightarrow> g);
          lease_id = (case held of Some incumbent \<Rightarrow> ls_lease_id incumbent | None \<Rightarrow> saturating_add spent 1);
          l = \<lparr>ls_lease_id = lease_id, ls_holder = client, ls_expiry = saturating_add clock window, ls_window = window\<rparr>
      in (l, sv\<lparr>sv_generations := (sv_generations sv)(lock_id \<mapsto> lease_id),
                sv_locks := (sv_locks sv)(lock_id \<mapsto> l)\<rparr>))"

definition answer :: "service \<Rightarrow> u64 \<Rightarrow> request \<Rightarrow> response \<times> service" where
  "answer sv clock rq =
     (case rq of
        Rq_Get lock_id \<Rightarrow> (Rs_Get lock_id (live_lease sv clock lock_id) clock, sv)
      | Rq_Set client lock_id window \<Rightarrow>
          (let held = live_lease sv clock lock_id;
               granted = (case held of None \<Rightarrow> True | Some l \<Rightarrow> ls_holder l = client) \<and> window > 0
           in if granted
              then (case grant sv clock lock_id client window held of
                      (l, sv) \<Rightarrow> (Rs_Set lock_id True (Some l) clock, sv))
              else (Rs_Set lock_id False held clock, sv))
      | Rq_Release client lock_id lease_id \<Rightarrow>
          (let held = live_lease sv clock lock_id;
               released = (case held of None \<Rightarrow> False | Some l \<Rightarrow> ls_holder l = client \<and> ls_lease_id l = lease_id);
               sv = (if released then sv\<lparr>sv_locks := (sv_locks sv)(lock_id := None)\<rparr> else sv)
           in (Rs_Release lock_id released (if released then None else held) clock, sv))
      | Rq_Break lock_id \<Rightarrow>
          (case sv_locks sv lock_id of
             Some broken \<Rightarrow>
               (let keeper = \<lparr>ls_lease_id = saturating_add (ls_lease_id broken) 1, ls_holder = client_id_nil,
                              ls_expiry = 0, ls_window = 0\<rparr>
                in (Rs_Break lock_id True (Some keeper) clock,
                    sv\<lparr>sv_generations := (sv_generations sv)(lock_id \<mapsto> ls_lease_id keeper),
                       sv_locks := (sv_locks sv)(lock_id \<mapsto> keeper)\<rparr>))
           | None \<Rightarrow> (Rs_Break lock_id False None clock, sv)))"

definition execute ::
    "(u8 list \<Rightarrow> 'e + request) \<Rightarrow> (response \<Rightarrow> 'e + u8 list) \<Rightarrow> service \<Rightarrow> u64 \<Rightarrow> u8 list
     \<Rightarrow> ('e + u8 list) \<times> service" where
  "execute from_slice to_vec sv clock payload =
     (case from_slice payload of
        Inl e \<Rightarrow> (Err e, sv)
      | Inr rq \<Rightarrow> (case answer sv clock rq of (rs, sv) \<Rightarrow> (to_vec rs, sv)))"

definition service_is_empty :: "service \<Rightarrow> bool" where
  "service_is_empty sv \<longleftrightarrow> sv_locks sv = Map.empty \<and> sv_generations sv = Map.empty"

definition service_snapshot :: "service \<Rightarrow> state_snapshot" where
  "service_snapshot sv = \<lparr>ss_locks = sv_locks sv, ss_generations = sv_generations sv\<rparr>"

definition restore :: "service \<Rightarrow> state_snapshot \<Rightarrow> service" where
  "restore sv snap = sv\<lparr>sv_locks := ss_locks snap, sv_generations := ss_generations snap\<rparr>"


section \<open>The seams\<close>

text \<open>The host's store: a flush that may refuse, and a load that reads and leaves the store as it is.\<close>

record ('s, 'io) state_store =
  st_flush :: "state_snapshot \<Rightarrow> 's \<Rightarrow> ('io + unit) \<times> 's"
  st_load :: "'s \<Rightarrow> 'io + state_snapshot option"

definition lazy_load :: "('s, 'io) state_store \<Rightarrow> 's \<Rightarrow> bool \<Rightarrow> bool \<Rightarrow> 'io + state_snapshot option" where
  "lazy_load ops store clean_boot table_empty =
     (if \<not> clean_boot then Ok None
      else if \<not> table_empty then Ok None
      else st_load ops store)"

datatype fence_word = FW_Stopping | FW_Stopped | FW_Flushed

definition fence_as_str :: "fence_word \<Rightarrow> string" where
  "fence_as_str w =
     (case w of FW_Stopping \<Rightarrow> ''stopping'' | FW_Stopped \<Rightarrow> ''stopped'' | FW_Flushed \<Rightarrow> ''flushed'')"

definition fence_of_str :: "string \<Rightarrow> fence_word option" where
  "fence_of_str word =
     (if word = ''stopping'' then Some FW_Stopping
      else if word = ''stopped'' then Some FW_Stopped
      else if word = ''flushed'' then Some FW_Flushed
      else None)"

end
