(* ===== verification/Locks_Theorems.thy ===== *)
theory Locks_Theorems
  imports Locks
begin

text \<open>
  The lock table over runs of requests: the invariant that ties every record to its watermark, that a
  generation names one holder for ever, and that a live lease shuts every other client out.
\<close>

section \<open>Runs of requests\<close>

fun lock_run :: "service \<Rightarrow> (u64 \<times> request) list \<Rightarrow> response list \<times> service" where
  "lock_run sv [] = ([], sv)"
| "lock_run sv ((clock, rq) # ops) =
     (case answer sv clock rq of (rs, sv1) \<Rightarrow> (case lock_run sv1 ops of (rss, sv2) \<Rightarrow> (rs # rss, sv2)))"

definition watermark :: "service \<Rightarrow> u64 \<Rightarrow> u64" where
  "watermark sv k = (case sv_generations sv k of None \<Rightarrow> 0 | Some g \<Rightarrow> g)"

text \<open>Every stored record carries the watermark of its lock.\<close>

definition table_ok :: "service \<Rightarrow> bool" where
  "table_ok sv \<longleftrightarrow> (\<forall>k l. sv_locks sv k = Some l \<longrightarrow> sv_generations sv k = Some (ls_lease_id l))"

lemma table_ok_default: "table_ok service_default"
  by (simp add: table_ok_def service_default_def)

lemma live_stored: "live_lease sv c k = Some l \<longleftrightarrow> sv_locks sv k = Some l \<and> c < ls_expiry l"
  by (auto simp: live_lease_def split: option.splits if_splits)

text \<open>What one request does to a lock: nothing, a grant, a removal, or a break.\<close>

lemma answer_cases:
  assumes "answer sv c rq = (rs, sv')"
  obtains (inert) "sv' = sv" "\<And>k l c'. rs \<noteq> Rs_Set k True (Some l) c'"
    | (renewed) k a w l g where "rq = Rq_Set a k w" "live_lease sv c k = Some l" "ls_holder l = a"
        "g = \<lparr>ls_lease_id = ls_lease_id l, ls_holder = a, ls_expiry = saturating_add c w, ls_window = w\<rparr>"
        "rs = Rs_Set k True (Some g) c" "sv_locks sv' = (sv_locks sv)(k \<mapsto> g)"
        "sv_generations sv' = (sv_generations sv)(k \<mapsto> ls_lease_id l)"
    | (fresh) k a w g where "rq = Rq_Set a k w" "live_lease sv c k = None"
        "g = \<lparr>ls_lease_id = saturating_add (watermark sv k) 1, ls_holder = a, ls_expiry = saturating_add c w, ls_window = w\<rparr>"
        "rs = Rs_Set k True (Some g) c" "sv_locks sv' = (sv_locks sv)(k \<mapsto> g)"
        "sv_generations sv' = (sv_generations sv)(k \<mapsto> ls_lease_id g)"
    | (released) k a g l where "rq = Rq_Release a k g" "live_lease sv c k = Some l" "ls_holder l = a" "ls_lease_id l = g"
        "rs = Rs_Release k True None c" "sv_locks sv' = (sv_locks sv)(k := None)" "sv_generations sv' = sv_generations sv"
    | (broken) k l g where "rq = Rq_Break k" "sv_locks sv k = Some l" "ls_lease_id g = saturating_add (ls_lease_id l) 1"
        "ls_expiry g = 0" "rs = Rs_Break k True (Some g) c" "sv_locks sv' = (sv_locks sv)(k \<mapsto> g)"
        "sv_generations sv' = (sv_generations sv)(k \<mapsto> ls_lease_id g)"
proof (cases rq)
  case (Rq_Get k)
  then show ?thesis using assms inert by (auto simp: answer_def)
next
  case (Rq_Set a k w)
  show ?thesis
  proof (cases "live_lease sv c k")
    case None
    show ?thesis
    proof (cases "w > 0")
      case True
      then show ?thesis using assms Rq_Set None fresh [of a k w] by (auto simp: answer_def grant_def Let_def watermark_def)
    qed (use assms Rq_Set None inert in \<open>auto simp: answer_def\<close>)
  next
    case (Some l)
    show ?thesis
    proof (cases "ls_holder l = a \<and> w > 0")
      case True
      then show ?thesis using assms Rq_Set Some renewed [of a k w l] by (auto simp: answer_def grant_def Let_def)
    qed (use assms Rq_Set Some inert in \<open>auto simp: answer_def\<close>)
  qed
next
  case (Rq_Release a k g)
  show ?thesis
  proof (cases "live_lease sv c k")
    case (Some l)
    then show ?thesis
      using assms Rq_Release inert released [of a k g l] by (cases "ls_holder l = a \<and> ls_lease_id l = g") (auto simp: answer_def)
  qed (use assms Rq_Release inert in \<open>auto simp: answer_def\<close>)
next
  case (Rq_Break k)
  show ?thesis
  proof (cases "sv_locks sv k")
    case (Some l)
    show ?thesis
      by (rule broken [OF Rq_Break Some, of "\<lparr>ls_lease_id = saturating_add (ls_lease_id l) 1, ls_holder = client_id_nil,
              ls_expiry = 0, ls_window = 0\<rparr>"])
         (use assms Rq_Break Some in \<open>auto simp: answer_def Let_def\<close>)
  qed (use assms Rq_Break inert in \<open>auto simp: answer_def\<close>)
qed

lemma answer_table_ok: "answer sv c rq = (rs, sv') \<Longrightarrow> table_ok sv \<Longrightarrow> table_ok sv'"
  by (erule answer_cases) (auto simp: table_ok_def)

lemma stored_watermark: "table_ok sv \<Longrightarrow> sv_locks sv k = Some l \<Longrightarrow> watermark sv k = ls_lease_id l"
  by (simp add: table_ok_def watermark_def)

lemma saturating_succ: "(g :: u64) \<le> saturating_add g 1" "g \<noteq> -1 \<Longrightarrow> g < saturating_add g 1"
proof -
  have g: "unat g \<le> 2 ^ 64 - 1" using unsigned_less [of g, where ?'a = nat] by simp
  then show "g \<le> saturating_add g 1" by (simp add: word_le_nat_alt unat_saturating_add)
  assume "g \<noteq> -1"
  then have "unat g \<noteq> unat (-1 :: u64)" by (simp add: word_unat_eq_iff)
  then show "g < saturating_add g 1" using g by (simp add: word_less_nat_alt unat_saturating_add unat_max)
qed

lemma watermark_upd:
  "sv_generations sv' = (sv_generations sv)(k' \<mapsto> g) \<Longrightarrow> watermark sv' k = (if k = k' then g else watermark sv k)"
  "sv_generations sv' = sv_generations sv \<Longrightarrow> watermark sv' k = watermark sv k"
  by (simp_all add: watermark_def)

lemma answer_watermark:
  assumes "answer sv c rq = (rs, sv')" "table_ok sv"
  shows "watermark sv k \<le> watermark sv' k"
  using assms(1)
proof (cases rule: answer_cases)
  case (renewed k' a w l g)
  then show ?thesis using watermark_upd(1) [OF renewed(7), of k] stored_watermark [OF assms(2)] by (simp add: live_stored)
next
  case (fresh k' a w g)
  then show ?thesis using watermark_upd(1) [OF fresh(6), of k] saturating_succ(1) by simp
next
  case (broken k' l g)
  then show ?thesis using watermark_upd(1) [OF broken(7), of k] stored_watermark [OF assms(2)] saturating_succ(1) by simp
next
  case (released k' a g l)
  then show ?thesis using watermark_upd(2) [OF released(7), of k] by simp
qed simp_all

lemma lock_run_table_ok: "table_ok sv \<Longrightarrow> lock_run sv ops = (rss, sv') \<Longrightarrow> table_ok sv' \<and> watermark sv k \<le> watermark sv' k"
proof (induction ops arbitrary: sv rss)
  case (Cons op ops)
  obtain c rq where op: "op = (c, rq)" by fastforce
  obtain rs sv1 where a: "answer sv c rq = (rs, sv1)" by fastforce
  obtain rss2 where r: "lock_run sv1 ops = (rss2, sv')" using Cons.prems(2) op a by (auto split: prod.splits)
  have "table_ok sv1" by (rule answer_table_ok [OF a Cons.prems(1)])
  then show ?case
    using Cons.IH [OF _ r] answer_watermark [OF a Cons.prems(1)] by (blast intro: order_trans)
qed auto

lemma lock_run_nth:
  assumes "lock_run sv ops = (rss, sv')" "i < length rss"
  obtains before_ops c rq rest sv1 sv2 where "ops = before_ops @ (c, rq) # rest" "length before_ops = i"
    "lock_run sv before_ops = (take i rss, sv1)" "answer sv1 c rq = (rss ! i, sv2)" "lock_run sv2 rest = (drop (Suc i) rss, sv')"
  using assms
proof (induction ops arbitrary: sv rss i thesis)
  case (Cons op ops)
  obtain c rq where op: "op = (c, rq)" by fastforce
  obtain rs sv1 where a: "answer sv c rq = (rs, sv1)" by fastforce
  obtain rss2 where r: "lock_run sv1 ops = (rss2, sv')" "rss = rs # rss2" using Cons.prems(2) op a by (auto split: prod.splits)
  show ?case
  proof (cases i)
    case 0
    then show ?thesis using Cons.prems(1) [of "[]" c rq ops sv sv1] op a r by simp
  next
    case (Suc j)
    then have "j < length rss2" using Cons.prems(3) r(2) by simp
    from Cons.IH [OF _ r(1) this] obtain b c' rq' rest s1 s2 where
      "ops = b @ (c', rq') # rest" "length b = j" "lock_run sv1 b = (take j rss2, s1)"
      "answer s1 c' rq' = (rss2 ! j, s2)" "lock_run s2 rest = (drop (Suc j) rss2, sv')" by blast
    then show ?thesis using Cons.prems(1) [of "(c, rq) # b" c' rq' rest s1 s2] op a r Suc by simp
  qed
qed auto

text \<open>Once a generation is granted to a client, the watermark has reached it, and a record that carries
  it is that client's.\<close>

definition granted_to :: "u64 \<Rightarrow> u64 \<Rightarrow> client_id \<Rightarrow> service \<Rightarrow> bool" where
  "granted_to k g a sv \<longleftrightarrow> g \<le> watermark sv k
     \<and> (watermark sv k = g \<longrightarrow> (\<forall>l. sv_locks sv k = Some l \<longrightarrow> ls_holder l = a))"

lemma answer_granted_to:
  assumes "answer sv c rq = (rs, sv')" "table_ok sv" "granted_to k g a sv" "watermark sv' k \<noteq> -1"
  shows "granted_to k g a sv'"
proof (cases "watermark sv' k = watermark sv k")
  case True
  show ?thesis
    using assms(1)
  proof (cases rule: answer_cases)
    case (renewed k' b w l g')
    then show ?thesis
      using True assms(3) by (auto simp: granted_to_def live_stored)
  next
    case (fresh k' b w g')
    have "k' \<noteq> k"
      using watermark_upd(1) [OF fresh(6), of k] True assms(4) fresh(3) saturating_succ(2) [of "watermark sv k"] by auto
    then show ?thesis using True assms(3) fresh(5) by (auto simp: granted_to_def)
  next
    case (broken k' l g')
    have "k' \<noteq> k"
      using watermark_upd(1) [OF broken(7), of k] True assms(4) broken(2,3) saturating_succ(2) [of "watermark sv k"]
        stored_watermark [OF assms(2)] by auto
    then show ?thesis using True assms(3) broken(6) by (auto simp: granted_to_def)
  qed (use True assms(3) in \<open>auto simp: granted_to_def\<close>)
next
  case False
  then have "watermark sv k < watermark sv' k" using answer_watermark [OF assms(1,2), of k] by simp
  then show ?thesis using assms(3) by (auto simp: granted_to_def)
qed

lemma lock_run_granted_to:
  "table_ok sv \<Longrightarrow> lock_run sv ops = (rss, sv') \<Longrightarrow> granted_to k g a sv \<Longrightarrow> watermark sv' k \<noteq> -1 \<Longrightarrow> granted_to k g a sv'"
proof (induction ops arbitrary: sv rss)
  case (Cons op ops)
  obtain c rq where op: "op = (c, rq)" by fastforce
  obtain rs sv1 where a: "answer sv c rq = (rs, sv1)" by fastforce
  obtain rss2 where r: "lock_run sv1 ops = (rss2, sv')" using Cons.prems(2) op a by (auto split: prod.splits)
  have ok: "table_ok sv1" by (rule answer_table_ok [OF a Cons.prems(1)])
  then have "watermark sv1 k \<le> watermark sv' k" using lock_run_table_ok r by blast
  then have "watermark sv1 k \<noteq> -1" using Cons.prems(4) by (auto simp: word_order.extremum_unique)
  then show ?case using Cons.IH [OF ok r] answer_granted_to [OF a Cons.prems(1,3)] Cons.prems(4) by blast
qed auto

lemma granted_after:
  assumes "answer sv c rq = (Rs_Set k True (Some l) c', sv')" "table_ok sv"
  shows "watermark sv' k = ls_lease_id l" "sv_locks sv' k = Some l" "granted_to k (ls_lease_id l) (ls_holder l) sv'"
proof -
  show 1: "watermark sv' k = ls_lease_id l" "sv_locks sv' k = Some l"
    using assms(1) by (elim answer_cases; auto simp: watermark_def)+
  show "granted_to k (ls_lease_id l) (ls_holder l) sv'" using 1 by (simp add: granted_to_def)
qed


section \<open>Properties\<close>

text \<open>C22. A generation names one holder for ever: in any run over a table whose records carry their
  watermarks, as every run from the empty table does, the generations granted on a lock never go back,
  and two grants of one generation are to one client, whatever was released, broken or expired between
  them. The bound is the last generation, where the source saturates.\<close>

theorem one_generation_one_holder:
  assumes "table_ok sv" "lock_run sv ops = (rss, sv')" "i < j" "j < length rss"
    and "rss ! i = Rs_Set k True (Some l) c" "rss ! j = Rs_Set k True (Some l') c'"
    and "watermark sv' k \<noteq> -1"
  shows "ls_lease_id l \<le> ls_lease_id l' \<and> (ls_lease_id l' = ls_lease_id l \<longrightarrow> ls_holder l' = ls_holder l)"
proof -
  obtain b1 c1 rq1 rest s1 s2 where one: "lock_run sv b1 = (take i rss, s1)" "answer s1 c1 rq1 = (rss ! i, s2)"
    "lock_run s2 rest = (drop (Suc i) rss, sv')"
    using lock_run_nth [OF assms(2) order.strict_trans [OF assms(3,4)]] by metis
  obtain j' where j: "j = Suc i + j'" "j' < length (drop (Suc i) rss)" "drop (Suc i) rss ! j' = rss ! j"
    using assms(3,4) less_imp_Suc_add [OF assms(3)] by auto
  obtain b2 c2 rq2 rest2 s3 s4 where two: "lock_run s2 b2 = (take j' (drop (Suc i) rss), s3)"
    "answer s3 c2 rq2 = (rss ! j, s4)" "lock_run s4 rest2 = (drop (Suc j') (drop (Suc i) rss), sv')"
    using lock_run_nth [OF one(3) j(2)] j(3) by metis
  have ok: "table_ok s1" "table_ok s2" "table_ok s3" "table_ok s4"
    using lock_run_table_ok [OF assms(1) one(1)] answer_table_ok [OF one(2)] lock_run_table_ok [OF _ two(1)]
      answer_table_ok [OF two(2)] by blast+
  have "watermark s4 k \<le> watermark sv' k" using lock_run_table_ok [OF ok(4) two(3)] by blast
  then have top: "watermark s4 k \<noteq> -1" using assms(7) by (auto simp: word_order.extremum_unique)
  then have top3: "watermark s3 k \<noteq> -1"
    using answer_watermark [OF two(2) ok(3), of k] by (auto simp: word_order.extremum_unique)
  have "granted_to k (ls_lease_id l) (ls_holder l) s2"
    using granted_after(3) [OF one(2) [unfolded assms(5)] ok(1)] .
  then have "granted_to k (ls_lease_id l) (ls_holder l) s3" by (rule lock_run_granted_to [OF ok(2) two(1) _ top3])
  then have "granted_to k (ls_lease_id l) (ls_holder l) s4" by (rule answer_granted_to [OF two(2) ok(3) _ top])
  then show ?thesis
    using granted_after(1,2) [OF two(2) [unfolded assms(6)] ok(3)] by (auto simp: granted_to_def)
qed

definition ann :: client_id where "ann = \<lparr>ci_msb = 7, ci_lsb = 1\<rparr>"
definition bob :: client_id where "bob = \<lparr>ci_msb = 7, ci_lsb = 2\<rparr>"

definition ann_lease :: lease where
  "ann_lease = \<lparr>ls_lease_id = 1, ls_holder = ann, ls_expiry = 15, ls_window = 10\<rparr>"

definition ann_renewed :: lease where
  "ann_renewed = \<lparr>ls_lease_id = 1, ls_holder = ann, ls_expiry = 26, ls_window = 20\<rparr>"

definition bob_lease :: lease where
  "bob_lease = \<lparr>ls_lease_id = 3, ls_holder = bob, ls_expiry = 28, ls_window = 20\<rparr>"

text \<open>Client one takes the lock and renews it, the lock is broken, client two takes it.\<close>

definition turnover :: "(u64 \<times> request) list" where
  "turnover = [(5, Rq_Set ann 4 10), (6, Rq_Set ann 4 20), (7, Rq_Break 4), (8, Rq_Set bob 4 20)]"

lemma turnover_run:
  "\<exists>rs sv'. lock_run service_default turnover =
      ([Rs_Set 4 True (Some ann_lease) 5, Rs_Set 4 True (Some ann_renewed) 6, rs, Rs_Set 4 True (Some bob_lease) 8], sv')
     \<and> watermark sv' 4 = 3"
  by (simp add: turnover_def answer_def live_lease_def grant_def service_default_def Let_def saturating_add_def
      checked_add_def ann_lease_def ann_renewed_def bob_lease_def watermark_def)

theorem one_generation_one_holder_witness:
  "ls_holder ann_renewed = ls_holder ann_lease \<and> ls_lease_id ann_lease \<le> ls_lease_id bob_lease"
proof -
  obtain rs sv' where run: "lock_run service_default turnover =
      ([Rs_Set 4 True (Some ann_lease) 5, Rs_Set 4 True (Some ann_renewed) 6, rs, Rs_Set 4 True (Some bob_lease) 8], sv')"
    and top: "watermark sv' 4 = 3"
    using turnover_run by blast
  note grants = one_generation_one_holder [OF table_ok_default run]
  have "ls_lease_id ann_renewed = ls_lease_id ann_lease" by (simp add: ann_lease_def ann_renewed_def)
  then show ?thesis
    using grants [of 0 1 4 ann_lease 5 ann_renewed 6] grants [of 0 3 4 ann_lease 5 bob_lease 8] top by simp
qed

text \<open>The requests that may move a live lease: its holder's own, and a break.\<close>

definition disturbs :: "u64 \<Rightarrow> lease \<Rightarrow> request \<Rightarrow> bool" where
  "disturbs k l rq \<longleftrightarrow> rq = Rq_Break k \<or> rq = Rq_Release (ls_holder l) k (ls_lease_id l) \<or> (\<exists>w. rq = Rq_Set (ls_holder l) k w)"

lemma answer_undisturbed:
  assumes "answer sv c rq = (rs, sv')" "sv_locks sv k = Some l" "c < ls_expiry l" "\<not> disturbs k l rq"
  shows "sv_locks sv' k = Some l" "rq = Rq_Set a k w \<Longrightarrow> rs = Rs_Set k False (Some l) c"
proof -
  have live: "live_lease sv c k = Some l" using assms(2,3) by (simp add: live_stored)
  show "sv_locks sv' k = Some l"
    using assms(1)
  proof (cases rule: answer_cases)
    case (renewed k' b w' l' g)
    then show ?thesis using assms(2,4) live by (cases "k' = k") (auto simp: disturbs_def)
  next
    case (fresh k' b w' g)
    then show ?thesis using assms(2) live by (cases "k' = k") auto
  next
    case (released k' b g l')
    then show ?thesis using assms(2,4) live by (cases "k' = k") (auto simp: disturbs_def)
  next
    case (broken k' l' g)
    then show ?thesis using assms(2,4) by (cases "k' = k") (auto simp: disturbs_def)
  qed (use assms(2) in auto)
  show "rs = Rs_Set k False (Some l) c" if "rq = Rq_Set a k w"
    using assms(1,4) that live by (auto simp: answer_def disturbs_def)
qed

lemma lock_run_undisturbed:
  assumes "lock_run sv ops = (rss, sv')" "sv_locks sv k = Some l" "\<forall>(c, rq) \<in> set ops. c < ls_expiry l \<and> \<not> disturbs k l rq"
  shows "sv_locks sv' k = Some l \<and> (\<forall>x \<in> set (zip ops rss). \<forall>c a w. fst x = (c, Rq_Set a k w) \<longrightarrow> snd x = Rs_Set k False (Some l) c)"
  using assms
proof (induction ops arbitrary: sv rss)
  case (Cons op ops)
  obtain c rq where op: "op = (c, rq)" by fastforce
  obtain rs sv1 where a: "answer sv c rq = (rs, sv1)" by fastforce
  obtain rss2 where r: "lock_run sv1 ops = (rss2, sv')" "rss = rs # rss2" using Cons.prems(1) op a by (auto split: prod.splits)
  have free: "c < ls_expiry l" "\<not> disturbs k l rq" using Cons.prems(3) op by auto
  note u = answer_undisturbed [OF a Cons.prems(2) free]
  have "sv_locks sv' k = Some l \<and> (\<forall>x \<in> set (zip ops rss2). \<forall>c a w. fst x = (c, Rq_Set a k w) \<longrightarrow> snd x = Rs_Set k False (Some l) c)"
    using Cons.IH [OF r(1) u(1)] Cons.prems(3) by auto
  then show ?case using u(2) op r(2) by auto
qed simp

text \<open>A live lease excludes: until it expires, unless its holder asks again or releases it or the lock
  is broken, no run of requests moves the record, and every other client that asks is refused and told
  the incumbent.\<close>

theorem lease_excludes:
  assumes "live_lease sv now k = Some l" "lock_run sv ops = (rss, sv')"
    and "\<forall>(c, rq) \<in> set ops. c < ls_expiry l \<and> \<not> disturbs k l rq"
  shows "sv_locks sv' k = Some l
    \<and> (\<forall>x \<in> set (zip ops rss). \<forall>c a w. fst x = (c, Rq_Set a k w) \<longrightarrow> snd x = Rs_Set k False (Some l) c)"
  using assms(1) by (intro lock_run_undisturbed [OF assms(2) _ assms(3)]) (simp add: live_stored)

definition held_table :: service where
  "held_table = \<lparr>sv_locks = [4 \<mapsto> ann_lease], sv_generations = [4 \<mapsto> 1]\<rparr>"

theorem lease_excludes_witness:
  "sv_locks (snd (lock_run held_table [(9, Rq_Set bob 4 20)])) 4 = Some ann_lease
   \<and> fst (lock_run held_table [(9, Rq_Set bob 4 20)]) = [Rs_Set 4 False (Some ann_lease) 9]"
proof -
  have "live_lease held_table 9 4 = Some ann_lease" by (simp add: live_stored held_table_def ann_lease_def)
  moreover obtain rs sv' where r: "lock_run held_table [(9, Rq_Set bob 4 20)] = ([rs], sv')"
    by (cases "answer held_table 9 (Rq_Set bob 4 20)") simp
  moreover have "\<forall>(c, rq) \<in> set [(9, Rq_Set bob 4 20)]. c < ls_expiry ann_lease \<and> \<not> disturbs 4 ann_lease rq"
    by (simp add: ann_lease_def disturbs_def ann_def bob_def)
  ultimately have "sv_locks sv' 4 = Some ann_lease \<and> rs = Rs_Set 4 False (Some ann_lease) 9"
    using lease_excludes [of held_table 9 4 ann_lease "[(9, Rq_Set bob 4 20)]" "[rs]" sv'] by simp
  then show ?thesis unfolding r by simp
qed

end
