(* ===== verification/Demo_Store.thy ===== *)
theory Demo_Store
  imports Wire Locks
begin

text \<open>
  The demo's state store (\<open>src/demo/state.rs\<close>) over its disk seam (\<open>src/demo/disk.rs\<close>): the framing
  of a lock table snapshot with its checksum, the one atomic durable write, and the boot and stop words of
  the lock table's persistence. The disk's operations, the handle of a file being written and the
  payload codec (\<open>serde_json\<close>) are arguments.
\<close>

section \<open>The checksum\<close>

text \<open>One round of the inner loop: the mask is the negated low bit.\<close>

definition crc_bit :: "u32 \<Rightarrow> u32" where
  "crc_bit crc = (let mask = - (crc AND 1) in drop_bit 1 crc XOR (0xEDB88320 AND mask))"

definition crc_byte :: "u32 \<Rightarrow> u8 \<Rightarrow> u32" where
  "crc_byte crc byte = (crc_bit ^^ 8) (crc XOR ucast byte)"

definition crc32_ieee :: "u8 list \<Rightarrow> u32" where
  "crc32_ieee bytes = NOT (foldl crc_byte 0xFFFFFFFF bytes)"


section \<open>The frame\<close>

definition FORMAT_VERSION :: u8 where "FORMAT_VERSION = 2"

datatype 'e frame_error = FE_Payload 'e | FE_TooLarge

definition frame :: "(state_snapshot \<Rightarrow> 'e + u8 list) \<Rightarrow> state_snapshot \<Rightarrow> 'e frame_error + u8 list" where
  "frame to_vec snap =
     rbind (map_err FE_Payload (to_vec snap)) (\<lambda>payload.
     rbind (ok_or (len_u32 payload) FE_TooLarge) (\<lambda>length.
       let framed = [FORMAT_VERSION] @ to_be_bytes 4 length @ payload
       in Ok (framed @ to_be_bytes 4 (crc32_ieee framed))))"

text \<open>The length is an addition of \<open>usize\<close> on a 64-bit target.\<close>

definition unframe :: "(u8 list \<Rightarrow> state_snapshot option) \<Rightarrow> u8 list \<Rightarrow> state_snapshot option" where
  "unframe from_slice bytes =
     (let HEADER = 1 + 4; CHECKSUM = 4
      in if length bytes < HEADER + CHECKSUM \<or> hd bytes \<noteq> FORMAT_VERSION then None
         else
           let len = unat (from_be_bytes (take 4 (drop 1 bytes)) :: u32)
           in case usize_checked_add HEADER len of
                None \<Rightarrow> None
              | Some body_end \<Rightarrow>
                  if length bytes \<noteq> body_end + CHECKSUM then None
                  else if crc32_ieee (take body_end bytes) \<noteq> from_be_bytes (drop body_end bytes) then None
                  else from_slice (drop HEADER (take body_end bytes)))"


section \<open>The disk seam\<close>

text \<open>The operations a store names, over a disk state of the host's own; a file being written is a handle.\<close>

record ('d, 'h, 'p, 'io) disk_ops =
  dk_rename :: "'p \<Rightarrow> 'p \<Rightarrow> 'd \<Rightarrow> ('io + unit) \<times> 'd"
  dk_remove_file :: "'p \<Rightarrow> 'd \<Rightarrow> ('io + unit) \<times> 'd"
  dk_read :: "'p \<Rightarrow> 'd \<Rightarrow> 'io + u8 list"
  dk_exists :: "'p \<Rightarrow> 'd \<Rightarrow> bool"
  dk_sync_path :: "'p \<Rightarrow> 'd \<Rightarrow> ('io + unit) \<times> 'd"
  dk_create_new_write :: "'p \<Rightarrow> 'd \<Rightarrow> ('io + 'h) \<times> 'd"
  df_write_all :: "'h \<Rightarrow> u8 list \<Rightarrow> 'd \<Rightarrow> ('io + unit) \<times> 'd"
  df_sync_all :: "'h \<Rightarrow> 'd \<Rightarrow> ('io + unit) \<times> 'd"

text \<open>The question mark over an operation on the disk.\<close>

definition disk_bind :: "('d \<Rightarrow> ('io + 'a) \<times> 'd) \<Rightarrow> ('a \<Rightarrow> 'd \<Rightarrow> ('io + 'b) \<times> 'd) \<Rightarrow> 'd \<Rightarrow> ('io + 'b) \<times> 'd" where
  "disk_bind m f d = (case m d of (Inl e, d) \<Rightarrow> (Err e, d) | (Inr a, d) \<Rightarrow> f a d)"

text \<open>The temporary path is fresh by the process and a sequence number, and the parent is the target's.\<close>

definition write_atomically ::
    "('d, 'h, 'p, 'io) disk_ops \<Rightarrow> 'p \<Rightarrow> 'p \<Rightarrow> 'p \<Rightarrow> u8 list \<Rightarrow> 'd \<Rightarrow> ('io + unit) \<times> 'd" where
  "write_atomically ops parent temporary path bytes d =
     (case disk_bind (dk_create_new_write ops temporary) (\<lambda>file.
           disk_bind (df_write_all ops file bytes) (\<lambda>_.
           disk_bind (df_sync_all ops file) (\<lambda>_.
           disk_bind (dk_rename ops temporary path) (\<lambda>_.
           dk_sync_path ops parent)))) d of
        (Inl e, d) \<Rightarrow> (Err e, snd (dk_remove_file ops temporary d))
      | (Inr u, d) \<Rightarrow> (Ok u, d))"

datatype ('e, 'io) store_error = SE_Frame "'e frame_error" | SE_Disk 'io

definition store_flush ::
    "('d, 'h, 'p, 'io) disk_ops \<Rightarrow> (state_snapshot \<Rightarrow> 'e + u8 list) \<Rightarrow> 'p \<Rightarrow> 'p \<Rightarrow> 'p \<Rightarrow> state_snapshot \<Rightarrow> 'd
     \<Rightarrow> (('e, 'io) store_error + unit) \<times> 'd" where
  "store_flush ops to_vec parent temporary path snap d =
     (case frame to_vec snap of
        Inl e \<Rightarrow> (Err (SE_Frame e), d)
      | Inr bytes \<Rightarrow> (case write_atomically ops parent temporary path bytes d of (r, d) \<Rightarrow> (map_err SE_Disk r, d)))"

definition store_load ::
    "('d, 'h, 'p, 'io) disk_ops \<Rightarrow> (u8 list \<Rightarrow> state_snapshot option) \<Rightarrow> 'p \<Rightarrow> 'd \<Rightarrow> 'io + state_snapshot option" where
  "store_load ops from_slice path d =
     (if \<not> dk_exists ops path d then Ok None
      else rbind (dk_read ops path d) (\<lambda>bytes. Ok (unframe from_slice bytes)))"


section \<open>Facts of the checksum\<close>

text \<open>A round loses nothing: the top bit of the result tells whether the polynomial went in.\<close>

lemma crc_bit_cases: "crc_bit c = drop_bit 1 c XOR (if bit c 0 then 0xEDB88320 else 0)"
proof -
  have "c AND 1 = (if bit c 0 then 1 else 0)" by (simp add: and_one_eq mod_2_eq_odd bit_0)
  then show ?thesis by (simp add: crc_bit_def Let_def)
qed

lemma xor_cancel: "c XOR d = c XOR e \<Longrightarrow> d = e" "d XOR c = e XOR c \<Longrightarrow> d = e" for c d e :: u32
proof -
  have twice: "c XOR (c XOR x) = x" "(x XOR c) XOR c = x" for x by (simp flip: xor.assoc, simp add: xor.assoc)
  show "d = e" if "c XOR d = c XOR e" using arg_cong [OF that, of "(XOR) c"] by (simp only: twice)
  show "d = e" if "d XOR c = e XOR c" using arg_cong [OF that, of "\<lambda>x. x XOR c"] by (simp only: twice)
qed

lemma crc_bit_inj: "crc_bit a = crc_bit b \<Longrightarrow> a = b"
proof -
  assume eq: "crc_bit a = crc_bit b"
  have top: "bit (crc_bit c) 31 = bit c 0" for c
    using bit_imp_le_length [of c 32] by (auto simp: crc_bit_cases bit_simps)
  have low: "bit a 0 = bit b 0" using top eq by metis
  then have "drop_bit 1 a = drop_bit 1 b" using eq by (auto simp: crc_bit_cases dest: xor_cancel(2) split: if_splits)
  then have high: "bit a (Suc n) = bit b (Suc n)" for n by (metis bit_drop_bit_eq comp_apply plus_1_eq_Suc)
  show "a = b"
  proof (rule bit_word_eqI)
    fix n
    show "bit a n = bit b n" using low high by (cases n) simp_all
  qed
qed

lemma crc_bits_inj: "(crc_bit ^^ n) a = (crc_bit ^^ n) b \<Longrightarrow> a = b"
  by (induction n) (auto dest: crc_bit_inj)

lemma crc_byte_inj:
  "crc_byte a x = crc_byte b x \<Longrightarrow> a = b"
  "crc_byte a x = crc_byte a y \<Longrightarrow> x = y"
proof -
  show "crc_byte a x = crc_byte b x \<Longrightarrow> a = b"
    unfolding crc_byte_def by (blast dest: crc_bits_inj xor_cancel(2))
  assume "crc_byte a x = crc_byte a y"
  then have "(ucast x :: u32) = ucast y" unfolding crc_byte_def by (blast dest: crc_bits_inj xor_cancel(1))
  moreover have "unat (ucast z :: u32) = unat z" for z :: u8
    using unsigned_less [of z, where ?'a = nat] by (simp add: unsigned_ucast_eq take_bit_nat_eq_self)
  ultimately show "x = y" by (metis word_unat_eq_iff)
qed

text \<open>So one byte changed anywhere changes the checksum.\<close>

lemma foldl_crc_inj: "foldl crc_byte a bs = foldl crc_byte b bs \<Longrightarrow> a = b"
  by (induction bs arbitrary: a b) (auto dest: crc_byte_inj(1))

lemma crc_one_byte:
  assumes "i < length bs" "b \<noteq> bs ! i"
  shows "crc32_ieee (bs[i := b]) \<noteq> crc32_ieee bs"
proof
  assume "crc32_ieee (bs[i := b]) = crc32_ieee bs"
  then have "foldl crc_byte 0xFFFFFFFF (bs[i := b]) = foldl crc_byte 0xFFFFFFFF bs"
    by (simp add: crc32_ieee_def)
  moreover have "bs[i := b] = take i bs @ b # drop (Suc i) bs" "bs = take i bs @ bs ! i # drop (Suc i) bs"
    using assms(1) by (rule upd_conv_take_nth_drop, rule id_take_nth_drop)
  ultimately have "foldl crc_byte (crc_byte (foldl crc_byte 0xFFFFFFFF (take i bs)) b) (drop (Suc i) bs) =
      foldl crc_byte (crc_byte (foldl crc_byte 0xFFFFFFFF (take i bs)) (bs ! i)) (drop (Suc i) bs)"
    by (metis (no_types) foldl_append foldl_Cons)
  then have "b = bs ! i" by (blast dest: foldl_crc_inj crc_byte_inj(2))
  then show False using assms(2) by simp
qed

lemma be_word_roundtrip: "from_be_bytes (to_be_bytes 4 w) = (w :: u32)"
  using be_word_iff [of 4 "to_be_bytes 4 w" w] by simp

lemma be_word_inj: "length bs = 4 \<Longrightarrow> (from_be_bytes bs :: u32) = w \<longleftrightarrow> bs = to_be_bytes 4 w"
  using be_word_iff [of 4 bs w] by auto


section \<open>Properties\<close>

lemma frame_Ok:
  "frame to_vec snap = Ok bytes \<longleftrightarrow>
     (\<exists>payload. to_vec snap = Ok payload \<and> length payload < 2 ^ 32
       \<and> bytes = FORMAT_VERSION # to_be_bytes 4 (of_nat (length payload) :: u32) @ payload
            @ to_be_bytes 4 (crc32_ieee (FORMAT_VERSION # to_be_bytes 4 (of_nat (length payload) :: u32) @ payload)))"
  by (auto simp: frame_def len_u32_def Let_def)

text \<open>What the reader takes: exactly the frames, over a version byte, a length and a checksum that agree.\<close>

lemma unframe_Some:
  assumes "length length_bytes = 4" "length checksum = 4" "length payload < 2 ^ 32"
  shows "unframe from_slice (v # length_bytes @ payload @ checksum) =
    (if v = FORMAT_VERSION \<and> length_bytes = to_be_bytes 4 (of_nat (length payload) :: u32)
        \<and> checksum = to_be_bytes 4 (crc32_ieee (v # length_bytes @ payload))
     then from_slice payload else None)"
proof -
  let ?len = "from_be_bytes length_bytes :: u32"
  have len: "length payload = unat ?len \<longleftrightarrow> length_bytes = to_be_bytes 4 (of_nat (length payload) :: u32)"
    using be_word_inj [OF assms(1), of "of_nat (length payload)"] assms(3)
    by (auto simp: unat_of_nat take_bit_nat_eq_self)
  have fits: "usize_checked_add 5 (unat ?len) = Some (5 + unat ?len)"
    using unsigned_less [of ?len, where ?'a = nat] by (simp add: usize_checked_add_def)
  define bytes where "bytes = v # length_bytes @ payload @ checksum"
  have shape: "take 4 (drop (Suc 0) bytes) = length_bytes" "length bytes = 9 + length payload" "hd bytes = v"
    "take (5 + length payload) bytes = v # length_bytes @ payload" "drop (5 + length payload) bytes = checksum"
  proof -
    define body where "body = v # length_bytes @ payload"
    have "bytes = body @ checksum" "length body = 5 + length payload" using assms(1) by (simp_all add: bytes_def body_def)
    then have "take (5 + length payload) bytes = body" "drop (5 + length payload) bytes = checksum"
      by (metis append_eq_conv_conj)+
    then show "take (5 + length payload) bytes = v # length_bytes @ payload" "drop (5 + length payload) bytes = checksum"
      by (simp_all only: body_def)
  qed (use assms in \<open>simp_all add: bytes_def\<close>)
  have "unframe from_slice bytes = (if v \<noteq> FORMAT_VERSION then None
      else if length payload \<noteq> unat ?len then None
      else if crc32_ieee (take (5 + unat ?len) bytes) \<noteq> from_be_bytes (drop (5 + unat ?len) bytes) then None
      else from_slice (drop 5 (take (5 + unat ?len) bytes)))"
    by (simp add: unframe_def Let_def fits shape(1-3))
  also have "\<dots> = (if v \<noteq> FORMAT_VERSION then None
      else if length payload \<noteq> unat ?len then None
      else if crc32_ieee (v # length_bytes @ payload) \<noteq> from_be_bytes checksum then None else from_slice payload)"
    using shape(4,5) assms(1) by (cases "length payload = unat ?len") simp_all
  also have "\<dots> = (if v = FORMAT_VERSION \<and> length_bytes = to_be_bytes 4 (of_nat (length payload) :: u32)
        \<and> checksum = to_be_bytes 4 (crc32_ieee (v # length_bytes @ payload)) then from_slice payload else None)"
    using len be_word_inj [OF assms(2), of "crc32_ieee (v # length_bytes @ payload)"] by auto
  finally show ?thesis by (simp only: bytes_def)
qed

text \<open>What a flush frames a load reads back.\<close>

theorem frame_roundtrip:
  assumes "frame to_vec snap = Ok bytes" "\<And>payload. to_vec snap = Ok payload \<Longrightarrow> from_slice payload = Some snap"
  shows "unframe from_slice bytes = Some snap"
  using assms by (auto simp: frame_Ok unframe_Some)

definition toy_snapshot :: state_snapshot where
  "toy_snapshot = \<lparr>ss_locks = Map.empty, ss_generations = [4 \<mapsto> 3]\<rparr>"

definition toy_to_vec :: "state_snapshot \<Rightarrow> unit + u8 list" where
  "toy_to_vec snap = Ok [1, 2, 3]"

definition toy_from_slice :: "u8 list \<Rightarrow> state_snapshot option" where
  "toy_from_slice bytes = (if bytes = [1, 2, 3] then Some toy_snapshot else None)"

lemma toy_frame: "\<exists>c. frame toy_to_vec toy_snapshot = Ok ([2, 0, 0, 0, 3, 1, 2, 3] @ c)"
  by (rule exI [of _ "to_be_bytes 4 (crc32_ieee [2, 0, 0, 0, 3, 1, 2, 3])"])
     (simp add: frame_def toy_to_vec_def len_u32_def FORMAT_VERSION_def to_be_bytes_def Let_def)

theorem frame_roundtrip_witness:
  "\<exists>c. unframe toy_from_slice ([2, 0, 0, 0, 3, 1, 2, 3] @ c) = Some toy_snapshot"
proof -
  obtain c where c: "frame toy_to_vec toy_snapshot = Ok ([2, 0, 0, 0, 3, 1, 2, 3] @ c)" using toy_frame by blast
  have "unframe toy_from_slice ([2, 0, 0, 0, 3, 1, 2, 3] @ c) = Some toy_snapshot"
    by (rule frame_roundtrip [OF c]) (simp add: toy_to_vec_def toy_from_slice_def)
  then show ?thesis by blast
qed

text \<open>A rotted byte is a refusal: whichever byte of a framed snapshot is changed, version, length,
  payload or checksum, the reader answers that there is nothing to read.\<close>

theorem rotted_byte_refused:
  assumes "frame to_vec snap = Ok bytes" "i < length bytes" "b \<noteq> bytes ! i"
  shows "unframe from_slice (bytes[i := b]) = None"
proof -
  obtain payload where p: "length payload < 2 ^ 32" and bytes: "bytes = FORMAT_VERSION # to_be_bytes 4 (of_nat (length payload) :: u32)
      @ payload @ to_be_bytes 4 (crc32_ieee (FORMAT_VERSION # to_be_bytes 4 (of_nat (length payload) :: u32) @ payload))"
    using assms(1) by (auto simp: frame_Ok)
  let ?l = "to_be_bytes 4 (of_nat (length payload) :: u32)"
  let ?c = "to_be_bytes 4 (crc32_ieee (FORMAT_VERSION # ?l @ payload))"
  define head_bytes where "head_bytes = FORMAT_VERSION # ?l"
  have h: "bytes = head_bytes @ payload @ ?c" "length head_bytes = 5" by (simp_all add: head_bytes_def bytes)
  consider "i = 0" | j where "i = 1 + j" "j < 4" | j where "i = 5 + j" "j < length payload"
    | j where "i = 5 + length payload + j" "j < 4"
  proof -
    have "i < 9 + length payload" using assms(2) by (simp add: bytes)
    then show ?thesis
      using that(1) that(2) [of "i - 1"] that(3) [of "i - 5"] that(4) [of "i - 5 - length payload"] by linarith
  qed
  then show ?thesis
  proof cases
    case 1
    then show ?thesis using assms(3) p by (simp add: bytes unframe_Some)
  next
    case (2 j)
    then have "bytes[i := b] = FORMAT_VERSION # ?l[j := b] @ payload @ ?c" "b \<noteq> ?l ! j"
      using assms(3) by (simp_all add: bytes list_update_append nth_append del: list_update_code)
    moreover have "?l[j := b] \<noteq> ?l" using calculation(2) 2(2) by (metis length_to_be_bytes nth_list_update_eq)
    ultimately show ?thesis using p by (simp add: unframe_Some)
  next
    case (3 j)
    then have "bytes[i := b] = head_bytes @ payload[j := b] @ ?c" "b \<noteq> payload ! j"
      using assms(3) by (simp_all add: h list_update_append nth_append)
    then have "bytes[i := b] = FORMAT_VERSION # ?l @ payload[j := b] @ ?c" "b \<noteq> payload ! j"
      by (simp_all add: head_bytes_def)
    moreover have "crc32_ieee (FORMAT_VERSION # ?l @ payload[j := b]) \<noteq> crc32_ieee (FORMAT_VERSION # ?l @ payload)"
      using crc_one_byte [of "5 + j" "head_bytes @ payload" b] 3(2) calculation(2) h(2)
      by (simp add: list_update_append nth_append) (simp add: head_bytes_def)
    ultimately show ?thesis using p be_word_roundtrip by (auto simp: unframe_Some) (metis be_word_roundtrip)
  next
    case (4 j)
    then have "bytes[i := b] = head_bytes @ payload @ ?c[j := b]" "b \<noteq> ?c ! j"
      using assms(3) by (simp_all add: h list_update_append nth_append)
    then have "bytes[i := b] = FORMAT_VERSION # ?l @ payload @ ?c[j := b]" "b \<noteq> ?c ! j"
      by (simp_all add: head_bytes_def)
    moreover have "?c[j := b] \<noteq> ?c" using calculation(2) 4(2) by (metis length_to_be_bytes nth_list_update_eq)
    ultimately show ?thesis using p by (simp add: unframe_Some)
  qed
qed


theorem rotted_byte_refused_witness:
  "\<exists>c. unframe toy_from_slice ([2, 0, 0, 0, 3, 1, 9, 3] @ c) = None"
proof -
  obtain c where c: "frame toy_to_vec toy_snapshot = Ok ([2, 0, 0, 0, 3, 1, 2, 3] @ c)" using toy_frame by blast
  have "unframe toy_from_slice (([2, 0, 0, 0, 3, 1, 2, 3] @ c)[6 := 9]) = None"
    by (rule rotted_byte_refused [OF c]) simp_all
  then show ?thesis by (auto simp: numeral_eq_Suc)
qed

end
