(* ===== verification/Demo_Relay.thy ===== *)
theory Demo_Relay
  imports Wire_Fields
begin

text \<open>
  The demo's resend ledger (\<open>src/demo/relay.rs\<close>): the traffic a node has released and not yet seen
  answered, kept to a bound, and its relay in the current view.
\<close>

section \<open>Datagrams and what answers them\<close>

record datagram =
  dg_to :: node_id
  dg_era :: era
  dg_view :: view
  dg_slot :: slot
  dg_tag :: tag
  dg_bytes :: "u8 list"

definition relayable :: "tag \<Rightarrow> bool" where
  "relayable t \<longleftrightarrow> t \<in> {Tag_Prepare, Tag_Commit, Tag_StartViewChange, Tag_DoViewChange}"

definition answers :: "datagram \<Rightarrow> node_id \<Rightarrow> era \<Rightarrow> view \<Rightarrow> slot \<Rightarrow> tag \<Rightarrow> bool" where
  "answers entry from_node e v s t =
     (if dg_to entry \<noteq> from_node \<or> dg_era entry \<noteq> e then False
      else if dg_tag entry = Tag_Prepare then t = Tag_PrepareOk \<and> v = dg_view entry \<and> s \<ge> dg_slot entry
      else if dg_tag entry = Tag_Commit then t = Tag_PrepareOk \<and> v = dg_view entry \<and> s > dg_slot entry
      else if dg_tag entry = Tag_StartViewChange then t = Tag_StartViewChange \<and> v = dg_view entry
      else if dg_tag entry = Tag_DoViewChange then t = Tag_StartView \<and> v \<ge> dg_view entry
      else False)"


section \<open>The ledger\<close>

record ledger =
  lg_unacked :: "datagram list"
  lg_bound :: nat
  lg_dropped :: u64

definition DEFAULT_BOUND :: nat where "DEFAULT_BOUND = 256"

definition with_bound :: "nat \<Rightarrow> ledger" where
  "with_bound bound = \<lparr>lg_unacked = [], lg_bound = max bound 1, lg_dropped = 0\<rparr>"

definition ledger_new :: ledger where
  "ledger_new = with_bound DEFAULT_BOUND"

definition same_key :: "datagram \<Rightarrow> datagram \<Rightarrow> bool" where
  "same_key a b \<longleftrightarrow> dg_to a = dg_to b \<and> dg_era a = dg_era b \<and> dg_view a = dg_view b
     \<and> dg_slot a = dg_slot b \<and> dg_tag a = dg_tag b"

definition ledger_record :: "ledger \<Rightarrow> datagram \<Rightarrow> ledger" where
  "ledger_record l d =
     (if \<not> relayable (dg_tag d) then l
      else case position (\<lambda>entry. same_key entry d) (lg_unacked l) of
             Some i \<Rightarrow> l\<lparr>lg_unacked := (lg_unacked l)[i := d]\<rparr>
           | None \<Rightarrow>
               (let l = (if length (lg_unacked l) \<ge> lg_bound l
                         then l\<lparr>lg_unacked := tl (lg_unacked l), lg_dropped := lg_dropped l + 1\<rparr> else l)
                in l\<lparr>lg_unacked := lg_unacked l @ [d]\<rparr>))"

definition answered :: "ledger \<Rightarrow> node_id \<Rightarrow> era \<Rightarrow> view \<Rightarrow> slot \<Rightarrow> tag \<Rightarrow> ledger" where
  "answered l from_node e v s t =
     (if \<not> relayable t \<and> t \<notin> {Tag_PrepareOk, Tag_StartView} then l
      else l\<lparr>lg_unacked := filter (\<lambda>entry. \<not> answers entry from_node e v s t) (lg_unacked l)\<rparr>)"

definition relay :: "ledger \<Rightarrow> era \<Rightarrow> view \<Rightarrow> datagram list" where
  "relay l e v = filter (\<lambda>entry. dg_era entry = e \<and> dg_view entry = v) (lg_unacked l)"

definition unacknowledged :: "ledger \<Rightarrow> nat" where
  "unacknowledged l = length (lg_unacked l)"


section \<open>The ledger's invariant\<close>

definition key_of :: "datagram \<Rightarrow> node_id \<times> era \<times> view \<times> slot \<times> tag" where
  "key_of d = (dg_to d, dg_era d, dg_view d, dg_slot d, dg_tag d)"

lemma same_key_iff: "same_key a b \<longleftrightarrow> key_of a = key_of b"
  by (auto simp: same_key_def key_of_def)

definition ledger_ok :: "ledger \<Rightarrow> bool" where
  "ledger_ok l \<longleftrightarrow> length (lg_unacked l) \<le> lg_bound l \<and> 1 \<le> lg_bound l
     \<and> distinct (map key_of (lg_unacked l)) \<and> (\<forall>d \<in> set (lg_unacked l). relayable (dg_tag d))"

lemma ledger_ok_new: "ledger_ok (with_bound n)"
  by (simp add: ledger_ok_def with_bound_def)

lemma ledger_ok_answered: "ledger_ok l \<Longrightarrow> ledger_ok (answered l n e v s t)"
  by (auto simp: ledger_ok_def answered_def distinct_map_filter intro: order_trans [OF length_filter_le])

lemma ledger_ok_record: "ledger_ok l \<Longrightarrow> ledger_ok (ledger_record l d)"
proof (cases "position (\<lambda>entry. same_key entry d) (lg_unacked l)")
  case None
  assume ok: "ledger_ok l"
  have fresh: "key_of d \<notin> key_of ` set (lg_unacked l)" using None by (auto simp: same_key_iff)
  then have "key_of d \<notin> key_of ` set (tl (lg_unacked l))" by (auto dest: list.set_sel(2) [rotated] simp: image_iff) (metis list.set_sel(2) tl_Nil)
  then show ?thesis
    using ok None fresh
    by (cases "lg_unacked l") (auto simp: ledger_record_def ledger_ok_def Let_def)
next
  case (Some i)
  assume ok: "ledger_ok l"
  have i: "i < length (lg_unacked l)" "key_of (lg_unacked l ! i) = key_of d"
    using position_SomeD [OF Some] by (simp_all add: same_key_iff)
  then have "map key_of ((lg_unacked l)[i := d]) = map key_of (lg_unacked l)"
    by (simp add: map_update) (metis list_update_id nth_map)
  then show ?thesis
    using ok Some i set_update_subset_insert [of "lg_unacked l" i d] by (auto simp: ledger_record_def ledger_ok_def)
qed

end
