(* ===== verification/Demo_Node.thy ===== *)
theory Demo_Node
  imports Host_Run Demo_Relay Locks Message
begin

text \<open>
  The demo node (\<open>src/demo/node.rs\<close>): one replica, the lock table, the resend ledger, and the
  single-threaded loop that ties them. What a node is mounted on, its boot fence, its state store, its
  transport, its commit hook and the payload codec of the lock table, is one record of operations over
  the world they change; \<open>'io\<close> is a disk error and \<open>'e\<close> a codec error.
\<close>

section \<open>The node\<close>

record ('w, 'io, 'e) node_env =
  ne_fence_write :: "fence_word \<Rightarrow> 'w \<Rightarrow> ('io + unit) \<times> 'w"
  ne_fence_read :: "'w \<Rightarrow> 'io + fence_word option"
  ne_state :: "('w, 'io) state_store"
  ne_receive :: "'w \<Rightarrow> (node_id \<times> message) option \<times> 'w"
  ne_send :: "node_id \<Rightarrow> era \<Rightarrow> message \<Rightarrow> 'w \<Rightarrow> 'w"
  ne_on_commit :: "slot \<Rightarrow> 'w \<Rightarrow> 'w"
  ne_from_slice :: "u8 list \<Rightarrow> 'e + request"
  ne_to_vec :: "response \<Rightarrow> 'e + u8 list"

text \<open>\<open>DR_Panic\<close> is the panic of the packer the source expects never to refuse.\<close>

datatype ('io, 'e) demo_refusal =
    DR_Plan plan_refusal
  | DR_Publish publish_refusal
  | DR_State 'io
  | DR_Application 'e
  | DR_Effect string
  | DR_Panic

record demo_disk =
  dd_journal :: segmented_log
  dd_persisted :: persisted_progress
  dd_config :: era_table

datatype state_load = SL_Unrequested | SL_Loaded | SL_Absent | SL_Distrusted

record applied_entry =
  ap_slot :: slot
  ap_operation_id :: operation_id
  ap_response :: "u8 list"

datatype 'io stop_refusal = Stop_Refusal string "'io option"

datatype ('io, 'e) boot_refusal =
    BR_Lifecycle lifecycle_refusal
  | BR_Fence 'io
  | BR_NotCrashed
  | BR_Exhausted node_id
  | BR_Step "('io, 'e) demo_refusal"

type_synonym pending_apply = "slot \<times> operation_id \<times> u8 list"

record 'w demo_node =
  dn_own :: node_id
  dn_replica :: replica
  dn_ledger :: ledger
  dn_locks :: service
  dn_tick :: tick
  dn_clean_boot :: bool
  dn_state_touched :: bool
  dn_state_load :: state_load
  dn_applied :: "applied_entry list"
  dn_pending :: "pending_apply list"
  dn_world :: 'w

definition node_assemble :: "replica \<Rightarrow> bool \<Rightarrow> 'w \<Rightarrow> 'w demo_node" where
  "node_assemble r clean_boot w =
     \<lparr>dn_own = rp_own r, dn_replica = r, dn_ledger = ledger_new, dn_locks = service_default, dn_tick = 0,
      dn_clean_boot = clean_boot, dn_state_touched = False, dn_state_load = SL_Unrequested, dn_applied = [],
      dn_pending = [], dn_world = w\<rparr>"


section \<open>One turn of the core\<close>

definition message_bytes :: "message \<Rightarrow> u8 list option" where
  "message_bytes m =
     (case packed_len_message m of
        None \<Rightarrow> None
      | Some len \<Rightarrow>
          (case pack_into pack_message packed_len_message m (replicate len 0) of
             Some (Inr (_, bytes)) \<Rightarrow> Some bytes
           | _ \<Rightarrow> None))"

definition datagram_of :: "node_id \<Rightarrow> message \<Rightarrow> u8 list \<Rightarrow> datagram" where
  "datagram_of target m bytes =
     (let h = msg_header m
      in \<lparr>dg_to = target, dg_era = b_era (h_view h), dg_view = b_view (h_view h), dg_slot = h_slot h,
          dg_tag = h_tag h, dg_bytes = bytes\<rparr>)"

fun release_effects ::
    "('w, 'io, 'e) node_env \<Rightarrow> effect list \<Rightarrow> 'w demo_node \<Rightarrow> (('io, 'e) demo_refusal + unit) \<times> 'w demo_node" where
  "release_effects env [] node = (Ok (), node)"
| "release_effects env (Eff_Send target e m # es) node =
     (case message_bytes m of
        None \<Rightarrow> (Err DR_Panic, node)
      | Some bytes \<Rightarrow>
          release_effects env es
            (node\<lparr>dn_ledger := ledger_record (dn_ledger node) (datagram_of target m bytes),
                  dn_world := ne_send env target e m (dn_world node)\<rparr>))"
| "release_effects env (Eff_Apply s operation_id payload # es) node =
     release_effects env es (node\<lparr>dn_pending := dn_pending node @ [(s, operation_id, payload)]\<rparr>)"
| "release_effects env (Eff_Persist _ # es) node =
     (Err (DR_Effect ''a persistence intent released under the volatile demo's stability''), node)"
| "release_effects env (Eff_AdminResponse _ # es) node =
     (Err (DR_Effect ''an admin verdict released with no admin ingress''), node)"

definition drive ::
    "('w, 'io, 'e) node_env \<Rightarrow> 'w demo_node \<Rightarrow> input \<Rightarrow> (('io, 'e) demo_refusal + u64) \<times> 'w demo_node" where
  "drive env node event =
     (let r = dn_replica node;
          accepted_before = p_accepted (rp_progress r);
          timed = \<lparr>ti_at = dn_tick node, ti_event = event\<rparr>
      in case plan r timed (log_view_of (rp_journal r)) of
           Inl e \<Rightarrow> (Err (DR_Plan e), node)
         | Inr planned \<Rightarrow>
             (case publish r planned of
                (r, Inl e) \<Rightarrow> (Err (DR_Publish e), node\<lparr>dn_replica := r\<rparr>)
              | (r, Inr (Parked _ _)) \<Rightarrow>
                  (Err (DR_Effect ''a transition parked under the volatile demo's stability''), node\<lparr>dn_replica := r\<rparr>)
              | (r, Inr (Published revision effects)) \<Rightarrow>
                  (let r = (if p_accepted (rp_progress r) > accepted_before then reclaim_journal r else r)
                   in case release_effects env effects (node\<lparr>dn_replica := r\<rparr>) of
                        (Inl e, node) \<Rightarrow> (Err e, node)
                      | (Inr _, node) \<Rightarrow> (Ok revision, node))))"


section \<open>Applying\<close>

definition materialise_state ::
    "('w, 'io, 'e) node_env \<Rightarrow> 'w demo_node \<Rightarrow> (('io, 'e) demo_refusal + unit) \<times> 'w demo_node" where
  "materialise_state env node =
     (if dn_state_touched node then (Ok (), node)
      else
        let node = node\<lparr>dn_state_touched := True\<rparr>
        in case lazy_load (ne_state env) (dn_world node) (dn_clean_boot node) (service_is_empty (dn_locks node)) of
             Inl e \<Rightarrow> (Err (DR_State e), node)
           | Inr loaded \<Rightarrow>
               (Ok (),
                if \<not> dn_clean_boot node then node\<lparr>dn_state_load := SL_Distrusted\<rparr>
                else case loaded of
                       Some snap \<Rightarrow> node\<lparr>dn_locks := restore (dn_locks node) snap, dn_state_load := SL_Loaded\<rparr>
                     | None \<Rightarrow> node\<lparr>dn_state_load := SL_Absent\<rparr>))"

definition walk_apply ::
    "('w, 'io, 'e) node_env \<Rightarrow> 'w demo_node \<Rightarrow> pending_apply \<Rightarrow> (('io, 'e) demo_refusal + unit) \<times> 'w demo_node" where
  "walk_apply env node ap =
     (case ap of (s, operation_id, payload) \<Rightarrow>
        (case materialise_state env node of
           (Inl e, node) \<Rightarrow> (Err e, node)
         | (Inr _, node) \<Rightarrow>
             (let node = node\<lparr>dn_world := ne_on_commit env s (dn_world node)\<rparr>
              in case execute (ne_from_slice env) (ne_to_vec env) (dn_locks node) s payload of
                   (Inl e, locks) \<Rightarrow> (Err (DR_Application e), node\<lparr>dn_locks := locks\<rparr>)
                 | (Inr response, locks) \<Rightarrow>
                     (let node = node\<lparr>dn_locks := locks,
                            dn_applied := dn_applied node @
                              [\<lparr>ap_slot = s, ap_operation_id = operation_id, ap_response = response\<rparr>]\<rparr>
                      in case drive env node (In_Applied s) of
                           (Inl e, node) \<Rightarrow> (Err e, node)
                         | (Inr _, node) \<Rightarrow> (Ok (), node)))))"

text \<open>The loop that empties the queue, by a bound on its turns; \<open>None\<close> is a bound too small.\<close>

fun drain_pending ::
    "nat \<Rightarrow> ('w, 'io, 'e) node_env \<Rightarrow> 'w demo_node \<Rightarrow> ((('io, 'e) demo_refusal + unit) \<times> 'w demo_node) option" where
  "drain_pending n env node =
     (case dn_pending node of
        [] \<Rightarrow> Some (Ok (), node)
      | ap # rest \<Rightarrow>
          (case n of
             0 \<Rightarrow> None
           | Suc k \<Rightarrow>
               (case walk_apply env (node\<lparr>dn_pending := rest\<rparr>) ap of
                  (Inl e, node) \<Rightarrow> Some (Err e, node)
                | (Inr _, node) \<Rightarrow> drain_pending k env node)))"

definition node_step ::
    "('w, 'io, 'e) node_env \<Rightarrow> 'w demo_node \<Rightarrow> input \<Rightarrow> ((('io, 'e) demo_refusal + u64) \<times> 'w demo_node) option" where
  "node_step env node event =
     (case drive env node event of
        (Inl e, node) \<Rightarrow> Some (Err e, node)
      | (Inr revision, node) \<Rightarrow>
          (case drain_pending (length (dn_pending node)) env node of
             None \<Rightarrow> None
           | Some (Inl e, node) \<Rightarrow> Some (Err e, node)
           | Some (Inr _, node) \<Rightarrow> Some (Ok revision, node)))"


section \<open>The node's inputs\<close>

definition node_propose where
  "node_propose env node operation = node_step env node (In_Propose operation)"

definition node_tick where
  "node_tick env node at_tick = node_step env (node\<lparr>dn_tick := max (dn_tick node) at_tick\<rparr>) In_Tick"

definition announce where
  "announce env node old = node_step env node (In_Reincarnate old)"

text \<open>The loop over what the transport has received, which ends when the transport does.\<close>

partial_function (option) node_run ::
    "('w, 'io, 'e) node_env \<Rightarrow> 'w demo_node \<Rightarrow> (node_id \<times> (('io, 'e) demo_refusal + u64)) list
     \<Rightarrow> ((node_id \<times> (('io, 'e) demo_refusal + u64)) list \<times> 'w demo_node) option" where
  "node_run env node outcomes =
     (case ne_receive env (dn_world node) of
        (None, w) \<Rightarrow> Some (outcomes, node\<lparr>dn_world := w\<rparr>)
      | (Some (sender, m), w) \<Rightarrow>
          (let h = msg_header m;
               node = node\<lparr>dn_world := w,
                        dn_ledger := answered (dn_ledger node) sender (b_era (h_view h)) (b_view (h_view h)) (h_slot h) (h_tag h)\<rparr>
           in Option.bind (node_step env node (In_Peer sender m)) (\<lambda>(result, node).
                node_run env node (outcomes @ [(sender, result)]))))"

text \<open>The join-gossip datagram (\<open>src/demo/rejoin.rs\<close>): packed, and decoded back before it is sent.\<close>

definition gossip_message :: "era \<Rightarrow> view \<Rightarrow> message" where
  "gossip_message e v = mk_message Tag_GossipRequest (Ballot e v) SLOT_NONE (B_GossipRequest SLOT_NONE SLOT_NONE)"

definition gossip_datagram :: "era \<Rightarrow> view \<Rightarrow> u8 list option" where
  "gossip_datagram e v = message_bytes (gossip_message e v)"

definition membership :: "'w demo_node \<Rightarrow> (node_id \<times> u32) list" where
  "membership node = map (\<lambda>m. (m_node m, m_weight m)) (cfg_order (current_config (dn_replica node)))"

definition gossip ::
    "nat \<Rightarrow> ('w, 'io, 'e) node_env \<Rightarrow> 'w demo_node \<Rightarrow> (('io, 'e) demo_refusal + unit) \<times> 'w demo_node" where
  "gossip depth env node =
     (let current = p_current (rp_progress (dn_replica node))
      in case gossip_datagram (b_era current) (b_view current) of
           None \<Rightarrow> (Err DR_Panic, node)
         | Some bytes \<Rightarrow>
             (case unpack_from (unpack_message depth) bytes of
                Some (Inr m) \<Rightarrow>
                  (let e = er_era (et_current (p_config (rp_progress (dn_replica node))));
                       targets = filter (\<lambda>n. n \<noteq> dn_own node) (map fst (membership node))
                   in (Ok (), node\<lparr>dn_world := fold (\<lambda>n. ne_send env n e m) targets (dn_world node)\<rparr>))
              | Some (Inl _) \<Rightarrow> (Err (DR_Effect ''the gossip frame did not decode back''), node)
              | None \<Rightarrow> (Err DR_Panic, node)))"

definition stop ::
    "('w, 'io, 'e) node_env \<Rightarrow> 'w demo_node \<Rightarrow> ('io stop_refusal + unit) \<times> 'w demo_node" where
  "stop env node =
     (case ne_fence_write env FW_Stopped (dn_world node) of
        (Inl e, w) \<Rightarrow> (Err (Stop_Refusal ''the halt's fence word did not land'' (Some e)), node\<lparr>dn_world := w\<rparr>)
      | (Inr _, w) \<Rightarrow>
          (case st_flush (ne_state env) (service_snapshot (dn_locks node)) w of
             (Inl e, w) \<Rightarrow> (Err (Stop_Refusal ''the eager state flush failed'' (Some e)), node\<lparr>dn_world := w\<rparr>)
           | (Inr _, w) \<Rightarrow>
               (case ne_fence_write env FW_Flushed w of
                  (Inl e, w) \<Rightarrow> (Err (Stop_Refusal ''the clean word did not land'' (Some e)), node\<lparr>dn_world := w\<rparr>)
                | (Inr _, w) \<Rightarrow> (Ok (), node\<lparr>dn_world := w\<rparr>))))"


section \<open>Lives\<close>

text \<open>The record a crash leaves; \<open>None\<close> is a panic.\<close>

definition record_disk :: "replica \<Rightarrow> demo_disk option" where
  "record_disk r =
     (let v = log_view_of (rp_journal r);
          disk = (\<lambda>log. \<lparr>dd_journal = log, dd_persisted = persisted_of (rp_progress r), dd_config = p_config (rp_progress r)\<rparr>)
      in case lv_last v of
           None \<Rightarrow> Some (disk segmented_log_new)
         | Some frontier \<Rightarrow>
             (case copy_out v (fst (view_retained v)) frontier [] of
                (Range_Complete, entries) \<Rightarrow>
                  (case install_suffix segmented_log_new (fst (view_retained v)) entries of
                     Inl _ \<Rightarrow> None
                   | Inr log \<Rightarrow> Some (disk log))
              | _ \<Rightarrow> None))"

definition node_first ::
    "('w, 'io, 'e) node_env \<Rightarrow> node_id \<Rightarrow> node_id list \<Rightarrow> knobs \<Rightarrow> 'w \<Rightarrow> (('io, 'e) boot_refusal + 'w demo_node) \<times> 'w" where
  "node_first env own genesis_order kn w =
     (case provision own genesis_order weighted_majority segmented_log_new Volatile kn of
        Inl e \<Rightarrow> (Err (BR_Lifecycle e), w)
      | Inr r \<Rightarrow>
          (case ne_fence_write env FW_Stopping w of
             (Inl e, w) \<Rightarrow> (Err (BR_Fence e), w)
           | (Inr _, w) \<Rightarrow> (Ok (node_assemble r False w), w)))"

definition node_reincarnate ::
    "('w, 'io, 'e) node_env \<Rightarrow> node_id \<Rightarrow> demo_disk \<Rightarrow> knobs \<Rightarrow> 'w \<Rightarrow> (('io, 'e) boot_refusal + 'w demo_node) option" where
  "node_reincarnate env old disk kn w =
     (case ne_fence_read env w of
        Inl e \<Rightarrow> Some (Err (BR_Fence e))
      | Inr (Some FW_Flushed) \<Rightarrow> Some (Err BR_NotCrashed)
      | Inr _ \<Rightarrow>
          (case next_life old of
             None \<Rightarrow> Some (Err (BR_Exhausted old))
           | Some new \<Rightarrow>
               (case reincarnate new weighted_majority (dd_journal disk) (dd_persisted disk) (dd_config disk) Volatile kn of
                  Inl e \<Rightarrow> Some (Err (BR_Lifecycle e))
                | Inr r \<Rightarrow>
                    (case announce env (node_assemble r False w) old of
                       None \<Rightarrow> None
                     | Some (Inl e, _) \<Rightarrow> Some (Err (BR_Step e))
                     | Some (Inr _, node) \<Rightarrow> Some (Ok node)))))"

end
