(* ===== verification/Demo_Theorems.thy ===== *)
theory Demo_Theorems
  imports Demo_Node Replica_Theorems
begin

text \<open>
  The demo node over its steps: its loop ends, its replica stays inside the invariant of every host,
  and what it applies to the lock table is applied once and in slot order; what a crash leaves of it is
  a log and a record a next life opens.
\<close>

section \<open>One turn\<close>

lemma release_keeps:
  "release_effects env es node = (res, node') \<Longrightarrow>
     dn_replica node' = dn_replica node \<and> dn_applied node' = dn_applied node
     \<and> (ledger_ok (dn_ledger node) \<longrightarrow> ledger_ok (dn_ledger node'))
     \<and> (\<exists>k. map fst (dn_pending node') = map fst (dn_pending node) @ take k (apply_slots es))"
proof (induction env es node rule: release_effects.induct)
  case (2 env target e m es node)
  then show ?case by (auto simp: ledger_ok_record split: option.splits intro: exI [of _ 0])
next
  case (3 env s oid payload es node)
  from 3 obtain k where
    "map fst (dn_pending node') = map fst (dn_pending node) @ s # take k (apply_slots es)" by auto
  then show ?case using 3 by (auto intro!: exI [of _ "Suc k"])
qed (auto intro: exI [of _ 0])

text \<open>A turn extends the queue by slots of the range it commits, and moves nothing else.\<close>

definition extends :: "'w demo_node \<Rightarrow> 'w demo_node \<Rightarrow> bool" where
  "extends node node' \<longleftrightarrow> dn_applied node' = dn_applied node \<and> (ledger_ok (dn_ledger node) \<longrightarrow> ledger_ok (dn_ledger node'))
     \<and> p_committed (rp_progress (dn_replica node)) \<le> p_committed (rp_progress (dn_replica node'))
     \<and> (\<exists>ss. map fst (dn_pending node') = map fst (dn_pending node) @ ss \<and> sorted_wrt (<) ss
         \<and> (\<forall>s \<in> set ss. p_committed (rp_progress (dn_replica node)) < s \<and> s \<le> p_committed (rp_progress (dn_replica node'))))"

lemma drive_ok:
  assumes "host_ok False (dn_replica node)" "drive env node ev = (res, node')"
  shows "host_ok False (dn_replica node')" "extends node node'"
proof -
  let ?ti = "\<lparr>ti_at = dn_tick node, ti_event = ev\<rparr>"
  obtain outcome r1 where h: "host_step (dn_replica node) ?ti = (outcome, r1)" by fastforce
  have ok: "host_ok False r1" "advances (dn_replica node) (released outcome) r1"
    using host_step_ok [OF assms(1) h] by simp_all
  have quiet: "extends node (node\<lparr>dn_replica := r1\<rparr>)" using ok(2) by (simp add: extends_def advances_def)
  have "host_ok False (dn_replica node') \<and> extends node node'"
  proof (cases "\<exists>v es. outcome = Inr (Inr (Published v es))")
    case True
    then obtain v es where o: "outcome = Inr (Inr (Published v es))" by blast
    define r2 where "r2 = (if p_accepted (rp_progress r1) > p_accepted (rp_progress (dn_replica node)) then reclaim_journal r1 else r1)"
    have r2: "host_ok False r2" "p_committed (rp_progress r2) = p_committed (rp_progress r1)"
      using reclaim_ok(1) [OF ok(1)] ok(1) by (auto simp: r2_def reclaim_journal_def Let_def)
    obtain res2 node2 where rel: "release_effects env es (node\<lparr>dn_replica := r2\<rparr>) = (res2, node2)" by fastforce
    then have n: "node' = node2"
      using assms(2) h o
      by (auto simp: drive_def host_step_def Let_def r2_def split: sum.splits prod.splits)
    from release_keeps [OF rel] obtain k where k: "dn_replica node2 = r2" "dn_applied node2 = dn_applied node"
      "ledger_ok (dn_ledger node) \<longrightarrow> ledger_ok (dn_ledger node2)"
      "map fst (dn_pending node2) = map fst (dn_pending node) @ take k (apply_slots es)" by auto
    have ad: "p_committed (rp_progress (dn_replica node)) \<le> p_committed (rp_progress r1)"
      "applies_in (p_committed (rp_progress (dn_replica node))) (p_committed (rp_progress r1)) es"
      using ok(2) o by (simp_all add: advances_def released_def)
    have "sorted_wrt (<) (take k (apply_slots es))" using ad(2) by (simp add: applies_in_def sorted_wrt_take)
    moreover have "\<forall>s \<in> set (take k (apply_slots es)). p_committed (rp_progress (dn_replica node)) < s \<and> s \<le> p_committed (rp_progress r1)"
      using ad(2) by (auto simp: applies_in_def dest: in_set_takeD)
    ultimately show ?thesis using k r2 ad(1) n by (auto simp: extends_def)
  next
    case False
    then have "node' = node\<lparr>dn_replica := r1\<rparr>"
      using assms(2) h by (auto simp: drive_def host_step_def Let_def split: sum.splits prod.splits publish_outcome.splits)
    then show ?thesis using ok(1) quiet by simp
  qed
  then show "host_ok False (dn_replica node')" "extends node node'" by simp_all
qed

lemma drive_applied:
  assumes "drive env node (In_Applied s) = (res, node')"
  shows "dn_pending node' = dn_pending node"
  using assms plan_applied_quiet publish_effects
  by (fastforce simp: drive_def Let_def split: sum.splits prod.splits publish_outcome.splits)


section \<open>The node's invariant\<close>

text \<open>What a node has applied and what it still holds to apply, in order.\<close>

definition due :: "'w demo_node \<Rightarrow> slot list" where
  "due node = map ap_slot (dn_applied node) @ map fst (dn_pending node)"

definition node_ok :: "'w demo_node \<Rightarrow> bool" where
  "node_ok node \<longleftrightarrow> host_ok False (dn_replica node) \<and> ledger_ok (dn_ledger node) \<and> sorted_wrt (<) (due node)
     \<and> (\<forall>s \<in> set (due node). s \<le> p_committed (rp_progress (dn_replica node)))"

lemma drive_node_ok:
  assumes "node_ok node" "drive env node ev = (res, node')"
  shows "node_ok node'"
proof -
  have h: "host_ok False (dn_replica node)" using assms(1) by (simp add: node_ok_def)
  from drive_ok [OF h assms(2)] obtain ss where e: "host_ok False (dn_replica node')" "due node' = due node @ ss"
    "sorted_wrt (<) ss" "ledger_ok (dn_ledger node) \<longrightarrow> ledger_ok (dn_ledger node')"
    "p_committed (rp_progress (dn_replica node)) \<le> p_committed (rp_progress (dn_replica node'))"
    "\<forall>s \<in> set ss. p_committed (rp_progress (dn_replica node)) < s \<and> s \<le> p_committed (rp_progress (dn_replica node'))"
    by (auto simp: extends_def due_def)
  have "x < y" if "x \<in> set (due node)" "y \<in> set ss" for x y
    using that e(6) assms(1) unfolding node_ok_def by (meson le_less_trans)
  then show ?thesis
    using assms(1) e unfolding node_ok_def e(2) by (auto simp: sorted_wrt_append intro: order_trans)
qed

lemma materialise_keeps:
  assumes "materialise_state env node = (res, node')"
  shows "dn_replica node' = dn_replica node" "dn_ledger node' = dn_ledger node" "dn_pending node' = dn_pending node"
    "dn_applied node' = dn_applied node"
  using assms by (auto simp: materialise_state_def Let_def split: if_splits sum.splits option.splits)

lemma walk_apply_ok:
  assumes "node_ok node" "dn_pending node = ap # rest" "walk_apply env (node\<lparr>dn_pending := rest\<rparr>) ap = (res, node')"
  shows "node_ok node'" "\<not> isl res \<Longrightarrow> dn_pending node' = rest"
proof -
  obtain s oid payload where ap: "ap = (s, oid, payload)" by (cases ap) auto
  obtain r1 n1 where m: "materialise_state env (node\<lparr>dn_pending := rest\<rparr>) = (r1, n1)" by fastforce
  note k = materialise_keeps [OF m]
  have cut: "node_ok n1"
    using assms(1,2) k by (auto simp: node_ok_def due_def sorted_wrt_append)
  have "node_ok node' \<and> (\<not> isl res \<longrightarrow> dn_pending node' = rest)"
  proof (cases r1)
    case (Inl e)
    then show ?thesis using assms(3) ap m cut by (auto simp: walk_apply_def)
  next
    case (Inr u)
    let ?n2 = "n1\<lparr>dn_world := ne_on_commit env s (dn_world n1)\<rparr>"
    obtain r3 locks where x: "execute (ne_from_slice env) (ne_to_vec env) (dn_locks n1) s payload = (r3, locks)" by fastforce
    show ?thesis
    proof (cases r3)
      case (Inl e)
      have "node_ok (?n2\<lparr>dn_locks := locks\<rparr>)" using cut by (simp add: node_ok_def due_def)
      then show ?thesis using assms(3) ap m \<open>r1 = Inr u\<close> Inl x by (auto simp: walk_apply_def Let_def)
    next
      case response: (Inr response)
      let ?n3 = "?n2\<lparr>dn_locks := locks,
          dn_applied := dn_applied n1 @ [\<lparr>ap_slot = s, ap_operation_id = oid, ap_response = response\<rparr>]\<rparr>"
      obtain r4 n4 where d: "drive env ?n3 (In_Applied s) = (r4, n4)" by fastforce
      have "node_ok ?n3" using assms(1,2) k ap by (simp add: node_ok_def due_def)
      from drive_node_ok [OF this d] have "node_ok n4" .
      moreover have "dn_pending n4 = rest" using drive_applied [OF d] k by simp
      ultimately show ?thesis
        using assms(3) ap m Inr x response d by (auto simp: walk_apply_def Let_def split: sum.splits)
    qed
  qed
  then show "node_ok node'" "\<not> isl res \<Longrightarrow> dn_pending node' = rest" by simp_all
qed

lemma drain_pending_ok:
  "node_ok node \<Longrightarrow> length (dn_pending node) \<le> n \<Longrightarrow> \<exists>res node'. drain_pending n env node = Some (res, node') \<and> node_ok node'"
proof (induction n arbitrary: node)
  case (Suc n)
  show ?case
  proof (cases "dn_pending node")
    case (Cons ap rest)
    obtain res n1 where w: "walk_apply env (node\<lparr>dn_pending := rest\<rparr>) ap = (res, n1)" by fastforce
    note ok = walk_apply_ok [OF Suc.prems(1) Cons w]
    show ?thesis
    proof (cases res)
      case (Inr u)
      then show ?thesis using Suc.IH [OF ok(1)] ok(2) Suc.prems(2) Cons w by simp
    qed (use ok(1) Cons w in simp)
  qed (use Suc.prems in simp)
qed simp

lemma node_step_ok: "node_ok node \<Longrightarrow> \<exists>res node'. node_step env node ev = Some (res, node') \<and> node_ok node'"
proof -
  assume ok: "node_ok node"
  obtain res n1 where d: "drive env node ev = (res, n1)" by fastforce
  have n1: "node_ok n1" by (rule drive_node_ok [OF ok d])
  then obtain res2 n2 where "drain_pending (length (dn_pending n1)) env n1 = Some (res2, n2)" "node_ok n2"
    using drain_pending_ok [of n1 "length (dn_pending n1)" env] by auto
  then show ?thesis using d n1 by (cases res; cases res2) (simp_all add: node_step_def)
qed


section \<open>A life\<close>

text \<open>A life of a node: inputs one after the other, whatever each is refused for. \<open>None\<close> is a step
  whose loop did not end.\<close>

fun node_life :: "('w, 'io, 'e) node_env \<Rightarrow> 'w demo_node \<Rightarrow> input list \<Rightarrow> 'w demo_node option" where
  "node_life env node [] = Some node"
| "node_life env node (ev # evs) =
     (case node_step env node ev of None \<Rightarrow> None | Some (_, node) \<Rightarrow> node_life env node evs)"

lemma node_life_ok: "node_ok node \<Longrightarrow> \<exists>node'. node_life env node evs = Some node' \<and> node_ok node'"
proof (induction evs arbitrary: node)
  case (Cons ev evs)
  from node_step_ok [OF Cons.prems, of env ev] obtain res n1 where "node_step env node ev = Some (res, n1)" "node_ok n1"
    by blast
  then show ?case using Cons.IH by simp
qed simp

lemma node_first_ok:
  assumes "node_first env own genesis_order kn w = (Inr node, w')"
  shows "node_ok node"
proof -
  obtain r where r: "provision own genesis_order weighted_majority segmented_log_new Volatile kn = Ok r"
    and n: "node = node_assemble r False w'"
    using assms by (auto simp: node_first_def split: sum.splits prod.splits)
  have "host_ok True r" using provision_ok [OF r] by (simp add: segmented_log_new_def wf_new)
  then show ?thesis using n host_ok_weaken
    by (simp add: node_ok_def due_def node_assemble_def ledger_new_def ledger_ok_new)
qed

text \<open>C23. Every step of a demo node ends and its applications happen once, in slot order: whatever inputs
  a provisioned node is given, and whatever its disk, transport and codec answer, its loop over the
  queue terminates, and the slots it has executed on its lock table are strictly increasing and
  committed.\<close>

theorem node_applies_in_order:
  assumes "node_first env own genesis_order kn w = (Inr node, w')"
  shows "\<exists>node'. node_life env node evs = Some node'
     \<and> sorted_wrt (<) (map ap_slot (dn_applied node'))
     \<and> (\<forall>ap \<in> set (dn_applied node'). ap_slot ap \<le> p_committed (rp_progress (dn_replica node')))"
proof -
  from node_life_ok [OF node_first_ok [OF assms]] obtain node' where "node_life env node evs = Some node'" "node_ok node'"
    by blast
  then show ?thesis by (auto simp: node_ok_def due_def sorted_wrt_append)
qed

definition quiet_env :: "(unit, unit, unit) node_env" where
  "quiet_env = \<lparr>ne_fence_write = (\<lambda>_ w. (Ok (), w)), ne_fence_read = (\<lambda>_. Ok None),
     ne_state = \<lparr>st_flush = (\<lambda>_ w. (Ok (), w)), st_load = (\<lambda>_. Ok None)\<rparr>,
     ne_receive = (\<lambda>w. (None, w)), ne_send = (\<lambda>_ _ _ w. w), ne_on_commit = (\<lambda>_ w. w),
     ne_from_slice = (\<lambda>_. Ok (Rq_Get 4)), ne_to_vec = (\<lambda>_. Ok [])\<rparr>"

lemma quiet_first:
  "\<exists>node. node_first quiet_env 10 [10, 20, 30] sample_knobs () = (Inr node, ())"
  by (simp add: node_first_def cluster_provision quiet_env_def)

theorem node_applies_in_order_witness:
  "\<exists>node node'. node_first quiet_env 10 [10, 20, 30] sample_knobs () = (Inr node, ())
     \<and> node_life quiet_env node [In_Tick, In_Applied 3] = Some node'"
proof -
  obtain node where n: "node_first quiet_env 10 [10, 20, 30] sample_knobs () = (Inr node, ())" using quiet_first by blast
  from node_applies_in_order [OF n, of "[In_Tick, In_Applied 3]"] n show ?thesis by blast
qed


section \<open>A crash and the life after it\<close>

lemma copied_run:
  assumes "wf_log l" "sl_accepted l = Some f" "sl_first l \<le> f"
  shows "copy_out (log_view_of l) (sl_first l) f [] = (Range_Complete, physical l)"
proof -
  have run: "contig (unat (sl_first l)) (physical l)" "unat f + 1 = unat (sl_first l) + length (physical l)"
    using assms(1,2) by (simp_all add: wf_log_def wf_physical_def)
  have "sl_first l \<le> le_slot e \<and> le_slot e \<le> f" if "e \<in> set (physical l)" for e
  proof -
    obtain i where i: "i < length (physical l)" "e = physical l ! i" using \<open>e \<in> set (physical l)\<close> by (metis in_set_conv_nth)
    have "unat (le_slot e) = unat (sl_first l) + i" using run(1) i by (simp add: contig_def)
    then show ?thesis using run(2) i(1) by (simp add: word_le_nat_alt)
  qed
  then have "iter_range (log_view_of l) (sl_first l) f = physical l"
    unfolding iter_range_run [OF assms(1)] by (simp add: filter_id_conv)
  then show ?thesis using assms(2,3) leD [OF assms(3)] by (simp add: copy_out_def log_view_of_def Let_def)
qed

lemma reinstalled_run:
  assumes "wf_log l" "sl_accepted l = Some f" "sl_first l \<le> f" "1 \<le> sl_first l"
  obtains log where "install_suffix segmented_log_new (sl_first l) (physical l) = Ok log" "wf_log log"
    "physical log = physical l" "sl_first log = sl_first l" "sl_accepted log = Some f"
proof -
  have run: "contig (unat (sl_first l)) (physical l)" "unat f + 1 = unat (sl_first l) + length (physical l)"
    using assms(1,2) by (simp_all add: wf_log_def wf_physical_def)
  have new: "wf_log segmented_log_new" "physical segmented_log_new = []" "sl_accepted segmented_log_new = None"
    "sl_first segmented_log_new = 1"
    by (simp_all add: segmented_log_new_def wf_new) (simp_all add: with_tail_capacity_def physical_def VOID_SLOT_def)
  have ne: "physical l \<noteq> []" using run(2) assms(3) by (auto simp: word_le_nat_alt)
  have top: "unat f + 1 < 2 ^ 64" using assms(1) run(2) by (simp add: wf_log_def)
  have "\<exists>log. install_suffix segmented_log_new (sl_first l) (physical l) = Ok log"
    unfolding install_suffix_run(2) [OF new(1)]
    using run ne assms(4) top new by (simp add: suffix_start_def)
  then obtain log where log: "install_suffix segmented_log_new (sl_first l) (physical l) = Ok log" by blast
  have "le_slot (last (physical l)) = f"
    using contig_last [OF run(1) ne] run(2) by (simp add: word_unat_eq_iff)
  then show ?thesis using that [OF log] install_suffix_run(1) [OF new(1) log] new by simp
qed

lemma weighted_era_gate:
  assumes "wf_table t"
  shows "lifecycle_gate (validate_era weighted_majority (er_config (et_current t))) = Ok ()"
proof -
  have m: "wf_members (cfg_order (er_config (et_current t)))"
    using assms by (intro wf_config_members) (auto simp: wf_table_def et_current_def wf_record_def list_all_iff)
  have "validate_era weighted_majority (er_config (et_current t)) = Some (Ok ())"
    using weighted.validate_era_Ok [OF m] weighted_intersect [OF m m close_weights_refl [of "er_config (et_current t)"]] by blast
  then show ?thesis by (simp add: lifecycle_gate_def)
qed

text \<open>C24. A crash loses nothing the record holds: at any moment of a host's run the durable halves of a
  replica whose log retains a window can be recorded, the log copied out and back is the same run, and the
  next life opens on them, fenced, at the frontiers of the last and inside the invariant.\<close>

theorem crash_record_reopens:
  assumes "host_ok True r" "sl_accepted (rp_journal r) = Some f" "sl_first (rp_journal r) \<le> f"
  shows "\<exists>disk r'. record_disk r = Some disk \<and> physical (dd_journal disk) = physical (rp_journal r)
    \<and> reincarnate new weighted_majority (dd_journal disk) (dd_persisted disk) (dd_config disk) st kn = Ok r'
    \<and> host_ok True r' \<and> physical (rp_journal r') = physical (rp_journal r)
    \<and> rp_progress r' = (rp_progress r)\<lparr>p_status := St_Restarting\<rparr>"
proof -
  let ?p = "rp_progress r"
  have ok: "check ?p = Ok ()" "wf_table (p_config ?p)" "wf_log (rp_journal r)" "1 \<le> sl_first (rp_journal r)" "p_accepted ?p = f"
    using assms(1,2) by (simp_all add: host_ok_def wf_replica_def in_step_def unwrap_or_def)
  obtain log where log: "install_suffix segmented_log_new (sl_first (rp_journal r)) (physical (rp_journal r)) = Ok log"
    "wf_log log" "physical log = physical (rp_journal r)" "sl_first log = sl_first (rp_journal r)" "sl_accepted log = Some f"
    using reinstalled_run [OF ok(3) assms(2,3) ok(4)] by blast
  let ?disk = "\<lparr>dd_journal = log, dd_persisted = persisted_of ?p, dd_config = p_config ?p\<rparr>"
  have view: "lv_last (log_view_of (rp_journal r)) = Some f"
    "fst (view_retained (log_view_of (rp_journal r))) = sl_first (rp_journal r)"
    using assms(2) by (simp_all add: log_view_of_def view_retained_def)
  have disk: "record_disk r = Some ?disk"
    using log(1) copied_run [OF ok(3) assms(2,3)] by (simp add: record_disk_def Let_def view)
  let ?q = "?p\<lparr>p_status := St_Restarting\<rparr>"
  have check: "check ?q = Ok ()"
    using ok(1) by (simp add: check_def check_frontier_chain_def check_status_relation_def check_era_discipline_def Let_def)
  then have "reconstitute (p_current ?p) (p_retained ?p) St_Restarting (p_accepted ?p) (p_committed ?p) (p_applied ?p)
      (p_checkpoint ?p) (p_revision ?p) (p_config ?p) (p_fault ?p) = Ok ?q"
    by (simp add: reconstitute_Ok)
  then have opened: "reincarnate new weighted_majority log (persisted_of ?p) (p_config ?p) st kn =
      Ok (assemble new weighted_majority log st kn ?q)"
    using log(5) ok(5) weighted_era_gate [OF ok(2)]
    by (simp add: reincarnate_def reopen_fenced_def persisted_of_def Let_def unwrap_or_def log_view_of_def)
  have "host_ok True (assemble new weighted_majority log st kn ?q)"
    by (rule reopen_ok [OF opened [unfolded reincarnate_def] ok(2) log(2)]) (simp add: log(4) ok(4))
  then show ?thesis using disk opened log(3) by (intro exI [of _ ?disk]) (simp add: assemble_def)
qed

theorem crash_record_reopens_witness:
  "\<exists>disk r'. record_disk (cluster_node 20 Volatile) = Some disk
    \<and> reincarnate 21 weighted_majority (dd_journal disk) (dd_persisted disk) (dd_config disk) Volatile sample_knobs = Ok r'
    \<and> physical (rp_journal r') = sample_entries"
proof -
  have "sl_accepted (rp_journal (cluster_node 20 Volatile)) = Some 3" "sl_first (rp_journal (cluster_node 20 Volatile)) \<le> 3"
    "physical (rp_journal (cluster_node 20 Volatile)) = sample_entries"
    by (simp_all add: sample_run_def physical_def)
  then show ?thesis
    using crash_record_reopens [OF cluster_node_ok [of 20 Volatile], of 3 21 Volatile sample_knobs] by auto
qed

end
