(* ===== verification/Host_Policy.thy ===== *)
theory Host_Policy
  imports Prelude
begin

text \<open>
  The arithmetic and the opinions a host consults (\<open>src/backoff.rs\<close>, \<open>src/timeout.rs\<close> and its
  command line \<open>src/bin/timeout-policy/main.rs\<close>): the randomized suspicion window, in milliseconds,
  and the closed matcher over protocol conditions and timeout flavours.
\<close>

section \<open>The suspicion window\<close>

definition CAP_MILLIS :: u64 where "CAP_MILLIS = 5000"

definition unit_from_rtt :: "u64 \<Rightarrow> u64" where
  "unit_from_rtt rtt_millis = saturating_mul rtt_millis 2"

definition window :: "u64 \<Rightarrow> u64 \<Rightarrow> u64 \<times> u64" where
  "window unit_millis attempt =
     (let scale = push_bit (unat (min attempt 63)) 1;
          whole = min (saturating_mul unit_millis scale) CAP_MILLIS
      in (whole div 2, whole div 2))"


section \<open>Timeout flavours\<close>

datatype state_kind = S_InTheCluster | S_Witness | S_Unknown | S_Booted | S_Crashed | S_Steady | S_Stopping | S_StoppingNotFlushed

datatype timeout_kind = T_Cluster | T_Witness | T_Unknown | T_Booted | T_Crashed | T_Steady | T_Stopping | T_StoppingNotFlushed

datatype opinion = Retransmit | DoNothing | Heartbeat | StartViewChange | Sorry_With string

definition all_states :: "state_kind list" where
  "all_states = [S_InTheCluster, S_Witness, S_Unknown, S_Booted, S_Crashed, S_Steady, S_Stopping, S_StoppingNotFlushed]"

definition all_timeouts :: "timeout_kind list" where
  "all_timeouts = [T_Cluster, T_Witness, T_Unknown, T_Booted, T_Crashed, T_Steady, T_Stopping, T_StoppingNotFlushed]"

fun state_name :: "state_kind \<Rightarrow> string" where
  "state_name S_InTheCluster = ''in-the-cluster''"
| "state_name S_Witness = ''witness''"
| "state_name S_Unknown = ''unknown''"
| "state_name S_Booted = ''booted''"
| "state_name S_Crashed = ''crashed''"
| "state_name S_Steady = ''steady''"
| "state_name S_Stopping = ''stopping''"
| "state_name S_StoppingNotFlushed = ''stopping-not-flushed''"

fun timeout_name :: "timeout_kind \<Rightarrow> string" where
  "timeout_name T_Cluster = ''cluster''"
| "timeout_name T_Witness = ''witness''"
| "timeout_name T_Unknown = ''unknown''"
| "timeout_name T_Booted = ''booted''"
| "timeout_name T_Crashed = ''crashed''"
| "timeout_name T_Steady = ''steady''"
| "timeout_name T_Stopping = ''stopping''"
| "timeout_name T_StoppingNotFlushed = ''stopping-not-flushed''"

fun opinion_name :: "opinion \<Rightarrow> string" where
  "opinion_name Retransmit = ''retransmit''"
| "opinion_name DoNothing = ''do-nothing''"
| "opinion_name Heartbeat = ''heartbeat''"
| "opinion_name StartViewChange = ''start-view-change''"
| "opinion_name (Sorry_With _) = ''sorry''"

definition UNFLUSHED_RUNBOOK :: string where
  "UNFLUSHED_RUNBOOK = ''a node stopping but not flushed presents a stall the operator may resolve by freeing disk space and retrying the flush, or by a hard kill, and which of those is wanted is a policy we do not comprehend and will never decide''"

fun matcher :: "state_kind \<Rightarrow> timeout_kind \<Rightarrow> opinion" where
  "matcher S_StoppingNotFlushed _ = Sorry_With UNFLUSHED_RUNBOOK"
| "matcher S_Witness _ = DoNothing"
| "matcher S_Unknown _ = DoNothing"
| "matcher S_Booted _ = DoNothing"
| "matcher S_Crashed _ = DoNothing"
| "matcher S_Stopping _ = DoNothing"
| "matcher S_InTheCluster T_Cluster = Retransmit"
| "matcher S_Steady T_Cluster = Retransmit"
| "matcher S_InTheCluster T_Steady = Heartbeat"
| "matcher S_Steady T_Steady = StartViewChange"
| "matcher S_InTheCluster T_Witness = DoNothing"
| "matcher S_InTheCluster T_Unknown = DoNothing"
| "matcher S_InTheCluster T_Booted = DoNothing"
| "matcher S_InTheCluster T_Crashed = DoNothing"
| "matcher S_InTheCluster T_Stopping = DoNothing"
| "matcher S_InTheCluster T_StoppingNotFlushed = DoNothing"
| "matcher S_Steady T_Witness = DoNothing"
| "matcher S_Steady T_Unknown = DoNothing"
| "matcher S_Steady T_Booted = DoNothing"
| "matcher S_Steady T_Crashed = DoNothing"
| "matcher S_Steady T_Stopping = DoNothing"
| "matcher S_Steady T_StoppingNotFlushed = DoNothing"

text \<open>The command line: what is printed, or the usage and a failing exit.\<close>

definition policy_main :: "string list \<Rightarrow> string list option" where
  "policy_main args =
     (case args of
        [s, t] \<Rightarrow>
          (case List.find (\<lambda>x. state_name x = s) all_states of
             None \<Rightarrow> None
           | Some st \<Rightarrow>
               (case List.find (\<lambda>x. timeout_name x = t) all_timeouts of
                  None \<Rightarrow> None
                | Some tm \<Rightarrow>
                    (case matcher st tm of
                       Sorry_With runbook \<Rightarrow> Some [''sorry'', runbook]
                     | op \<Rightarrow> Some [opinion_name op])))
      | _ \<Rightarrow> None)"


section \<open>Properties\<close>

text \<open>C26. The window is the documented schedule exactly: half of the unit doubled once per attempt, never
  more than half the cap, and no step of it wraps.\<close>

theorem window_schedule:
  "fst (window unit_millis attempt) = snd (window unit_millis attempt)
   \<and> unat (fst (window unit_millis attempt)) = min (unat unit_millis * 2 ^ unat attempt) 5000 div 2"
proof -
  let ?a = "unat (min attempt 63)"
  have a: "?a = min (unat attempt) 63" by (simp add: min_def word_le_nat_alt)
  have "push_bit ?a (1 :: u64) = 2 ^ ?a" by (simp add: push_bit_eq_mult)
  moreover have "(2 :: u64) ^ ?a = of_nat (2 ^ ?a)" by simp
  moreover have "(2 :: nat) ^ ?a < 2 ^ 64" using a by (intro power_strict_increasing) simp_all
  moreover have "?a < 64" using a by simp
  ultimately have scale: "unat (push_bit ?a (1 :: u64)) = 2 ^ ?a" by (simp add: unsigned_of_nat take_bit_nat_eq_self del: of_nat_power)
  have whole: "unat (min (saturating_mul unit_millis (push_bit ?a 1)) CAP_MILLIS) = min (unat unit_millis * 2 ^ unat attempt) 5000"
  proof (cases "unat attempt \<le> 63")
    case True
    then show ?thesis using a scale
      by (simp add: min_def word_le_nat_alt unat_saturating_mul CAP_MILLIS_def)
  next
    case False
    then have big: "(5000 :: nat) \<le> 2 ^ 63" "(2 :: nat) ^ 63 \<le> 2 ^ unat attempt"
      by (simp, intro power_increasing) simp_all
    show ?thesis
    proof (cases "unat unit_millis = 0")
      case True
      then show ?thesis by (simp add: min_def word_le_nat_alt unat_saturating_mul CAP_MILLIS_def)
    next
      case pos: False
      then have "1 * 2 ^ 63 \<le> unat unit_millis * 2 ^ 63" "1 * 2 ^ unat attempt \<le> unat unit_millis * 2 ^ unat attempt"
        by (intro mult_right_mono; simp)+
      then have "5000 \<le> unat unit_millis * 2 ^ 63" "5000 \<le> unat unit_millis * 2 ^ unat attempt" using big by linarith+
      then show ?thesis using a scale False
        by (simp add: min_def word_le_nat_alt unat_saturating_mul CAP_MILLIS_def)
    qed
  qed
  then show ?thesis by (simp add: window_def Let_def unat_div)
qed

end
