(* ===== verification/Solve.thy ===== *)
theory Solve
  imports Config_Props
begin

text \<open>
  The reconfiguration solver (\<open>src/solve.rs\<close>): the search for a legal path of operations between two
  configurations, and the fold that places a path into slots with the nominations that hold the leader.
  The search recurses once per membership shape it enters; its depth is an explicit bound here.
\<close>

section \<open>The search\<close>

type_synonym shape = "(node_id \<times> u32) list"

definition shape_of :: "configuration \<Rightarrow> shape" where
  "shape_of c = map (\<lambda>m. (m_node m, m_weight m)) (cfg_order c)"

definition weight_at :: "configuration \<Rightarrow> node_id \<Rightarrow> u32" where
  "weight_at c n = (case weight_of c n of None \<Rightarrow> 0 | Some w \<Rightarrow> w)"

text \<open>The movers towards one member of the target.\<close>

definition towards :: "configuration \<Rightarrow> configuration \<Rightarrow> member \<Rightarrow> sysop list" where
  "towards current target m =
     (if \<exists>x \<in> set (cfg_order current). m_node x = m_node m then []
      else case position (\<lambda>x. m_node x = m_node m) (cfg_order target) of
             None \<Rightarrow> [] | Some i \<Rightarrow> [Join (m_node m) (of_nat i)])
     @ (if weight_at current (m_node m) < m_weight m then [Increment (m_node m)]
        else if weight_at current (m_node m) > m_weight m then [Decrement (m_node m)]
        else [])"

definition away :: "configuration \<Rightarrow> configuration \<Rightarrow> member \<Rightarrow> sysop list" where
  "away current target m =
     (if weight_at target (m_node m) = 0 \<and> cfg_len current > 2
      then [if m_weight m = 0 then Leave (m_node m) else Decrement (m_node m)]
      else [])"

definition candidates :: "configuration \<Rightarrow> configuration \<Rightarrow> sysop list" where
  "candidates current target =
     concat (map (towards current target) (cfg_order target))
     @ concat (map (away current target) (cfg_order current))
     @ (if list_all (\<lambda>m. m_weight m < MAX_WEIGHT) (cfg_order current) then [Double] else [])
     @ (if list_all (\<lambda>m. m_weight m mod 2 = 0) (cfg_order current) then [Halve] else [])"

text \<open>\<open>go\<close> answers whether the target's shape is reached, with the path from here and the shapes
  visited; \<open>None\<close> is a depth too small.\<close>

fun go :: "nat \<Rightarrow> configuration \<Rightarrow> configuration \<Rightarrow> shape list \<Rightarrow> (sysop list option \<times> shape list) option"
and try_ops :: "nat \<Rightarrow> configuration \<Rightarrow> configuration \<Rightarrow> sysop list \<Rightarrow> shape list
      \<Rightarrow> (sysop list option \<times> shape list) option" where
  "go 0 current target visited = None"
| "go (Suc depth) current target visited =
     (if shape_of current = shape_of target then Some (Some [], visited)
      else if shape_of current \<in> set visited then Some (None, visited)
      else try_ops depth current target (candidates current target) (shape_of current # visited))"
| "try_ops depth current target [] visited = Some (None, visited)"
| "try_ops depth current target (op # ops) visited =
     (case apply_sysop current op 0 of
        Inl _ \<Rightarrow> try_ops depth current target ops visited
      | Inr next_config \<Rightarrow>
          (case go depth next_config target visited of
             None \<Rightarrow> None
           | Some (Some path, visited) \<Rightarrow> Some (Some (op # path), visited)
           | Some (None, visited) \<Rightarrow> try_ops depth current target ops visited))"

definition solve :: "nat \<Rightarrow> configuration \<Rightarrow> configuration \<Rightarrow> sysop list option option" where
  "solve depth current target = map_option fst (go depth current target [])"


section \<open>The fold into slots\<close>

record solve_step =
  so_slot :: slot
  so_era :: era
  so_view :: view
  so_ops :: "sysop list"

definition step_payload :: "solve_step \<Rightarrow> sysop" where
  "step_payload s = (case so_ops s of [op] \<Rightarrow> op | ops \<Rightarrow> Batch ops)"

text \<open>The least offset that keeps the leader; \<open>Inl\<close> is the overflow of a view.\<close>

fun least_offset :: "configuration \<Rightarrow> view \<Rightarrow> node_id \<Rightarrow> u32 list \<Rightarrow> unit + (u32 \<times> view) option" where
  "least_offset after_config v leader [] = Ok None"
| "least_offset after_config v leader (offset # offsets) =
     rbind (ok_or (checked_add v offset) ()) (\<lambda>v'.
       if primary after_config v' = Some leader then Ok (Some (offset, v'))
       else least_offset after_config v leader offsets)"

definition offsets_upto :: "u32 \<Rightarrow> u32 list" where
  "offsets_upto n = map of_nat [1..<Suc (unat n)]"

definition rider_for :: "configuration \<Rightarrow> configuration \<Rightarrow> view \<Rightarrow> sysop \<Rightarrow> unit + (u32 \<times> view) option" where
  "rider_for base after_config v op =
     (if op = Double \<or> op = Halve then Ok None
      else case primary base v of
             None \<Rightarrow> Ok None
           | Some leader \<Rightarrow> least_offset after_config v leader (offsets_upto (2 * cfg_len base + 2)))"

fun fold_slots_path ::
    "configuration \<Rightarrow> era \<times> view \<times> slot \<Rightarrow> sysop list \<Rightarrow> unit + solve_step list option" where
  "fold_slots_path base start [] = Ok (Some [])"
| "fold_slots_path base (e, v, s) (op # path) =
     (case (era_next e, slot_next s) of
        (Some e, Some s) \<Rightarrow>
          (case apply_sysop base op s of
             Inl _ \<Rightarrow> Ok None
           | Inr after_config \<Rightarrow>
               rbind (rider_for base after_config v op) (\<lambda>rider.
                 let (ops, v') = (case rider of
                       None \<Rightarrow> ([op], v) | Some (offset, v') \<Rightarrow> ([op, Nominate v offset], v'))
                 in rbind (fold_slots_path after_config (e, v', s) path) (\<lambda>steps.
                      Ok (map_option (Cons \<lparr>so_slot = s, so_era = e, so_view = v', so_ops = ops\<rparr>) steps))))
      | _ \<Rightarrow> Ok None)"

definition solve_fold where
  "solve_fold path current start = fold_slots_path current start path"


section \<open>The administrator's handle\<close>

text \<open>The shaping of a configuration file's members (\<open>src/bin/uvrr-solve/main.rs\<close>): from the initial
  configuration, each member is moved one unit at a time to the weight its line names. A weight the
  rules never reach is refused when a move is.\<close>

datatype shaping_error = InitRefused config_error | ShapingRefused config_error | ShapingPanic

fun shape_member :: "nat \<Rightarrow> configuration \<Rightarrow> node_id \<Rightarrow> u32 \<Rightarrow> (shaping_error + configuration) option" where
  "shape_member n config node weight =
     (case weight_of config node of
        None \<Rightarrow> Some (Err ShapingPanic)
      | Some have_weight \<Rightarrow>
          if have_weight = weight then Some (Ok config)
          else (case n of
                  0 \<Rightarrow> None
                | Suc n \<Rightarrow>
                    (case apply_sysop config (if have_weight < weight then Increment node else Decrement node) 0 of
                       Inl e \<Rightarrow> Some (Err (ShapingRefused e))
                     | Inr config \<Rightarrow> shape_member n config node weight)))"

fun shape_members :: "nat \<Rightarrow> configuration \<Rightarrow> (node_id \<times> u32) list \<Rightarrow> (shaping_error + configuration) option" where
  "shape_members n config [] = Some (Ok config)"
| "shape_members n config ((node, weight) # rest) =
     (case shape_member n config node weight of
        None \<Rightarrow> None
      | Some (Inl e) \<Rightarrow> Some (Err e)
      | Some (Inr config) \<Rightarrow> shape_members n config rest)"

definition shaped :: "nat \<Rightarrow> (node_id \<times> u32) list \<Rightarrow> (shaping_error + configuration) option" where
  "shaped n members =
     (case apply_sysop void_config (Init (map fst members)) INIT_SLOT of
        Inl e \<Rightarrow> Some (Err (InitRefused e))
      | Inr config \<Rightarrow> shape_members n config members)"

end
