(* ===== verification/Solve_Theorems.thy ===== *)
theory Solve_Theorems
  imports Solve Config_Theorems
begin

text \<open>
  The solver: a path it answers is legal and ends in the target's shape, its search ends on every pair
  of configurations, and its refusal is not the proof of unreachability it is documented to be.
\<close>

section \<open>The answered path\<close>

definition walk :: "configuration \<Rightarrow> sysop list \<Rightarrow> config_error + configuration" where
  "walk c ops = rfold (\<lambda>c op. apply_sysop c op 0) c ops"

lemma go_sound:
  "go depth current target visited = Some (Some path, visited') \<Longrightarrow>
     \<exists>d. walk current path = Ok d \<and> shape_of d = shape_of target"
  "try_ops depth current target ops visited = Some (Some path, visited') \<Longrightarrow>
     \<exists>d. walk current path = Ok d \<and> shape_of d = shape_of target"
proof (induction depth current target visited and depth current target ops visited
    arbitrary: path visited' and path visited' rule: go_try_ops.induct)
  case (4 depth current target op ops visited)
  then show ?case by (auto simp: walk_def split: sum.splits option.splits)
qed (auto simp: walk_def split: if_splits)


section \<open>The space of shapes\<close>

text \<open>The shapes over the members of both configurations, with weights within the cap.\<close>

definition space :: "configuration \<Rightarrow> configuration \<Rightarrow> shape set" where
  "space c t = {s. distinct (map fst s) \<and> set s \<subseteq> (set (nodes c) \<union> set (nodes t)) \<times> {w. w \<le> MAX_WEIGHT}}"

lemma finite_space: "finite (space c t)"
proof -
  let ?A = "(set (nodes c) \<union> set (nodes t)) \<times> {w :: u32. w \<le> MAX_WEIGHT}"
  have A: "finite ?A" by simp
  have "length s \<le> card ?A" if "s \<in> space c t" for s
    using that distinct_card [of s] card_mono [OF A, of "set s"] by (auto simp: space_def distinct_map)
  then have "space c t \<subseteq> {s. set s \<subseteq> ?A \<and> length s \<le> card ?A}" by (auto simp: space_def)
  then show ?thesis by (rule finite_subset) (rule finite_lists_length_le [OF A])
qed

definition within :: "configuration \<Rightarrow> configuration \<Rightarrow> configuration \<Rightarrow> bool" where
  "within c t d \<longleftrightarrow> live d \<and> set (nodes d) \<subseteq> set (nodes c) \<union> set (nodes t)"

lemma within_space: "within c t d \<Longrightarrow> shape_of d \<in> space c t"
  by (auto simp: within_def live_def wf_members_def space_def shape_of_def nodes_def o_def image_subset_iff)

lemma candidate_kind:
  assumes "op \<in> set (candidates d t)"
  shows "\<not> is_genesis op \<and> \<not> is_batch op \<and> \<not> is_nominate op \<and> (\<forall>n i. op = Join n i \<longrightarrow> n \<in> set (nodes t))"
  using assms
  by (auto simp: candidates_def towards_def away_def sysop_kind_defs nodes_def split: if_splits option.splits)

lemma in_era_nodes:
  assumes "apply_in_era d op = Ok d'"
  shows "set (nodes d') \<subseteq> set (nodes d) \<union> {n. \<exists>i. op = Join n i}"
proof (cases op)
  case (Increment n)
  then have "nodes d' = nodes d" using assms by (auto simp: nodes_def split: option.splits if_splits)
  then show ?thesis by simp
next
  case (Decrement n)
  then have "nodes d' = nodes d" using assms by (auto simp: nodes_def Let_def split: option.splits if_splits)
  then show ?thesis by simp
next
  case Double
  then show ?thesis using assms by (auto simp: nodes_def rcollect_map_double)
next
  case Halve
  then show ?thesis using assms by (auto simp: nodes_def rcollect_map_halve)
next
  case (Join n i)
  then show ?thesis using assms by (auto simp: nodes_def insert_at_def image_iff split: if_splits dest!: in_set_takeD in_set_dropD)
next
  case (Leave n)
  then show ?thesis using assms
    by (auto simp: nodes_def remove_at_def image_iff split: option.splits if_splits dest!: in_set_takeD in_set_dropD)
qed (use assms in \<open>auto split: if_splits\<close>)

lemma within_step:
  assumes "within c t d" "op \<in> set (candidates d t)" "apply_sysop d op s = Ok d'"
  shows "within c t d'"
  using assms(3)
proof (cases rule: apply_sysop_cases)
  case (single d1 e)
  have "live d" "set (nodes d) \<subseteq> set (nodes c) \<union> set (nodes t)" using assms(1) by (simp_all add: within_def)
  moreover have "set (nodes d') \<subseteq> set (nodes d) \<union> set (nodes t)"
    using in_era_nodes [OF single(6)] candidate_kind [OF assms(2)] single(7) by (auto simp: nodes_def)
  ultimately show ?thesis using apply_in_era_live [OF single(6)] single(7) by (auto simp: within_def)
qed (use candidate_kind [OF assms(2)] in \<open>auto simp: sysop_kind_defs\<close>)

section \<open>The search ends\<close>

text \<open>A depth past the number of shapes not yet visited is enough.\<close>

lemma go_ends:
  "within c t current \<Longrightarrow> card (space c t - set visited) < depth \<Longrightarrow>
     \<exists>res visited'. go depth current t visited = Some (res, visited') \<and> set visited \<subseteq> set visited'"
  "within c t current \<Longrightarrow> set ops \<subseteq> set (candidates current t) \<Longrightarrow> card (space c t - set visited) < depth \<Longrightarrow>
     \<exists>res visited'. try_ops depth current t ops visited = Some (res, visited') \<and> set visited \<subseteq> set visited'"
proof (induction depth current t visited and depth current t ops visited rule: go_try_ops.induct)
  case (2 depth current t visited)
  show ?case
  proof (cases "shape_of current = shape_of t \<or> shape_of current \<in> set visited")
    case False
    have "shape_of current \<in> space c t - set visited" using within_space [OF 2(2)] False by simp
    then have "card (space c t - set (shape_of current # visited)) < card (space c t - set visited)"
      using finite_space by (intro psubset_card_mono) auto
    then have "card (space c t - set (shape_of current # visited)) < depth" using 2(3) by simp
    then show ?thesis using 2(1) [OF _ _ 2(2) subset_refl] False by auto
  qed auto
next
  case (4 depth current t op ops visited)
  show ?case
  proof (cases "apply_sysop current op 0")
    case (Inl e)
    then show ?thesis using 4(1) [OF Inl 4(4)] 4(5,6) by auto
  next
    case (Inr d)
    have "within c t d" using within_step [OF 4(4) _ Inr] 4(5) by simp
    from 4(2) [OF Inr this 4(6)] obtain res v' where g: "go depth d t visited = Some (res, v')" "set visited \<subseteq> set v'" by blast
    show ?thesis
    proof (cases res)
      case (Some path)
      then show ?thesis using Inr g by auto
    next
      case None
      have "card (space c t - set v') \<le> card (space c t - set visited)"
        using finite_space g(2) by (intro card_mono) auto
      then have "card (space c t - set v') < depth" using 4(6) by simp
      from 4(3) [OF Inr _ _ _ 4(4) _ this] g None 4(5) show ?thesis using Inr by fastforce
    qed
  qed
qed auto


section \<open>Properties\<close>

text \<open>C25. A path the solver answers is legal and arrives: folding its operations one by one over the
  current configuration accepts every one of them, and ends in the target's members, weights and order.\<close>

theorem solve_path_legal:
  assumes "solve depth current target = Some (Some path)"
  shows "\<exists>d. walk current path = Ok d \<and> shape_of d = shape_of target"
proof -
  obtain visited where "go depth current target [] = Some (Some path, visited)"
    using assms by (auto simp: solve_def)
  then show ?thesis by (rule go_sound(1))
qed

definition ordered :: "node_id list \<Rightarrow> configuration" where
  "ordered ns = \<lparr>cfg_era = 1, cfg_order = map (\<lambda>n. \<lparr>m_node = n, m_weight = 1\<rparr>) ns\<rparr>"

definition heavier :: configuration where
  "heavier = \<lparr>cfg_era = 1, cfg_order = [\<lparr>m_node = 10, m_weight = 2\<rparr>, \<lparr>m_node = 20, m_weight = 1\<rparr>]\<rparr>"

theorem solve_path_legal_witness:
  "\<exists>d. walk (ordered [10, 20]) [Increment 10] = Ok d \<and> shape_of d = shape_of heavier"
proof (rule solve_path_legal)
  have "candidates (ordered [10, 20]) heavier = [Increment 10, Double]"
    by (simp add: candidates_def towards_def away_def weight_at_def weight_of_def ordered_def heavier_def MAX_WEIGHT_def)
  moreover have "\<exists>e. apply_sysop (ordered [10, 20]) (Increment 10) 0 = Ok (heavier\<lparr>cfg_era := e\<rparr>)"
    by (simp add: ordered_def heavier_def apply_single sysop_kind_defs successor_era_def era_next_def checked_add_def
        ok_or_def set_weight_def MAX_WEIGHT_def) (simp add: word_le_nat_alt)
  moreover have "shape_of (ordered [10, 20]) \<noteq> shape_of heavier" "\<And>e. shape_of (heavier\<lparr>cfg_era := e\<rparr>) = shape_of heavier"
    by (simp_all add: shape_of_def ordered_def heavier_def)
  ultimately show "solve 2 (ordered [10, 20]) heavier = Some (Some [Increment 10])"
    by (auto simp: solve_def numeral_2_eq_2)
qed

text \<open>The search ends: on every live configuration there is a depth past which the solver answers,
  whatever the target.\<close>

theorem solve_ends:
  assumes "live current"
  shows "\<exists>bound. \<forall>n. solve (bound + n) current target \<noteq> None"
proof (intro exI allI)
  fix n
  let ?depth = "Suc (card (space current target)) + n"
  have "card (space current target - set []) < ?depth" by simp
  moreover have "within current target current" using assms by (simp add: within_def)
  ultimately show "solve ?depth current target \<noteq> None"
    using go_ends(1) [of current target current "[]" ?depth] by (auto simp: solve_def)
qed

lemma ordered_live: "live (ordered [10, 20, 30])"
  by (simp add: live_def wf_members_def ordered_def MAX_MEMBERS_def MAX_WEIGHT_def total_def)

theorem solve_ends_witness:
  "\<exists>bound. \<forall>n. solve (bound + n) (ordered [10, 20, 30]) (ordered [20, 10, 30]) \<noteq> None"
  by (rule solve_ends [OF ordered_live])

text \<open>Between configurations of the same voters the search never takes a member out, so it never changes
  their order.\<close>

definition same_voters :: "configuration \<Rightarrow> configuration \<Rightarrow> bool" where
  "same_voters t d \<longleftrightarrow> wf_members (cfg_order t) \<and> wf_members (cfg_order d) \<and> set (nodes d) = set (nodes t)
     \<and> (\<forall>m \<in> set (cfg_order d) \<union> set (cfg_order t). 0 < m_weight m)"

lemma weight_at_member: "wf_members (cfg_order d) \<Longrightarrow> m \<in> set (cfg_order d) \<Longrightarrow> weight_at d (m_node m) = m_weight m"
  by (simp add: weight_at_def weight_of_member)

lemma same_voters_candidates:
  assumes "same_voters t d" "op \<in> set (candidates d t)"
  shows "op \<in> {Double, Halve} \<or> (\<exists>n. op = Increment n) \<or> (\<exists>n. op = Decrement n \<and> 1 < weight_at d n)"
proof -
  note sv = assms(1) [unfolded same_voters_def]
  have towards: "op \<in> {Double, Halve} \<or> (\<exists>n. op = Increment n) \<or> (\<exists>n. op = Decrement n \<and> 1 < weight_at d n)"
    if m: "m \<in> set (cfg_order t)" "op \<in> set (towards d t m)" for m
  proof -
    have "m_node m \<in> set (nodes d)" using sv m(1) by (auto simp: nodes_def)
    then have "\<exists>x \<in> set (cfg_order d). m_node x = m_node m" by (auto simp: nodes_def)
    moreover have "0 < m_weight m" using sv m(1) by blast
    then have "1 < weight_at d (m_node m)" if "m_weight m < weight_at d (m_node m)"
      using that by (auto simp: word_less_nat_alt)
    ultimately show ?thesis using m(2) by (auto simp: towards_def split: if_splits)
  qed
  have away: "away d t m = []" if "m \<in> set (cfg_order d)" for m
  proof -
    have "m_node m \<in> set (nodes t)" using sv that by (auto simp: nodes_def)
    then obtain x where x: "x \<in> set (cfg_order t)" "m_node x = m_node m" by (auto simp: nodes_def)
    then have "0 < weight_at t (m_node m)" using weight_at_member [of t x] sv by auto
    then show ?thesis by (auto simp: away_def)
  qed
  show ?thesis using assms(2) towards away by (auto simp: candidates_def split: if_splits)
qed

lemma same_voters_step:
  assumes "same_voters t d" "op \<in> set (candidates d t)" "apply_sysop d op s = Ok d'"
  shows "same_voters t d'" "nodes d' = nodes d"
proof -
  note sv = assms(1) [unfolded same_voters_def]
  note kind = same_voters_candidates [OF assms(1,2)]
  then have plain: "\<not> is_genesis op" "\<not> is_batch op" "\<not> is_nominate op" by (auto simp: sysop_kind_defs)
  obtain d1 e where d1: "apply_in_era d op = Ok d1" "d' = d1\<lparr>cfg_era := e\<rparr>" "cfg_order d \<noteq> []"
    using assms(3) plain by (elim apply_sysop_cases) (auto simp: sysop_kind_defs)
  then obtain m where "m \<in> set (cfg_order d)" by (meson last_in_set)
  then have "mass (cfg_order d) \<noteq> 0" using sv unfolding mass_eq_0_iff by (metis UnI1 less_irrefl)
  then have "live d" using sv by (simp add: live_def total_mass Suc_le_eq)
  have wf: "wf_members (cfg_order d')" using apply_in_era_live [OF d1(1) \<open>live d\<close>] d1(2) by (simp add: live_def)
  have set_pos: "0 < m_weight m" if "m \<in> set (set_weight (cfg_order d) i w)" "0 < w" for m i w
    using that sv set_update_subset_insert [of "cfg_order d" i "(cfg_order d ! i)\<lparr>m_weight := w\<rparr>"] by (auto simp: set_weight_def)
  have "nodes d1 = nodes d \<and> (\<forall>m \<in> set (cfg_order d1). 0 < m_weight m)"
  proof -
    consider "op = Double" | "op = Halve" | n where "op = Increment n" | n where "op = Decrement n" "1 < weight_at d n"
      using kind by blast
    then show ?thesis
    proof cases
      case 1
      have "0 < 2 * w" if "unat w \<le> Suc 0" "0 < w" for w :: u32
        using that unat_small_cases [of w] by auto
      then show ?thesis using 1 d1(1) sv by (auto simp: rcollect_map_double nodes_def)
    next
      case 2
      have "0 < w div 2" if "even w" "0 < w" for w :: u32
        using that by (auto simp: word_less_nat_alt unat_div_distrib even_iff_mod_2_eq_zero word_eq_nat unat_mod)
      then show ?thesis using 2 d1(1) sv by (auto simp: rcollect_map_halve nodes_def)
    next
      case (3 n)
      have "0 < w + 1" if "w < MAX_WEIGHT" for w
        using that by (auto simp: word_less_nat_alt MAX_WEIGHT_def unat_word_ariths)
      then show ?thesis using 3 d1(1) set_pos by (auto simp: nodes_def not_le split: option.splits if_splits)
    next
      case (4 n)
      then obtain i where i: "position (\<lambda>m. m_node m = n) (cfg_order d) = Some i"
        "cfg_order d1 = set_weight (cfg_order d) i (m_weight (cfg_order d ! i) - 1)"
        using d1(1) by (auto simp: Let_def split: option.splits if_splits)
      have "weight_at d n = m_weight (cfg_order d ! i)"
        using weight_at_member [of d "cfg_order d ! i"] position_node_Some [OF i(1)] sv by simp
      then have "0 < m_weight (cfg_order d ! i) - 1"
        using 4(2) by (auto simp: word_less_nat_alt unat_sub_if')
      then show ?thesis using set_pos i(2) by (auto simp: nodes_def)
    qed
  qed
  then show "same_voters t d'" "nodes d' = nodes d"
    using sv wf d1(2) unfolding same_voters_def by (auto simp: nodes_def simp del: set_map)
qed

lemma nodes_shape: "nodes c = map fst (shape_of c)"
  by (simp add: nodes_def shape_of_def)

lemma go_keeps_order:
  "same_voters t current \<Longrightarrow> nodes current \<noteq> nodes t \<Longrightarrow> go depth current t visited \<noteq> Some (Some path, visited')"
  "same_voters t current \<Longrightarrow> nodes current \<noteq> nodes t \<Longrightarrow> set ops \<subseteq> set (candidates current t) \<Longrightarrow>
     try_ops depth current t ops visited \<noteq> Some (Some path, visited')"
proof (induction depth current t visited and depth current t ops visited
    arbitrary: path visited' and path visited' rule: go_try_ops.induct)
  case (2 depth current t visited)
  have "shape_of current \<noteq> shape_of t"
    using 2(3) nodes_shape by metis
  then show ?case using 2 by auto
next
  case (4 depth current t op ops visited)
  show ?case
  proof (cases "apply_sysop current op 0")
    case (Inl e)
    then show ?thesis using 4 by auto
  next
    case (Inr d)
    have "same_voters t d" "nodes d \<noteq> nodes t" using same_voters_step [OF 4(4) _ Inr] 4(5,6) by simp_all
    then show ?thesis using 4 Inr by (auto split: option.splits)
  qed
qed auto

text \<open>No path is not a proof of unreachability: whatever its depth, the solver finds no path that
  moves a voter one place down the succession order, which four legal operations do.\<close>

theorem solve_none_is_no_proof:
  "(\<exists>bound. \<forall>n. solve (bound + n) (ordered [10, 20, 30]) (ordered [20, 10, 30]) = Some None)
   \<and> (\<exists>d. walk (ordered [10, 20, 30]) [Decrement 10, Leave 10, Join 10 1, Increment 10] = Ok d
        \<and> shape_of d = shape_of (ordered [20, 10, 30]))"
proof
  let ?c = "ordered [10, 20, 30]" and ?t = "ordered [20, 10, 30]"
  show "\<exists>d. walk ?c [Decrement 10, Leave 10, Join 10 1, Increment 10] = Ok d \<and> shape_of d = shape_of ?t"
    by (simp add: walk_def ordered_def apply_single sysop_kind_defs successor_era_def era_next_def checked_add_def
        ok_or_def total_def set_weight_def remove_at_def insert_at_def MAX_WEIGHT_def MAX_MEMBERS_def cfg_len_def shape_of_def)
  have sv: "same_voters ?t ?c" "nodes ?c \<noteq> nodes ?t"
    by (auto simp: same_voters_def ordered_def wf_members_def MAX_MEMBERS_def MAX_WEIGHT_def nodes_def)
  have "solve depth ?c ?t = Some None" if "card (space ?c ?t - set []) < depth" for depth
  proof -
    have "within ?c ?t ?c" using ordered_live by (simp add: within_def)
    from go_ends(1) [OF this that] obtain res visited where g: "go depth ?c ?t [] = Some (res, visited)" by blast
    then have "res = None" using go_keeps_order(1) [OF sv, of depth "[]"] by (cases res) auto
    then show ?thesis using g by (simp add: solve_def)
  qed
  then show "\<exists>bound. \<forall>n. solve (bound + n) ?c ?t = Some None"
    by (intro exI [of _ "Suc (card (space ?c ?t))"]) simp
qed



section \<open>The rider\<close>

lemma least_offset_found:
  assumes "off \<in> set offs" "\<forall>x \<in> set offs. unat v + unat x < 2 ^ 32" "primary c (v + off) = Some leader"
  shows "\<exists>k v'. least_offset c v leader offs = Ok (Some (k, v')) \<and> k \<in> set offs \<and> unat v' = unat v + unat k
    \<and> primary c v' = Some leader"
  using assms
proof (induction offs)
  case (Cons x offs)
  have add: "checked_add v x = Some (v + x)" "unat (v + x) = unat v + unat x"
    using Cons.prems(2) by (simp_all add: checked_add_def unat_add_no_overflow)
  show ?case
  proof (cases "primary c (v + x) = Some leader")
    case True
    then show ?thesis using add by simp
  next
    case False
    then show ?thesis using Cons add by auto
  qed
qed simp

lemma unat_offset: "off \<in> set (offsets_upto n) \<longleftrightarrow> 1 \<le> unat off \<and> unat off \<le> unat n"
proof
  assume "1 \<le> unat off \<and> unat off \<le> unat n"
  then have "unat off \<in> {1..<Suc (unat n)}" by simp
  then have "of_nat (unat off) \<in> (of_nat ` {1..<Suc (unat n)} :: u32 set)" by (rule imageI)
  then show "off \<in> set (offsets_upto n)" unfolding offsets_upto_def set_map set_upt by simp
next
  assume "off \<in> set (offsets_upto n)"
  then obtain k where "off = of_nat k" "1 \<le> k" "k \<le> unat n" by (auto simp: offsets_upto_def)
  moreover from this have "unat (of_nat k :: u32) = k"
    using unsigned_less [of n, where ?'a = nat] by (simp add: unsigned_of_nat take_bit_nat_eq_self)
  ultimately show "1 \<le> unat off \<and> unat off \<le> unat n" by simp
qed

lemma in_era_length: "apply_in_era c op = Ok d \<Longrightarrow> length (cfg_order d) \<le> length (cfg_order c) + 1"
  by (cases op)
     (auto simp: rcollect_map_double rcollect_map_halve set_weight_def insert_at_def remove_at_def Let_def
       split: option.splits if_splits)

text \<open>The rider holds the leader: after a step that moves weight or membership and leaves the leader a
  vote, the fold always finds an offset within its bound, and the view it moves to has the same primary.\<close>

theorem rider_holds_leader:
  assumes "live base" "apply_sysop base op s = Ok after_config"
    and "\<not> is_genesis op" "\<not> is_batch op" "\<not> is_nominate op" "\<not> is_scaling op"
    and "primary base v = Some leader" "leader \<in> m_node ` set (voters after_config)"
    and "unat v + (2 * length (cfg_order base) + 2) < 2 ^ 32"
  shows "\<exists>off v'. rider_for base after_config v op = Ok (Some (off, v')) \<and> unat v' = unat v + unat off
    \<and> 1 \<le> unat off \<and> unat off \<le> 2 * length (cfg_order base) + 2 \<and> primary after_config v' = Some leader"
proof -
  obtain d e where d: "apply_in_era base op = Ok d" "after_config = d\<lparr>cfg_era := e\<rparr>"
    using assms(2-5) by (elim apply_sysop_cases) (auto simp: sysop_kind_defs)
  have live: "live after_config" using apply_in_era_live [OF d(1) assms(1)] d(2) by simp
  let ?n = "length (voters after_config)" and ?top = "2 * length (cfg_order base) + 2"
  have "?n \<le> length (cfg_order after_config)" by (simp add: voters_def)
  then have n: "?n \<le> ?top" using in_era_length [OF d(1)] d(2) by simp
  obtain i where i: "i < ?n" "leader = m_node (voters after_config ! i)"
    using assms(8) by (auto simp: in_set_conv_nth)
  define k where "k = (if unat v mod ?n < i then i - unat v mod ?n else ?n - (unat v mod ?n - i))"
  have m: "unat v mod ?n < ?n" using i(1) mod_less_divisor [of ?n "unat v"] by linarith
  have k: "1 \<le> k" "k \<le> ?n" using i(1) m by (auto simp: k_def)
  have hit: "(unat v + k) mod ?n = i"
  proof -
    have "(unat v + k) mod ?n = (unat v mod ?n + k) mod ?n" by (simp add: mod_add_left_eq)
    also have "unat v mod ?n + k = (if unat v mod ?n < i then i else ?n + i)" using m i(1) by (auto simp: k_def)
    finally show ?thesis using i(1) by simp
  qed
  have len: "length (cfg_order base) \<le> 16" using assms(1) by (simp add: live_def wf_members_def MAX_MEMBERS_def)
  have "unat (cfg_len base) = length (cfg_order base)" using assms(1) unat_cfg_len by (simp add: live_def)
  then have top: "unat (2 * cfg_len base + 2) = ?top" using len by (simp add: unat_word_ariths)
  have ok: "unat (of_nat k :: u32) = k" using k n len by (simp add: unsigned_of_nat take_bit_nat_eq_self)
  have "unat (v + of_nat k) = unat v + k" using assms(9) k n ok by (subst unat_add_no_overflow) simp_all
  then have "primary after_config (v + of_nat k) = Some leader"
    using primary_voters [OF live] hit i(2) by simp
  moreover have "of_nat k \<in> set (offsets_upto (2 * cfg_len base + 2))" using k n ok top unfolding unat_offset by simp
  moreover have "\<forall>x \<in> set (offsets_upto (2 * cfg_len base + 2)). unat v + unat x < 2 ^ 32"
    using assms(9) top unfolding unat_offset by (auto simp: unat_offset)
  ultimately obtain off v' where o: "least_offset after_config v leader (offsets_upto (2 * cfg_len base + 2)) = Ok (Some (off, v'))"
    "off \<in> set (offsets_upto (2 * cfg_len base + 2))" "unat v' = unat v + unat off" "primary after_config v' = Some leader"
    using least_offset_found by blast
  have "rider_for base after_config v op = Ok (Some (off, v'))"
    using assms(6,7) o(1) by (auto simp: rider_for_def is_scaling_def)
  then show ?thesis using o top unat_offset by auto
qed

theorem rider_holds_leader_witness:
  "\<exists>off v'. rider_for (ordered [10, 20, 30]) (ordered [10, 20]\<lparr>cfg_era := 2\<rparr>\<lparr>cfg_order := cfg_order (ordered [10, 20]) @ [\<lparr>m_node = 30, m_weight = 0\<rparr>]\<rparr>)
     4 (Decrement 30) = Ok (Some (off, v')) \<and> unat v' = 4 + unat off
     \<and> primary (ordered [10, 20]\<lparr>cfg_era := 2\<rparr>\<lparr>cfg_order := cfg_order (ordered [10, 20]) @ [\<lparr>m_node = 30, m_weight = 0\<rparr>]\<rparr>) v' = Some 20"
proof -
  let ?d = "ordered [10, 20]\<lparr>cfg_era := 2\<rparr>\<lparr>cfg_order := cfg_order (ordered [10, 20]) @ [\<lparr>m_node = 30, m_weight = 0\<rparr>]\<rparr>"
  have "apply_sysop (ordered [10, 20, 30]) (Decrement 30) 0 = Ok ?d"
    by (simp add: ordered_def apply_single sysop_kind_defs successor_era_def era_next_def checked_add_def ok_or_def total_def
        set_weight_def Let_def)
  moreover have "primary (ordered [10, 20, 30]) 4 = Some 20" "20 \<in> m_node ` set (voters ?d)"
    by (simp_all add: primary_def voters_def ordered_def)
  ultimately show ?thesis
    using rider_holds_leader [OF ordered_live, of "Decrement 30" 0 ?d 4 20]
    by (simp add: sysop_kind_defs is_scaling_def) (auto simp: ordered_def)
qed

end
