(* ===== verification/Commit_Safety.thy ===== *)
theory Commit_Safety
  imports Replica_Theorems
begin

text \<open>
  Why a commit survives a view change, on the side of the code that takes each decision: a leader
  advances its committed frontier only over slots a commit quorum voted for, and a history is selected
  only from a view-change quorum, whose best report no member of a commit quorum is ahead of.
\<close>

section \<open>The committing leader\<close>

lemma identity_candidate_committed:
  "identity_candidate r = Inr c \<Longrightarrow> p_committed c = p_committed (rp_progress r)"
  by (auto simp: identity_candidate_def dest: transition_keeps)

lemma quiet_plans_committed:
  "identity_plan r es kind = Inr pl \<Longrightarrow> p_committed (pt_candidate pl) = p_committed (rp_progress r)"
  "drop_plan r d kind = Inr pl \<Longrightarrow> p_committed (pt_candidate pl) = p_committed (rp_progress r)"
  "breach_plan r kind = Inr pl \<Longrightarrow> p_committed (pt_candidate pl) = p_committed (rp_progress r)"
  by (auto simp: identity_plan_def drop_plan_def breach_plan_def candidate_plan_def with_diagnostic_def
      with_fault_declared_def dest: identity_candidate_committed)

lemma candidate_with_committed:
  "candidate_with r st acc com app config view = Inr c \<Longrightarrow> p_committed c = com"
  by (auto simp: candidate_with_def reconstitute_Ok)

lemma finish_commit_quorum_committed:
  assumes "finish_commit_quorum r j committed oks kind = Inr pl"
  shows "p_committed (pt_candidate pl) \<le> max (p_committed (rp_progress r)) committed"
  using assms
  by (auto simp: finish_commit_quorum_def on_fold_def Let_def candidate_plan_def with_bookkeeping_def le_max_iff_disj
      dest!: quiet_plans_committed candidate_with_committed fold_committed_result(2) split: if_splits sum.splits commit_fold.splits)

lemma cascade_quorum:
  "committed < s \<Longrightarrow> s \<le> cascade r j vote committed \<Longrightarrow> rp_strategy r Commit (current_config r) (voters_of r vote s)"
proof (induction r j vote committed rule: cascade.induct)
  case (1 r j vote committed)
  have moved: "cascade r j vote committed \<noteq> committed" using 1(2,3) by auto
  obtain nxt where n: "slot_next committed = Some nxt" "\<not> nxt > p_accepted (rp_progress r)"
    and holds: "segment_holds r vote (commit_segment j nxt (p_accepted (rp_progress r)))"
    using moved by (subst (asm) cascade.simps) (auto simp: Let_def split: option.splits if_splits)
  let ?seg = "commit_segment j nxt (p_accepted (rp_progress r))"
  have s: "s \<le> cascade r j vote (snd ?seg)"
    using 1(3) n holds by (subst (asm) cascade.simps) (simp add: Let_def)
  show ?case
  proof (cases "snd ?seg < s")
    case True
    then show ?thesis using 1(1) [OF n refl holds True s] by simp
  next
    case False
    have "s = nxt \<or> nxt < s"
      using 1(2) n(1) by (auto simp: slot_next_Some word_less_nat_alt word_le_nat_alt word_eq_nat)
    then have "s \<in> set (fst ?seg # slots_after (fst ?seg) (snd ?seg))"
      using False by (auto simp: set_slots_after commit_segment_bounds(1))
    then show ?thesis using holds unfolding segment_holds_def list_all_iff by blast
  qed
qed

text \<open>The vote an acknowledgement is: none from a learner, the sender's through its slot otherwise.\<close>

definition vote_in_hand :: "replica \<Rightarrow> node_id \<Rightarrow> message \<Rightarrow> (node_id \<times> slot) option" where
  "vote_in_hand r from m =
     (case weight_of (current_config r) from of
        Some w \<Rightarrow> if w = 0 then None else Some (from, h_slot (msg_header m))
      | None \<Rightarrow> None)"


lemma finish_quorum:
  assumes "finish_commit_quorum r j (commit_cascade_frontier r j vote) oks kind = Inr pl"
    and "p_committed (rp_progress r) < s" "s \<le> p_committed (pt_candidate pl)"
  shows "rp_strategy r Commit (current_config r) (voters_of r vote s)"
proof -
  have "s \<le> commit_cascade_frontier r j vote"
    using finish_commit_quorum_committed [OF assms(1)] assms(2,3) by (auto simp: max_def split: if_splits)
  then show ?thesis using cascade_quorum [OF assms(2)] by (simp add: commit_cascade_frontier_def)
qed

lemma prepare_ok_quorum:
  assumes "plan_prepare_ok r j sender m kind = Inr pl \<or> plan_fuse_ok r j sender m kind = Inr pl"
    and "p_committed (rp_progress r) < s" "s \<le> p_committed (pt_candidate pl)"
  shows "is_leader r \<and> h_view (msg_header m) = p_current (rp_progress r)
    \<and> rp_strategy r Commit (current_config r) (voters_of r (vote_in_hand r sender m) s)"
proof -
  have quiet: "p_committed (pt_candidate pl) \<noteq> p_committed (rp_progress r)" using assms(2,3) by auto
  have commits: "s \<le> p_committed (pt_candidate q) \<Longrightarrow> finish_commit_quorum r j (commit_cascade_frontier r j vote) oks kind = Inr q \<Longrightarrow>
      rp_strategy r Commit (current_config r) (voters_of r vote s)" for q vote oks
    using finish_quorum assms(2) by blast
  from assms(1) show ?thesis
    using assms(3) quiet
    by (auto simp: plan_prepare_ok_def plan_fuse_ok_def Let_def vote_in_hand_def standing_commit_frontier_def with_diagnostic_def
        dest: quiet_plans_committed intro: commits split: if_splits option.splits)
qed

text \<open>C1. A leader commits only what a commit quorum voted for: every slot an acknowledgement moves beneath
  the committed frontier is one the strategy holds a commit quorum over, counted from the leader itself,
  the votes recorded for that slot and the vote in hand, which a learner does not have.\<close>

theorem commit_needs_quorum:
  assumes "plan r ti j = Inr pl" "ti_event ti = In_Peer sender m" "msg_body m = B_PrepareOk \<or> msg_body m = B_FuseOk slots"
    and "p_committed (rp_progress r) < s" "s \<le> p_committed (pt_candidate pl)"
  shows "is_leader r \<and> h_view (msg_header m) = p_current (rp_progress r)
    \<and> rp_strategy r Commit (current_config r) (voters_of r (vote_in_hand r sender m) s)"
proof -
  obtain q where q: "plan_peer r j sender m (ti_at ti) (kind_of (ti_event ti)) = Inr pl"
    using assms(1,2) by (auto simp: plan_def plan_event_def Let_def split: option.splits if_splits)
  have "p_committed (pt_candidate pl) \<noteq> p_committed (rp_progress r)" using assms(4,5) by auto
  then obtain pl' where "plan_body r j sender m (ti_at ti) (kind_of (ti_event ti)) = Inr pl'" "pt_candidate pl' = pt_candidate pl"
    using q by (auto simp: plan_peer_def with_activity_def dest: quiet_plans_committed split: if_splits)
  then show ?thesis
    using prepare_ok_quorum [of r j sender m "kind_of (ti_event ti)" pl' s] assms(3-5) by (auto simp: plan_body_def)
qed

text \<open>The leader 10 hears that 20 holds slot 3.\<close>

definition leader :: replica where
  "leader = (cluster_node 10 Volatile)\<lparr>rp_proposals := [3 \<mapsto> []]\<rparr>"

definition vote_turn :: timed_input where
  "vote_turn = \<lparr>ti_at = 7, ti_event = In_Peer 20 (mk_message Tag_PrepareOk (Ballot 1 0) 3 B_PrepareOk)\<rparr>"

lemma leader_sel [simp]:
  "rp_progress leader = sample_progress" "rp_parked leader = None" "rp_own leader = 10" "rp_journal leader = sample_run"
  "rp_planned leader = None" "rp_proposals leader = [3 \<mapsto> []]" "rp_strategy leader = weighted_majority"
  "rp_plan_execution leader = None" "rp_view_change leader = None"
  by (simp_all add: leader_def)

lemma leader_cascade: "commit_cascade_frontier leader (log_view_of sample_run) (Some (20, 3)) = 3"
proof -
  have stop: "segment_stop (log_view_of sample_run) 1 3 3 = 3"
    by (subst segment_stop.simps) (simp add: sample_next)
  have "voters_of leader (Some (20, 3)) 3 = [10, 20]" by (simp add: voters_of_def)
  moreover have "weighted_majority Commit (er_config genesis_record) [10, 20]"
    unfolding genesis_record_def era_record.simps by code_simp
  ultimately have "segment_holds leader (Some (20, 3)) (3, 3)"
    by (simp add: segment_holds_def slots_after.simps sample_next current_config_def sample_progress_def sample_record)
  moreover have "cascade leader (log_view_of sample_run) (Some (20, 3)) 3 = 3"
    by (subst cascade.simps) (simp add: sample_next sample_progress_def)
  ultimately have "cascade leader (log_view_of sample_run) (Some (20, 3)) 2 = 3"
    by (subst cascade.simps) (simp add: sample_next sample_progress_def commit_segment_def sample_get stop third_entry_def)
  then show ?thesis by (simp add: commit_cascade_frontier_def sample_progress_def)
qed

lemma vote_plan:
  "\<exists>pl. plan leader vote_turn (log_view_of sample_run) = Inr pl \<and> p_committed (pt_candidate pl) = 3"
proof -
  note eval = sample_progress_def sample_last sample_record sample_members sample_next sample_get
    sample_check [unfolded sample_progress_def, simplified]
  note defs = plan_def plan_event_def plan_peer_def plan_body_def plan_prepare_ok_def is_leader_def outstanding_def
    vote_turn_def mk_message_def refuse_if_parked_def primary_of_def current_config_def finish_commit_quorum_def leader_cascade
    on_fold_def applied_walk_def slots_after.simps entry_or_def overlay_get_def is_system_def candidate_with_def
    next_revision_def checked_add_def reconstitute_def apply_effects_def apply_of_def overlap_solicitation_def
    fold_committed_def fold_walk.simps with_activity_def with_bookkeeping_def candidate_plan_def
  show ?thesis by (simp add: defs eval Let_def unwrap_or_def third_entry_def)
qed

theorem commit_needs_quorum_witness:
  "weighted_majority Commit (current_config leader) (voters_of leader (Some (20, 3)) 3)"
proof -
  obtain pl where pl: "plan leader vote_turn (log_view_of sample_run) = Inr pl" "p_committed (pt_candidate pl) = 3"
    using vote_plan by blast
  have "ti_event vote_turn = In_Peer 20 (mk_message Tag_PrepareOk (Ballot 1 0) 3 B_PrepareOk)" by (simp add: vote_turn_def)
  moreover have "vote_in_hand leader 20 (mk_message Tag_PrepareOk (Ballot 1 0) 3 B_PrepareOk) = Some (20, 3)"
    by (simp add: vote_in_hand_def mk_message_def current_config_def sample_progress_def sample_record sample_members)
  ultimately show ?thesis
    using commit_needs_quorum [OF pl(1), of 20 "mk_message Tag_PrepareOk (Ballot 1 0) 3 B_PrepareOk" "[]" 3] pl(2)
    by (simp add: mk_message_def sample_progress_def)
qed


section \<open>The selected history\<close>

text \<open>Evidence ranks by the view it retains, then by the last slot it accepted.\<close>

definition ahead :: "ballot \<Rightarrow> slot \<Rightarrow> evidence \<Rightarrow> bool" where
  "ahead v s e \<longleftrightarrow> v < ev_retained e \<or> v = ev_retained e \<and> s \<le> ev_accepted e"

lemma ahead_better: "ahead v s e \<Longrightarrow> better_evidence m e \<Longrightarrow> ahead v s m"
  by (auto simp: ahead_def better_evidence_def)

lemma ahead_worse: "ahead v s m \<Longrightarrow> \<not> better_evidence m e \<Longrightarrow> ahead v s e"
  by (auto simp: ahead_def better_evidence_def not_less dest: le_neq_trans)

definition pick :: "node_id \<times> evidence \<Rightarrow> (node_id \<times> evidence) option \<Rightarrow> (node_id \<times> evidence) option" where
  "pick x best = (case x of (sender, m) \<Rightarrow>
     case best of
       None \<Rightarrow> Some (sender, m)
     | Some (_, incumbent) \<Rightarrow> if better_evidence m incumbent then Some (sender, m) else best)"

lemma select_history_pick: "select_history evidence = fold pick evidence None"
  by (simp add: select_history_def pick_def [abs_def] split_def)

lemma fold_pick_keeps: "best = Some (n, e) \<Longrightarrow> ahead v s e \<Longrightarrow> \<exists>n' e'. fold pick xs best = Some (n', e') \<and> ahead v s e'"
proof (induction xs arbitrary: best n e)
  case (Cons x xs)
  have "\<exists>n1 e1. pick x best = Some (n1, e1) \<and> ahead v s e1"
    using Cons.prems ahead_better by (cases x) (auto simp: pick_def)
  then show ?case using Cons.IH by auto
qed simp

lemma fold_pick_best:
  "(m, e) \<in> set xs \<Longrightarrow> ahead v s e \<Longrightarrow> \<exists>n' e'. fold pick xs best = Some (n', e') \<and> ahead v s e'"
proof (induction xs arbitrary: best)
  case (Cons x xs)
  show ?case
  proof (cases "(m, e) = x")
    case True
    have "\<exists>n1 e1. pick x best = Some (n1, e1) \<and> ahead v s e1"
      using True Cons.prems(2) ahead_worse by (cases best) (auto simp: pick_def)
    then show ?thesis using fold_pick_keeps [of "pick x best"] by auto
  qed (use Cons in simp)
qed simp

text \<open>C2. The selected history covers every commit: when a view change selects a history, nobody in any
  commit quorum of any era the table evaluates is ahead of it. If each member of that quorum reports at
  least a slot of a view, the selected evidence does, so no slot the quorum committed is left out.\<close>

theorem selection_covers_commits:
  assumes "wf_table t" "et_record t e = Some rec" "et_record t e' = Some rec'"
    and "rp_strategy r = weighted_majority" "vc_selected vc = None"
    and "vc_selected (select_when_quorum r (er_config rec) vc) = Some (reporter, selected)"
    and "weighted_majority Commit (er_config rec') Q"
    and "\<And>n ev. (n, ev) \<in> set (vc_evidence vc) \<Longrightarrow> n \<in> set Q \<Longrightarrow> ahead v s ev"
  shows "ahead v s selected"
proof -
  have quorum: "weighted_majority ViewChange (er_config rec) (map fst (vc_evidence vc))"
    and sel: "fold pick (vc_evidence vc) None = Some (reporter, selected)"
    using assms(4-6) by (auto simp: select_when_quorum_def select_history_pick split: if_splits)
  have "set (map fst (vc_evidence vc)) \<inter> set Q \<noteq> {}"
    using resident_families [OF assms(1-3), of ViewChange Commit] quorum assms(7)
    by (simp add: families_intersect_def del: set_map)
  then obtain n ev where "(n, ev) \<in> set (vc_evidence vc)" "n \<in> set Q" by auto
  then show ?thesis using fold_pick_best [of n ev "vc_evidence vc" v s None] assms(8) sel by auto
qed

text \<open>Nodes 20 and 30 report to 10; 20 has accepted slot 3, which 10 and 20 committed.\<close>

definition report :: "slot \<Rightarrow> evidence" where
  "report accepted = \<lparr>ev_retained = Ballot 1 0, ev_accepted = accepted, ev_committed = 2, ev_suffix = []\<rparr>"

definition two_reports :: view_change_volatile where
  "two_reports = \<lparr>vc_target = Ballot 1 1, vc_fences = [20, 30], vc_evidence = [(30, report 2), (20, report 3)], vc_selected = None\<rparr>"

theorem selection_covers_commits_witness:
  "vc_selected (select_when_quorum leader (er_config genesis_record) two_reports) = Some (20, report 3)
   \<and> ahead (Ballot 1 0) 3 (report 3)"
proof -
  have q: "weighted_majority ViewChange (er_config genesis_record) [30, 20]" "weighted_majority Commit (er_config genesis_record) [10, 20]"
    unfolding genesis_record_def era_record.simps by code_simp+
  have sel: "vc_selected (select_when_quorum leader (er_config genesis_record) two_reports) = Some (20, report 3)"
    using q(1) by (simp add: select_when_quorum_def select_history_def two_reports_def report_def better_evidence_def)
  have "ahead (Ballot 1 0) 3 (report 3)"
  proof (rule selection_covers_commits [OF cluster_table_wf sample_record(1) sample_record(1) _ _ sel q(2)])
    show "ahead (Ballot 1 0) 3 ev" if "(n, ev) \<in> set (vc_evidence two_reports)" "n \<in> set [10, 20]" for n ev
      using that by (auto simp: two_reports_def ahead_def report_def)
  qed (simp_all add: two_reports_def)
  then show ?thesis using sel by blast
qed

end
