(* ===== verification/State_File.thy ===== *)
theory State_File
  imports Replica_State Lifecycle
begin

text \<open>
  The state file of the Maelstrom node (\<open>src/bin/maelstrom-lin-kv/store.rs\<close>): two header slots that
  alternate and a journal region after them. A commit appends the new entries, forces them, and then
  writes the inactive slot; a load takes the valid slot with the higher sequence number and exactly the
  entries it counts. The operations on the file are a record over a disk state of the host's own, and a
  name is its bytes. The arithmetic on slots and offsets wraps, as in the release build; every index of
  the source that could miss is a refusal \<open>SR_Panic\<close>, as is the abort of a decoder out of stack.
\<close>

section \<open>Fields at an offset\<close>

definition slice :: "nat \<Rightarrow> nat \<Rightarrow> u8 list \<Rightarrow> u8 list" where
  "slice at_byte n buf = take n (drop at_byte buf)"

definition splice_at :: "nat \<Rightarrow> u8 list \<Rightarrow> u8 list \<Rightarrow> u8 list" where
  "splice_at at_byte bs buf = take at_byte buf @ bs @ drop (at_byte + length bs) buf"

definition field_put_u32 :: "nat \<Rightarrow> u32 \<Rightarrow> u8 list \<Rightarrow> u8 list" where
  "field_put_u32 at_byte w buf = splice_at at_byte (to_be_bytes 4 w) buf"

definition field_put_u64 :: "nat \<Rightarrow> u64 \<Rightarrow> u8 list \<Rightarrow> u8 list" where
  "field_put_u64 at_byte w buf = splice_at at_byte (to_be_bytes 8 w) buf"

definition field_u32 :: "u8 list \<Rightarrow> nat \<Rightarrow> u32" where
  "field_u32 buf at_byte = from_be_bytes (slice at_byte 4 buf)"

definition field_u64 :: "u8 list \<Rightarrow> nat \<Rightarrow> u64" where
  "field_u64 buf at_byte = from_be_bytes (slice at_byte 8 buf)"

definition fnv_step :: "u64 \<Rightarrow> u8 \<Rightarrow> u64" where
  "fnv_step hash byte = (hash XOR ucast byte) * 0x100000001b3"

definition fnv1a :: "u8 list \<Rightarrow> u64" where
  "fnv1a bytes = foldl fnv_step 0xcbf29ce484222325 bytes"


section \<open>The layout of a slot\<close>

definition MAGIC :: u32 where "MAGIC = 0x55565253"
definition VERSION :: u32 where "VERSION = 4"
definition ROSTER_AREA :: nat where "ROSTER_AREA = 4096"
definition AT_SEQ :: nat where "AT_SEQ = 8"
definition AT_COPIES :: nat where "AT_COPIES = AT_SEQ + 8"
definition AT_ROSTER :: nat where "AT_ROSTER = AT_COPIES + 4 * 5"
definition AT_CURRENT :: nat where "AT_CURRENT = AT_ROSTER + ROSTER_AREA"
definition AT_RETAINED :: nat where "AT_RETAINED = AT_CURRENT + 8"
definition AT_STATUS :: nat where "AT_STATUS = AT_RETAINED + 8"
definition AT_ACCEPTED :: nat where "AT_ACCEPTED = AT_STATUS + 4"
definition AT_COMMITTED :: nat where "AT_COMMITTED = AT_ACCEPTED + 8"
definition AT_APPLIED :: nat where "AT_APPLIED = AT_COMMITTED + 8"
definition AT_CHECKPOINT :: nat where "AT_CHECKPOINT = AT_APPLIED + 8"
definition AT_REVISION :: nat where "AT_REVISION = AT_CHECKPOINT + 8"
definition AT_FAULT :: nat where "AT_FAULT = AT_REVISION + 8"
definition AT_BASE :: nat where "AT_BASE = AT_FAULT + 1"
definition AT_COUNT :: nat where "AT_COUNT = AT_BASE + 8"
definition AT_BYTES :: nat where "AT_BYTES = AT_COUNT + 8"
definition AT_CHECKSUM :: nat where "AT_CHECKSUM = AT_BYTES + 8"
definition HEADER_SIZE :: nat where "HEADER_SIZE = AT_CHECKSUM + 8"
definition ENTRIES_BASE :: nat where "ENTRIES_BASE = 2 * HEADER_SIZE"

lemmas layout = AT_SEQ_def AT_COPIES_def AT_ROSTER_def AT_CURRENT_def AT_RETAINED_def AT_STATUS_def AT_ACCEPTED_def
  AT_COMMITTED_def AT_APPLIED_def AT_CHECKPOINT_def AT_REVISION_def AT_FAULT_def AT_BASE_def AT_COUNT_def AT_BYTES_def
  AT_CHECKSUM_def HEADER_SIZE_def ROSTER_AREA_def ENTRIES_BASE_def

fun marker_word :: "marker \<Rightarrow> u8" where
  "marker_word Mk_Stopping = 0"
| "marker_word Mk_Stopped = 1"
| "marker_word Mk_Restarting = 2"
| "marker_word Mk_Joining = 3"

definition marker_from_word :: "u8 \<Rightarrow> marker option" where
  "marker_from_word w =
     (if w = 0 then Some Mk_Stopping else if w = 1 then Some Mk_Stopped
      else if w = 2 then Some Mk_Restarting else if w = 3 then Some Mk_Joining else None)"

fun fault_word :: "fault \<Rightarrow> u8" where
  "fault_word IllegalTransition = 1"
| "fault_word IndeterminatePersistence = 2"
| "fault_word QuorumObligation = 3"
| "fault_word ProgressJournalDivergence = 4"
| "fault_word HostDeclared = 5"

definition fault_from_word :: "u8 \<Rightarrow> fault option" where
  "fault_from_word w =
     (if w = 1 then Some IllegalTransition else if w = 2 then Some IndeterminatePersistence
      else if w = 3 then Some QuorumObligation else if w = 4 then Some ProgressJournalDivergence
      else if w = 5 then Some HostDeclared else None)"

type_synonym name = "u8 list"

text \<open>A decoded name is not empty, printable ASCII, and not seen before.\<close>

definition graphic :: "u8 \<Rightarrow> bool" where
  "graphic b \<longleftrightarrow> 0x21 \<le> b \<and> b \<le> 0x7E"

definition name_checked :: "name \<Rightarrow> name list \<Rightarrow> name option" where
  "name_checked nm seen = (if nm = [] \<or> \<not> list_all graphic nm \<or> nm \<in> set seen then None else Some nm)"

record slot_bytes =
  sb_seq :: u64
  sb_copies :: superblock_copies
  sb_roster :: "name list"
  sb_progress :: persisted_progress
  sb_base :: slot
  sb_count :: u64
  sb_bytes :: u64

datatype store_refusal =
    SR_RosterTooLarge nat
  | SR_NameTooLong
  | SR_EntryTooLong
  | SR_EntryDoesNotPack pack_error
  | SR_Armed
  | SR_Unarmed
  | SR_NoGenesis
  | SR_NothingDurable
  | SR_WindowMoved slot slot
  | SR_MirrorEmpty
  | SR_SlotMissing slot
  | SR_BelowBase slot slot
  | SR_WindowNotWhole range_outcome
  | SR_Io
  | SR_NoStore
  | SR_NothingStaged
  | SR_Panic

fun put_copies :: "nat \<Rightarrow> superblock_copies \<Rightarrow> u8 list \<Rightarrow> u8 list" where
  "put_copies index [] buf = buf"
| "put_copies index (c # cs) buf =
     put_copies (index + 1) cs
       (splice_at (AT_COPIES + index * 5 + 4) [marker_word (cs_marker c)]
         (field_put_u32 (AT_COPIES + index * 5) (cs_identity c) buf))"

fun put_roster :: "nat \<Rightarrow> name list \<Rightarrow> u8 list \<Rightarrow> store_refusal + u8 list" where
  "put_roster at_byte [] buf = Ok buf"
| "put_roster at_byte (nm # names) buf =
     rbind (ok_or (len_u32 nm) SR_NameTooLong) (\<lambda>len.
       put_roster (at_byte + 4 + length nm) names (splice_at (at_byte + 4) nm (field_put_u32 at_byte len buf)))"

definition put_progress :: "persisted_progress \<Rightarrow> u8 list \<Rightarrow> u8 list" where
  "put_progress p =
     splice_at AT_FAULT [case pp_fault p of None \<Rightarrow> 0 | Some f \<Rightarrow> fault_word f]
     \<circ> field_put_u64 AT_REVISION (pp_revision p)
     \<circ> field_put_u64 AT_CHECKPOINT (pp_checkpoint p)
     \<circ> field_put_u64 AT_APPLIED (pp_applied p)
     \<circ> field_put_u64 AT_COMMITTED (pp_committed p)
     \<circ> field_put_u64 AT_ACCEPTED (pp_accepted p)
     \<circ> field_put_u32 AT_STATUS (to_word (pp_status p))
     \<circ> field_put_u32 (AT_RETAINED + 4) (b_view (pp_retained p))
     \<circ> field_put_u32 AT_RETAINED (b_era (pp_retained p))
     \<circ> field_put_u32 (AT_CURRENT + 4) (b_view (pp_current p))
     \<circ> field_put_u32 AT_CURRENT (b_era (pp_current p))"

definition framed_roster :: "name list \<Rightarrow> nat" where
  "framed_roster names = 4 + sum_list (map (\<lambda>nm. 4 + length nm) names)"

definition encode_slot :: "slot_bytes \<Rightarrow> store_refusal + u8 list" where
  "encode_slot s =
     (if framed_roster (sb_roster s) > ROSTER_AREA then Err (SR_RosterTooLarge (framed_roster (sb_roster s)))
      else
        let buf = put_copies 0 (sb_copies s)
              (field_put_u64 AT_SEQ (sb_seq s) (field_put_u32 4 VERSION (field_put_u32 0 MAGIC (replicate HEADER_SIZE 0))))
        in rbind (put_roster (AT_ROSTER + 4) (sb_roster s)
              (field_put_u32 AT_ROSTER (of_nat (length (sb_roster s))) buf)) (\<lambda>buf.
           let buf = field_put_u64 AT_BYTES (sb_bytes s) (field_put_u64 AT_COUNT (sb_count s)
                 (field_put_u64 AT_BASE (sb_base s) (put_progress (sb_progress s) buf)))
           in Ok (field_put_u64 AT_CHECKSUM (fnv1a (take AT_CHECKSUM buf)) buf)))"

definition copy_at :: "u8 list \<Rightarrow> nat \<Rightarrow> copy_state option" where
  "copy_at buf index =
     map_option (\<lambda>mk. \<lparr>cs_identity = field_u32 buf (AT_COPIES + index * 5), cs_marker = mk\<rparr>)
       (marker_from_word (buf ! (AT_COPIES + index * 5 + 4)))"

text \<open>The offset of the next name may reach the end of the area, never pass it.\<close>

fun roster_from :: "nat \<Rightarrow> nat \<Rightarrow> u8 list \<Rightarrow> name list \<Rightarrow> name list option" where
  "roster_from 0 at_byte buf roster = Some roster"
| "roster_from (Suc n) at_byte buf roster =
     (let len = unat (field_u32 buf at_byte); stop = at_byte + 4 + len
      in if stop > AT_ROSTER + ROSTER_AREA then None
         else case name_checked (slice (stop - len) len buf) roster of
                None \<Rightarrow> None
              | Some nm \<Rightarrow> roster_from n stop buf (roster @ [nm]))"

definition progress_at :: "u8 list \<Rightarrow> persisted_progress option" where
  "progress_at buf =
     Option.bind (from_word (field_u32 buf AT_STATUS)) (\<lambda>st.
     Option.bind (if buf ! AT_FAULT = 0 then Some None else map_option Some (fault_from_word (buf ! AT_FAULT))) (\<lambda>f.
       Some \<lparr>pp_current = Ballot (field_u32 buf AT_CURRENT) (field_u32 buf (AT_CURRENT + 4)),
             pp_retained = Ballot (field_u32 buf AT_RETAINED) (field_u32 buf (AT_RETAINED + 4)),
             pp_status = st, pp_accepted = field_u64 buf AT_ACCEPTED, pp_committed = field_u64 buf AT_COMMITTED,
             pp_applied = field_u64 buf AT_APPLIED, pp_checkpoint = field_u64 buf AT_CHECKPOINT,
             pp_revision = field_u64 buf AT_REVISION, pp_fault = f\<rparr>))"

definition decode_slot :: "u8 list \<Rightarrow> slot_bytes option" where
  "decode_slot buf =
     (if field_u32 buf 0 \<noteq> MAGIC \<or> field_u32 buf 4 \<noteq> VERSION then None
      else if field_u64 buf AT_CHECKSUM \<noteq> fnv1a (take AT_CHECKSUM buf) then None
      else
        Option.bind (those (map (copy_at buf) [0, 1, 2, 3])) (\<lambda>copies.
        Option.bind (roster_from (unat (field_u32 buf AT_ROSTER)) (AT_ROSTER + 4) buf []) (\<lambda>roster.
        Option.bind (progress_at buf) (\<lambda>progress.
          Some \<lparr>sb_seq = field_u64 buf AT_SEQ, sb_copies = copies, sb_roster = roster, sb_progress = progress,
                sb_base = field_u64 buf AT_BASE, sb_count = field_u64 buf AT_COUNT, sb_bytes = field_u64 buf AT_BYTES\<rparr>))))"


section \<open>Entries\<close>

definition packed_entry :: "log_entry \<Rightarrow> store_refusal + u8 list" where
  "packed_entry e =
     (case packed_len_entry e of
        None \<Rightarrow> Err SR_Panic
      | Some n \<Rightarrow>
          (case pack_into pack_entry packed_len_entry e (replicate n 0) of
             None \<Rightarrow> Err SR_Panic
           | Some (Inl err) \<Rightarrow> Err (SR_EntryDoesNotPack err)
           | Some (Inr (_, bytes)) \<Rightarrow> Ok bytes))"

definition entry_frame :: "log_entry \<Rightarrow> store_refusal + u8 list" where
  "entry_frame e =
     rbind (ok_or (packed_len_entry e) SR_Panic) (\<lambda>n.
     rbind (if n < 2 ^ 32 then Ok (of_nat n :: u32) else Err SR_EntryTooLong) (\<lambda>len.
     rbind (packed_entry e) (\<lambda>bytes. Ok (to_be_bytes 4 len @ bytes))))"

definition digest_of :: "log_entry \<Rightarrow> store_refusal + u64" where
  "digest_of e = rbind (packed_entry e) (\<lambda>bytes. Ok (fnv1a bytes))"

record durable_entry =
  de_offset :: u64
  de_len :: u32
  de_digest :: u64

datatype region_error = RE_Short nat | RE_DoesNotDecode nat unpack_error | RE_NotContiguous nat | RE_Beyond | RE_Abort

text \<open>The entries from a position of the region on: how many frames are left, the number of the next.\<close>

fun decode_from ::
    "nat \<Rightarrow> u8 list \<Rightarrow> slot \<Rightarrow> nat \<Rightarrow> nat \<Rightarrow> nat \<Rightarrow> region_error + log_entry list \<times> durable_entry list" where
  "decode_from depth region base number 0 at_byte = (if at_byte \<noteq> length region then Err RE_Beyond else Ok ([], []))"
| "decode_from depth region base number (Suc n) at_byte =
     (if at_byte + 4 > length region then Err (RE_Short number)
      else
        let len = unat (field_u32 region at_byte); body = slice (at_byte + 4) len region
        in if at_byte + 4 + len > length region then Err (RE_Short number)
           else case unpack_from (unpack_entry depth) body of
             None \<Rightarrow> Err RE_Abort
           | Some (Inl err) \<Rightarrow> Err (RE_DoesNotDecode number err)
           | Some (Inr entry) \<Rightarrow>
               if le_slot entry \<noteq> base + of_nat number then Err (RE_NotContiguous number)
               else rbind (decode_from depth region base (number + 1) n (at_byte + 4 + len)) (\<lambda>(entries, mirror).
                 Ok (entry # entries,
                     \<lparr>de_offset = of_nat at_byte, de_len = of_nat (len + 4), de_digest = fnv1a body\<rparr> # mirror)))"

definition decode_entries :: "nat \<Rightarrow> u8 list \<Rightarrow> u64 \<Rightarrow> slot \<Rightarrow> region_error + log_entry list \<times> durable_entry list" where
  "decode_entries depth region count base = decode_from depth region base 0 (unat count) 0"


section \<open>The store\<close>

datatype side = Side_A | Side_B

fun side_at :: "side \<Rightarrow> nat" where
  "side_at Side_A = 0"
| "side_at Side_B = HEADER_SIZE"

fun side_flip :: "side \<Rightarrow> side" where
  "side_flip Side_A = Side_B"
| "side_flip Side_B = Side_A"

record log_file =
  lf_side :: side
  lf_seq :: u64
  lf_roster :: "name list"
  lf_base :: slot
  lf_entries :: "durable_entry list"
  lf_bytes :: u64

text \<open>The store without its path; \<open>None\<close> is a store no life has armed.\<close>

type_synonym store = "log_file option"

definition armed :: "store \<Rightarrow> bool" where
  "armed st \<longleftrightarrow> st \<noteq> None"

record node_state =
  ns_copies :: superblock_copies
  ns_roster :: "name list"
  ns_progress :: persisted_progress
  ns_entries :: "log_entry list"

datatype read_outcome = Read_Absent | Read_Failed | Read_Bytes "u8 list"

text \<open>What the store asks of the file system; a failed operation is \<open>False\<close>.\<close>

record 'd file_ops =
  fo_read :: "'d \<Rightarrow> read_outcome"
  fo_open :: "'d \<Rightarrow> bool \<times> 'd"
  fo_write_at :: "nat \<Rightarrow> u8 list \<Rightarrow> 'd \<Rightarrow> bool \<times> 'd"
  fo_sync :: "'d \<Rightarrow> bool \<times> 'd"
  fo_write_temp :: "u8 list \<Rightarrow> 'd \<Rightarrow> bool \<times> 'd"
  fo_sync_temp :: "'d \<Rightarrow> bool \<times> 'd"
  fo_rename :: "'d \<Rightarrow> bool \<times> 'd"
  fo_sync_dir :: "'d \<Rightarrow> bool \<times> 'd"

text \<open>The question mark over operations on the file: the first failure ends the sequence.\<close>

fun io_all :: "('d \<Rightarrow> bool \<times> 'd) list \<Rightarrow> 'd \<Rightarrow> (store_refusal + unit) \<times> 'd" where
  "io_all [] d = (Ok (), d)"
| "io_all (m # ms) d = (case m d of (True, d) \<Rightarrow> io_all ms d | (False, d) \<Rightarrow> (Err SR_Io, d))"

datatype corruption = CO_Unreadable | CO_ShortHeader | CO_NoSlot | CO_Overflow | CO_ShortRegion | CO_Region region_error | CO_Open

datatype store_error = SE_Absent | SE_Corrupt corruption

definition active_slot :: "u8 list \<Rightarrow> (slot_bytes \<times> side) option" where
  "active_slot bytes =
     (case (decode_slot (take HEADER_SIZE bytes), decode_slot (slice HEADER_SIZE HEADER_SIZE bytes)) of
        (Some a, Some b) \<Rightarrow> Some (if sb_seq a \<ge> sb_seq b then (a, Side_A) else (b, Side_B))
      | (Some a, None) \<Rightarrow> Some (a, Side_A)
      | (None, Some b) \<Rightarrow> Some (b, Side_B)
      | (None, None) \<Rightarrow> None)"

definition read_state :: "nat \<Rightarrow> u8 list \<Rightarrow> corruption + node_state \<times> log_file" where
  "read_state depth bytes =
     (if length bytes < 2 * HEADER_SIZE then Err CO_ShortHeader
      else case active_slot bytes of
        None \<Rightarrow> Err CO_NoSlot
      | Some (slot, side) \<Rightarrow>
          let stop = ENTRIES_BASE + unat (sb_bytes slot)
          in if stop \<ge> 2 ^ 64 then Err CO_Overflow
             else if stop > length bytes then Err CO_ShortRegion
             else rbind (map_err CO_Region (decode_entries depth (drop ENTRIES_BASE (take stop bytes)) (sb_count slot) (sb_base slot)))
               (\<lambda>(entries, mirror).
                 Ok (\<lparr>ns_copies = sb_copies slot, ns_roster = sb_roster slot, ns_progress = sb_progress slot, ns_entries = entries\<rparr>,
                     \<lparr>lf_side = side, lf_seq = sb_seq slot, lf_roster = sb_roster slot, lf_base = sb_base slot,
                      lf_entries = mirror, lf_bytes = sb_bytes slot\<rparr>)))"

definition sf_load :: "nat \<Rightarrow> 'd file_ops \<Rightarrow> store \<Rightarrow> 'd \<Rightarrow> (store_error + node_state) \<times> store \<times> 'd" where
  "sf_load depth ops st d =
     (case fo_read ops d of
        Read_Absent \<Rightarrow> (Err SE_Absent, st, d)
      | Read_Failed \<Rightarrow> (Err (SE_Corrupt CO_Unreadable), st, d)
      | Read_Bytes bytes \<Rightarrow>
          (case read_state depth bytes of
             Inl e \<Rightarrow> (Err (SE_Corrupt e), st, d)
           | Inr (state, log) \<Rightarrow>
               (case fo_open ops d of
                  (True, d) \<Rightarrow> (Ok state, Some log, d)
                | (False, d) \<Rightarrow> (Err (SE_Corrupt CO_Open), st, d))))"

text \<open>The frames of entries, one after the other, and their mirror from an offset on.\<close>

fun frame_all :: "u64 \<Rightarrow> log_entry list \<Rightarrow> store_refusal + u8 list \<times> durable_entry list \<times> u64" where
  "frame_all offset [] = Ok ([], [], offset)"
| "frame_all offset (e # es) =
     rbind (entry_frame e) (\<lambda>framed.
     rbind (digest_of e) (\<lambda>digest.
     rbind (if length framed < 2 ^ 32 then Ok (of_nat (length framed)) else Err SR_EntryTooLong) (\<lambda>len.
     rbind (frame_all (offset + of_nat (length framed)) es) (\<lambda>(region, mirror, stop).
       Ok (framed @ region, \<lparr>de_offset = offset, de_len = len, de_digest = digest\<rparr> # mirror, stop)))))"

definition sf_create :: "'d file_ops \<Rightarrow> node_state \<Rightarrow> store \<Rightarrow> 'd \<Rightarrow> (store_refusal + unit) \<times> store \<times> 'd" where
  "sf_create ops state st d =
     (if armed st then (Err SR_Armed, st, d)
      else case ns_entries state of
        [] \<Rightarrow> (Err SR_NoGenesis, st, d)
      | anchor # _ \<Rightarrow>
          (case rbind (frame_all 0 (ns_entries state)) (\<lambda>(region, mirror, offset).
                  rbind (encode_slot \<lparr>sb_seq = 1, sb_copies = ns_copies state, sb_roster = ns_roster state,
                           sb_progress = ns_progress state, sb_base = le_slot anchor,
                           sb_count = of_nat (length (ns_entries state)), sb_bytes = offset\<rparr>) (\<lambda>header.
                    Ok (header @ replicate HEADER_SIZE 0 @ region, mirror, offset))) of
             Inl e \<Rightarrow> (Err e, st, d)
           | Inr (file_bytes, mirror, offset) \<Rightarrow>
               (case io_all [fo_write_temp ops file_bytes, fo_sync_temp ops, fo_rename ops, fo_sync_dir ops, fo_open ops] d of
                  (Inl e, d) \<Rightarrow> (Err e, st, d)
                | (Inr _, d) \<Rightarrow>
                    (Ok (),
                     Some \<lparr>lf_side = Side_A, lf_seq = 1, lf_roster = ns_roster state, lf_base = le_slot anchor,
                           lf_entries = mirror, lf_bytes = offset\<rparr>, d))))"

text \<open>The slots above a floor up to a slot, in order.\<close>

definition slots_in :: "slot \<Rightarrow> slot \<Rightarrow> slot list" where
  "slots_in lo hi = map of_nat [Suc (unat lo)..<Suc (unat hi)]"

text \<open>The lowest slot of a walk downwards that the mirror disagrees on, as the last slot that stands.\<close>

fun standing :: "log_view \<Rightarrow> log_file \<Rightarrow> slot \<Rightarrow> slot list \<Rightarrow> store_refusal + slot" where
  "standing j log stand [] = Ok stand"
| "standing j log stand (s # slots) =
     rbind (ok_or (view_get j s) (SR_SlotMissing s)) (\<lambda>entry.
     rbind (digest_of entry) (\<lambda>digest.
     rbind (ok_or (nth_opt (lf_entries log) (unat (s - lf_base log))) SR_Panic) (\<lambda>mirror.
       standing j log (if digest \<noteq> de_digest mirror then s - 1 else stand) slots)))"

text \<open>The append: the frames of the slots' entries after a region, and the mirror it has extended when it
  ends or is refused.\<close>

fun append_slots ::
    "log_view \<Rightarrow> slot list \<Rightarrow> u64 \<Rightarrow> durable_entry list \<Rightarrow> u8 list \<Rightarrow> (store_refusal + u8 list \<times> u64) \<times> durable_entry list" where
  "append_slots j [] cursor mirror region = (Ok (region, cursor), mirror)"
| "append_slots j (s # slots) cursor mirror region =
     (case rbind (ok_or (view_get j s) (SR_SlotMissing s)) (\<lambda>entry.
           rbind (entry_frame entry) (\<lambda>framed.
           rbind (digest_of entry) (\<lambda>digest.
           rbind (if length framed < 2 ^ 32 then Ok (of_nat (length framed)) else Err SR_EntryTooLong) (\<lambda>len.
             Ok (framed, \<lparr>de_offset = cursor, de_len = len, de_digest = digest\<rparr>))))) of
        Inl e \<Rightarrow> (Err e, mirror)
      | Inr (framed, durable) \<Rightarrow>
          append_slots j slots (cursor + of_nat (length framed)) (mirror @ [durable]) (region @ framed))"

text \<open>The last slot of the journal and the last that stands in the region.\<close>

definition commit_stand :: "log_file \<Rightarrow> persisted_progress \<Rightarrow> log_view \<Rightarrow> store_refusal + slot \<times> slot" where
  "commit_stand log progress j =
     rbind (ok_or (lv_last j) SR_NothingDurable) (\<lambda>frontier.
       let base = fst (view_retained j)
       in if base \<noteq> lf_base log then Err (SR_WindowMoved base (lf_base log))
          else if lf_entries log = [] then Err SR_MirrorEmpty
          else
            let mirror_frontier = lf_base log + of_nat (length (lf_entries log)) - 1;
                hi = min mirror_frontier frontier
            in rbind (standing j log hi (rev (slots_in (max (pp_committed progress) (lf_base log)) hi))) (\<lambda>stand.
               if stand + 1 < lf_base log then Err (SR_BelowBase stand (lf_base log)) else Ok (frontier, stand)))"

definition mirror_end :: "durable_entry list \<Rightarrow> u64" where
  "mirror_end mirror = (if mirror = [] then 0 else de_offset (last mirror) + ucast (de_len (last mirror)))"

definition sf_commit ::
    "'d file_ops \<Rightarrow> superblock_copies \<Rightarrow> persisted_progress \<Rightarrow> log_view \<Rightarrow> store \<Rightarrow> 'd \<Rightarrow> (store_refusal + unit) \<times> store \<times> 'd" where
  "sf_commit ops copies progress j st d =
     (case st of
        None \<Rightarrow> (Err SR_Unarmed, st, d)
      | Some log \<Rightarrow>
          (case commit_stand log progress j of
             Inl e \<Rightarrow> (Err e, st, d)
           | Inr (frontier, stand) \<Rightarrow>
               (let kept = take (unat (stand - lf_base log + 1)) (lf_entries log);
                    write_at = mirror_end kept
                in case append_slots j (slots_in stand frontier) write_at kept [] of
                     (Inl e, mirror) \<Rightarrow> (Err e, Some (log\<lparr>lf_entries := mirror\<rparr>), d)
                   | (Inr (region, cursor), mirror) \<Rightarrow>
                       (let log = log\<lparr>lf_entries := mirror\<rparr>;
                            side = side_flip (lf_side log);
                            append = (if region = [] then []
                                      else [fo_write_at ops (ENTRIES_BASE + unat write_at) region, fo_sync ops])
                        in case io_all append d of
                             (Inl e, d) \<Rightarrow> (Err e, Some log, d)
                           | (Inr _, d) \<Rightarrow>
                               (case encode_slot \<lparr>sb_seq = lf_seq log + 1, sb_copies = copies, sb_roster = lf_roster log,
                                        sb_progress = progress, sb_base = lf_base log, sb_count = of_nat (length mirror),
                                        sb_bytes = cursor\<rparr> of
                                  Inl e \<Rightarrow> (Err e, Some log, d)
                                | Inr buf \<Rightarrow>
                                    (case io_all [fo_write_at ops (side_at side) buf, fo_sync ops] d of
                                       (Inl e, d) \<Rightarrow> (Err e, Some log, d)
                                     | (Inr _, d) \<Rightarrow>
                                         (Ok (), Some (log\<lparr>lf_side := side, lf_seq := lf_seq log + 1, lf_bytes := cursor\<rparr>), d)))))))"

definition sf_drain :: "'d file_ops \<Rightarrow> store \<Rightarrow> 'd \<Rightarrow> (store_refusal + unit) \<times> 'd" where
  "sf_drain ops st d = (if \<not> armed st then (Err SR_Unarmed, d) else io_all [fo_sync ops] d)"

text \<open>The whole state of a live node, for the first life.\<close>

definition state_snapshot_of ::
    "superblock_copies \<Rightarrow> name list \<Rightarrow> persisted_progress \<Rightarrow> log_view \<Rightarrow> store_refusal + node_state" where
  "state_snapshot_of copies roster progress j =
     (case (case lv_last j of
              Some frontier \<Rightarrow> copy_out j (fst (view_retained j)) frontier []
            | None \<Rightarrow> (Range_Complete, [])) of
        (Range_Complete, entries) \<Rightarrow>
          Ok \<lparr>ns_copies = copies, ns_roster = roster, ns_progress = progress, ns_entries = entries\<rparr>
      | (outcome, _) \<Rightarrow> Err (SR_WindowNotWhole outcome))"

end
