(* ===== verification/State_File_Props.thy ===== *)
theory State_File_Props
  imports State_File
begin

text \<open>
  Facts of the state file: what a header slot's bytes are and that it is read back, that its checksum
  sees any one changed byte, and how a region of frames is decoded.
\<close>

section \<open>Slices\<close>

lemma slice_skip: "length p \<le> a \<Longrightarrow> slice a n (p @ q) = slice (a - length p) n q"
  by (simp add: slice_def)

lemma slice_here: "n \<le> length p \<Longrightarrow> slice 0 n (p @ q) = take n p"
  by (simp add: slice_def)

lemma nth_skip: "length p \<le> a \<Longrightarrow> (p @ q) ! a = q ! (a - length p)"
  by (simp add: nth_append)

lemma splice_grow:
  assumes "length p + g = a" "g + length bs \<le> n"
  shows "splice_at a bs (p @ replicate n 0) = p @ replicate g 0 @ bs @ replicate (n - g - length bs) 0"
proof -
  have "a - length p = g" "a + length bs - length p = g + length bs" "min g n = g" using assms by linarith+
  then show ?thesis using assms(1) by (simp add: splice_at_def)
qed

lemma splice_next:
  "length p = a \<Longrightarrow> length bs \<le> n \<Longrightarrow> splice_at a bs (p @ replicate n 0) = (p @ bs) @ replicate (n - length bs) 0"
  using splice_grow [of p 0 a bs n] by simp

lemma length_splice_at: "a + length bs \<le> length buf \<Longrightarrow> length (splice_at a bs buf) = length buf"
  by (simp add: splice_at_def)

lemma word_bytes: "from_be_bytes (to_be_bytes 4 v) = (v :: u32)" "from_be_bytes (to_be_bytes 8 w) = (w :: u64)"
  using be_word_iff [of 4 "to_be_bytes 4 v" v] be_word_iff [of 8 "to_be_bytes 8 w" w] by simp_all


section \<open>The bytes of a slot\<close>

definition enc_copies :: "superblock_copies \<Rightarrow> u8 list" where
  "enc_copies cs = concat (map (\<lambda>c. to_be_bytes 4 (cs_identity c) @ [marker_word (cs_marker c)]) cs)"

definition enc_roster :: "name list \<Rightarrow> u8 list" where
  "enc_roster names = concat (map (\<lambda>nm. to_be_bytes 4 (of_nat (length nm) :: u32) @ nm) names)"

definition enc_progress :: "persisted_progress \<Rightarrow> u8 list" where
  "enc_progress p =
     to_be_bytes 4 (b_era (pp_current p)) @ to_be_bytes 4 (b_view (pp_current p)) @ to_be_bytes 4 (b_era (pp_retained p))
     @ to_be_bytes 4 (b_view (pp_retained p)) @ to_be_bytes 4 (to_word (pp_status p)) @ to_be_bytes 8 (pp_accepted p)
     @ to_be_bytes 8 (pp_committed p) @ to_be_bytes 8 (pp_applied p) @ to_be_bytes 8 (pp_checkpoint p)
     @ to_be_bytes 8 (pp_revision p) @ [case pp_fault p of None \<Rightarrow> 0 | Some f \<Rightarrow> fault_word f]"

definition slot_head :: "slot_bytes \<Rightarrow> u8 list" where
  "slot_head s =
     to_be_bytes 4 MAGIC @ to_be_bytes 4 VERSION @ to_be_bytes 8 (sb_seq s) @ enc_copies (sb_copies s)
     @ to_be_bytes 4 (of_nat (length (sb_roster s)) :: u32)"

definition slot_tail :: "slot_bytes \<Rightarrow> u8 list" where
  "slot_tail s = enc_progress (sb_progress s) @ to_be_bytes 8 (sb_base s) @ to_be_bytes 8 (sb_count s) @ to_be_bytes 8 (sb_bytes s)"

definition slot_pre :: "slot_bytes \<Rightarrow> u8 list" where
  "slot_pre s = slot_head s @ enc_roster (sb_roster s) @ replicate (ROSTER_AREA - framed_roster (sb_roster s)) 0"

definition slot_body :: "slot_bytes \<Rightarrow> u8 list" where
  "slot_body s = slot_pre s @ slot_tail s"

definition enc_slot :: "slot_bytes \<Rightarrow> u8 list" where
  "enc_slot s = slot_body s @ to_be_bytes 8 (fnv1a (slot_body s))"

definition roster_ok :: "name list \<Rightarrow> bool" where
  "roster_ok names \<longleftrightarrow> framed_roster names \<le> ROSTER_AREA \<and> distinct names \<and> (\<forall>nm \<in> set names. nm \<noteq> [] \<and> list_all graphic nm)"

definition slot_ok :: "slot_bytes \<Rightarrow> bool" where
  "slot_ok s \<longleftrightarrow> length (sb_copies s) = 4 \<and> roster_ok (sb_roster s)"

lemma length_enc_copies [simp]: "length (enc_copies cs) = 5 * length cs"
  by (induction cs) (simp_all add: enc_copies_def)

lemma length_enc_roster: "length (enc_roster names) + 4 = framed_roster names"
  by (induction names) (simp_all add: enc_roster_def framed_roster_def)

lemma length_enc_progress [simp]: "length (enc_progress p) = 61"
  by (simp add: enc_progress_def)

lemma put_copies_grow:
  "AT_COPIES + index * 5 = length p \<Longrightarrow> 5 * length cs \<le> n \<Longrightarrow>
   put_copies index cs (p @ replicate n 0) = (p @ enc_copies cs) @ replicate (n - 5 * length cs) 0"
proof (induction cs arbitrary: index p n)
  case (Cons c cs)
  let ?b = "to_be_bytes 4 (cs_identity c)" and ?m = "[marker_word (cs_marker c)]"
  have "put_copies index (c # cs) (p @ replicate n 0) = put_copies (index + 1) cs (((p @ ?b) @ ?m) @ replicate (n - 5) 0)"
    using Cons.prems by (simp add: field_put_u32_def splice_next del: append_assoc)
  also have "\<dots> = (((p @ ?b) @ ?m) @ enc_copies cs) @ replicate (n - 5 - 5 * length cs) 0"
    using Cons.prems by (intro Cons.IH) simp_all
  finally show ?case by (simp add: enc_copies_def)
qed (simp add: enc_copies_def)

lemma put_roster_grow:
  "length p = a \<Longrightarrow> length (enc_roster names) \<le> n \<Longrightarrow> n < 2 ^ 32 \<Longrightarrow>
   put_roster a names (p @ replicate n 0) = Ok ((p @ enc_roster names) @ replicate (n - length (enc_roster names)) 0)"
proof (induction names arbitrary: a p n)
  case (Cons nm names)
  let ?b = "to_be_bytes 4 (of_nat (length nm) :: u32)"
  have len: "len_u32 nm = Some (of_nat (length nm))" "4 + length nm + length (enc_roster names) \<le> n"
    using Cons.prems by (simp_all add: len_u32_def enc_roster_def)
  have "put_roster a (nm # names) (p @ replicate n 0) =
      put_roster (a + 4 + length nm) names (((p @ ?b) @ nm) @ replicate (n - 4 - length nm) 0)"
    using Cons.prems(1) len by (simp add: field_put_u32_def splice_next ok_or_def del: append_assoc)
  also have "\<dots> = Ok ((((p @ ?b) @ nm) @ enc_roster names) @ replicate (n - 4 - length nm - length (enc_roster names)) 0)"
    using Cons.prems len by (intro Cons.IH) simp_all
  finally show ?case by (simp add: enc_roster_def add.assoc del: put_roster.simps)
qed (simp add: enc_roster_def)

lemma framed_pos: "4 \<le> framed_roster names"
  by (simp add: framed_roster_def)

lemma length_slot_pre:
  assumes "slot_ok s"
  shows "length (slot_head s) = 40" "length (slot_pre s) = 4132" "length (slot_body s) = AT_CHECKSUM" "length (enc_slot s) = HEADER_SIZE"
  using assms length_enc_roster [of "sb_roster s"]
  by (simp_all add: slot_ok_def roster_ok_def slot_head_def slot_pre_def slot_body_def slot_tail_def enc_slot_def layout)

lemma put_progress_grow:
  assumes "length p + g = AT_CURRENT" "g + 61 \<le> n"
  shows "put_progress pr (p @ replicate n 0) = ((p @ replicate g 0) @ enc_progress pr) @ replicate (n - g - 61) 0"
proof -
  let ?q = "p @ replicate g 0"
  have q: "length ?q = 4132" using assms(1) by (simp add: layout)
  have first: "field_put_u32 AT_CURRENT w (p @ replicate n 0) = (?q @ to_be_bytes 4 w) @ replicate (n - g - 4) 0" for w
    using assms by (simp add: field_put_u32_def splice_grow [of p g])
  show ?thesis
    using q assms(2) unfolding put_progress_def o_apply first
    by (simp add: field_put_u32_def field_put_u64_def splice_next layout enc_progress_def del: append_assoc replicate_0)
qed

lemma encode_slot_eq:
  assumes "slot_ok s"
  shows "encode_slot s = Ok (enc_slot s)"
proof -
  let ?n = "HEADER_SIZE" and ?r = "sb_roster s" and ?g = "ROSTER_AREA - framed_roster (sb_roster s)"
  let ?a = "to_be_bytes 4 MAGIC @ to_be_bytes 4 VERSION @ to_be_bytes 8 (sb_seq s)"
  have fit: "framed_roster ?r \<le> 4096" "length (sb_copies s) = 4" "length (enc_roster ?r) = framed_roster ?r - 4"
    using assms length_enc_roster [of ?r] by (simp_all add: slot_ok_def roster_ok_def layout)
  have start: "field_put_u64 AT_SEQ (sb_seq s) (field_put_u32 4 VERSION (field_put_u32 0 MAGIC (replicate ?n 0))) =
      ?a @ replicate (?n - 16) 0"
    using splice_next [of "[]" 0 "to_be_bytes 4 MAGIC" ?n] splice_next [of "to_be_bytes 4 MAGIC" 4 "to_be_bytes 4 VERSION" "?n - 4"]
      splice_next [of "to_be_bytes 4 MAGIC @ to_be_bytes 4 VERSION" 8 "to_be_bytes 8 (sb_seq s)" "?n - 8"]
    by (simp add: field_put_u32_def field_put_u64_def layout)
  have head: "field_put_u32 AT_ROSTER (of_nat (length ?r)) (put_copies 0 (sb_copies s) (?a @ replicate (?n - 16) 0)) =
      slot_head s @ replicate (?n - 40) 0"
    using put_copies_grow [of 0 ?a "sb_copies s" "?n - 16"] fit
      splice_next [of "?a @ enc_copies (sb_copies s)" AT_ROSTER "to_be_bytes 4 (of_nat (length ?r) :: u32)" "?n - 36"]
    by (simp add: field_put_u32_def layout slot_head_def)
  have roster: "put_roster (AT_ROSTER + 4) ?r (slot_head s @ replicate (?n - 40) 0) =
      Ok ((slot_head s @ enc_roster ?r) @ replicate (?n - 40 - length (enc_roster ?r)) 0)"
    using fit length_slot_pre(1) [OF assms] by (intro put_roster_grow) (simp_all add: layout)
  have progress: "put_progress (sb_progress s) ((slot_head s @ enc_roster ?r) @ replicate (?n - 40 - length (enc_roster ?r)) 0) =
      (slot_pre s @ enc_progress (sb_progress s)) @ replicate (?n - 4193) 0"
    using put_progress_grow [of "slot_head s @ enc_roster ?r" ?g "?n - 40 - length (enc_roster ?r)" "sb_progress s"]
      fit framed_pos [of ?r] length_slot_pre(1) [OF assms]
    by (simp add: layout slot_pre_def)
  have tail: "field_put_u64 AT_BYTES (sb_bytes s) (field_put_u64 AT_COUNT (sb_count s) (field_put_u64 AT_BASE (sb_base s)
      ((slot_pre s @ enc_progress (sb_progress s)) @ replicate (?n - 4193) 0))) = slot_body s @ replicate 8 0"
    using length_slot_pre(2) [OF assms]
      splice_next [of "slot_pre s @ enc_progress (sb_progress s)" AT_BASE "to_be_bytes 8 (sb_base s)" 32]
      splice_next [of "slot_pre s @ enc_progress (sb_progress s) @ to_be_bytes 8 (sb_base s)" AT_COUNT "to_be_bytes 8 (sb_count s)" 24]
      splice_next [of "slot_pre s @ enc_progress (sb_progress s) @ to_be_bytes 8 (sb_base s) @ to_be_bytes 8 (sb_count s)"
        AT_BYTES "to_be_bytes 8 (sb_bytes s)" 16]
    by (simp add: field_put_u64_def layout slot_body_def slot_tail_def)
  have last: "field_put_u64 AT_CHECKSUM (fnv1a (take AT_CHECKSUM (slot_body s @ replicate 8 0))) (slot_body s @ replicate 8 0) = enc_slot s"
    using splice_next [of "slot_body s" AT_CHECKSUM "to_be_bytes 8 (fnv1a (slot_body s))" 8] length_slot_pre(3) [OF assms]
    by (simp add: field_put_u64_def enc_slot_def)
  show ?thesis
    using fit(1) unfolding encode_slot_def start Let_def head roster rbind.simps progress tail last by (simp add: layout)
qed


section \<open>A slot read back\<close>

lemma field_u32_here: "buf = p @ to_be_bytes 4 w @ q \<Longrightarrow> length p = a \<Longrightarrow> field_u32 buf a = w"
  by (simp add: field_u32_def slice_def word_bytes)

lemma field_u64_here: "buf = p @ to_be_bytes 8 w @ q \<Longrightarrow> length p = a \<Longrightarrow> field_u64 buf a = w"
  by (simp add: field_u64_def slice_def word_bytes)

lemma take_enc_slot: "slot_ok s \<Longrightarrow> take AT_CHECKSUM (enc_slot s) = slot_body s"
  using length_slot_pre(3) [of s] by (simp add: enc_slot_def)

lemma slot_head_fields:
  assumes "slot_ok s"
  shows "field_u32 (enc_slot s) 0 = MAGIC" "field_u32 (enc_slot s) 4 = VERSION" "field_u64 (enc_slot s) AT_SEQ = sb_seq s"
    "field_u32 (enc_slot s) AT_ROSTER = of_nat (length (sb_roster s))" "field_u64 (enc_slot s) AT_CHECKSUM = fnv1a (slot_body s)"
proof -
  let ?rest = "enc_copies (sb_copies s) @ to_be_bytes 4 (of_nat (length (sb_roster s)) :: u32) @ enc_roster (sb_roster s)
    @ replicate (ROSTER_AREA - framed_roster (sb_roster s)) 0 @ slot_tail s @ to_be_bytes 8 (fnv1a (slot_body s))"
  have e: "enc_slot s = to_be_bytes 4 MAGIC @ to_be_bytes 4 VERSION @ to_be_bytes 8 (sb_seq s) @ ?rest"
    by (simp add: enc_slot_def slot_body_def slot_pre_def slot_head_def)
  show "field_u32 (enc_slot s) 0 = MAGIC" by (rule field_u32_here [of _ "[]"]) (simp_all add: e)
  show "field_u32 (enc_slot s) 4 = VERSION" by (rule field_u32_here [of _ "to_be_bytes 4 MAGIC"]) (simp_all add: e)
  show "field_u64 (enc_slot s) AT_SEQ = sb_seq s"
    by (rule field_u64_here [of _ "to_be_bytes 4 MAGIC @ to_be_bytes 4 VERSION"]) (simp_all add: e layout)
  show "field_u32 (enc_slot s) AT_ROSTER = of_nat (length (sb_roster s))"
    using assms by (intro field_u32_here [of _ "to_be_bytes 4 MAGIC @ to_be_bytes 4 VERSION @ to_be_bytes 8 (sb_seq s)
        @ enc_copies (sb_copies s)"]) (simp_all add: e layout slot_ok_def)
  show "field_u64 (enc_slot s) AT_CHECKSUM = fnv1a (slot_body s)"
    using length_slot_pre(3) [OF assms]
    by (intro field_u64_here [of _ "slot_body s" _ "[]"]) (simp_all add: enc_slot_def)
qed

lemma slot_tail_fields:
  assumes "slot_ok s"
  shows "progress_at (enc_slot s) = Some (sb_progress s)" "field_u64 (enc_slot s) AT_BASE = sb_base s"
    "field_u64 (enc_slot s) AT_COUNT = sb_count s" "field_u64 (enc_slot s) AT_BYTES = sb_bytes s"
proof -
  let ?p = "sb_progress s"
  let ?fin = "to_be_bytes 8 (sb_base s) @ to_be_bytes 8 (sb_count s) @ to_be_bytes 8 (sb_bytes s) @ to_be_bytes 8 (fnv1a (slot_body s))"
  have e: "enc_slot s = slot_pre s @ enc_progress ?p @ ?fin" by (simp add: enc_slot_def slot_body_def slot_tail_def)
  note len = length_slot_pre(2) [OF assms]
  have sl: "slice a n (enc_slot s) = slice (a - 4132) n (enc_progress ?p @ ?fin)" if "4132 \<le> a" for a n
    using that by (simp add: e slice_skip len)
  have b: "enc_slot s ! AT_FAULT = (case pp_fault ?p of None \<Rightarrow> 0 | Some f \<Rightarrow> fault_word f)"
    by (simp add: e nth_skip len layout enc_progress_def)
  have f: "(if enc_slot s ! AT_FAULT = 0 then Some None else map_option Some (fault_from_word (enc_slot s ! AT_FAULT))) = Some (pp_fault ?p)"
  proof (cases "pp_fault ?p")
    case (Some f)
    then show ?thesis by (cases f) (simp_all add: b fault_from_word_def)
  qed (simp add: b)
  have st: "from_word (to_word (pp_status ?p)) = Some (pp_status ?p)" by (cases "pp_status ?p") (simp_all add: from_word_def)
  have fields: "field_u32 (enc_slot s) AT_CURRENT = b_era (pp_current ?p)" "field_u32 (enc_slot s) (AT_CURRENT + 4) = b_view (pp_current ?p)"
    "field_u32 (enc_slot s) AT_RETAINED = b_era (pp_retained ?p)" "field_u32 (enc_slot s) (AT_RETAINED + 4) = b_view (pp_retained ?p)"
    "field_u32 (enc_slot s) AT_STATUS = to_word (pp_status ?p)" "field_u64 (enc_slot s) AT_ACCEPTED = pp_accepted ?p"
    "field_u64 (enc_slot s) AT_COMMITTED = pp_committed ?p" "field_u64 (enc_slot s) AT_APPLIED = pp_applied ?p"
    "field_u64 (enc_slot s) AT_CHECKPOINT = pp_checkpoint ?p" "field_u64 (enc_slot s) AT_REVISION = pp_revision ?p"
    by (simp_all add: sl layout enc_progress_def field_u32_def field_u64_def slice_skip slice_here word_bytes)
  have "Ballot (b_era (pp_current ?p)) (b_view (pp_current ?p)) = pp_current ?p" "Ballot (b_era (pp_retained ?p)) (b_view (pp_retained ?p)) = pp_retained ?p"
    by (cases "pp_current ?p"; simp) (cases "pp_retained ?p"; simp)
  then show "progress_at (enc_slot s) = Some ?p"
    unfolding progress_at_def f fields st by simp
  show "field_u64 (enc_slot s) AT_BASE = sb_base s" "field_u64 (enc_slot s) AT_COUNT = sb_count s" "field_u64 (enc_slot s) AT_BYTES = sb_bytes s"
    by (simp_all add: sl layout field_u64_def slice_skip slice_here word_bytes)
qed

lemma marker_from_word_word: "marker_from_word (marker_word m) = Some m"
  by (cases m) (simp_all add: marker_from_word_def)

lemma copy_at_slot:
  assumes "slot_ok s" "i < 4"
  shows "copy_at (enc_slot s) i = Some (sb_copies s ! i)"
proof -
  obtain c0 c1 c2 c3 where cs: "sb_copies s = [c0, c1, c2, c3]"
    using assms(1) by (auto simp: slot_ok_def length_Suc_conv numeral_eq_Suc)
  let ?a = "to_be_bytes 4 MAGIC @ to_be_bytes 4 VERSION @ to_be_bytes 8 (sb_seq s)"
  obtain rest where "enc_slot s = ?a @ enc_copies (sb_copies s) @ rest"
    by (simp add: enc_slot_def slot_body_def slot_pre_def slot_head_def)
  then have e: "enc_slot s = ?a @ to_be_bytes 4 (cs_identity c0) @ marker_word (cs_marker c0) # to_be_bytes 4 (cs_identity c1)
      @ marker_word (cs_marker c1) # to_be_bytes 4 (cs_identity c2) @ marker_word (cs_marker c2) # to_be_bytes 4 (cs_identity c3)
      @ marker_word (cs_marker c3) # rest"
    by (simp add: cs enc_copies_def)
  have i: "i = 0 \<or> i = 1 \<or> i = 2 \<or> i = 3" using assms(2) by auto
  have eta: "\<lparr>cs_identity = cs_identity c, cs_marker = cs_marker c\<rparr> = c" for c :: copy_state by (cases c) simp
  have skip1: "slice a n (b # q) = slice (a - 1) n q" if "0 < a" for a n and b :: u8 and q
    using that slice_skip [of "[b]" a n q] by simp
  show ?thesis
    using i by (elim disjE)
      (simp_all add: copy_at_def e cs layout field_u32_def slice_skip slice_here skip1 nth_skip word_bytes marker_from_word_word eta)
qed

lemma copies_read: "slot_ok s \<Longrightarrow> those (map (copy_at (enc_slot s)) [0, 1, 2, 3]) = Some (sb_copies s)"
  using copy_at_slot [of s 0] copy_at_slot [of s 1] copy_at_slot [of s 2] copy_at_slot [of s 3]
  by (auto simp: slot_ok_def length_Suc_conv numeral_eq_Suc nth_Cons)

lemma roster_from_enc:
  "buf = p @ enc_roster names @ q \<Longrightarrow> length p = a \<Longrightarrow> a + length (enc_roster names) \<le> AT_ROSTER + ROSTER_AREA \<Longrightarrow>
   distinct (seen @ names) \<Longrightarrow> (\<forall>nm \<in> set names. nm \<noteq> [] \<and> list_all graphic nm) \<Longrightarrow>
   roster_from (length names) a buf seen = Some (seen @ names)"
proof (induction names arbitrary: p a seen)
  case (Cons nm names)
  let ?len = "of_nat (length nm) :: u32"
  have fit: "a + 4 + length nm + length (enc_roster names) \<le> 4132" using Cons.prems(3) by (simp add: layout enc_roster_def)
  have buf: "buf = p @ to_be_bytes 4 ?len @ nm @ enc_roster names @ q" using Cons.prems(1) by (simp add: enc_roster_def)
  have len: "unat (field_u32 buf a) = length nm"
    using field_u32_here [OF buf Cons.prems(2)] fit by (simp add: unat_of_nat)
  have name: "slice (a + 4) (length nm) buf = nm" using Cons.prems(2) by (simp add: buf slice_def)
  have ok: "name_checked nm seen = Some nm" using Cons.prems(4,5) by (auto simp: name_checked_def)
  have "roster_from (length names) (a + 4 + length nm) buf (seen @ [nm]) = Some ((seen @ [nm]) @ names)"
    using Cons.prems fit by (intro Cons.IH [of "p @ to_be_bytes 4 ?len @ nm"]) (simp_all add: buf layout)
  then show ?case using len name ok fit by (simp add: Let_def layout)
qed simp

lemma decode_encoded_slot:
  assumes "slot_ok s"
  shows "decode_slot (enc_slot s) = Some s"
proof -
  have fit: "framed_roster (sb_roster s) \<le> 4096" "roster_ok (sb_roster s)" using assms by (simp_all add: slot_ok_def roster_ok_def layout)
  have few: "4 * length names \<le> length (enc_roster names)" for names by (induction names) (simp_all add: enc_roster_def)
  have n: "unat (field_u32 (enc_slot s) AT_ROSTER) = length (sb_roster s)"
    using slot_head_fields(4) [OF assms] few [of "sb_roster s"] length_enc_roster [of "sb_roster s"] fit(1) by (simp add: unat_of_nat)
  have roster: "roster_from (length (sb_roster s)) (AT_ROSTER + 4) (enc_slot s) [] = Some ([] @ sb_roster s)"
    using fit length_slot_pre(1) [OF assms] length_enc_roster [of "sb_roster s"]
    by (intro roster_from_enc [of _ "slot_head s"]) (auto simp: enc_slot_def slot_body_def slot_pre_def layout roster_ok_def)
  note heads = slot_head_fields(1,2,3,5) [OF assms] n roster [unfolded append_Nil] copies_read [OF assms] take_enc_slot [OF assms]
  show ?thesis unfolding decode_slot_def heads slot_tail_fields [OF assms] by simp
qed


section \<open>The checksum sees one changed byte\<close>

lemma fnv_prime_cancel: "x * 0x100000001b3 = y * 0x100000001b3 \<longleftrightarrow> x = (y :: u64)"
proof
  assume eq: "x * 0x100000001b3 = y * 0x100000001b3"
  have one: "(0x100000001b3 :: u64) * 0xce965057aff6957b = 1" by simp
  have "x * 0x100000001b3 * 0xce965057aff6957b = y * 0x100000001b3 * 0xce965057aff6957b" by (simp only: eq)
  then show "x = y" by (simp only: mult.assoc one mult_1_right)
qed simp

lemma xor_left_iff: "h XOR x = h XOR y \<longleftrightarrow> x = (y :: 'a::len word)"
proof
  assume "h XOR x = h XOR y"
  then have "h XOR (h XOR x) = h XOR (h XOR y)" by simp
  then show "x = y" by (simp add: xor.assoc [symmetric])
qed simp

lemma wide_byte: "(ucast b :: u64) = ucast b' \<longleftrightarrow> b = (b' :: u8)"
proof
  assume eq: "(ucast b :: u64) = ucast b'"
  have "ucast (ucast x :: u64) = x" for x :: u8 by (rule bit_word_eqI) (simp add: bit_ucast_iff)
  then show "b = b'" using eq by metis
qed simp

lemma fnv_step_hash: "fnv_step h b = fnv_step h' b \<longleftrightarrow> h = h'"
  unfolding fnv_step_def fnv_prime_cancel by (metis xor.commute xor_left_iff)

lemma fnv_step_byte: "fnv_step h b = fnv_step h b' \<longleftrightarrow> b = b'"
  unfolding fnv_step_def fnv_prime_cancel xor_left_iff wide_byte by (rule refl)

lemma fnv_fold_hash: "foldl fnv_step h bs = foldl fnv_step h' bs \<longleftrightarrow> h = h'"
  by (induction bs arbitrary: h h') (simp_all add: fnv_step_hash)

lemma fnv1a_one_byte:
  assumes "i < length bs" "b \<noteq> bs ! i"
  shows "fnv1a (bs[i := b]) \<noteq> fnv1a bs"
proof -
  have "fnv1a (bs[i := b]) = foldl fnv_step (fnv_step (fnv1a (take i bs)) b) (drop (Suc i) bs)"
    using assms(1) by (simp add: fnv1a_def upd_conv_take_nth_drop)
  moreover have "fnv1a bs = foldl fnv_step (fnv_step (fnv1a (take i bs)) (bs ! i)) (drop (Suc i) bs)"
    using assms(1) by (subst id_take_nth_drop [OF assms(1)]) (simp add: fnv1a_def)
  ultimately show ?thesis using assms(2) by (simp add: fnv_fold_hash fnv_step_byte)
qed

lemma from_be_bytes_8_inj: "length xs = 8 \<Longrightarrow> length ys = 8 \<Longrightarrow> (from_be_bytes xs :: u64) = from_be_bytes ys \<longleftrightarrow> xs = ys"
  using be_word_iff [of 8 xs "from_be_bytes ys :: u64"] be_word_iff [of 8 ys "from_be_bytes ys :: u64"] by auto

lemma changed_slot_refused:
  assumes "slot_ok s" "i < HEADER_SIZE" "b \<noteq> enc_slot s ! i"
  shows "decode_slot ((enc_slot s)[i := b]) = None"
proof -
  let ?e = "enc_slot s" and ?f = "(enc_slot s)[i := b]"
  note len = length_slot_pre(3,4) [OF assms(1)]
  have chk: "field_u64 ?e AT_CHECKSUM = fnv1a (take AT_CHECKSUM ?e)"
    using slot_head_fields(5) [OF assms(1)] take_enc_slot [OF assms(1)] by simp
  have "field_u64 ?f AT_CHECKSUM \<noteq> fnv1a (take AT_CHECKSUM ?f)"
  proof (cases "i < AT_CHECKSUM")
    case True
    then have "slice AT_CHECKSUM 8 ?f = slice AT_CHECKSUM 8 ?e" by (simp add: slice_def)
    moreover have "fnv1a (take AT_CHECKSUM ?f) \<noteq> fnv1a (take AT_CHECKSUM ?e)"
      using True len assms(3) fnv1a_one_byte [of i "take AT_CHECKSUM ?e" b] by (simp add: take_update_swap layout)
    ultimately show ?thesis using chk by (simp add: field_u64_def)
  next
    case False
    then have same: "take AT_CHECKSUM ?f = take AT_CHECKSUM ?e" by simp
    have parts: "slice AT_CHECKSUM 8 ?f = (drop AT_CHECKSUM ?e)[i - AT_CHECKSUM := b]" "slice AT_CHECKSUM 8 ?e = drop AT_CHECKSUM ?e"
      using False len by (simp_all add: slice_def drop_update_swap layout)
    have "(drop AT_CHECKSUM ?e)[i - AT_CHECKSUM := b] \<noteq> drop AT_CHECKSUM ?e"
    proof
      assume "(drop AT_CHECKSUM ?e)[i - AT_CHECKSUM := b] = drop AT_CHECKSUM ?e"
      then have "(drop AT_CHECKSUM ?e)[i - AT_CHECKSUM := b] ! (i - AT_CHECKSUM) = drop AT_CHECKSUM ?e ! (i - AT_CHECKSUM)" by simp
      then show False using False assms(2,3) len by (simp add: layout)
    qed
    then have "field_u64 ?f AT_CHECKSUM \<noteq> field_u64 ?e AT_CHECKSUM"
      unfolding field_u64_def parts using len by (subst from_be_bytes_8_inj) (simp_all add: layout)
    then show ?thesis using same chk by simp
  qed
  then show ?thesis by (simp add: decode_slot_def)
qed


section \<open>Regions of frames\<close>

definition frame_bytes :: "log_entry \<Rightarrow> u8 list" where
  "frame_bytes e = to_be_bytes 4 (of_nat (length (enc_entry e)) :: u32) @ enc_entry e"

definition region_of :: "log_entry list \<Rightarrow> u8 list" where
  "region_of es = concat (map frame_bytes es)"

definition mirror_entry :: "nat \<Rightarrow> log_entry \<Rightarrow> durable_entry" where
  "mirror_entry a e = \<lparr>de_offset = of_nat a, de_len = of_nat (length (frame_bytes e)), de_digest = fnv1a (enc_entry e)\<rparr>"

fun mirror_of :: "nat \<Rightarrow> log_entry list \<Rightarrow> durable_entry list" where
  "mirror_of a [] = []"
| "mirror_of a (e # es) = mirror_entry a e # mirror_of (a + length (frame_bytes e)) es"

definition entry_fits :: "nat \<Rightarrow> log_entry \<Rightarrow> bool" where
  "entry_fits depth e \<longleftrightarrow> entry_valid depth e \<and> length (enc_entry e) < 2 ^ 32"

fun numbered :: "slot \<Rightarrow> nat \<Rightarrow> log_entry list \<Rightarrow> bool" where
  "numbered base n [] = True"
| "numbered base n (e # es) = (le_slot e = base + of_nat n \<and> numbered base (n + 1) es)"

lemma length_frame_bytes [simp]: "length (frame_bytes e) = 4 + length (enc_entry e)"
  by (simp add: frame_bytes_def)

lemma region_of_simps [simp]:
  "region_of [] = []" "region_of (e # es) = frame_bytes e @ region_of es" "region_of (es @ fs) = region_of es @ region_of fs"
  by (simp_all add: region_of_def)

lemma length_mirror_of [simp]: "length (mirror_of a es) = length es"
  by (induction es arbitrary: a) simp_all

lemma mirror_of_append [simp]: "mirror_of a (es @ fs) = mirror_of a es @ mirror_of (a + length (region_of es)) fs"
  by (induction es arbitrary: a) (simp_all add: add.assoc)

lemma take_mirror_of: "take k (mirror_of a es) = mirror_of a (take k es)"
  by (induction es arbitrary: a k) (simp_all add: take_Cons split: nat.splits)

lemma numbered_append [simp]: "numbered base n (es @ fs) \<longleftrightarrow> numbered base n es \<and> numbered base (n + length es) fs"
  by (induction es arbitrary: n) simp_all

lemma numbered_take: "numbered base n es \<Longrightarrow> numbered base n (take k es)"
  by (metis append_take_drop_id numbered_append)

lemma nth_numbered: "numbered base n es \<Longrightarrow> i < length es \<Longrightarrow> le_slot (es ! i) = base + of_nat (n + i)"
proof (induction es arbitrary: n i)
  case (Cons e es)
  then show ?case using Cons.IH [of "n + 1" "i - 1"] by (cases i) simp_all
qed simp

lemma nth_mirror_of: "i < length es \<Longrightarrow> de_digest (mirror_of a es ! i) = fnv1a (enc_entry (es ! i))"
  by (induction es arbitrary: a i) (simp_all add: nth_Cons mirror_entry_def split: nat.splits)

lemma wide_u32: "n < 2 ^ 32 \<Longrightarrow> (ucast (of_nat n :: u32) :: u64) = of_nat n"
  by (intro unsigned_word_eqI [where ?'a = nat]) (simp add: unsigned_ucast_eq unat_of_nat take_bit_eq_mod)

lemma mirror_end_of:
  assumes "length (region_of es) < 2 ^ 32"
  shows "mirror_end (mirror_of 0 es) = of_nat (length (region_of es))"
proof (cases es rule: rev_cases)
  case (snoc fs e)
  then have "4 + length (enc_entry e) < 2 ^ 32" using assms by simp
  then have "(ucast (of_nat (4 + length (enc_entry e)) :: u32) :: u64) = of_nat (4 + length (enc_entry e))" by (rule wide_u32)
  then show ?thesis using snoc by (simp add: mirror_end_def mirror_entry_def)
qed (simp add: mirror_end_def)

lemma packed_entry_fits: "entry_fits depth e \<Longrightarrow> packed_entry e = Ok (enc_entry e)"
  by (simp add: packed_entry_def entry_fits_def entry_codec.len_enc [of depth] entry_codec.pack_into_fits [of depth])

lemma digest_of_fits: "entry_fits depth e \<Longrightarrow> digest_of e = Ok (fnv1a (enc_entry e))"
  by (simp add: digest_of_def packed_entry_fits)

lemma entry_frame_valid:
  "entry_valid depth e \<Longrightarrow> entry_frame e = (if length (enc_entry e) < 2 ^ 32 then Ok (frame_bytes e) else Err SR_EntryTooLong)"
  using packed_entry_fits [of depth e]
  by (simp add: entry_frame_def entry_codec.len_enc [of depth] frame_bytes_def entry_fits_def)

text \<open>One frame at a position.\<close>

lemma decode_from_frame:
  assumes "drop a region = frame_bytes e @ rest" "entry_fits depth e" "length region < 2 ^ 63"
  shows "decode_from depth region base n (Suc k) a =
    (if le_slot e \<noteq> base + of_nat n then Err (RE_NotContiguous n)
     else rbind (decode_from depth region base (n + 1) k (a + length (frame_bytes e))) (\<lambda>(entries, mirror).
       Ok (e # entries, mirror_entry a e # mirror)))"
proof -
  let ?len = "length (enc_entry e)"
  have "length (drop a region) = 4 + ?len + length rest" using assms(1) by simp
  then have fit: "a + 4 + ?len \<le> length region" by simp
  have "field_u32 region a = of_nat ?len"
    using assms(1) by (simp add: field_u32_def slice_def frame_bytes_def word_bytes)
  then have len: "unat (field_u32 region a) = ?len" using assms(2) by (simp add: entry_fits_def unat_of_nat)
  have "drop (a + 4) region = enc_entry e @ rest"
    using assms(1) by (simp add: drop_drop [symmetric] add.commute [of a] frame_bytes_def del: drop_drop)
  then have body: "slice (a + 4) ?len region = enc_entry e" by (simp add: slice_def)
  have "unpack_from (unpack_entry depth) (enc_entry e) = Some (Ok e)"
    using assms(2,3) fit by (subst entry_codec.unpack_from_iff) (simp_all add: entry_fits_def)
  then show ?thesis
    using fit by (simp add: Let_def len body mirror_entry_def add.commute [of 4] add.assoc del: of_nat_add)
qed

lemma decode_from_iff:
  assumes "length region < 2 ^ 63"
  shows "decode_from depth region base n k a = Ok (es, ms) \<longleftrightarrow>
    length es = k \<and> a \<le> length region \<and> drop a region = region_of es \<and> ms = mirror_of a es
    \<and> list_all (entry_fits depth) es \<and> numbered base n es"
proof (induction k arbitrary: n a es ms)
  case (Suc k)
  have ih: "decode_from depth region base m k b = Ok (fs, ns) \<longleftrightarrow>
    length fs = k \<and> b \<le> length region \<and> drop b region = region_of fs \<and> ns = mirror_of b fs
    \<and> list_all (entry_fits depth) fs \<and> numbered base m fs" for m b fs ns
    by (rule Suc.IH)
  show ?case
  proof
    assume ok: "decode_from depth region base n (Suc k) a = Ok (es, ms)"
    let ?len = "unat (field_u32 region a)" and ?body = "slice (a + 4) (unat (field_u32 region a)) region"
    have fit: "a + 4 \<le> length region" "a + 4 + ?len \<le> length region"
      using ok by (auto simp: Let_def split: if_splits)
    then obtain e where e: "unpack_from (unpack_entry depth) ?body = Some (Ok e)"
      using ok by (auto simp: Let_def split: if_splits option.splits sum.splits)
    have lbody: "length ?body = ?len" using fit by (simp add: slice_def)
    have "length ?body < 2 ^ 63" using assms lbody fit by simp
    then have val: "entry_valid depth e" "?body = enc_entry e" using entry_codec.unpack_from_iff e by blast+
    have fits: "entry_fits depth e" using val lbody unsigned_less [of "field_u32 region a", where ?'a = nat] by (simp add: entry_fits_def)
    have word: "slice a 4 region = to_be_bytes 4 (field_u32 region a)"
      using be_word_iff [of 4 "slice a 4 region" "field_u32 region a"] fit by (simp add: field_u32_def slice_def)
    have "drop a region = slice a 4 region @ ?body @ drop (a + 4 + ?len) region"
      by (simp add: slice_def) (metis add.commute append_take_drop_id drop_drop)
    then have cut: "drop a region = frame_bytes e @ drop (a + 4 + ?len) region"
      using lbody val by (simp add: word frame_bytes_def)
    from ok [unfolded decode_from_frame [OF this fits assms, of base n k]]
    obtain fs ns where sub: "decode_from depth region base (n + 1) k (a + length (frame_bytes e)) = Ok (fs, ns)"
      "es = e # fs" "ms = mirror_entry a e # ns" "le_slot e = base + of_nat n"
      by (auto split: if_splits)
    show "length es = Suc k \<and> a \<le> length region \<and> drop a region = region_of es \<and> ms = mirror_of a es
      \<and> list_all (entry_fits depth) es \<and> numbered base n es"
      using sub(1) [unfolded ih] sub(2-) cut fits fit lbody val by (simp add: add.assoc)
  next
    assume *: "length es = Suc k \<and> a \<le> length region \<and> drop a region = region_of es \<and> ms = mirror_of a es
      \<and> list_all (entry_fits depth) es \<and> numbered base n es"
    then obtain e fs where es: "es = e # fs" by (cases es) auto
    have region: "drop a region = frame_bytes e @ region_of fs" using * es by simp
    then have "length (drop a region) = length (frame_bytes e) + length (region_of fs)" by simp
    then have fit: "a + length (frame_bytes e) \<le> length region" by simp
    have rest: "drop (a + length (frame_bytes e)) region = region_of fs"
      by (metis add.commute append_eq_conv_conj drop_drop region)
    show "decode_from depth region base n (Suc k) a = Ok (es, ms)"
      using decode_from_frame [OF region _ assms, of depth base n k] ih [of "n + 1" "a + length (frame_bytes e)" fs] * es fit rest
      by (simp del: decode_from.simps length_frame_bytes)
  qed
qed auto

end
