(* ===== verification/State_File_Commit.thy ===== *)
theory State_File_Commit
  imports State_File_Props
begin

text \<open>
  A commit on a disk that keeps what was forced: a power cut may leave anything in the ranges written
  since. The phases a commit goes through, and what each leaves for a load to read.
\<close>

section \<open>A disk\<close>

text \<open>\<open>dk_left\<close> is how many operations the host still survives.\<close>

record disk =
  dk_file :: "u8 list option"
  dk_forced :: "u8 list"
  dk_dirty :: "(nat \<times> nat) list"
  dk_named :: bool
  dk_temp :: "u8 list"
  dk_temp_forced :: bool
  dk_left :: nat

definition overwrite :: "nat \<Rightarrow> u8 list \<Rightarrow> u8 list \<Rightarrow> u8 list" where
  "overwrite a bs f = take a (f @ replicate (a - length f) 0) @ bs @ drop (a + length bs) f"

definition contents :: "disk \<Rightarrow> u8 list" where
  "contents d = (case dk_file d of None \<Rightarrow> [] | Some f \<Rightarrow> f)"

definition spend :: "(disk \<Rightarrow> disk) \<Rightarrow> (disk \<Rightarrow> disk) \<Rightarrow> disk \<Rightarrow> bool \<times> disk" where
  "spend ok lost d = (if dk_left d = 0 then (False, lost d) else (True, (ok d)\<lparr>dk_left := dk_left d - 1\<rparr>))"

definition disk_write :: "nat \<Rightarrow> u8 list \<Rightarrow> disk \<Rightarrow> bool \<times> disk" where
  "disk_write a bs =
     (let write = \<lambda>d. d\<lparr>dk_file := Some (overwrite a bs (contents d)), dk_dirty := (a, length bs) # dk_dirty d\<rparr>
      in spend write write)"

definition disk_sync :: "disk \<Rightarrow> bool \<times> disk" where
  "disk_sync = spend (\<lambda>d. d\<lparr>dk_forced := contents d, dk_dirty := []\<rparr>) (\<lambda>d. d)"

definition disk_ops :: "disk file_ops" where
  "disk_ops =
     \<lparr>fo_read = (\<lambda>d. case dk_file d of None \<Rightarrow> Read_Absent | Some f \<Rightarrow> Read_Bytes f),
      fo_open = spend (\<lambda>d. d) (\<lambda>d. d),
      fo_write_at = disk_write,
      fo_sync = disk_sync,
      fo_write_temp = (\<lambda>bs. spend (\<lambda>d. d\<lparr>dk_temp := bs, dk_temp_forced := False\<rparr>) (\<lambda>d. d)),
      fo_sync_temp = spend (\<lambda>d. d\<lparr>dk_temp_forced := True\<rparr>) (\<lambda>d. d),
      fo_rename = spend (\<lambda>d. d\<lparr>dk_file := Some (dk_temp d), dk_forced := dk_temp d,
                     dk_dirty := (if dk_temp_forced d then [] else [(0, length (dk_temp d))]), dk_named := False\<rparr>) (\<lambda>d. d),
      fo_sync_dir = spend (\<lambda>d. d\<lparr>dk_named := True\<rparr>) (\<lambda>d. d)\<rparr>"

text \<open>What a reader may find after a power cut: the forced bytes outside the dirty ranges.\<close>

definition survives :: "disk \<Rightarrow> u8 list option \<Rightarrow> bool" where
  "survives d img =
     (case img of
        None \<Rightarrow> dk_file d = None \<or> \<not> dk_named d
      | Some c \<Rightarrow> dk_file d \<noteq> None \<and> length (dk_forced d) \<le> length c
          \<and> (\<forall>i < length (dk_forced d). (\<forall>(a, n) \<in> set (dk_dirty d). \<not> (a \<le> i \<and> i < a + n)) \<longrightarrow> c ! i = dk_forced d ! i))"

definition at_rest :: "disk \<Rightarrow> bool" where
  "at_rest d \<longleftrightarrow> dk_file d = Some (dk_forced d) \<and> dk_dirty d = [] \<and> dk_named d"


section \<open>The active slot\<close>

definition slot_image :: "u8 list \<Rightarrow> side \<Rightarrow> u8 list" where
  "slot_image b side = slice (side_at side) HEADER_SIZE b"

lemma active_slot_images:
  "active_slot b =
     (case (decode_slot (slot_image b Side_A), decode_slot (slot_image b Side_B)) of
        (Some s, Some t) \<Rightarrow> Some (if sb_seq s \<ge> sb_seq t then (s, Side_A) else (t, Side_B))
      | (Some s, None) \<Rightarrow> Some (s, Side_A) | (None, Some t) \<Rightarrow> Some (t, Side_B) | (None, None) \<Rightarrow> None)"
  by (simp add: active_slot_def slot_image_def slice_def)

lemma active_slot_decodes: "active_slot b = Some (s, side) \<Longrightarrow> decode_slot (slot_image b side) = Some s"
  by (auto simp: active_slot_images split: option.splits if_splits)

lemma active_keep:
  assumes "active_slot b = Some (s, side)" "slot_image c side = slot_image b side"
    "decode_slot (slot_image c (side_flip side)) \<in> {None, decode_slot (slot_image b (side_flip side))}"
  shows "active_slot c = Some (s, side)"
  using assms by (cases side) (auto simp: active_slot_images split: option.splits if_splits)

lemma active_new:
  assumes "decode_slot (slot_image c side) = Some s" "decode_slot (slot_image c (side_flip side)) = Some t" "sb_seq s < sb_seq t"
  shows "active_slot c = Some (t, side_flip side)"
  using assms by (cases side) (auto simp: active_slot_images)

lemma roster_from_ok:
  "roster_from n a buf seen = Some names \<Longrightarrow> distinct seen \<Longrightarrow> \<forall>nm \<in> set seen. nm \<noteq> [] \<and> list_all graphic nm \<Longrightarrow>
   distinct names \<and> (\<forall>nm \<in> set names. nm \<noteq> [] \<and> list_all graphic nm)"
proof (induction n arbitrary: a seen)
  case (Suc n)
  let ?stop = "a + 4 + unat (field_u32 buf a)"
  obtain nm where nm: "nm \<noteq> []" "list_all graphic nm" "nm \<notin> set seen" "roster_from n ?stop buf (seen @ [nm]) = Some names"
    using Suc.prems(1) by (auto simp: Let_def name_checked_def split: if_splits option.splits)
  show ?case by (rule Suc.IH [OF nm(4)]) (use nm(1-3) Suc.prems(2,3) in auto)
qed auto


section \<open>Writes and images\<close>

lemma length_overwrite: "length (overwrite a bs f) = max (length f) (a + length bs)"
  by (auto simp: overwrite_def max_def min_def)

lemma nth_overwrite:
  "i < length f \<Longrightarrow> \<not> (a \<le> i \<and> i < a + length bs) \<Longrightarrow> overwrite a bs f ! i = f ! i"
  by (auto simp: overwrite_def nth_append min_def)

lemma slice_overwrite_here: "slice a (length bs) (overwrite a bs f) = bs"
  by (simp add: overwrite_def slice_def min_def)

lemma slice_eq_nth:
  "x + n \<le> length b \<Longrightarrow> x + n \<le> length c \<Longrightarrow> (\<And>i. x \<le> i \<Longrightarrow> i < x + n \<Longrightarrow> c ! i = b ! i) \<Longrightarrow> slice x n c = slice x n b"
  by (rule nth_equalityI) (auto simp: slice_def)

lemma slice_overwrite_other:
  "x + n \<le> length f \<Longrightarrow> x + n \<le> a \<or> a + length bs \<le> x \<Longrightarrow> slice x n (overwrite a bs f) = slice x n f"
  by (rule slice_eq_nth) (auto simp: length_overwrite intro!: nth_overwrite)

lemma slice_split: "slice x (n + m) b = slice x n b @ slice (x + n) m b"
  by (simp add: slice_def take_add add.commute [of x])

lemma side_room: "side_at s + HEADER_SIZE \<le> ENTRIES_BASE"
  by (cases s) (simp_all add: layout)

lemma side_apart: "side_at s + HEADER_SIZE \<le> side_at (side_flip s) \<or> side_at (side_flip s) + HEADER_SIZE \<le> side_at s"
  by (cases s) simp_all

lemma side_flip_flip [simp]: "side_flip (side_flip s) = s"
  by (cases s) simp_all


section \<open>What a file is read as\<close>

definition counted :: "u8 list \<Rightarrow> slot_bytes \<Rightarrow> u8 list" where
  "counted b s = slice ENTRIES_BASE (unat (sb_bytes s)) b"

definition state_of :: "slot_bytes \<Rightarrow> log_entry list \<Rightarrow> node_state" where
  "state_of s es = \<lparr>ns_copies = sb_copies s, ns_roster = sb_roster s, ns_progress = sb_progress s, ns_entries = es\<rparr>"

definition log_of :: "slot_bytes \<Rightarrow> side \<Rightarrow> log_entry list \<Rightarrow> log_file" where
  "log_of s side es =
     \<lparr>lf_side = side, lf_seq = sb_seq s, lf_roster = sb_roster s, lf_base = sb_base s, lf_entries = mirror_of 0 es, lf_bytes = sb_bytes s\<rparr>"

definition holds :: "nat \<Rightarrow> slot_bytes \<Rightarrow> u8 list \<Rightarrow> log_entry list \<Rightarrow> bool" where
  "holds depth s bytes es \<longleftrightarrow>
     bytes = region_of es \<and> length es = unat (sb_count s) \<and> list_all (entry_fits depth) es \<and> numbered (sb_base s) 0 es"

lemma map_err_eq [simp]: "map_err f r = Inr x \<longleftrightarrow> r = Inr x"
  by (cases r) simp_all

lemma read_state_iff:
  assumes "length b < 2 ^ 32"
  shows "read_state depth b = Ok (S, log) \<longleftrightarrow>
    (\<exists>s side es. 2 * HEADER_SIZE \<le> length b \<and> active_slot b = Some (s, side) \<and> ENTRIES_BASE + unat (sb_bytes s) \<le> length b
       \<and> holds depth s (counted b s) es \<and> S = state_of s es \<and> log = log_of s side es)"
proof -
  have region: "drop ENTRIES_BASE (take (ENTRIES_BASE + unat (sb_bytes s)) b) = counted b s" for s :: slot_bytes
    by (simp add: counted_def slice_def take_drop add.commute)
  have iff: "decode_entries depth (counted b s) (sb_count s) (sb_base s) = Ok (es, ms) \<longleftrightarrow> ms = mirror_of 0 es \<and> holds depth s (counted b s) es"
    for s es ms
    using assms decode_from_iff [of "counted b s" depth "sb_base s" 0 "unat (sb_count s)" 0 es ms]
    by (auto simp: decode_entries_def holds_def counted_def slice_def)
  show ?thesis
    using assms
    by (auto simp: read_state_def Let_def region iff state_of_def log_of_def split: option.splits if_splits prod.splits)
qed

lemma append_slots_frames:
  assumes "\<forall>s e. view_get j s = Some e \<longrightarrow> entry_valid depth e"
  shows "append_slots j slots (of_nat a) mirror region = (Ok (region', cursor), mirror') \<Longrightarrow>
    \<exists>es. map (view_get j) slots = map Some es \<and> list_all (entry_fits depth) es \<and> region' = region @ region_of es
       \<and> mirror' = mirror @ mirror_of a es \<and> cursor = of_nat (a + length (region_of es))"
proof (induction slots arbitrary: a mirror region)
  case (Cons s slots)
  obtain e where e: "view_get j s = Some e"
    using Cons.prems by (cases "view_get j s") auto
  then have val: "entry_valid depth e" using assms by blast
  have len: "length (enc_entry e) < 2 ^ 32"
    using Cons.prems e val by (auto simp: entry_frame_valid split: if_splits)
  then have fits: "entry_fits depth e" using val by (simp add: entry_fits_def)
  have "4 + length (enc_entry e) < 2 ^ 32"
    using Cons.prems e val len digest_of_fits [OF fits] by (auto simp: entry_frame_valid split: if_splits)
  then have "append_slots j slots (of_nat (a + length (frame_bytes e))) (mirror @ [mirror_entry a e]) (region @ frame_bytes e) =
      (Ok (region', cursor), mirror')"
    using Cons.prems e val len digest_of_fits [OF fits] by (simp add: entry_frame_valid mirror_entry_def)
  from Cons.IH [OF this] obtain es where
    "map (view_get j) slots = map Some es" "list_all (entry_fits depth) es" "region' = region @ frame_bytes e @ region_of es"
    "mirror' = mirror @ mirror_entry a e # mirror_of (a + length (frame_bytes e)) es"
    "cursor = of_nat (a + length (frame_bytes e) + length (region_of es))"
    by auto
  then show ?case using e fits by (intro exI [of _ "e # es"]) (simp add: add.assoc)
qed auto


section \<open>What stands\<close>

definition agrees :: "log_view \<Rightarrow> log_file \<Rightarrow> slot \<Rightarrow> bool" where
  "agrees j log s \<longleftrightarrow>
     (\<exists>e m. view_get j s = Some e \<and> nth_opt (lf_entries log) (unat (s - lf_base log)) = Some m \<and> digest_of e = Ok (de_digest m))"

lemma standing_ok:
  "standing j log hi slots = Ok stand \<Longrightarrow> sorted_wrt (>) slots \<Longrightarrow>
   (stand = hi \<and> (\<forall>s \<in> set slots. agrees j log s))
   \<or> (\<exists>s \<in> set slots. stand = s - 1 \<and> \<not> agrees j log s \<and> (\<forall>s' \<in> set slots. s' < s \<longrightarrow> agrees j log s'))"
proof (induction slots arbitrary: hi)
  case (Cons s slots)
  obtain e digest m where walk: "view_get j s = Some e" "digest_of e = Ok digest"
      "nth_opt (lf_entries log) (unat (s - lf_base log)) = Some m"
      "standing j log (if digest \<noteq> de_digest m then s - 1 else hi) slots = Ok stand"
    using Cons.prems(1) by auto
  have here: "agrees j log s \<longleftrightarrow> digest = de_digest m" using walk(1-3) by (auto simp: agrees_def)
  have below: "\<forall>s' \<in> set slots. s' < s" "sorted_wrt (>) slots" using Cons.prems(2) by auto
  show ?case using Cons.IH [OF walk(4) below(2)] here below(1) by (auto split: if_splits)
qed simp

lemma set_slots_in: "s \<in> set (slots_in lo hi) \<longleftrightarrow> lo < s \<and> s \<le> hi"
proof
  assume "s \<in> set (slots_in lo hi)"
  then obtain n where "s = of_nat n" "unat lo < n" "n \<le> unat hi" by (auto simp: slots_in_def simp del: upt_Suc)
  moreover from this have "unat s = n" using unsigned_less [of hi, where ?'a = nat] by (simp add: unat_of_nat)
  ultimately show "lo < s \<and> s \<le> hi" by (simp add: word_less_nat_alt word_le_nat_alt)
next
  assume "lo < s \<and> s \<le> hi"
  then have "s = of_nat (unat s)" "unat s \<in> set [Suc (unat lo)..<Suc (unat hi)]" by (auto simp: word_less_nat_alt word_le_nat_alt)
  then show "s \<in> set (slots_in lo hi)" unfolding slots_in_def by (metis image_eqI image_set)
qed

lemma slots_in_descend: "sorted_wrt (>) (rev (slots_in lo hi))"
proof -
  have "sorted_wrt (<) (slots_in lo hi)"
    unfolding slots_in_def sorted_wrt_map
  proof (rule sorted_wrt_mono_rel [OF _ sorted_wrt_upt])
    fix x y assume "x \<in> set [Suc (unat lo)..<Suc (unat hi)]" "y \<in> set [Suc (unat lo)..<Suc (unat hi)]" "x < y"
    then have "x < y" "y < 2 ^ 64" using unsigned_less [of hi, where ?'a = nat] by (simp_all del: upt_Suc)
    then show "(of_nat x :: slot) < of_nat y" by (simp add: word_less_nat_alt unat_of_nat)
  qed
  then show ?thesis by (simp add: sorted_wrt_rev)
qed

lemma slots_in_numbered:
  "map (view_get j) (slots_in stand frontier) = map Some es \<Longrightarrow> (\<And>s e. view_get j s = Some e \<Longrightarrow> le_slot e = s) \<Longrightarrow>
   base + of_nat k = stand + 1 \<Longrightarrow> numbered base k es"
proof -
  assume at_slot: "\<And>s e. view_get j s = Some e \<Longrightarrow> le_slot e = s"
  have "map (view_get j) (map of_nat [m..<n]) = map Some es \<Longrightarrow> base + of_nat k = of_nat m \<Longrightarrow> numbered base k es" for m n
  proof (induction es arbitrary: m k)
    case (Cons e es)
    then have m: "m < n" by (cases "m < n") auto
    then have "view_get j (of_nat m) = Some e" "map (view_get j) (map of_nat [Suc m..<n]) = map Some es"
      using Cons.prems(1) by (simp_all add: upt_conv_Cons)
    moreover have "base + of_nat (k + 1) = of_nat (Suc m)"
      using Cons.prems(2) by (simp only: of_nat_add of_nat_1 of_nat_Suc add.assoc [symmetric]) (simp only: add.commute)
    ultimately show ?case using Cons.IH [of "Suc m" "k + 1"] Cons.prems(2) at_slot by simp
  qed simp
  moreover have "(of_nat (Suc (unat stand)) :: slot) = stand + 1" by (simp add: add.commute)
  moreover assume "map (view_get j) (slots_in stand frontier) = map Some es" "base + of_nat k = stand + 1"
  ultimately show ?thesis unfolding slots_in_def by (metis (no_types))
qed

text \<open>The prefix that stands: at least up to the base, at most the whole mirror, and digest-equal above the
  committed frontier.\<close>

lemma commit_stand_ok:
  assumes "commit_stand log progress j = Ok (frontier, stand)" "unat (lf_base log) + length (lf_entries log) < 2 ^ 64"
  shows "lv_last j = Some frontier" "fst (view_retained j) = lf_base log"
    "unat (lf_base log) \<le> unat stand + 1" "unat stand + 1 \<le> unat (lf_base log) + length (lf_entries log)" "stand \<le> frontier"
    "\<And>s. pp_committed progress < s \<Longrightarrow> lf_base log < s \<Longrightarrow> s \<le> stand \<Longrightarrow> agrees j log s"
    "frontier \<le> pp_committed progress \<Longrightarrow> lf_base log + of_nat (length (lf_entries log)) - 1 \<le> frontier \<Longrightarrow>
       unat stand + 1 = unat (lf_base log) + length (lf_entries log)"
    "min (max (pp_committed progress) (lf_base log)) (min (lf_base log + of_nat (length (lf_entries log)) - 1) frontier) \<le> stand"
proof -
  let ?n = "length (lf_entries log)" and ?base = "lf_base log"
  let ?mf = "?base + of_nat ?n - 1" and ?lo = "max (pp_committed progress) ?base"
  let ?hi = "min ?mf frontier"
  show last: "lv_last j = Some frontier" and base: "fst (view_retained j) = ?base"
    using assms(1) by (auto simp: commit_stand_def Let_def split: if_splits)
  have walk: "standing j log ?hi (rev (slots_in ?lo ?hi)) = Ok stand" "\<not> stand + 1 < ?base" "lf_entries log \<noteq> []"
    using assms(1) last by (auto simp: commit_stand_def Let_def split: if_splits)
  have n: "0 < ?n" using walk(3) by simp
  then have mf: "unat ?mf = unat ?base + ?n - 1"
    using assms(2) by (cases ?n) (simp_all add: unat_word_ariths unat_of_nat)
  consider (all) "stand = ?hi" "\<forall>s. ?lo < s \<and> s \<le> ?hi \<longrightarrow> agrees j log s"
    | (some) s where "?lo < s" "s \<le> ?hi" "stand = s - 1" "\<forall>s'. ?lo < s' \<and> s' \<le> ?hi \<and> s' < s \<longrightarrow> agrees j log s'"
    using standing_ok [OF walk(1) slots_in_descend] by (auto simp: set_slots_in)
  then have "unat stand + 1 \<le> unat ?base + ?n \<and> unat ?base \<le> unat stand + 1 \<and> stand \<le> frontier \<and> min ?lo ?hi \<le> stand
      \<and> (\<forall>s. ?lo < s \<and> s \<le> stand \<longrightarrow> agrees j log s)"
  proof cases
    case all
    have "unat ?hi \<le> unat ?mf" by (simp add: word_le_nat_alt [symmetric])
    then have top: "unat ?hi + 1 \<le> unat ?base + ?n" using mf n by linarith
    then have "unat (?hi + 1) = unat ?hi + 1" using assms(2) by (simp add: unat_word_ariths)
    moreover have "min ?lo ?hi \<le> stand" unfolding all(1) by (rule min.cobounded2)
    ultimately show ?thesis using all top walk(2) by (auto simp: word_less_nat_alt)
  next
    case some
    then have "s \<noteq> 0" "0 < unat s" by (auto simp: word_less_nat_alt)
    then have "unat stand + 1 = unat s" using some(3) by (simp add: unat_minus_one)
    moreover have "unat ?base < unat s" using some(1) by (simp add: word_less_nat_alt [symmetric])
    moreover have "?lo \<le> stand" using some(1) calculation(1) unfolding word_less_nat_alt word_le_nat_alt by linarith
    then have "min ?lo ?hi \<le> stand" by (rule order_trans [OF min.cobounded1])
    ultimately show ?thesis
      using some mf n by (auto simp: word_less_nat_alt word_le_nat_alt min_def split: if_splits)
  qed
  then show "unat ?base \<le> unat stand + 1" "unat stand + 1 \<le> unat ?base + ?n" "stand \<le> frontier" "min ?lo ?hi \<le> stand"
    "\<And>s. pp_committed progress < s \<Longrightarrow> ?base < s \<Longrightarrow> s \<le> stand \<Longrightarrow> agrees j log s" by auto
  assume "frontier \<le> pp_committed progress" "?mf \<le> frontier"
  then have "slots_in ?lo ?hi = []" by (auto simp: slots_in_def max_def min_def word_le_nat_alt)
  then have "stand = ?mf" using walk(1) \<open>?mf \<le> frontier\<close> by (simp add: min_def)
  then show "unat stand + 1 = unat ?base + ?n" using mf n by simp
qed


section \<open>The phases of a commit\<close>

lemma spend_cases:
  "spend ok lost d = (b, d') \<longleftrightarrow>
     (dk_left d = 0 \<and> \<not> b \<and> d' = lost d) \<or> (0 < dk_left d \<and> b \<and> d' = (ok d)\<lparr>dk_left := dk_left d - 1\<rparr>)"
  by (auto simp: spend_def)

lemma disk_ops_sel: "fo_write_at disk_ops = disk_write" "fo_sync disk_ops = disk_sync"
  by (simp_all add: disk_ops_def)

text \<open>A write and its barrier: over, or broken with the range dirty.\<close>

lemma write_forced:
  assumes "at_rest d" "io_all [disk_write a bs, disk_sync] d = (x, d')"
  shows "(x = Ok () \<and> at_rest d' \<and> dk_forced d' = overwrite a bs (dk_forced d))
       \<or> (x = Err SR_Io \<and> dk_file d' = Some (overwrite a bs (dk_forced d)) \<and> dk_named d' \<and> dk_forced d' = dk_forced d \<and> dk_dirty d' = [(a, length bs)])"
proof -
  have d: "dk_file d = Some (dk_forced d)" "dk_dirty d = []" "dk_named d" using assms(1) by (simp_all add: at_rest_def)
  show ?thesis
    using assms(2) d
    by (auto simp: disk_write_def disk_sync_def spend_def Let_def contents_def at_rest_def split: bool.splits if_splits prod.splits)
qed

definition next_slot :: "log_file \<Rightarrow> superblock_copies \<Rightarrow> persisted_progress \<Rightarrow> nat \<Rightarrow> u64 \<Rightarrow> slot_bytes" where
  "next_slot log copies progress n cursor =
     \<lparr>sb_seq = lf_seq log + 1, sb_copies = copies, sb_roster = lf_roster log, sb_progress = progress,
      sb_base = lf_base log, sb_count = of_nat n, sb_bytes = cursor\<rparr>"

text \<open>Where a commit stopped: before the region's write, inside it, inside the slot's write, or after.\<close>

datatype stopped = Before | In_Region nat "u8 list" | In_Slot "u8 list" "u8 list" | After "u8 list"

fun stopped_at :: "side \<Rightarrow> u8 list \<Rightarrow> disk \<Rightarrow> disk \<Rightarrow> stopped \<Rightarrow> bool" where
  "stopped_at side f d d' Before = (d' = d)"
| "stopped_at side f d d' (In_Region a region) =
     (dk_file d' = Some (overwrite a region f) \<and> dk_named d' \<and> dk_forced d' = f \<and> dk_dirty d' = [(a, length region)])"
| "stopped_at side f d d' (In_Slot f1 buf) =
     (dk_named d' \<and> dk_forced d' = f1 \<and>
       (dk_dirty d' = [] \<and> dk_file d' = Some f1
        \<or> dk_dirty d' = [(side_at side, length buf)] \<and> dk_file d' = Some (overwrite (side_at side) buf f1)))"
| "stopped_at side f d d' (After f2) = (at_rest d' \<and> dk_forced d' = f2)"

lemma commit_phases:
  assumes rest: "at_rest d"
    and loaded: "lf_entries log = mirror_of 0 es" "length (region_of es) < 2 ^ 32"
    and stand: "commit_stand log progress j = Ok (frontier, stand)"
    and valid: "\<forall>s e. view_get j s = Some e \<longrightarrow> entry_valid depth e"
    and run: "sf_commit disk_ops copies progress j (Some log) d = (r, st', d')"
  defines "kept \<equiv> take (unat (stand - lf_base log + 1)) es" and "side \<equiv> side_flip (lf_side log)" and "f \<equiv> dk_forced d"
  obtains (nothing) "d' = d" "r \<noteq> Ok ()"
    | (wrote) new t f1 phase where
      "map (view_get j) (slots_in stand frontier) = map Some new" "list_all (entry_fits depth) new"
      "t = next_slot log copies progress (length kept + length new) (of_nat (length (region_of (kept @ new))))"
      "f1 = (if new = [] then f else overwrite (ENTRIES_BASE + length (region_of kept)) (region_of new) f)"
      "stopped_at side f d d' phase"
      "(phase = In_Region (ENTRIES_BASE + length (region_of kept)) (region_of new) \<and> new \<noteq> [] \<and> r \<noteq> Ok ())
       \<or> (\<exists>buf. phase = In_Slot f1 buf \<and> r \<noteq> Ok () \<and> (dk_dirty d' = [] \<or> encode_slot t = Ok buf))
       \<or> (\<exists>buf. phase = After (overwrite (side_at side) buf f1) \<and> encode_slot t = Ok buf \<and> r = Ok ()
              \<and> st' = Some \<lparr>lf_side = side, lf_seq = sb_seq t, lf_roster = sb_roster t, lf_base = sb_base t,
                             lf_entries = mirror_of 0 (kept @ new), lf_bytes = sb_bytes t\<rparr>)"
proof -
  let ?w = "length (region_of kept)"
  have "length (region_of kept) \<le> length (region_of es)"
    unfolding kept_def by (metis append_take_drop_id le_add1 length_append region_of_simps(3))
  then have w: "mirror_end (mirror_of 0 kept) = of_nat ?w" "unat (of_nat ?w :: u64) = ?w"
    using loaded(2) by (simp_all add: mirror_end_of unat_of_nat)
  have mir: "take (unat (stand - lf_base log + 1)) (lf_entries log) = mirror_of 0 kept"
    by (simp add: loaded(1) take_mirror_of kept_def)
  have none: "region_of new = [] \<longleftrightarrow> new = []" for new
    by (cases new) (simp_all, metis add_is_0 length_frame_bytes list.size(3) zero_neq_numeral)
  obtain x mirror where app: "append_slots j (slots_in stand frontier) (of_nat ?w) (mirror_of 0 kept) [] = (x, mirror)"
    by (meson surj_pair)
  show ?thesis
  proof (cases x)
    case (Inl e)
    then have "d' = d" "r \<noteq> Ok ()" using run app by (auto simp: sf_commit_def stand Let_def mir w)
    then show ?thesis by (rule nothing)
  next
    case (Inr rc)
    then obtain region cursor where rc: "x = Ok (region, cursor)" by (cases rc) auto
    obtain new where new: "map (view_get j) (slots_in stand frontier) = map Some new" "list_all (entry_fits depth) new"
        "region = region_of new" "mirror = mirror_of 0 (kept @ new)" "cursor = of_nat (length (region_of (kept @ new)))"
      using append_slots_frames [OF valid app [unfolded rc]] by auto
    define t where "t = next_slot log copies progress (length kept + length new) (of_nat (length (region_of (kept @ new))))"
    define f1 where "f1 = (if new = [] then f else overwrite (ENTRIES_BASE + ?w) (region_of new) f)"
    have slot: "\<lparr>sb_seq = lf_seq log + 1, sb_copies = copies, sb_roster = lf_roster log, sb_progress = progress,
        sb_base = lf_base log, sb_count = of_nat (length mirror), sb_bytes = cursor\<rparr> = t"
      by (simp add: t_def next_slot_def new(4,5))
    obtain y d1 where y: "io_all (if region_of new = [] then [] else [fo_write_at disk_ops (ENTRIES_BASE + ?w) (region_of new), fo_sync disk_ops]) d = (y, d1)"
      by (meson surj_pair)
    have first: "(y = Ok () \<and> at_rest d1 \<and> dk_forced d1 = f1)
        \<or> (y = Err SR_Io \<and> new \<noteq> [] \<and> stopped_at side f d d1 (In_Region (ENTRIES_BASE + ?w) (region_of new)))"
      using y write_forced [OF rest, of "ENTRIES_BASE + ?w" "region_of new" y d1] rest
      by (cases "new = []") (auto simp: f1_def f_def none disk_ops_sel)
    note ran_as = run [unfolded sf_commit_def stand Let_def option.case sum.case prod.case mir w app rc new(3) log_file.simps slot]
    show ?thesis
    proof (cases y)
      case (Inl e)
      then have "r \<noteq> Ok ()" "d' = d1" using ran_as y by auto
      then show ?thesis using first Inl new by (intro wrote [OF new(1,2) t_def f1_def]) auto
    next
      case (Inr u)
      then have d1: "at_rest d1" "dk_forced d1 = f1" using first by auto
      show ?thesis
      proof (cases "encode_slot t")
        case (Inl e)
        then have "r \<noteq> Ok ()" "d' = d1" using ran_as y Inr by (auto simp: slot)
        then show ?thesis
          using d1 by (intro wrote [OF new(1,2) t_def f1_def, of "In_Slot f1 []"]) (auto simp: at_rest_def)
      next
        case enc: (Inr buf)
        obtain z d2 where z: "io_all [fo_write_at disk_ops (side_at side) buf, fo_sync disk_ops] d1 = (z, d2)" by (meson surj_pair)
        have out: "d' = d2" "r = Ok () \<longleftrightarrow> z = Ok ()" "z = Ok () \<longrightarrow> st' = Some \<lparr>lf_side = side, lf_seq = sb_seq t,
            lf_roster = sb_roster t, lf_base = sb_base t, lf_entries = mirror_of 0 (kept @ new), lf_bytes = sb_bytes t\<rparr>"
          using ran_as y Inr enc z new(4,5) by (auto simp: slot side_def t_def next_slot_def split: sum.splits)
        from write_forced [OF d1(1) z [unfolded disk_ops_sel]] show ?thesis
        proof
          assume "z = Ok () \<and> at_rest d2 \<and> dk_forced d2 = overwrite (side_at side) buf (dk_forced d1)"
          then show ?thesis
            using out d1 enc by (intro wrote [OF new(1,2) t_def f1_def, of "After (overwrite (side_at side) buf f1)"]) auto
        next
          assume "z = Err SR_Io \<and> dk_file d2 = Some (overwrite (side_at side) buf (dk_forced d1)) \<and> dk_named d2 \<and> dk_forced d2 = dk_forced d1 \<and> dk_dirty d2 = [(side_at side, length buf)]"
          then show ?thesis
            using out d1 enc by (intro wrote [OF new(1,2) t_def f1_def, of "In_Slot f1 buf"]) auto
        qed
      qed
    qed
  qed
qed


section \<open>A commit read back\<close>

lemma bind3_Some:
  "Option.bind x (\<lambda>c. Option.bind y (\<lambda>r. Option.bind z (\<lambda>p. Some (F c r p)))) = Some s \<longleftrightarrow>
   (\<exists>c r p. x = Some c \<and> y = Some r \<and> z = Some p \<and> s = F c r p)"
  by (cases x; cases y; cases z) auto

lemma decode_slot_roster:
  assumes "decode_slot b = Some s"
  shows "distinct (sb_roster s) \<and> (\<forall>nm \<in> set (sb_roster s). nm \<noteq> [] \<and> list_all graphic nm)"
proof -
  have d: "\<not> (field_u32 b 0 \<noteq> MAGIC \<or> field_u32 b 4 \<noteq> VERSION)"
  proof
    assume "field_u32 b 0 \<noteq> MAGIC \<or> field_u32 b 4 \<noteq> VERSION"
    then show False using assms unfolding decode_slot_def by simp
  qed
  have c: "\<not> field_u64 b AT_CHECKSUM \<noteq> fnv1a (take AT_CHECKSUM b)"
  proof
    assume bad: "field_u64 b AT_CHECKSUM \<noteq> fnv1a (take AT_CHECKSUM b)"
    have "decode_slot b = None" unfolding decode_slot_def if_not_P [OF d] if_P [OF bad] ..
    then show False using assms by simp
  qed
  from assms [unfolded decode_slot_def if_not_P [OF d] if_not_P [OF c] bind3_Some]
  obtain r where r: "roster_from (unat (field_u32 b AT_ROSTER)) (AT_ROSTER + 4) b [] = Some r" and "sb_roster s = r"
    by (elim exE conjE) (simp only: slot_bytes.simps)
  then have "roster_from (unat (field_u32 b AT_ROSTER)) (AT_ROSTER + 4) b [] = Some (sb_roster s)" by (simp only:)
  from roster_from_ok [OF this] show ?thesis by simp
qed

text \<open>What an encoded slot that follows a decoded one is.\<close>

lemma next_slot_ok:
  assumes "active_slot f = Some (s, side)" "sb_roster t = sb_roster s" "length (sb_copies t) = 4" "encode_slot t = Ok buf"
  shows "slot_ok t" "buf = enc_slot t" "length buf = HEADER_SIZE"
proof -
  have "framed_roster (sb_roster t) \<le> ROSTER_AREA" using assms(4) by (auto simp: encode_slot_def split: if_splits)
  then show ok: "slot_ok t"
    using decode_slot_roster [OF active_slot_decodes [OF assms(1)]] assms(2,3) by (simp add: slot_ok_def roster_ok_def)
  then show "buf = enc_slot t" "length buf = HEADER_SIZE"
    using assms(4) encode_slot_eq length_slot_pre(4) by auto
qed

lemma few_entries: "4 * length es \<le> length (region_of es)"
  by (induction es) simp_all

text \<open>An image that holds a slot and the entries it counts is read as that state.\<close>

lemma reads_as:
  assumes "active_slot c = Some (t, side)" "length c < 2 ^ 32" "2 * HEADER_SIZE \<le> length c"
    "sb_count t = of_nat (length es)" "sb_bytes t = of_nat (length (region_of es))"
    "ENTRIES_BASE + length (region_of es) \<le> length c" "slice ENTRIES_BASE (length (region_of es)) c = region_of es"
    "list_all (entry_fits depth) es" "numbered (sb_base t) 0 es"
  shows "read_state depth c = Ok (state_of t es, log_of t side es)"
proof -
  have "unat (sb_count t) = length es" "unat (sb_bytes t) = length (region_of es)"
    using assms(2,4,5,6) few_entries [of es] by (simp_all add: unat_of_nat)
  then show ?thesis
    using assms by (subst read_state_iff) (auto simp: holds_def counted_def)
qed


text \<open>The new state of a commit: what stands, then the journal's entries up to its last slot.\<close>

definition kept_entries :: "log_file \<Rightarrow> slot \<Rightarrow> node_state \<Rightarrow> log_entry list" where
  "kept_entries log stand S = take (unat (stand - lf_base log + 1)) (ns_entries S)"

definition committed_state ::
    "superblock_copies \<Rightarrow> persisted_progress \<Rightarrow> log_view \<Rightarrow> log_file \<Rightarrow> slot \<Rightarrow> slot \<Rightarrow> node_state \<Rightarrow> node_state" where
  "committed_state copies progress j log stand frontier S =
     \<lparr>ns_copies = copies, ns_roster = lf_roster log, ns_progress = progress,
      ns_entries = kept_entries log stand S @ map (\<lambda>s. the (view_get j s)) (slots_in stand frontier)\<rparr>"

lemma slice_grow:
  assumes "slice x n f = a @ b" "x + n \<le> length f" "length a + length r < 2 ^ 64"
  shows "slice x (length a + length r) (overwrite (x + length a) r f) = a @ r"
proof -
  have "n = length (slice x n f)" using assms(2) by (simp add: slice_def)
  then have n: "length a \<le> n" using assms(1) by simp
  then have "slice x (length a) f = take (length a) (slice x n f)" by (simp add: slice_def min_def)
  then have "slice x (length a) f = a" using assms(1) by simp
  moreover have "slice x (length a) (overwrite (x + length a) r f) = slice x (length a) f"
    using n assms(2) by (intro slice_overwrite_other) auto
  ultimately show ?thesis by (simp add: slice_split slice_overwrite_here)
qed

lemma unat_minus_one_is: "unat (- 1 :: u64) = 2 ^ 64 - 1"
  by (simp add: unsigned_minus_1_eq_mask mask_eq_exp_minus_1)

text \<open>The same for a whole commit: the image that carries the new slot and the region it counts.\<close>

lemma commit_image_reads:
  assumes loaded: "read_state depth f = Ok (S, log)" "length f < 2 ^ 32"
    and stand: "unat (lf_base log) \<le> unat stand + 1" "unat stand + 1 \<le> unat (lf_base log) + length (lf_entries log)"
      "unat (lf_base log) + length (lf_entries log) < 2 ^ 64"
    and new: "map (view_get j) (slots_in stand frontier) = map Some new" "list_all (entry_fits depth) new"
      "\<And>s e. view_get j s = Some e \<Longrightarrow> le_slot e = s"
    and t: "t = next_slot log copies progress (length (kept_entries log stand S) + length new)
      (of_nat (length (region_of (kept_entries log stand S @ new))))"
    and enc: "encode_slot t = Ok buf" "length copies = 4" "lf_seq log < - 1"
    and f1: "f1 = (if new = [] then f else overwrite (ENTRIES_BASE + length (region_of (kept_entries log stand S))) (region_of new) f)"
    and c: "length f1 \<le> length c" "length c < 2 ^ 32"
      "\<And>i. i < length f1 \<Longrightarrow> \<not> (side_at (side_flip (lf_side log)) \<le> i \<and> i < side_at (side_flip (lf_side log)) + HEADER_SIZE) \<Longrightarrow> c ! i = f1 ! i"
      "decode_slot (slot_image c (side_flip (lf_side log))) = Some t"
  shows "read_state depth c = Ok (committed_state copies progress j log stand frontier S,
      log_of t (side_flip (lf_side log)) (kept_entries log stand S @ new))"
proof -
  let ?k = "unat (stand - lf_base log + 1)" and ?kept = "kept_entries log stand S" and ?new_side = "side_flip (lf_side log)"
  obtain s side es where s: "2 * HEADER_SIZE \<le> length f" "active_slot f = Some (s, side)" "ENTRIES_BASE + unat (sb_bytes s) \<le> length f"
      "holds depth s (counted f s) es" "S = state_of s es" "log = log_of s side es"
    using loaded(1) unfolding read_state_iff [OF loaded(2)] by auto
  have log: "lf_side log = side" "lf_seq log = sb_seq s" "lf_roster log = sb_roster s" "lf_base log = sb_base s"
      "length (lf_entries log) = length es" and entries: "ns_entries S = es"
    using s(5,6) by (simp_all add: log_of_def state_of_def)
  have k: "stand - lf_base log + 1 = stand + 1 - lf_base log" by simp
  have "unat (stand + 1) = unat stand + 1" using stand by (simp add: unat_word_ariths)
  then have "unat (stand + 1 - lf_base log) = unat stand + 1 - unat (lf_base log)"
    using stand(1) by (subst unat_sub) (auto simp: word_le_nat_alt)
  then have kept: "?kept = take ?k es" "?k \<le> length es"
    using stand(2) by (simp_all add: kept_entries_def entries log(5) k)
  have next_is: "lf_base log + of_nat ?k = stand + 1" by simp
  have num: "numbered (sb_base s) 0 (?kept @ new)"
    using s(4) slots_in_numbered [OF new(1) new(3) next_is] kept log(4)
    by (simp add: holds_def numbered_take)
  have fits: "list_all (entry_fits depth) (?kept @ new)"
    using s(4) new(2) kept(1) by (auto simp: holds_def list_all_iff dest: in_set_takeD)
  have split: "counted f s = region_of ?kept @ region_of (drop ?k es)"
    using s(4) kept(1) by (simp add: holds_def flip: region_of_simps(3))
  have bound: "length (region_of ?kept) \<le> unat (sb_bytes s)"
    using arg_cong [OF split, of length] s(3) by (simp add: counted_def slice_def)
  have f1len: "length f \<le> length f1" "ENTRIES_BASE + length (region_of (?kept @ new)) \<le> length f1"
    using bound s(3) by (auto simp: f1 length_overwrite)
  have region: "slice ENTRIES_BASE (length (region_of (?kept @ new))) f1 = region_of (?kept @ new)"
  proof (cases "new = []")
    case True
    then show ?thesis using split bound s(3) by (simp add: f1 counted_def slice_def) (metis append_eq_conv_conj min.absorb1 take_take)
  next
    case False
    then show ?thesis
      using slice_grow [of ENTRIES_BASE "unat (sb_bytes s)" f "region_of ?kept" "region_of (drop ?k es)" "region_of new"]
        split s(3) f1len(2) c(1,2) by (simp add: f1 counted_def)
  qed
  have same: "slice x n c = slice x n f1"
    if "x + n \<le> length f1" "x + n \<le> side_at ?new_side \<or> side_at ?new_side + HEADER_SIZE \<le> x" for x n
    using that c(1,3) by (intro slice_eq_nth) auto
  have apart: "side_at side + HEADER_SIZE \<le> ENTRIES_BASE" "side_at ?new_side + HEADER_SIZE \<le> ENTRIES_BASE" "ENTRIES_BASE \<le> length f"
    using side_room s(3) by auto
  have "slot_image c side = slot_image f1 side"
    unfolding slot_image_def using side_apart [of side] apart f1len(1) log(1) by (intro same) auto
  moreover have "slot_image f1 side = slot_image f side"
    using apart by (auto simp: f1 slot_image_def intro!: slice_overwrite_other)
  ultimately have old: "decode_slot (slot_image c side) = Some s" using active_slot_decodes [OF s(2)] by simp
  have seq: "sb_seq s < sb_seq t"
    using enc(3) log(2) by (simp add: t next_slot_def word_less_nat_alt unat_word_ariths unat_minus_one_is)
  have act: "active_slot c = Some (t, ?new_side)" using active_new [OF old _ seq] c(4) log(1) by simp
  have "read_state depth c = Ok (state_of t (?kept @ new), log_of t ?new_side (?kept @ new))"
  proof (rule reads_as [OF act c(2)])
    show "2 * HEADER_SIZE \<le> length c" using s(1) f1len c(1) by linarith
    show "slice ENTRIES_BASE (length (region_of (?kept @ new))) c = region_of (?kept @ new)"
      using same [of ENTRIES_BASE "length (region_of (?kept @ new))"] f1len apart region by auto
    show "ENTRIES_BASE + length (region_of (?kept @ new)) \<le> length c" using f1len(2) c(1) by linarith
    show "list_all (entry_fits depth) (?kept @ new)" by (rule fits)
  qed (use num log(4) in \<open>simp_all add: t next_slot_def\<close>)
  moreover have "map (\<lambda>s. the (view_get j s)) (slots_in stand frontier) = new"
    using arg_cong [OF new(1), of "map the"] by (simp add: comp_def)
  ultimately show ?thesis
    by (simp add: committed_state_def state_of_def t next_slot_def)
qed


lemma old_image_reads:
  assumes "read_state depth f = Ok (S, log)" "length f < 2 ^ 32" "length f \<le> length c" "length c < 2 ^ 32"
    "\<And>i. i < length f \<Longrightarrow> \<not> (side_at (side_flip (lf_side log)) \<le> i \<and> i < side_at (side_flip (lf_side log)) + HEADER_SIZE) \<Longrightarrow>
       i < ENTRIES_BASE + unat (lf_bytes log) \<Longrightarrow> c ! i = f ! i"
    "decode_slot (slot_image c (side_flip (lf_side log))) \<in> {None, decode_slot (slot_image f (side_flip (lf_side log)))}"
  shows "read_state depth c = Ok (S, log)"
proof -
  obtain s side es where s: "2 * HEADER_SIZE \<le> length f" "active_slot f = Some (s, side)" "ENTRIES_BASE + unat (sb_bytes s) \<le> length f"
      "holds depth s (counted f s) es" "S = state_of s es" "log = log_of s side es"
    using assms(1) unfolding read_state_iff [OF assms(2)] by auto
  have log: "lf_side log = side" "lf_bytes log = sb_bytes s" using s(6) by (simp_all add: log_of_def)
  have same: "slice x n c = slice x n f"
    if "x + n \<le> length f" "x + n \<le> ENTRIES_BASE + unat (sb_bytes s)"
      "x + n \<le> side_at (side_flip side) \<or> side_at (side_flip side) + HEADER_SIZE \<le> x" for x n
    using that assms(3,5) log by (intro slice_eq_nth) auto
  have room: "side_at side + HEADER_SIZE \<le> ENTRIES_BASE" "side_at (side_flip side) + HEADER_SIZE \<le> ENTRIES_BASE"
    by (rule side_room)+
  have "slot_image c side = slot_image f side"
    unfolding slot_image_def using side_apart [of side] room s(3) by (intro same) auto
  then have act: "active_slot c = Some (s, side)" using active_keep [OF s(2), of c] assms(6) log(1) by simp
  have "counted c s = counted f s" unfolding counted_def using room s(3) by (intro same) auto
  then show ?thesis
    unfolding read_state_iff [OF assms(4)] using s(1,3-6) act assms(3) by (intro exI conjI) (auto simp del: One_nat_def)
qed

lemma kept_count:
  assumes "unat b \<le> unat stand + 1" "unat stand + 1 < 2 ^ 64"
  shows "unat (stand - b + 1 :: slot) = unat stand + 1 - unat b"
proof -
  have next_slot: "unat (stand + 1) = unat stand + 1" using assms(2) by (simp add: unat_word_ariths)
  have swap: "stand - b + 1 = stand + 1 - b" by simp
  show ?thesis unfolding swap using assms(1) next_slot unat_sub [of b "stand + 1"] by (simp add: word_le_nat_alt)
qed

text \<open>What the properties of a commit assume: the log is what the file is read as, the journal's entries
  are at their slots and can be packed, and no number overflows.\<close>

definition commit_ready :: "nat \<Rightarrow> disk \<Rightarrow> node_state \<Rightarrow> log_file \<Rightarrow> superblock_copies \<Rightarrow> log_view \<Rightarrow> bool" where
  "commit_ready depth d S log copies j \<longleftrightarrow>
     at_rest d \<and> read_state depth (dk_forced d) = Ok (S, log) \<and> length (dk_forced d) < 2 ^ 32
     \<and> unat (lf_base log) + length (lf_entries log) < 2 ^ 64 \<and> lf_seq log < - 1 \<and> length copies = 4
     \<and> (\<forall>s e. view_get j s = Some e \<longrightarrow> entry_fits depth e \<and> le_slot e = s)"

lemma commit_ready_log:
  assumes "commit_ready depth d S log copies j"
  shows "lf_entries log = mirror_of 0 (ns_entries S)" "length (region_of (ns_entries S)) < 2 ^ 32"
    "length (region_of (ns_entries S)) = unat (lf_bytes log)" "length (lf_entries log) = length (ns_entries S)"
proof -
  have f: "length (dk_forced d) < 2 ^ 32" and ok: "read_state depth (dk_forced d) = Ok (S, log)"
    using assms by (simp_all add: commit_ready_def)
  obtain s side es where s: "ENTRIES_BASE + unat (sb_bytes s) \<le> length (dk_forced d)"
      "holds depth s (counted (dk_forced d) s) es" "S = state_of s es" "log = log_of s side es"
    using ok unfolding read_state_iff [OF f] by auto
  then have "length (region_of es) = unat (sb_bytes s)"
    by (metis counted_def holds_def add_le_imp_le_diff length_drop length_take min.absorb2 slice_def add.commute)
  then show "lf_entries log = mirror_of 0 (ns_entries S)" "length (region_of (ns_entries S)) < 2 ^ 32"
    "length (region_of (ns_entries S)) = unat (lf_bytes log)" "length (lf_entries log) = length (ns_entries S)"
    using s f by (simp_all add: log_of_def state_of_def)
qed

lemma roster_survives:
  "read_state depth f = Ok (S, log) \<Longrightarrow> length f < 2 ^ 32 \<Longrightarrow> \<exists>s. active_slot f = Some (s, lf_side log) \<and> lf_roster log = sb_roster s"
  by (auto simp: read_state_iff log_of_def)

lemma next_slot_sel [simp]:
  "sb_roster (next_slot log copies progress n cursor) = lf_roster log" "sb_copies (next_slot log copies progress n cursor) = copies"
  by (simp_all add: next_slot_def)

lemma slot_image_written: "length buf = HEADER_SIZE \<Longrightarrow> slot_image (overwrite (side_at side) buf f) side = buf"
  using slice_overwrite_here [of "side_at side" buf f] by (simp add: slot_image_def)

text \<open>The image after both writes.\<close>

lemma commit_done:
  assumes ready: "commit_ready depth d S log copies j" and stand: "commit_stand log progress j = Ok (frontier, stand)"
    and new: "map (view_get j) (slots_in stand frontier) = map Some new" "list_all (entry_fits depth) new"
    and t: "t = next_slot log copies progress (length (kept_entries log stand S) + length new)
      (of_nat (length (region_of (kept_entries log stand S @ new))))"
    and enc: "encode_slot t = Ok buf"
    and f1: "f1 = (if new = [] then dk_forced d
      else overwrite (ENTRIES_BASE + length (region_of (kept_entries log stand S))) (region_of new) (dk_forced d))"
    and c: "length f1 \<le> length c" "length c < 2 ^ 32"
      "\<And>i. i < length f1 \<Longrightarrow> \<not> (side_at (side_flip (lf_side log)) \<le> i \<and> i < side_at (side_flip (lf_side log)) + HEADER_SIZE) \<Longrightarrow> c ! i = f1 ! i"
      "slot_image c (side_flip (lf_side log)) = buf"
  shows "read_state depth c = Ok (committed_state copies progress j log stand frontier S,
      log_of t (side_flip (lf_side log)) (kept_entries log stand S @ new))"
proof -
  have r: "read_state depth (dk_forced d) = Ok (S, log)" "length (dk_forced d) < 2 ^ 32"
    "unat (lf_base log) + length (lf_entries log) < 2 ^ 64" "lf_seq log < - 1" "length copies = 4"
    "\<And>s e. view_get j s = Some e \<Longrightarrow> le_slot e = s"
    using ready by (auto simp: commit_ready_def)
  obtain s where s: "active_slot (dk_forced d) = Some (s, lf_side log)" "lf_roster log = sb_roster s"
    using roster_survives [OF r(1,2)] by auto
  have ok: "slot_ok t" "buf = enc_slot t" using next_slot_ok [OF s(1) _ _ enc] s(2) r(5) by (simp_all add: t)
  then have dec: "decode_slot (slot_image c (side_flip (lf_side log))) = Some t" using c(4) decode_encoded_slot by simp
  show ?thesis
    by (rule commit_image_reads [OF r(1,2) commit_stand_ok(3,4) [OF stand r(3)] r(3) new r(6) t enc r(5,4) f1 c(1-3) dec])
qed

lemma commit_success:
  assumes ready: "commit_ready depth d S log copies j"
    and run: "sf_commit disk_ops copies progress j (Some log) d = (Ok (), st', d')" and fits: "length (dk_forced d') < 2 ^ 32"
  obtains frontier stand log' new where "commit_stand log progress j = Ok (frontier, stand)" "at_rest d'" "st' = Some log'"
    "read_state depth (dk_forced d') = Ok (committed_state copies progress j log stand frontier S, log')"
    "map (view_get j) (slots_in stand frontier) = map Some new"
proof -
  obtain frontier stand where stand: "commit_stand log progress j = Ok (frontier, stand)"
    using run by (auto simp: sf_commit_def split: sum.splits)
  let ?kept = "kept_entries log stand S" and ?side = "side_flip (lf_side log)"
  have rest: "at_rest d" and valid: "\<forall>s e. view_get j s = Some e \<longrightarrow> entry_valid depth e" using ready by (auto simp: commit_ready_def entry_fits_def)
  show ?thesis
  proof (cases rule: commit_phases [OF rest commit_ready_log(1,2) [OF ready] stand valid run])
    case 1
    then show ?thesis by simp
  next
    case wrote: (2 new t f1 phase)
    then obtain buf where *: "phase = After (overwrite (side_at ?side) buf f1)" "encode_slot t = Ok buf"
        "st' = Some \<lparr>lf_side = ?side, lf_seq = sb_seq t, lf_roster = sb_roster t, lf_base = sb_base t,
           lf_entries = mirror_of 0 (?kept @ new), lf_bytes = sb_bytes t\<rparr>"
      by (auto simp: kept_entries_def)
    have f2: "dk_forced d' = overwrite (side_at ?side) buf f1" "at_rest d'" using wrote(5) *(1) by simp_all
    obtain s where s: "active_slot (dk_forced d) = Some (s, lf_side log)" "lf_roster log = sb_roster s"
      using roster_survives [of depth "dk_forced d" S log] ready by (auto simp: commit_ready_def)
    have len: "length buf = HEADER_SIZE" using next_slot_ok(3) [OF s(1) _ _ *(2)] s(2) ready by (simp add: wrote(3) commit_ready_def)
    have "read_state depth (dk_forced d') = Ok (committed_state copies progress j log stand frontier S, log_of t ?side (?kept @ new))"
      using wrote(1-4) *(2) f2(1) len fits
      by (intro commit_done [OF ready stand wrote(1,2) _ *(2), where ?f1.0 = f1])
        (simp_all add: kept_entries_def length_overwrite slot_image_written nth_overwrite)
    then show ?thesis using stand f2(2) *(3) wrote(1) by (intro that) (simp_all add: log_of_def)
  qed
qed

lemma decode_from_leftover:
  "drop a region = region_of es @ rest \<Longrightarrow> rest \<noteq> [] \<Longrightarrow> list_all (entry_fits depth) es \<Longrightarrow> numbered base n es \<Longrightarrow>
   length region < 2 ^ 63 \<Longrightarrow> decode_from depth region base n (length es) a = Err RE_Beyond"
proof (induction es arbitrary: a n)
  case (Cons e es)
  have here: "drop a region = frame_bytes e @ region_of es @ rest" using Cons.prems(1) by simp
  then have "drop (a + length (frame_bytes e)) region = region_of es @ rest"
    by (metis add.commute append_eq_conv_conj drop_drop)
  then show ?case
    using Cons.IH [of "a + length (frame_bytes e)" "n + 1"] Cons.prems decode_from_frame [OF here, of depth base n "length es"]
    by (simp del: decode_from.simps length_frame_bytes)
qed auto

end
