(* ===== verification/State_File_Theorems.thy ===== *)
theory State_File_Theorems
  imports State_File_Commit
begin

text \<open>
  What the state file promises and where it breaks: a slot round trips and refuses a changed byte, a
  commit is read back as written, a power cut during a commit that replaces nothing leaves the old state
  or the new one, and two commits that do not keep the promise.
\<close>

section \<open>The first life's file\<close>

definition frameable :: "nat \<Rightarrow> log_entry \<Rightarrow> bool" where
  "frameable depth e \<longleftrightarrow> entry_valid depth e \<and> length (frame_bytes e) < 2 ^ 32"

lemma frameable_fits: "frameable depth e \<Longrightarrow> entry_fits depth e"
  by (simp add: frameable_def entry_fits_def)

lemma frame_all_frames:
  "list_all (frameable depth) es \<Longrightarrow> frame_all (of_nat a) es = Ok (region_of es, mirror_of a es, of_nat (a + length (region_of es)))"
proof (induction es arbitrary: a)
  case (Cons e es)
  have e: "frameable depth e" "list_all (frameable depth) es" using Cons.prems by simp_all
  then have frame: "entry_frame e = Ok (frame_bytes e)" "digest_of e = Ok (fnv1a (enc_entry e))" "length (frame_bytes e) < 2 ^ 32"
    using entry_frame_valid [of depth e] digest_of_fits [OF frameable_fits [OF e(1)]] by (simp_all add: frameable_def)
  have "frame_all (of_nat a + of_nat (length (frame_bytes e))) es =
      Ok (region_of es, mirror_of (a + length (frame_bytes e)) es, of_nat (a + length (frame_bytes e) + length (region_of es)))"
    using Cons.IH [OF e(2), of "a + length (frame_bytes e)"] by (simp only: of_nat_add)
  then show ?case using frame by (simp add: mirror_entry_def add.assoc del: length_frame_bytes)
qed simp

lemma append_slots_run:
  "map (view_get j) slots = map Some es \<Longrightarrow> list_all (frameable depth) es \<Longrightarrow>
   append_slots j slots (of_nat a) mirror region = (Ok (region @ region_of es, of_nat (a + length (region_of es))), mirror @ mirror_of a es)"
proof (induction slots arbitrary: a mirror region es)
  case (Cons s slots)
  then obtain e fs where es: "es = e # fs" "view_get j s = Some e" "map (view_get j) slots = map Some fs" by (cases es) auto
  then have e: "frameable depth e" "list_all (frameable depth) fs" using Cons.prems by simp_all
  then have frame: "entry_frame e = Ok (frame_bytes e)" "digest_of e = Ok (fnv1a (enc_entry e))" "length (frame_bytes e) < 2 ^ 32"
    using entry_frame_valid [of depth e] digest_of_fits [OF frameable_fits [OF e(1)]] by (simp_all add: frameable_def)
  have "append_slots j slots (of_nat a + of_nat (length (frame_bytes e))) (mirror @ [mirror_entry a e]) (region @ frame_bytes e) =
      (Ok ((region @ frame_bytes e) @ region_of fs, of_nat (a + length (frame_bytes e) + length (region_of fs))),
       (mirror @ [mirror_entry a e]) @ mirror_of (a + length (frame_bytes e)) fs)"
    using Cons.IH [OF es(3) e(2), of "a + length (frame_bytes e)"] by (simp only: of_nat_add)
  then show ?case using frame es by (simp add: mirror_entry_def add.assoc del: length_frame_bytes)
qed auto

lemma zeros_not_a_slot: "decode_slot (replicate n 0) = None"
proof -
  have "be_value (replicate m 0) = 0" for m by (induction m) (simp_all add: replicate_app_Cons_same be_value_def)
  then have "field_u32 (replicate n 0) 0 = 0" by (simp add: field_u32_def from_be_bytes_def slice_def)
  then show ?thesis unfolding decode_slot_def by (simp add: MAGIC_def)
qed

lemma first_file_reads:
  assumes s: "slot_ok s" "sb_count s = of_nat (length es)" "sb_bytes s = of_nat (length (region_of es))"
    and es: "list_all (entry_fits depth) es" "numbered (sb_base s) 0 es"
    and c: "length c < 2 ^ 32" "ENTRIES_BASE + length (region_of es) \<le> length c"
      "take (ENTRIES_BASE + length (region_of es)) c = enc_slot s @ replicate HEADER_SIZE 0 @ region_of es"
  shows "read_state depth c = Ok (state_of s es, log_of s Side_A es)"
proof (rule reads_as [OF _ c(1)])
  have len: "length (enc_slot s) = HEADER_SIZE" by (rule length_slot_pre(4) [OF s(1)])
  have part: "slice x n c = slice x n (enc_slot s @ replicate HEADER_SIZE 0 @ region_of es)" if "x + n \<le> ENTRIES_BASE + length (region_of es)" for x n
    using that c(2) unfolding c(3) [symmetric] slice_def by (simp add: drop_take min_def)
  have "slot_image c Side_A = enc_slot s" "slot_image c Side_B = replicate HEADER_SIZE 0"
    using part [of 0 HEADER_SIZE] part [of HEADER_SIZE HEADER_SIZE] len by (simp_all add: slot_image_def layout slice_def)
  then show "active_slot c = Some (s, Side_A)"
    by (simp add: active_slot_images decode_encoded_slot [OF s(1)] zeros_not_a_slot)
  show "slice ENTRIES_BASE (length (region_of es)) c = region_of es"
    using part [of ENTRIES_BASE "length (region_of es)"] len by (simp add: slice_def layout)
qed (use s es c(2) in \<open>simp_all add: layout\<close>)

section \<open>Properties\<close>

text \<open>C36. The state file's header slot is read back exactly as it was written: for four copies and a roster
  of distinct printable names that fits the area, the encoding succeeds and the slot decodes to itself.\<close>

theorem slot_roundtrip:
  assumes "length (sb_copies s) = 4" "framed_roster (sb_roster s) \<le> ROSTER_AREA" "distinct (sb_roster s)"
    "\<forall>nm \<in> set (sb_roster s). nm \<noteq> [] \<and> list_all graphic nm"
  shows "\<exists>buf. encode_slot s = Ok buf \<and> length buf = HEADER_SIZE \<and> decode_slot buf = Some s"
proof -
  have "slot_ok s" using assms by (simp add: slot_ok_def roster_ok_def)
  then show ?thesis using encode_slot_eq decode_encoded_slot length_slot_pre(4) by blast
qed

text \<open>C37. One changed byte anywhere in an encoded header slot, the checksum field included, makes the slot
  unreadable: it is refused, never decoded to another state.\<close>

theorem rotted_slot_refused:
  assumes "length (sb_copies s) = 4" "distinct (sb_roster s)" "\<forall>nm \<in> set (sb_roster s). nm \<noteq> [] \<and> list_all graphic nm"
    "encode_slot s = Ok buf" "i < length buf" "b \<noteq> buf ! i"
  shows "decode_slot (buf[i := b]) = None"
proof -
  have "framed_roster (sb_roster s) \<le> ROSTER_AREA" using assms(4) by (auto simp: encode_slot_def split: if_splits)
  then have ok: "slot_ok s" using assms(1-3) by (simp add: slot_ok_def roster_ok_def)
  have buf: "buf = enc_slot s" using assms(4) unfolding encode_slot_eq [OF ok] by (rule Inr_inject [symmetric])
  show ?thesis
    unfolding buf by (rule changed_slot_refused [OF ok])
      (use assms(5,6) in \<open>simp_all only: buf length_slot_pre(4) [OF ok] not_False_eq_True\<close>)
qed


text \<open>The entries of a committed state, one by one: what the region keeps and what the journal gives.\<close>

lemma committed_entries:
  assumes ready: "commit_ready depth d S log copies j"
    and stand: "commit_stand log progress j = Ok (frontier, stand)"
    and new: "map (view_get j) (slots_in stand frontier) = map Some new"
  defines "es \<equiv> ns_entries (committed_state copies progress j log stand frontier S)"
  shows "unat (lf_base log) + length es = unat frontier + 1"
    "i < length es \<Longrightarrow> i < length (ns_entries S) \<Longrightarrow> lf_base log + of_nat i \<le> max (pp_committed progress) (lf_base log) \<Longrightarrow>
       es ! i = ns_entries S ! i"
    "i < length es \<Longrightarrow> \<not> (i < length (ns_entries S) \<and> lf_base log + of_nat i \<le> max (pp_committed progress) (lf_base log)) \<Longrightarrow>
       \<exists>e. view_get j (lf_base log + of_nat i) = Some e
         \<and> (es ! i = e \<or> i < length (ns_entries S) \<and> es ! i = ns_entries S ! i \<and> fnv1a (enc_entry e) = fnv1a (enc_entry (es ! i)))"
proof -
  let ?b = "unat (lf_base log)" and ?es = "ns_entries S" and ?s = "lf_base log + of_nat i"
  have small: "?b + length (lf_entries log) < 2 ^ 64" using ready by (simp add: commit_ready_def)
  note st = commit_stand_ok [OF stand small]
  have len: "length (lf_entries log) = length ?es" and mir: "lf_entries log = mirror_of 0 ?es"
    using commit_ready_log [OF ready] by simp_all
  let ?k = "unat stand + 1 - ?b"
  have k: "unat (stand - lf_base log + 1) = ?k" "?k \<le> length ?es"
    using st(3,4) len small kept_count [of "lf_base log" stand] by simp_all
  have "new = map (\<lambda>s. the (view_get j s)) (slots_in stand frontier)"
    using arg_cong [OF new, of "map the"] by (simp add: comp_def)
  then have es: "es = take ?k ?es @ new" by (simp add: es_def committed_state_def kept_entries_def k)
  have lnew: "length new = unat frontier - unat stand" and lslots: "length (slots_in stand frontier) = length new"
    using arg_cong [OF new, of length] by (simp_all add: slots_in_def del: upt_Suc)
  show total: "?b + length es = unat frontier + 1"
    using lnew st(3,5) k(2) by (simp add: es word_le_nat_alt)
  have u: "unat ?s = ?b + i" if "i < length ?es" using that small len by (simp add: unat_word_ariths unat_of_nat)
  show "es ! i = ?es ! i" if i: "i < length es" "i < length ?es" "?s \<le> max (pp_committed progress) (lf_base log)"
  proof -
    have "0 < length (lf_entries log)" using i(2) unfolding len by linarith
    then have "unat (lf_base log + of_nat (length (lf_entries log)) - 1) = ?b + length (lf_entries log) - 1"
      using small by (cases "length (lf_entries log)") (simp_all add: unat_word_ariths unat_of_nat)
    then have "?s \<le> min (lf_base log + of_nat (length (lf_entries log)) - 1) frontier"
      using u [OF i(2)] i(1,2) total len by (simp add: word_le_nat_alt)
    then have "?s \<le> stand" using i(3) st(8) by (meson min.boundedI order_trans)
    then have "i < ?k" using u [OF i(2)] by (simp add: word_le_nat_alt)
    then show ?thesis using k(2) by (simp add: es nth_append)
  qed
  show "\<exists>e. view_get j ?s = Some e \<and> (es ! i = e \<or> i < length ?es \<and> es ! i = ?es ! i \<and> fnv1a (enc_entry e) = fnv1a (enc_entry (es ! i)))"
    if i: "i < length es" "\<not> (i < length ?es \<and> ?s \<le> max (pp_committed progress) (lf_base log))"
  proof (cases "i < ?k")
    case True
    then have il: "i < length ?es" and kept: "es ! i = ?es ! i" using k(2) by (simp_all add: es nth_append)
    then have "pp_committed progress < ?s" "lf_base log < ?s" using i(2) by (simp_all add: max_def split: if_splits)
    moreover have "?s \<le> stand" using True st(3) u [OF il] by (simp add: word_le_nat_alt)
    ultimately have "agrees j log ?s" by (rule st(6))
    moreover have "unat (?s - lf_base log) = i" using il small len by (simp add: unat_of_nat)
    ultimately obtain e where e: "view_get j ?s = Some e" "digest_of e = Ok (de_digest (lf_entries log ! i))"
      by (auto simp: agrees_def nth_opt_def split: if_splits)
    then have "entry_fits depth e" using ready by (simp add: commit_ready_def)
    then have "fnv1a (enc_entry e) = fnv1a (enc_entry (?es ! i))"
      using e(2) il by (simp add: digest_of_fits mir nth_mirror_of)
    then show ?thesis using e(1) il kept by auto
  next
    case False
    let ?m = "i - ?k"
    have m: "?m < length new" using i(1) False k(2) by (simp add: es)
    have "slots_in stand frontier ! ?m = of_nat (Suc (unat stand) + ?m)"
      using m lnew by (simp add: slots_in_def del: upt_Suc)
    also have "Suc (unat stand) + ?m = ?b + i" using False st(3) by linarith
    finally have "view_get j ?s = map (view_get j) (slots_in stand frontier) ! ?m" using m lslots by simp
    then show ?thesis using m False k(2) by (simp add: new es nth_append)
  qed
qed

text \<open>C13. A commit that returns is what a restart reads: the file's bytes are forced, a load of them gives the
  copies, the roster and the progress just written, the journal's last slot as its end, and the mirror the
  store keeps in memory. Entry by entry, a slot the file held at or below the committed frontier (or at the
  base) reads as the file held it, whatever the journal has there; every other slot reads as the journal's
  entry, or as the entry the file held where that one has the digest of the journal's.\<close>

theorem commit_reloads:
  assumes "commit_ready depth d S log copies j"
    "sf_commit disk_ops copies progress j (Some log) d = (Ok (), st', d')" "length (dk_forced d') < 2 ^ 32"
  shows "\<exists>S' log' frontier. at_rest d' \<and> st' = Some log' \<and> read_state depth (dk_forced d') = Ok (S', log')
    \<and> ns_copies S' = copies \<and> ns_progress S' = progress \<and> ns_roster S' = lf_roster log
    \<and> lv_last j = Some frontier \<and> unat (lf_base log) + length (ns_entries S') = unat frontier + 1
    \<and> (\<forall>i < length (ns_entries S').
        if i < length (ns_entries S) \<and> lf_base log + of_nat i \<le> max (pp_committed progress) (lf_base log)
        then ns_entries S' ! i = ns_entries S ! i
        else \<exists>e. view_get j (lf_base log + of_nat i) = Some e
          \<and> (ns_entries S' ! i = e
             \<or> i < length (ns_entries S) \<and> ns_entries S' ! i = ns_entries S ! i
               \<and> fnv1a (enc_entry e) = fnv1a (enc_entry (ns_entries S' ! i))))"
proof -
  obtain frontier stand log' new where out: "commit_stand log progress j = Ok (frontier, stand)" "at_rest d'" "st' = Some log'"
      "read_state depth (dk_forced d') = Ok (committed_state copies progress j log stand frontier S, log')"
      "map (view_get j) (slots_in stand frontier) = map Some new"
    using commit_success [OF assms] by blast
  let ?S = "committed_state copies progress j log stand frontier S"
  have "unat (lf_base log) + length (lf_entries log) < 2 ^ 64" using assms(1) by (simp add: commit_ready_def)
  then have "lv_last j = Some frontier" using commit_stand_ok(1) [OF out(1)] by blast
  moreover have "ns_copies ?S = copies" "ns_progress ?S = progress" "ns_roster ?S = lf_roster log" by (simp_all add: committed_state_def)
  ultimately show ?thesis
    using out(2-4) committed_entries [OF assms(1) out(1,5)]
    by (intro exI [of _ ?S] exI [of _ log'] exI [of _ frontier]) auto
qed

text \<open>C12. A power cut anywhere in a commit that replaces nothing leaves the state before it or the state it was
  writing, whatever is left in the ranges being written, provided a torn header slot does not pass its
  checksum: it is refused, or it is the old slot or the new. A commit that returned is what is found.\<close>

theorem commit_crash_atomic:
  assumes ready: "commit_ready depth d S log copies j"
    and stand: "commit_stand log progress j = Ok (frontier, stand)" "unat stand + 1 = unat (lf_base log) + length (lf_entries log)"
    and run: "sf_commit disk_ops copies progress j (Some log) d = (r, st', d')"
    and image: "survives d' (Some c)" "length c < 2 ^ 32"
    and torn: "decode_slot (slot_image c (side_flip (lf_side log))) = None
      \<or> slot_image c (side_flip (lf_side log)) = slot_image (dk_forced d) (side_flip (lf_side log))
      \<or> slot_image c (side_flip (lf_side log)) = slot_image (contents d') (side_flip (lf_side log))"
  shows "(r \<noteq> Ok () \<and> read_state depth c = Ok (S, log))
    \<or> (\<exists>log'. read_state depth c = Ok (committed_state copies progress j log stand frontier S, log') \<and> (r = Ok () \<longrightarrow> st' = Some log'))"
proof -
  let ?side = "side_flip (lf_side log)" and ?f = "dk_forced d" and ?kept = "kept_entries log stand S"
  have rest: "at_rest d" and valid: "\<forall>s e. view_get j s = Some e \<longrightarrow> entry_valid depth e" and old: "read_state depth ?f = Ok (S, log)" "length ?f < 2 ^ 32"
      and small: "unat (lf_base log) + length (lf_entries log) < 2 ^ 64"
    using ready by (auto simp: commit_ready_def entry_fits_def)
  note log = commit_ready_log [OF ready]
  have "unat (stand - lf_base log + 1) = length (ns_entries S)"
    using stand(2) small log(4) kept_count [of "lf_base log" stand] by simp
  then have kept: "take (unat (stand - lf_base log + 1)) (ns_entries S) = ns_entries S" "?kept = ns_entries S"
    by (simp_all add: kept_entries_def)
  obtain s0 where s0: "active_slot ?f = Some (s0, lf_side log)" "lf_roster log = sb_roster s0" using roster_survives [OF old] by auto
  have room: "side_at ?side + HEADER_SIZE \<le> ENTRIES_BASE" "ENTRIES_BASE + length (region_of (ns_entries S)) \<le> length ?f"
    using side_room old log(3) by (auto simp: read_state_iff log_of_def)
  have found: "dk_file d' \<noteq> None" "length (dk_forced d') \<le> length c"
      "\<And>i. i < length (dk_forced d') \<Longrightarrow> (\<forall>(a, n) \<in> set (dk_dirty d'). \<not> (a \<le> i \<and> i < a + n)) \<Longrightarrow> c ! i = dk_forced d' ! i"
    using image(1) by (simp_all add: survives_def)
  have keep: "read_state depth c = Ok (S, log)"
    if "length ?f \<le> length c" "\<And>i. i < length ?f \<Longrightarrow> \<not> (side_at ?side \<le> i \<and> i < side_at ?side + HEADER_SIZE) \<Longrightarrow>
        i < ENTRIES_BASE + length (region_of (ns_entries S)) \<Longrightarrow> c ! i = ?f ! i"
      "decode_slot (slot_image c ?side) \<in> {None, decode_slot (slot_image ?f ?side)}"
    using that log(3) by (intro old_image_reads [OF old that(1) image(2) _ that(3)]) auto
  show ?thesis
  proof (cases rule: commit_phases [OF rest log(1,2) stand(1) valid run])
    case 1
    then have "contents d' = ?f" "dk_forced d' = ?f" "dk_dirty d' = []" using rest by (simp_all add: at_rest_def contents_def)
    then show ?thesis using keep found torn 1(2) by auto
  next
    case wrote: (2 new t f1 phase)
    note wrote = wrote [unfolded kept(1)]
    have grown: "length ?f \<le> length f1" "\<And>i. i < length ?f \<Longrightarrow> i < ENTRIES_BASE + length (region_of (ns_entries S)) \<Longrightarrow> f1 ! i = ?f ! i"
        "slot_image f1 ?side = slot_image ?f ?side"
      using wrote(4) room by (auto simp: length_overwrite slot_image_def intro!: nth_overwrite slice_overwrite_other)
    have landed: "read_state depth c = Ok (committed_state copies progress j log stand frontier S, log_of t ?side (ns_entries S @ new))"
      if "encode_slot t = Ok buf" "slot_image c ?side = buf" "length f1 \<le> length c"
        "\<And>i. i < length f1 \<Longrightarrow> \<not> (side_at ?side \<le> i \<and> i < side_at ?side + HEADER_SIZE) \<Longrightarrow> c ! i = f1 ! i" for buf
      using commit_done [OF ready stand(1) wrote(1,2) _ that(1) _ that(3) image(2) that(4,2)] wrote(3,4) by (simp add: kept(2))
    have buf_len: "length buf = HEADER_SIZE" if "encode_slot t = Ok buf" for buf
      using next_slot_ok(3) [OF s0(1) _ _ that] s0(2) ready by (simp add: wrote(3) commit_ready_def)
    from wrote(6) consider (region) "phase = In_Region (ENTRIES_BASE + length (region_of (ns_entries S))) (region_of new)" "r \<noteq> Ok ()"
      | (slot) buf where "phase = In_Slot f1 buf" "r \<noteq> Ok ()" "dk_dirty d' = [] \<or> encode_slot t = Ok buf"
      | (after) buf where "phase = After (overwrite (side_at ?side) buf f1)" "encode_slot t = Ok buf" "r = Ok ()"
          "st' = Some \<lparr>lf_side = ?side, lf_seq = sb_seq t, lf_roster = sb_roster t, lf_base = sb_base t,
             lf_entries = mirror_of 0 (ns_entries S @ new), lf_bytes = sb_bytes t\<rparr>"
      by blast
    then show ?thesis
    proof cases
      case region
      then have now: "dk_file d' = Some (overwrite (ENTRIES_BASE + length (region_of (ns_entries S))) (region_of new) ?f)"
          "dk_forced d' = ?f" "dk_dirty d' = [(ENTRIES_BASE + length (region_of (ns_entries S)), length (region_of new))]"
        using wrote(5) by simp_all
      have "slot_image (contents d') ?side = slot_image ?f ?side"
        using room by (auto simp: contents_def now(1) slot_image_def intro!: slice_overwrite_other)
      then have "read_state depth c = Ok (S, log)" using found torn now by (intro keep) auto
      then show ?thesis using region by simp
    next
      case slot
      show ?thesis
      proof (cases "dk_dirty d' = []")
        case True
        then have now: "contents d' = f1" "dk_forced d' = f1" using wrote(5) slot by (simp_all add: contents_def)
        have "read_state depth c = Ok (S, log)"
          using found torn now True grown by (intro keep) auto
        then show ?thesis using slot by simp
      next
        case False
        then have now: "contents d' = overwrite (side_at ?side) buf f1" "dk_forced d' = f1"
            "dk_dirty d' = [(side_at ?side, HEADER_SIZE)]" and enc: "encode_slot t = Ok buf"
          using wrote(5) slot buf_len by (auto simp: contents_def)
        have kept_bytes: "\<And>i. i < length f1 \<Longrightarrow> \<not> (side_at ?side \<le> i \<and> i < side_at ?side + HEADER_SIZE) \<Longrightarrow> c ! i = f1 ! i"
          using found now by auto
        show ?thesis
        proof (cases "slot_image c ?side = buf")
          case True
          then show ?thesis using landed [OF enc True] found now kept_bytes slot by auto
        next
          case False
          then have "decode_slot (slot_image c ?side) \<in> {None, decode_slot (slot_image ?f ?side)}"
            using torn slot_image_written [OF buf_len [OF enc]] by (auto simp: now(1))
          then have "read_state depth c = Ok (S, log)" using found now grown kept_bytes by (intro keep) auto
          then show ?thesis using slot by simp
        qed
      qed
    next
      case after
      then have now: "dk_forced d' = overwrite (side_at ?side) buf f1" "dk_dirty d' = []" using wrote(5) by (simp_all add: at_rest_def)
      have bytes: "c ! i = overwrite (side_at ?side) buf f1 ! i" if "i < length (overwrite (side_at ?side) buf f1)" for i
        using found now that by simp
      have "slot_image c ?side = slot_image (overwrite (side_at ?side) buf f1) ?side"
        using found(2) now bytes buf_len [OF after(2)] unfolding slot_image_def
        by (intro slice_eq_nth) (auto simp: length_overwrite)
      then have "slot_image c ?side = buf" using slot_image_written [OF buf_len [OF after(2)]] by simp
      then have "read_state depth c = Ok (committed_state copies progress j log stand frontier S, log_of t ?side (ns_entries S @ new))"
        using landed [OF after(2)] found(2) now bytes buf_len [OF after(2)] by (auto simp: length_overwrite nth_overwrite)
      then show ?thesis using after by (auto simp: log_of_def)
    qed
  qed
qed


text \<open>C33. A commit that replaces an uncommitted tail by as many but shorter entries, cut between its two
  barriers, leaves a file that no restart reads: the slot in force still counts bytes the append has
  overwritten, and the load ends in the named refusal unless the new slot has landed whole.\<close>

theorem replaced_tail_refused:
  assumes ready: "commit_ready depth d S log copies j"
    and stand: "commit_stand log progress j = Ok (frontier, stand)"
    and run: "sf_commit disk_ops copies progress j (Some log) d = (r, st', d')" "r \<noteq> Ok ()" "dk_forced d' \<noteq> dk_forced d"
    and same: "unat frontier + 1 = unat (lf_base log) + length (lf_entries log)"
    and shorter: "length (region_of (ns_entries (committed_state copies progress j log stand frontier S))) < length (region_of (ns_entries S))"
    and image: "survives d' (Some c)" "length c < 2 ^ 32"
      "decode_slot (slot_image c (side_flip (lf_side log))) \<in> {None, decode_slot (slot_image (dk_forced d) (side_flip (lf_side log)))}"
  shows "read_state depth c = Err (CO_Region RE_Beyond)"
proof -
  let ?side = "side_flip (lf_side log)" and ?f = "dk_forced d" and ?kept = "kept_entries log stand S"
  have rest: "at_rest d" and valid: "\<forall>s e. view_get j s = Some e \<longrightarrow> entry_valid depth e" and old: "read_state depth ?f = Ok (S, log)" "length ?f < 2 ^ 32"
      and small: "unat (lf_base log) + length (lf_entries log) < 2 ^ 64" and at_slot: "\<And>s e. view_get j s = Some e \<Longrightarrow> le_slot e = s"
    using ready by (auto simp: commit_ready_def entry_fits_def)
  note log = commit_ready_log [OF ready] and st = commit_stand_ok [OF stand small]
  have kept: "?kept = take (unat stand + 1 - unat (lf_base log)) (ns_entries S)"
    "unat stand + 1 - unat (lf_base log) \<le> length (ns_entries S)"
    using st(3,4) small log(4) kept_count [of "lf_base log" stand] by (simp_all add: kept_entries_def)
  obtain s es where s: "2 * HEADER_SIZE \<le> length ?f" "active_slot ?f = Some (s, lf_side log)" "ENTRIES_BASE + unat (sb_bytes s) \<le> length ?f"
      "holds depth s (counted ?f s) es" "ns_entries S = es" "lf_bytes log = sb_bytes s" "lf_base log = sb_base s"
    using old(1) unfolding read_state_iff [OF old(2)] by (auto simp: log_of_def state_of_def)
  show ?thesis
  proof (cases rule: commit_phases [OF rest log(1,2) stand valid run(1)])
    case 1
    then show ?thesis using run(3) by simp
  next
    case wrote: (2 new t f1 phase)
    obtain buf where buf: "phase = In_Slot f1 buf" "dk_dirty d' = [] \<or> encode_slot t = Ok buf"
      using wrote(5,6) run(2,3) by auto
    have roster: "lf_roster log = sb_roster s" using roster_survives [OF old] s(2) by auto
    have "length buf = HEADER_SIZE" if "encode_slot t = Ok buf"
      using next_slot_ok(3) [OF s(2) _ _ that] roster ready by (simp add: wrote(3) commit_ready_def)
    then have dirty: "dk_forced d' = f1" "dk_dirty d' = [] \<or> dk_dirty d' = [(side_at ?side, HEADER_SIZE)]"
      using wrote(5) buf by auto
    then have "new \<noteq> []" using wrote(4) run(3) by auto
    then have f1: "dk_forced d' = f1" "f1 = overwrite (ENTRIES_BASE + length (region_of ?kept)) (region_of new) ?f"
        "dk_dirty d' = [] \<or> dk_dirty d' = [(side_at ?side, HEADER_SIZE)]"
      using wrote(4) dirty by (simp_all add: kept_entries_def)
    have new: "map (\<lambda>s. the (view_get j s)) (slots_in stand frontier) = new"
      using arg_cong [OF wrote(1), of "map the"] by (simp add: comp_def)
    have len: "length (region_of (?kept @ new)) < unat (sb_bytes s)"
      using shorter log(3) s(6) by (simp add: committed_state_def new)
    have lnew: "length new = unat frontier - unat stand"
      using arg_cong [OF wrote(1), of length] by (simp add: slots_in_def del: upt_Suc)
    then have count: "unat (sb_count s) = length (?kept @ new)"
      using s(4,5) log(4) kept same st(3,5) by (simp add: holds_def word_le_nat_alt)
    have c: "c ! i = f1 ! i" if "i < length f1" "\<not> (side_at ?side \<le> i \<and> i < side_at ?side + HEADER_SIZE)" for i
      using image(1) f1(1,3) that by (auto simp: survives_def)
    have c_len: "length f1 \<le> length c" "length ?f \<le> length f1" using image(1) f1(1,2) by (auto simp: survives_def length_overwrite)
    have same: "slice x n c = slice x n f1"
      if "x + n \<le> length f1" "x + n \<le> side_at ?side \<or> side_at ?side + HEADER_SIZE \<le> x" for x n
      using that c c_len by (intro slice_eq_nth) auto
    have room: "side_at (lf_side log) + HEADER_SIZE \<le> ENTRIES_BASE" "side_at ?side + HEADER_SIZE \<le> ENTRIES_BASE" by (rule side_room)+
    have "slot_image c (lf_side log) = slot_image f1 (lf_side log)"
      unfolding slot_image_def using side_apart [of "lf_side log"] room s(3) c_len by (intro same) auto
    moreover have "slot_image f1 (lf_side log) = slot_image ?f (lf_side log)"
      using room s(3) by (auto simp: f1(2) slot_image_def intro!: slice_overwrite_other)
    ultimately have act: "active_slot c = Some (s, lf_side log)" using active_keep [OF s(2) _ image(3)] by simp
    define rest' where "rest' = slice (ENTRIES_BASE + length (region_of (?kept @ new))) (unat (sb_bytes s) - length (region_of (?kept @ new))) f1"
    have split: "counted ?f s = region_of ?kept @ region_of (drop (unat stand + 1 - unat (lf_base log)) es)"
      using s(4,5) kept(1) by (simp add: holds_def flip: region_of_simps(3))
    have "slice ENTRIES_BASE (length (region_of (?kept @ new))) f1 = region_of (?kept @ new)"
      using slice_grow [of ENTRIES_BASE "unat (sb_bytes s)" ?f "region_of ?kept" _ "region_of new"] split s(3) len old(2)
      by (simp add: f1(2) counted_def)
    then have "counted c s = region_of (?kept @ new) @ rest'"
      using same [of ENTRIES_BASE "unat (sb_bytes s)"] room s(3) c_len len
        slice_split [of ENTRIES_BASE "length (region_of (?kept @ new))" "unat (sb_bytes s) - length (region_of (?kept @ new))" f1]
      by (simp add: counted_def rest'_def)
    moreover have short: "length (counted c s) < 2 ^ 63" using image(2) by (simp add: counted_def slice_def)
    moreover have "rest' \<noteq> []"
      using len s(3) c_len by (simp add: rest'_def slice_def)
    moreover have "list_all (entry_fits depth) (?kept @ new)" "numbered (sb_base s) 0 (?kept @ new)"
      using s(4,5,7) wrote(2) slots_in_numbered [OF wrote(1) at_slot, of "lf_base log" "length ?kept"] kept st(3)
      by (auto simp: holds_def numbered_take list_all_iff dest: in_set_takeD)
    ultimately have "decode_entries depth (counted c s) (sb_count s) (sb_base s) = Err RE_Beyond"
      using decode_from_leftover [of 0 "counted c s" "?kept @ new" rest' depth "sb_base s" 0] image(2) count
      by (simp add: decode_entries_def short)
    then show ?thesis using act s(1,3) c_len image(2)
      by (simp add: read_state_def Let_def counted_def slice_def take_drop add.commute)
  qed
qed

text \<open>C35. The first life's file is all or nothing: when creating it is cut anywhere, a restart finds no file or
  the whole state, and once it has returned a restart finds that state and the store mirrors it.\<close>

theorem create_all_or_nothing:
  assumes absent: "dk_file d = None"
    and state: "ns_entries state \<noteq> []" "list_all (frameable depth) (ns_entries state)"
      "numbered (le_slot (hd (ns_entries state))) 0 (ns_entries state)" "length (ns_copies state) = 4"
      "distinct (ns_roster state)" "\<forall>nm \<in> set (ns_roster state). nm \<noteq> [] \<and> list_all graphic nm"
    and run: "sf_create disk_ops state None d = (r, st', d')"
    and image: "survives d' img" "case img of None \<Rightarrow> True | Some c \<Rightarrow> length c < 2 ^ 32"
  shows "(img = None \<and> r \<noteq> Ok ()) \<or> (\<exists>c log. img = Some c \<and> read_state depth c = Ok (state, log) \<and> (r = Ok () \<longrightarrow> st' = Some log))"
proof -
  let ?es = "ns_entries state"
  define s where "s = \<lparr>sb_seq = 1, sb_copies = ns_copies state, sb_roster = ns_roster state, sb_progress = ns_progress state,
    sb_base = le_slot (hd ?es), sb_count = of_nat (length ?es), sb_bytes = of_nat (length (region_of ?es))\<rparr>"
  have frames: "frame_all 0 ?es = Ok (region_of ?es, mirror_of 0 ?es, of_nat (length (region_of ?es)))"
    using frame_all_frames [OF state(2), of 0] by simp
  have log: "log_of s Side_A ?es = \<lparr>lf_side = Side_A, lf_seq = 1, lf_roster = ns_roster state, lf_base = le_slot (hd ?es),
      lf_entries = mirror_of 0 ?es, lf_bytes = of_nat (length (region_of ?es))\<rparr>"
    by (simp add: log_of_def s_def)
  have run': "sf_create disk_ops state None d =
      (case encode_slot s of Inl x \<Rightarrow> (Err x, None, d)
       | Inr header \<Rightarrow>
          (case io_all [fo_write_temp disk_ops (header @ replicate HEADER_SIZE 0 @ region_of ?es), fo_sync_temp disk_ops,
                 fo_rename disk_ops, fo_sync_dir disk_ops, fo_open disk_ops] d of
             (Inl x, d) \<Rightarrow> (Err x, None, d)
           | (Inr _, d) \<Rightarrow> (Ok (), Some (log_of s Side_A ?es), d)))"
    unfolding sf_create_def list.case_eq_if frames rbind.simps prod.case
    unfolding log by (cases "encode_slot s") (simp_all add: s_def armed_def state(1) del: io_all.simps)
  show ?thesis
  proof (cases "encode_slot s")
    case (Inl x)
    then have "r \<noteq> Ok ()" "d' = d" using run run' by auto
    then show ?thesis using image(1) absent by (cases img) (auto simp: survives_def)
  next
    case (Inr header)
    have ok: "slot_ok s"
      using Inr state(4-6) by (auto simp: slot_ok_def roster_ok_def s_def encode_slot_def split: if_splits)
    then have header: "header = enc_slot s" "length header = HEADER_SIZE" using Inr encode_slot_eq length_slot_pre(4) by auto
    let ?file = "header @ replicate HEADER_SIZE 0 @ region_of ?es"
    have whole: "read_state depth c = Ok (state, log_of s Side_A ?es)"
      if "length ?file \<le> length c" "length c < 2 ^ 32" "\<And>i. i < length ?file \<Longrightarrow> c ! i = ?file ! i" for c
    proof -
      have "take (length ?file) c = ?file" using that(1,3) by (intro nth_equalityI) auto
      then have "read_state depth c = Ok (state_of s ?es, log_of s Side_A ?es)"
        using ok that(1,2) header state(2,3) frameable_fits
        by (intro first_file_reads) (auto simp: s_def layout list_all_iff)
      moreover have "state_of s ?es = state" by (simp add: state_of_def s_def)
      ultimately show ?thesis by simp
    qed
    from run [unfolded run' Inr sum.case]
    have out: "(dk_file d' = None \<and> r \<noteq> Ok ())
        \<or> (dk_file d' = Some ?file \<and> dk_forced d' = ?file \<and> dk_dirty d' = []
           \<and> (r = Ok () \<longrightarrow> dk_named d' \<and> st' = Some (log_of s Side_A ?es)))"
      using absent by (auto simp: disk_ops_def spend_def split: if_splits prod.splits bool.splits)
    show ?thesis
    proof (cases img)
      case None
      then show ?thesis using out image(1) by (auto simp: survives_def)
    next
      case (Some c)
      then show ?thesis using out image whole [of c] by (auto simp: survives_def)
    qed
  qed
qed


section \<open>A file on a disk\<close>

definition some_write :: "slot \<Rightarrow> u8 list \<Rightarrow> log_entry" where
  "some_write n bytes = \<lparr>le_slot = n, le_era = 0, le_payload = P_Operation \<lparr>msb = 1, lsb = 2\<rparr> bytes\<rparr>"

definition some_copies :: superblock_copies where
  "some_copies = replicate 4 \<lparr>cs_identity = 5, cs_marker = Mk_Joining\<rparr>"

definition some_progress :: "slot \<Rightarrow> slot \<Rightarrow> persisted_progress" where
  "some_progress accepted committed =
     \<lparr>pp_current = Ballot 0 0, pp_retained = Ballot 0 0, pp_status = St_Normal, pp_accepted = accepted, pp_committed = committed,
      pp_applied = committed, pp_checkpoint = 1, pp_revision = 1, pp_fault = None\<rparr>"

definition some_slot :: "log_entry list \<Rightarrow> slot_bytes" where
  "some_slot es =
     \<lparr>sb_seq = 1, sb_copies = some_copies, sb_roster = [[0x6E]], sb_progress = some_progress (of_nat (length es)) 1, sb_base = 1,
      sb_count = of_nat (length es), sb_bytes = of_nat (length (region_of es))\<rparr>"

definition some_disk :: "log_entry list \<Rightarrow> nat \<Rightarrow> disk" where
  "some_disk es left =
     (let f = enc_slot (some_slot es) @ replicate HEADER_SIZE 0 @ region_of es
      in \<lparr>dk_file = Some f, dk_forced = f, dk_dirty = [], dk_named = True, dk_temp = [], dk_temp_forced = True, dk_left = left\<rparr>)"

definition some_view :: "log_entry list \<Rightarrow> log_view" where
  "some_view es = \<lparr>lv_slabs = [], lv_boundaries = [], lv_tail = es, lv_first = 1, lv_last = Some (of_nat (length es))\<rparr>"

lemma some_slot_ok: "slot_ok (some_slot es)"
  by (simp add: slot_ok_def roster_ok_def some_slot_def some_copies_def framed_roster_def ROSTER_AREA_def graphic_def)

lemma some_write_fits: "length bytes < 1000 \<Longrightarrow> frameable depth (some_write n bytes)"
  by (simp add: frameable_def entry_valid_def payload_valid_def some_write_def framable_def enc_entry_def enc_payload_def
      enc_operation_id_def enc_opaque_def)

lemma length_some_write [simp]: "length (enc_entry (some_write n bytes)) = 33 + length bytes"
  by (simp add: enc_entry_def some_write_def enc_payload_def enc_operation_id_def enc_opaque_def)

lemma le_slot_some_write [simp]: "le_slot (some_write n bytes) = n"
  by (simp add: some_write_def)

lemma some_view_get: "view_get (some_view es) s = (if 1 \<le> unat s then nth_opt es (unat s - 1) else None)"
  by (simp add: view_get_def entry_at_def some_view_def Let_def partition_point_def)

lemma some_ready:
  assumes "list_all (frameable depth) es" "list_all (frameable depth) fs" "numbered 1 0 es" "numbered 1 0 fs"
    "length es < 1000" "length fs < 1000" "length (region_of es) < 2 ^ 31"
  shows "commit_ready depth (some_disk es left) (state_of (some_slot es) es) (log_of (some_slot es) Side_A es) some_copies (some_view fs)"
proof -
  have len: "length (enc_slot (some_slot es)) = HEADER_SIZE" by (rule length_slot_pre(4) [OF some_slot_ok])
  have "read_state depth (dk_forced (some_disk es left)) = Ok (state_of (some_slot es) es, log_of (some_slot es) Side_A es)"
    using assms(1,3,7) len frameable_fits some_slot_ok
    by (intro first_file_reads) (auto simp: some_slot_def some_disk_def Let_def layout list_all_iff)
  moreover have "entry_fits depth e \<and> le_slot e = s" if "view_get (some_view fs) s = Some e" for s e
  proof -
    have i: "unat s - 1 < length fs" "e = fs ! (unat s - 1)" "1 \<le> unat s"
      using that by (auto simp: some_view_get nth_opt_def split: if_splits)
    then have "le_slot e = 1 + of_nat (unat s - 1)" using nth_numbered [OF assms(4) i(1)] by simp
    also have "\<dots> = of_nat (unat s)" using i(3) by (metis of_nat_1 of_nat_add le_add_diff_inverse)
    finally show ?thesis using i assms(2) frameable_fits by (simp add: list_all_length)
  qed
  ultimately show ?thesis
    using assms(5,7) len
    by (simp add: commit_ready_def at_rest_def some_disk_def Let_def layout log_of_def some_slot_def some_copies_def word_less_nat_alt unat_minus_one_is)
qed

text \<open>A commit of the samples, step by step.\<close>

lemma some_commit_run:
  fixes es fs :: "log_entry list" and left depth :: nat
  assumes ready: "commit_ready depth (some_disk es left) (state_of (some_slot es) es) (log_of (some_slot es) Side_A es) some_copies (some_view fs)"
    and stand: "commit_stand (log_of (some_slot es) Side_A es) progress (some_view fs) = Ok (frontier, stand)"
    and kept: "unat stand \<le> length es"
    and new: "map (view_get (some_view fs)) (slots_in stand frontier) = map Some new" "list_all (frameable depth) new" "new \<noteq> []"
  defines "a \<equiv> length (region_of (take (unat stand) es))"
  defines "t \<equiv> next_slot (log_of (some_slot es) Side_A es) some_copies progress (unat stand + length new) (of_nat (a + length (region_of new)))"
  shows "sf_commit disk_ops some_copies progress (some_view fs) (Some (log_of (some_slot es) Side_A es)) (some_disk es left) =
    (let log = (log_of (some_slot es) Side_A es)\<lparr>lf_entries := mirror_of 0 (take (unat stand) es @ new)\<rparr>
     in case io_all [disk_write (ENTRIES_BASE + a) (region_of new), disk_sync] (some_disk es left) of
          (Inl e, d) \<Rightarrow> (Err e, Some log, d)
        | (Inr _, d) \<Rightarrow>
            (case io_all [disk_write HEADER_SIZE (enc_slot t), disk_sync] d of
               (Inl e, d) \<Rightarrow> (Err e, Some log, d)
             | (Inr _, d) \<Rightarrow> (Ok (), Some (log\<lparr>lf_side := Side_B, lf_seq := 2, lf_bytes := of_nat (a + length (region_of new))\<rparr>), d)))"
proof -
  let ?log = "log_of (some_slot es) Side_A es"
  have log: "lf_base ?log = 1" "lf_entries ?log = mirror_of 0 es" "lf_side ?log = Side_A" "lf_seq ?log = 1" "lf_roster ?log = [[0x6E]]"
    by (simp_all add: log_of_def some_slot_def)
  have one: "stand - 1 + 1 = (stand :: slot)" by simp
  have "length (region_of es) < 2 ^ 32" using commit_ready_log(2) [OF ready] by (simp add: state_of_def)
  moreover have "a \<le> length (region_of es)"
    unfolding a_def by (metis append_take_drop_id le_add1 length_append region_of_simps(3))
  ultimately have a: "a < 2 ^ 32" by linarith
  then have w: "mirror_end (mirror_of 0 (take (unat stand) es)) = of_nat a" "unat (of_nat a :: u64) = a"
    unfolding a_def by (simp_all add: mirror_end_of unat_of_nat)
  have ok: "slot_ok t" by (simp add: slot_ok_def roster_ok_def t_def some_copies_def log framed_roster_def ROSTER_AREA_def graphic_def)
  have slot: "\<lparr>sb_seq = lf_seq ?log + 1, sb_copies = some_copies, sb_roster = lf_roster ?log, sb_progress = progress,
      sb_base = lf_base ?log, sb_count = of_nat (length (mirror_of 0 (take (unat stand) es @ new))),
      sb_bytes = of_nat (a + length (region_of new))\<rparr> = t"
    using kept by (simp add: t_def next_slot_def min_def)
  have filled: "region_of new = [] \<longleftrightarrow> False"
    using new(3) few_entries [of new] by (cases "region_of new") simp_all
  have app: "append_slots (some_view fs) (slots_in stand frontier) (of_nat a) (mirror_of 0 (take (unat stand) es)) [] =
      (Ok (region_of new, of_nat (a + length (region_of new))), mirror_of 0 (take (unat stand) es @ new))"
    using append_slots_run [OF new(1,2), of a "mirror_of 0 (take (unat stand) es)" "[]"] by (simp add: a_def)
  have L: "?log = \<lparr>lf_side = Side_A, lf_seq = 1, lf_roster = [[0x6E]], lf_base = 1, lf_entries = mirror_of 0 es,
      lf_bytes = of_nat (length (region_of es))\<rparr>"
    by (simp add: log_of_def some_slot_def)
  note parts = slot [unfolded L log_file.simps one_add_one] app w
  show ?thesis
    unfolding sf_commit_def stand Let_def option.case sum.case prod.case unfolding L log_file.simps
    unfolding one take_mirror_of parts sum.case prod.case filled if_False disk_ops_sel encode_slot_eq [OF ok] side_flip.simps side_at.simps
      log_file.simps one_add_one by (rule refl)
qed

abbreviation two_writes :: "log_entry list" where
  "two_writes \<equiv> [some_write 1 [1], some_write 2 [1, 2, 3]]"

abbreviation third_write :: "log_entry list" where
  "third_write \<equiv> [some_write 1 [1], some_write 2 [1, 2, 3], some_write 3 [7]]"

abbreviation other_write :: "log_entry list" where
  "other_write \<equiv> [some_write 1 [1], some_write 2 [9]]"

abbreviation some_log :: log_file where
  "some_log \<equiv> log_of (some_slot two_writes) Side_A two_writes"

abbreviation some_state :: node_state where
  "some_state \<equiv> state_of (some_slot two_writes) two_writes"

lemma some_digest: "length bytes < 1000 \<Longrightarrow> digest_of (some_write n bytes) = Ok (fnv1a (enc_entry (some_write n bytes)))"
  by (rule digest_of_fits [OF frameable_fits [OF some_write_fits]])

lemma digests_differ: "fnv1a (enc_entry (some_write 2 [9])) \<noteq> fnv1a (enc_entry (some_write 2 [1, 2, 3]))"
  by code_simp

lemma some_log_sel: "lf_base some_log = 1" "lf_entries some_log = mirror_of 0 two_writes" "lf_side some_log = Side_A"
  by (simp_all add: log_of_def some_slot_def)

lemma some_slots: "slots_in 1 2 = [2]" "slots_in 2 3 = [3]" "slots_in 2 2 = []" "slots_in 1 1 = []"
  by code_simp+

lemma some_view_sel: "lv_last (some_view es) = Some (of_nat (length es))" "view_retained (some_view es) = (1, of_nat (length es))"
  by (simp_all add: some_view_def view_retained_def)

lemmas some_stand = commit_stand_def some_log_sel some_view_sel some_slots some_progress_def some_view_get nth_opt_def some_digest
  mirror_entry_def digests_differ

lemma stand_append: "commit_stand some_log (some_progress 3 1) (some_view third_write) = Ok (3, 2)"
  by (simp add: some_stand)

lemma stand_replaced: "commit_stand some_log (some_progress 2 1) (some_view other_write) = Ok (2, 1)"
  by (simp add: some_stand)

lemma stand_committed: "commit_stand some_log (some_progress 2 2) (some_view other_write) = Ok (2, 2)"
  by (simp add: some_stand)

lemma ready_append: "commit_ready depth (some_disk two_writes left) some_state some_log some_copies (some_view third_write)"
  by (rule some_ready) (simp_all add: some_write_fits)

lemma ready_replaced: "commit_ready depth (some_disk two_writes left) some_state some_log some_copies (some_view other_write)"
  by (rule some_ready) (simp_all add: some_write_fits)


section \<open>Witnesses\<close>

theorem slot_roundtrip_witness:
  "\<exists>buf. encode_slot (some_slot two_writes) = Ok buf \<and> length buf = 4225 \<and> decode_slot buf = Some (some_slot two_writes)"
  using slot_roundtrip [of "some_slot two_writes"] some_slot_ok [of two_writes] by (simp add: slot_ok_def roster_ok_def layout)

theorem rotted_slot_refused_witness:
  "\<exists>buf. encode_slot (some_slot two_writes) = Ok buf \<and> decode_slot (buf[4 := buf ! 4 + 1]) = None"
proof -
  let ?s = "some_slot two_writes"
  note ok = some_slot_ok [of two_writes]
  have "4 < length (enc_slot ?s)" using length_slot_pre(4) [OF ok] by (simp add: layout)
  then have "decode_slot ((enc_slot ?s)[4 := enc_slot ?s ! 4 + 1]) = None"
    using rotted_slot_refused [OF _ _ _ encode_slot_eq [OF ok], of 4 "enc_slot ?s ! 4 + 1"] ok
    by (simp add: slot_ok_def roster_ok_def)
  then show ?thesis using encode_slot_eq [OF ok] by blast
qed

definition first_state :: node_state where
  "first_state = \<lparr>ns_copies = some_copies, ns_roster = [[0x6E]], ns_progress = some_progress 2 1, ns_entries = two_writes\<rparr>"

definition blank_disk :: disk where
  "blank_disk = \<lparr>dk_file = None, dk_forced = [], dk_dirty = [], dk_named = False, dk_temp = [], dk_temp_forced = False, dk_left = 10\<rparr>"

lemma first_state_created:
  "\<exists>log f d'. sf_create disk_ops first_state None blank_disk = (Ok (), Some log, d') \<and> dk_file d' = Some f \<and> dk_forced d' = f
     \<and> dk_dirty d' = [] \<and> length f < 2 ^ 32"
proof -
  have frames: "frame_all 0 two_writes = Ok (region_of two_writes, mirror_of 0 two_writes, of_nat (0 + length (region_of two_writes)))"
    using frame_all_frames [of 0 two_writes 0] by (simp add: some_write_fits del: region_of_simps mirror_of.simps)
  have slot: "\<lparr>sb_seq = 1, sb_copies = some_copies, sb_roster = [[0x6E]], sb_progress = some_progress 2 1, sb_base = 1,
      sb_count = of_nat (length two_writes), sb_bytes = of_nat (0 + length (region_of two_writes))\<rparr> = some_slot two_writes"
    by (simp add: some_slot_def)
  show ?thesis
    using length_slot_pre(4) [OF some_slot_ok [of two_writes]]
    by (simp add: sf_create_def armed_def first_state_def frames slot [simplified] encode_slot_eq [OF some_slot_ok [of two_writes]]
        disk_ops_def spend_def blank_disk_def layout some_write_def [symmetric] del: frame_all.simps)
qed

theorem create_all_or_nothing_witness:
  "\<exists>log d'. sf_create disk_ops first_state None blank_disk = (Ok (), Some log, d') \<and> read_state 0 (dk_forced d') = Ok (first_state, log)"
proof -
  obtain log f d' where run: "sf_create disk_ops first_state None blank_disk = (Ok (), Some log, d')" and d': "dk_file d' = Some f"
      "dk_forced d' = f" "dk_dirty d' = []" "length f < 2 ^ 32"
    using first_state_created by blast
  have "survives d' (Some f)" using d' by (simp add: survives_def)
  then show ?thesis
    using create_all_or_nothing [of blank_disk first_state 0 "Ok ()" "Some log" d' "Some f"] run d'
    by (simp add: blank_disk_def first_state_def some_write_fits some_copies_def graphic_def)
qed

lemma some_new:
  "map (view_get (some_view third_write)) (slots_in 2 3) = map Some [some_write 3 [7]]"
  "map (view_get (some_view other_write)) (slots_in 1 2) = map Some [some_write 2 [9]]"
  by (simp_all add: some_slots some_view_get nth_opt_def)

text \<open>The appending commit, cut after \<open>left\<close> operations; nothing is cut from four on.\<close>

definition append_cut :: "nat \<Rightarrow> (store_refusal + unit) \<times> store \<times> disk" where
  "append_cut left = sf_commit disk_ops some_copies (some_progress 3 1) (some_view third_write) (Some some_log) (some_disk two_writes left)"

lemma some_disk_len:
  "length (dk_forced (some_disk two_writes left)) = 8528" "dk_file (some_disk two_writes left) = Some (dk_forced (some_disk two_writes left))"
  "dk_left (some_disk two_writes left) = left" "dk_dirty (some_disk two_writes left) = []"
  using length_slot_pre(4) [OF some_slot_ok [of two_writes]] by (simp_all add: some_disk_def Let_def layout)

lemma some_next_len: "length (enc_slot (next_slot some_log some_copies progress n c)) = HEADER_SIZE"
proof (rule length_slot_pre(4))
  show "slot_ok (next_slot some_log some_copies progress n c)"
    using some_slot_ok [of two_writes] by (simp add: slot_ok_def log_of_def some_slot_def)
qed

lemma append_runs: "\<exists>log d'. append_cut 4 = (Ok (), Some log, d') \<and> length (dk_forced d') < 2 ^ 32"
proof -
  have "frameable 0 (some_write 3 [7])" by (simp add: some_write_fits)
  then show ?thesis
    using some_disk_len [of 4] some_next_len unfolding append_cut_def
    by (subst some_commit_run [OF ready_append [of 0 4] stand_append _ some_new(1)])
      (simp_all add: Let_def disk_write_def disk_sync_def spend_def contents_def length_overwrite layout)
qed

theorem commit_reloads_witness:
  "\<exists>log d' S'. append_cut 4 = (Ok (), Some log, d') \<and> read_state 0 (dk_forced d') = Ok (S', log)
     \<and> length (ns_entries S') = 3 \<and> ns_entries S' ! 0 = some_write 1 [1] \<and> ns_entries S' ! 2 = some_write 3 [7]"
proof -
  obtain log d' where run: "append_cut 4 = (Ok (), Some log, d')" "length (dk_forced d') < 2 ^ 32" using append_runs by blast
  obtain S' log' frontier where out: "Some log = Some log'" "read_state 0 (dk_forced d') = Ok (S', log')"
      "lv_last (some_view third_write) = Some frontier" "unat (lf_base some_log) + length (ns_entries S') = unat frontier + 1"
    and entry: "\<And>i. i < length (ns_entries S') \<Longrightarrow>
        if i < length (ns_entries some_state) \<and> lf_base some_log + of_nat i \<le> max (pp_committed (some_progress 3 1)) (lf_base some_log)
        then ns_entries S' ! i = ns_entries some_state ! i
        else \<exists>e. view_get (some_view third_write) (lf_base some_log + of_nat i) = Some e
          \<and> (ns_entries S' ! i = e \<or> i < length (ns_entries some_state) \<and> ns_entries S' ! i = ns_entries some_state ! i
               \<and> fnv1a (enc_entry e) = fnv1a (enc_entry (ns_entries S' ! i)))"
    using commit_reloads [OF ready_append [of 0 4] run(1) [unfolded append_cut_def] run(2)] by blast
  have "length (ns_entries S') = 3" using out(3,4) by (simp add: some_view_sel some_log_sel)
  moreover have "ns_entries S' ! 0 = some_write 1 [1]"
    using entry [of 0] calculation by (simp add: some_log_sel some_progress_def state_of_def)
  moreover have "ns_entries S' ! 2 = some_write 3 [7]"
    using entry [of 2] calculation by (simp add: some_log_sel some_progress_def some_view_get nth_opt_def state_of_def)
  ultimately show ?thesis using run(1) out(1,2) by auto
qed

theorem commit_crash_atomic_witness:
  "\<exists>log. read_state 0 (dk_forced (snd (snd (append_cut 1))) @ [0xFF, 0x13]) = Ok (some_state, some_log)
     \<or> read_state 0 (dk_forced (snd (snd (append_cut 1))) @ [0xFF, 0x13])
         = Ok (committed_state some_copies (some_progress 3 1) (some_view third_write) some_log 2 3 some_state, log)"
proof -
  let ?d = "some_disk two_writes 1"
  obtain r st' d' where run: "append_cut 1 = (r, st', d')" using prod_cases3 by blast
  have fits: "list_all (frameable 0) [some_write 3 [7]]" by (simp add: some_write_fits)
  have kept: "unat (2 :: slot) \<le> length two_writes" by simp
  have d': "dk_forced d' = dk_forced ?d" "dk_file d' \<noteq> None" "dk_dirty d' = [(8528, 38)]"
    using run [unfolded append_cut_def, unfolded some_commit_run [OF ready_append [of 0 1] stand_append kept some_new(1) fits list.distinct(2)]] some_disk_len [of 1]
    by (auto simp: Let_def disk_write_def disk_sync_def spend_def contents_def layout)
  let ?c = "dk_forced d' @ [0xFF, 0x13]"
  have "survives d' (Some ?c)" using d' by (simp add: survives_def nth_append)
  moreover have "slot_image ?c (side_flip (lf_side some_log)) = slot_image (dk_forced ?d) (side_flip (lf_side some_log))"
    using some_disk_len [of 1] by (simp add: d' some_log_sel slot_image_def slice_def layout)
  moreover have "length ?c < 2 ^ 32" using some_disk_len [of 1] d' by simp
  moreover have "unat (2 :: slot) + 1 = unat (lf_base some_log) + length (lf_entries some_log)" by (simp add: some_log_sel)
  ultimately show ?thesis
    using commit_crash_atomic [OF ready_append [of 0 1] stand_append _ run [unfolded append_cut_def], of ?c] run by auto
qed



theorem replaced_tail_refused_witness:
  "read_state 0 (dk_forced (snd (snd (sf_commit disk_ops some_copies (some_progress 2 1) (some_view other_write) (Some some_log)
     (some_disk two_writes 2))))) = Err (CO_Region RE_Beyond)"
proof -
  let ?d = "some_disk two_writes 2" and ?f1 = "overwrite (ENTRIES_BASE + 38) (region_of [some_write 2 [9]]) (dk_forced (some_disk two_writes 2))"
  obtain r st' d' where run: "sf_commit disk_ops some_copies (some_progress 2 1) (some_view other_write) (Some some_log) ?d = (r, st', d')"
    using prod_cases3 by blast
  have fits: "list_all (frameable 0) [some_write 2 [9]]" by (simp add: some_write_fits)
  have d': "dk_forced d' = ?f1" "dk_file d' \<noteq> None" "r \<noteq> Ok ()"
    using run some_disk_len [of 2] unfolding some_commit_run [OF ready_replaced [of 0 2] stand_replaced _ some_new(2) fits, simplified]
    by (auto simp: Let_def disk_write_def disk_sync_def spend_def contents_def layout)
  have len: "length ?f1 = 8528" using some_disk_len [of 2] by (simp add: length_overwrite layout)
  have "slice (ENTRIES_BASE + 38) 4 ?f1 = to_be_bytes 4 (34 :: u32)"
    using arg_cong [OF slice_overwrite_here [of "ENTRIES_BASE + 38" "region_of [some_write 2 [9]]" "dk_forced ?d"], of "take 4"]
    by (simp add: slice_def frame_bytes_def)
  moreover have "slice (ENTRIES_BASE + 38) 4 (dk_forced ?d) = to_be_bytes 4 (36 :: u32)"
    using length_slot_pre(4) [OF some_slot_ok [of two_writes]] by (simp add: some_disk_def Let_def slice_def layout frame_bytes_def)
  moreover have "to_be_bytes 4 (34 :: u32) \<noteq> to_be_bytes 4 (36 :: u32)" using word_bytes(1) [of 34] word_bytes(1) [of 36] by auto
  ultimately have changed: "dk_forced d' \<noteq> dk_forced ?d" using d'(1) by auto
  have "survives d' (Some (dk_forced d'))" using d' by (simp add: survives_def)
  moreover have "length (dk_forced d') < 2 ^ 32" using d' len by simp
  moreover have "slot_image (dk_forced d') (side_flip (lf_side some_log)) = slot_image (dk_forced ?d) (side_flip (lf_side some_log))"
    using some_disk_len [of 2] by (auto simp: d'(1) some_log_sel slot_image_def layout intro!: slice_overwrite_other)
  moreover have "length (region_of (ns_entries (committed_state some_copies (some_progress 2 1) (some_view other_write) some_log 1 2 some_state)))
      < length (region_of (ns_entries some_state))"
    by (simp add: committed_state_def kept_entries_def some_log_sel state_of_def some_slots some_view_get nth_opt_def)
  moreover have "unat (2 :: slot) + 1 = unat (lf_base some_log) + length (lf_entries some_log)" by (simp add: some_log_sel)
  ultimately show ?thesis
    using replaced_tail_refused [OF ready_replaced [of 0 2] stand_replaced run d'(3) changed, of "dk_forced d'"] run by simp
qed

end
