(* ===== verification/Maelstrom_Service.thy ===== *)
theory Maelstrom_Service
  imports Ids
begin

text \<open>
  The service of the Maelstrom node and its words (\<open>src/bin/maelstrom-lin-kv/kv.rs\<close>, \<open>proto.rs\<close>) and its
  identity map (\<open>main.rs\<close>). A JSON value is a type parameter with its text, the printer of the serde
  library; a Rust string is the list of its bytes.
\<close>

section \<open>Requests and responses\<close>

definition TEMPORARILY_UNAVAILABLE :: u32 where "TEMPORARILY_UNAVAILABLE = 11"
definition MALFORMED_REQUEST :: u32 where "MALFORMED_REQUEST = 12"
definition KEY_DOES_NOT_EXIST :: u32 where "KEY_DOES_NOT_EXIST = 20"
definition PRECONDITION_FAILED :: u32 where "PRECONDITION_FAILED = 22"

datatype 'v kv_request =
    KvRead u64 u64 'v
  | KvWrite u64 u64 'v 'v
  | KvCas u64 u64 'v 'v 'v

fun request_ids :: "'v kv_request \<Rightarrow> u64 \<times> u64" where
  "request_ids (KvRead client_id request_num key) = (client_id, request_num)"
| "request_ids (KvWrite client_id request_num key value) = (client_id, request_num)"
| "request_ids (KvCas client_id request_num key old new) = (client_id, request_num)"

datatype 'v kv_response =
    ReadOk u64 u64 'v
  | WriteOk u64 u64
  | CasOk u64 u64
  | Failed u64 u64 u32 string


section \<open>The store of values\<close>

type_synonym 'v kv = "string \<rightharpoonup> 'v"

text \<open>A key is its text; \<open>text_of\<close> is the printer.\<close>

fun kv_execute :: "('v \<Rightarrow> string) \<Rightarrow> 'v kv_request \<Rightarrow> 'v kv \<Rightarrow> 'v kv_response \<times> 'v kv" where
  "kv_execute text_of (KvRead client_id request_num key) entries =
     ((case entries (text_of key) of
         Some value \<Rightarrow> ReadOk client_id request_num value
       | None \<Rightarrow> Failed client_id request_num KEY_DOES_NOT_EXIST ''key does not exist''), entries)"
| "kv_execute text_of (KvWrite client_id request_num key value) entries =
     (WriteOk client_id request_num, entries(text_of key \<mapsto> value))"
| "kv_execute text_of (KvCas client_id request_num key old new) entries =
     (case entries (text_of key) of
        None \<Rightarrow> (Failed client_id request_num KEY_DOES_NOT_EXIST ''key does not exist'', entries)
      | Some current \<Rightarrow>
          if current = old then (CasOk client_id request_num, entries(text_of key \<mapsto> new))
          else (Failed client_id request_num PRECONDITION_FAILED
                  (''expected '' @ text_of old @ '', but had '' @ text_of current), entries))"


section \<open>Hexadecimal text\<close>

definition DIGITS :: string where "DIGITS = ''0123456789abcdef''"

definition to_hex :: "u8 list \<Rightarrow> string" where
  "to_hex bytes = concat (map (\<lambda>b. [DIGITS ! unat (drop_bit 4 b), DIGITS ! unat (b AND 0x0f)]) bytes)"

definition to_digit :: "char \<Rightarrow> u32 option" where
  "to_digit c =
     (let n = of_char c :: nat
      in if 48 \<le> n \<and> n \<le> 57 then Some (of_nat (n - 48))
         else if 97 \<le> n \<and> n \<le> 102 then Some (of_nat (n - 87))
         else if 65 \<le> n \<and> n \<le> 70 then Some (of_nat (n - 55))
         else None)"

definition from_hex :: "string \<Rightarrow> u8 list option" where
  "from_hex digits =
     (if odd (length digits) then None
      else those (map (\<lambda>index.
        Option.bind (to_digit (digits ! (index * 2))) (\<lambda>hi.
        Option.bind (to_digit (digits ! (index * 2 + 1))) (\<lambda>lo.
          Some (ucast (hi * 16 + lo))))) [0..<length digits div 2]))"


section \<open>Client numbers\<close>

text \<open>The parser of the standard library for \<open>u64\<close>: an optional plus sign, then decimal digits that fit.\<close>

definition decimal :: "string \<Rightarrow> nat option" where
  "decimal ds =
     (if ds = [] \<or> \<not> list_all (\<lambda>c. 48 \<le> (of_char c :: nat) \<and> (of_char c :: nat) \<le> 57) ds then None
      else Some (foldl (\<lambda>n c. n * 10 + (of_char c - 48)) 0 ds))"

definition parse_u64 :: "string \<Rightarrow> u64 option" where
  "parse_u64 s =
     (case decimal (case s of CHR ''+'' # rest \<Rightarrow> rest | _ \<Rightarrow> s) of
        None \<Rightarrow> None
      | Some n \<Rightarrow> if n < 2 ^ 64 then Some (of_nat n) else None)"

definition client_number :: "string \<Rightarrow> u64 option" where
  "client_number src = (case src of CHR ''c'' # rest \<Rightarrow> parse_u64 rest | _ \<Rightarrow> None)"


section \<open>Identities\<close>

record identity =
  id_roster :: "string list"
  id_current :: "string \<rightharpoonup> node_id"

text \<open>The genesis identity of a position; \<open>None\<close> is the panic at a position that names no system.\<close>

definition id_genesis :: "nat \<Rightarrow> node_id option" where
  "id_genesis index =
     Option.bind (system_id_new (of_nat index + 1)) (\<lambda>system.
     Option.bind (crash_counter_new 1) (\<lambda>crash. Some (node_id_new system crash)))"

definition id_of :: "node_id \<Rightarrow> u32 \<Rightarrow> node_id option" where
  "id_of n place =
     (if \<not> is_lawful n then None
      else case system_id n of
        Some system \<Rightarrow> if system = ucast place + 1 then Some n else None
      | None \<Rightarrow> None)"

definition string_of :: "identity \<Rightarrow> node_id \<Rightarrow> string option" where
  "string_of ident n =
     Option.bind (system_id n) (\<lambda>system.
       if unat system - 1 < length (id_roster ident) then Some (id_roster ident ! (unat system - 1)) else None)"

text \<open>\<open>None\<close> is the panic of \<open>id_genesis\<close>.\<close>

definition attributed :: "identity \<Rightarrow> string \<Rightarrow> node_id option option" where
  "attributed ident src =
     (case id_current ident src of
        Some n \<Rightarrow> Some (Some n)
      | None \<Rightarrow>
          (case position (\<lambda>member. member = src) (id_roster ident) of
             None \<Rightarrow> Some None
           | Some index \<Rightarrow> map_option Some (id_genesis index)))"

definition remap :: "identity \<Rightarrow> string \<Rightarrow> node_id \<Rightarrow> node_id \<Rightarrow> bool \<times> identity" where
  "remap ident src old new =
     (if string_of ident old \<noteq> Some src then (False, ident)
      else (True, ident\<lparr>id_current := (id_current ident)(src \<mapsto> new)\<rparr>))"


section \<open>What the words promise\<close>

lemma to_digit_DIGITS: "n < 16 \<Longrightarrow> to_digit (DIGITS ! n) = Some (of_nat n)"
proof -
  assume "n < 16"
  then have "n \<in> set [0..<16]" by simp
  moreover have "\<forall>n \<in> set [0..<16]. to_digit (DIGITS ! n) = Some (of_nat n)" by code_simp
  ultimately show ?thesis by blast
qed


lemma to_hex_simps [simp]:
  "to_hex [] = []" "to_hex (b # bs) = DIGITS ! unat (drop_bit 4 b) # DIGITS ! unat (b AND 0x0f) # to_hex bs"
  by (simp_all add: to_hex_def)

definition from_pair :: "char \<Rightarrow> char \<Rightarrow> u8 option" where
  "from_pair a b = Option.bind (to_digit a) (\<lambda>hi. Option.bind (to_digit b) (\<lambda>lo. Some (ucast (hi * 16 + lo))))"

lemma those_Some: "those xs = Some ys \<longleftrightarrow> xs = map Some ys"
  by (induction xs arbitrary: ys) (auto split: option.splits)

lemma from_hex_Nil [simp]: "from_hex [] = Some []"
  by (simp add: from_hex_def)

lemma from_hex_pair [simp]: "from_hex (a # b # s) = Option.bind (from_pair a b) (\<lambda>x. map_option ((#) x) (from_hex s))"
proof -
  let ?f = "\<lambda>t index. Option.bind (to_digit (t ! (index * 2))) (\<lambda>hi. Option.bind (to_digit (t ! (index * 2 + 1))) (\<lambda>lo. Some (ucast (hi * 16 + lo))))"
  have "[0..<Suc n] = 0 # map Suc [0..<n]" for n by (simp add: upt_conv_Cons map_Suc_upt del: upt_Suc)
  then have "map (?f (a # b # s)) [0..<Suc (length s div 2)] = from_pair a b # map (?f s) [0..<length s div 2]"
    by (simp add: from_pair_def comp_def del: upt_Suc)
  then have "those (map (?f (a # b # s)) [0..<Suc (length s div 2)]) =
      Option.bind (from_pair a b) (\<lambda>x. map_option ((#) x) (those (map (?f s) [0..<length s div 2])))"
    by (auto split: option.splits)
  then show ?thesis by (cases "from_pair a b") (simp_all add: from_hex_def del: upt_Suc)
qed

lemma from_hex_one [simp]: "from_hex [a] = None"
  by (simp add: from_hex_def)

text \<open>A hex digit read: its value is the one of its lower case.\<close>

definition lower :: "char \<Rightarrow> char" where
  "lower c = (let n = of_char c :: nat in if 65 \<le> n \<and> n \<le> 70 then char_of (n + 32) else c)"

lemma of_char_DIGITS: "k < 16 \<Longrightarrow> (of_char (DIGITS ! k) :: nat) = (if k < 10 then 48 + k else 87 + k)"
proof -
  assume "k < 16"
  then have "k \<in> set [0..<16]" by simp
  moreover have "\<forall>k \<in> set [0..<16]. (of_char (DIGITS ! k) :: nat) = (if k < 10 then 48 + k else 87 + k)" by code_simp
  ultimately show ?thesis by blast
qed

lemma of_char_lower: "(of_char (lower c) :: nat) = (if 65 \<le> (of_char c :: nat) \<and> (of_char c :: nat) \<le> 70 then of_char c + 32 else of_char c)"
  by (simp add: lower_def Let_def)

lemma to_digit_lower: "to_digit c = Some v \<longleftrightarrow> unat v < 16 \<and> lower c = DIGITS ! unat v"
proof -
  define n :: nat where "n = of_char c"
  have eq: "lower c = DIGITS ! k \<longleftrightarrow> (if 65 \<le> n \<and> n \<le> 70 then n + 32 else n) = (if k < 10 then 48 + k else 87 + k)" if "k < 16" for k
    unfolding of_char_eq_iff [symmetric, where ?'a = nat] of_char_DIGITS [OF that] of_char_lower n_def by (rule refl)
  have v: "v = of_nat k \<longleftrightarrow> unat v = k" if "k < 16" for k using that by (auto simp: unat_of_nat)
  show ?thesis
    using eq [of "unat v"] v [of "n - 48"] v [of "n - 87"] v [of "n - 55"]
    unfolding to_digit_def Let_def n_def [symmetric] by (auto split: if_splits)
qed

lemma halves: "unat (drop_bit 4 (x :: u8)) = unat x div 16" "unat (x AND 0x0f) = unat x mod 16"
proof -
  show "unat (drop_bit 4 x) = unat x div 16" by (simp add: drop_bit_eq_div unat_div_distrib)
  have "x AND 0x0f = take_bit 4 x" by (simp add: take_bit_eq_mask mask_eq_exp_minus_1)
  then show "unat (x AND 0x0f) = unat x mod 16" by (simp add: take_bit_eq_mod unat_mod_distrib)
qed

lemma nibbles: "l < 16 \<Longrightarrow> h * 16 + l = n \<longleftrightarrow> h = n div 16 \<and> l = n mod (16 :: nat)"
proof -
  assume l: "l < 16"
  have "h = n div 16 \<and> l = n mod 16" if "n = h * 16 + l" using l by (simp add: that)
  then show ?thesis by (metis div_mult_mod_eq)
qed

lemma from_pair_iff: "from_pair a b = Some x \<longleftrightarrow> lower a = DIGITS ! unat (drop_bit 4 x) \<and> lower b = DIGITS ! unat (x AND 0x0f)"
proof -
  have worth: "ucast (hi * 16 + lo) = x \<longleftrightarrow> unat hi = unat x div 16 \<and> unat lo = unat x mod 16"
    if "unat hi < 16" "unat lo < 16" for hi lo :: u32
  proof -
    have "unat (hi * 16 + lo) = unat hi * 16 + unat lo" using that by (simp add: unat_word_ariths)
    then have u: "unat (ucast (hi * 16 + lo) :: u8) = unat hi * 16 + unat lo"
      using that by (simp add: unsigned_ucast_eq take_bit_eq_mod)
    have "ucast (hi * 16 + lo) = x \<longleftrightarrow> unat hi * 16 + unat lo = unat x" unfolding u [symmetric] by (simp add: word_unat_eq_iff)
    also have "\<dots> \<longleftrightarrow> unat hi = unat x div 16 \<and> unat lo = unat x mod 16" by (rule nibbles [OF that(2)])
    finally show ?thesis .
  qed
  have x: "unat x div 16 < 16" "unat x mod 16 < 16" using unsigned_less [of x, where ?'a = nat] by auto
  have digit: "to_digit c = Some (of_nat k) \<longleftrightarrow> lower c = DIGITS ! k" if "k < 16" for c k
    using that to_digit_lower [of c "of_nat k"] by (simp add: unat_of_nat)
  have "from_pair a b = Some x \<longleftrightarrow> (\<exists>hi lo. to_digit a = Some hi \<and> to_digit b = Some lo \<and> ucast (hi * 16 + lo) = x)"
    by (auto simp: from_pair_def Option.bind_eq_Some_conv)
  also have "\<dots> \<longleftrightarrow> to_digit a = Some (of_nat (unat x div 16)) \<and> to_digit b = Some (of_nat (unat x mod 16))"
  proof
    assume "\<exists>hi lo. to_digit a = Some hi \<and> to_digit b = Some lo \<and> ucast (hi * 16 + lo) = x"
    then obtain hi lo where *: "to_digit a = Some hi" "to_digit b = Some lo" "ucast (hi * 16 + lo) = x" by blast
    then have "unat hi = unat x div 16" "unat lo = unat x mod 16" using worth to_digit_lower by blast+
    then have "hi = of_nat (unat x div 16)" "lo = of_nat (unat x mod 16)" by (metis of_nat_unat ucast_id)+
    then show "to_digit a = Some (of_nat (unat x div 16)) \<and> to_digit b = Some (of_nat (unat x mod 16))" using * by simp
  next
    assume *: "to_digit a = Some (of_nat (unat x div 16)) \<and> to_digit b = Some (of_nat (unat x mod 16))"
    moreover have "unat (of_nat (unat x div 16) :: u32) = unat x div 16" "unat (of_nat (unat x mod 16) :: u32) = unat x mod 16"
      using x by (simp_all add: unat_of_nat)
    ultimately show "\<exists>hi lo. to_digit a = Some hi \<and> to_digit b = Some lo \<and> ucast (hi * 16 + lo) = x"
      using worth [of "of_nat (unat x div 16)" "of_nat (unat x mod 16)"] x by auto
  qed
  finally show ?thesis using digit x halves by simp
qed

lemma from_hex_iff: "from_hex s = Some bs \<longleftrightarrow> map lower s = to_hex bs"
proof (induction s arbitrary: bs rule: induct_list012)
  case 1
  then show ?case by (cases bs) auto
next
  case (2 a)
  then show ?case by (cases bs) auto
next
  case (3 a b s)
  then show ?case by (cases bs) (auto simp: Option.bind_eq_Some_conv from_pair_iff)
qed


section \<open>What the service promises\<close>

lemma lower_hex: "map lower (to_hex bs) = to_hex bs"
proof -
  have "lower (DIGITS ! k) = DIGITS ! k" if "k < 16" for k
  proof -
    have "k \<in> set [0..<16]" using that by simp
    moreover have "\<forall>k \<in> set [0..<16]. lower (DIGITS ! k) = DIGITS ! k" by code_simp
    ultimately show ?thesis by blast
  qed
  moreover have "unat (drop_bit 4 b) < 16" "unat (b AND 0x0f) < 16" for b :: u8
    using unsigned_less [of b, where ?'a = nat] by (auto simp: halves)
  ultimately show ?thesis by (induction bs) simp_all
qed

lemma from_to_hex: "from_hex (to_hex bs) = Some bs"
  by (simp add: from_hex_iff lower_hex)

text \<open>Hexadecimal text carries a datagram exactly: what is decoded from a text is the bytes whose digits
  are that text in lower case, and nothing else decodes; every datagram is read back from its own text.\<close>

theorem hex_exact: "(from_hex s = Some bs \<longleftrightarrow> map lower s = to_hex bs) \<and> from_hex (to_hex bs) = Some bs"
  by (simp add: from_hex_iff lower_hex)

text \<open>The service over a list of committed requests.\<close>

definition kv_state :: "('v \<Rightarrow> string) \<Rightarrow> 'v kv_request list \<Rightarrow> 'v kv \<Rightarrow> 'v kv" where
  "kv_state text_of requests entries = fold (\<lambda>r. snd \<circ> kv_execute text_of r) requests entries"

lemma kv_state_simps [simp]:
  "kv_state text_of [] entries = entries"
  "kv_state text_of (r # rs) entries = kv_state text_of rs (snd (kv_execute text_of r entries))"
  "kv_state text_of (rs @ rs') entries = kv_state text_of rs' (kv_state text_of rs entries)"
  by (simp_all add: kv_state_def)

text \<open>A request that looks at no value before it writes: everything but a compare-and-set.\<close>

fun unconditional :: "'v kv_request \<Rightarrow> bool" where
  "unconditional (KvCas client_id request_num key old new) = False"
| "unconditional r = True"

fun request_key :: "'v kv_request \<Rightarrow> 'v" where
  "request_key (KvRead client_id request_num key) = key"
| "request_key (KvWrite client_id request_num key value) = key"
| "request_key (KvCas client_id request_num key old new) = key"

text \<open>Unconditional requests override the store by one map, the same over every store.\<close>

lemma kv_state_override:
  "list_all unconditional rs \<Longrightarrow> kv_state text_of rs entries = entries ++ kv_state text_of rs Map.empty"
proof (induction rs arbitrary: entries)
  case (Cons r rs)
  have step: "kv_state text_of rs store = store ++ kv_state text_of rs Map.empty" for store
    using Cons.prems by (intro Cons.IH) simp
  have "snd (kv_execute text_of r entries) = entries ++ snd (kv_execute text_of r Map.empty)"
    using Cons.prems by (cases r) simp_all
  then show ?case
    using step [of "snd (kv_execute text_of r entries)"] step [of "snd (kv_execute text_of r Map.empty)"] by simp
qed simp

lemma map_add_same [simp]: "m ++ m = m"
  by (rule ext) (simp add: map_add_def split: option.split)

lemma kv_state_elsewhere:
  "list_all (\<lambda>r. text_of (request_key r) \<noteq> key) rs \<Longrightarrow> kv_state text_of rs entries key = entries key"
proof (induction rs arbitrary: entries)
  case (Cons r rs)
  then have "snd (kv_execute text_of r entries) key = entries key"
    by (cases r) (auto split: option.split)
  then show ?case using Cons by simp
qed simp

text \<open>C40. Where the history holds no compare-and-set, executing it after any prefix of it was executed already
  leaves the state that executing it once leaves. With compare-and-sets it need not: take any history in
  which a key that holds \<open>a\<close> meets a compare-and-set from \<open>b\<close> to \<open>c\<close>, then one from \<open>a\<close> to \<open>b\<close>, the three
  values distinct and no other request on the key. Executed once it leaves \<open>b\<close> at the key,
  executed again over its own result it leaves \<open>c\<close>.\<close>

theorem replay_diverges:
  "(list_all unconditional (done_before @ rest) \<longrightarrow>
      kv_state text_of (done_before @ rest) (kv_state text_of done_before entries)
        = kv_state text_of (done_before @ rest) entries)
   \<and> (entries (text_of key) = Some a \<and> distinct [a, b, c]
      \<and> list_all (\<lambda>r. text_of (request_key r) \<noteq> text_of key) (rs1 @ rs2 @ rs3) \<longrightarrow>
      (let history = rs1 @ KvCas p m key b c # rs2 @ KvCas q n key a b # rs3;
           once = kv_state text_of history entries
       in once (text_of key) = Some b \<and> kv_state text_of history once (text_of key) = Some c))"
proof (intro conjI impI)
  assume "list_all unconditional (done_before @ rest)"
  then have "list_all unconditional done_before" by simp
  note override = kv_state_override [OF this, of text_of]
  have "kv_state text_of done_before (kv_state text_of done_before entries) = kv_state text_of done_before entries"
    using override [of entries] override [of "kv_state text_of done_before entries"]
    by (simp add: map_add_assoc [symmetric])
  then show "kv_state text_of (done_before @ rest) (kv_state text_of done_before entries)
      = kv_state text_of (done_before @ rest) entries" by simp
next
  assume "entries (text_of key) = Some a \<and> distinct [a, b, c]
    \<and> list_all (\<lambda>r. text_of (request_key r) \<noteq> text_of key) (rs1 @ rs2 @ rs3)"
  then show "let history = rs1 @ KvCas p m key b c # rs2 @ KvCas q n key a b # rs3;
        once = kv_state text_of history entries
      in once (text_of key) = Some b \<and> kv_state text_of history once (text_of key) = Some c"
    by (auto simp: kv_state_elsewhere Let_def)
qed

theorem replay_diverges_witness:
  "kv_state id ([KvWrite 1 1 ''x'' ''1''] @ [KvRead 1 2 ''x'']) (kv_state id [KvWrite 1 1 ''x'' ''1''] Map.empty)
     = kv_state id ([KvWrite 1 1 ''x'' ''1''] @ [KvRead 1 2 ''x'']) Map.empty
   \<and> (let history = [KvWrite 1 1 ''y'' ''0'', KvCas 1 2 ''x'' ''2'' ''3'', KvRead 2 1 ''y'', KvCas 1 3 ''x'' ''1'' ''2'', KvCas 2 2 ''y'' ''0'' ''5''];
          once = kv_state id history [''x'' \<mapsto> ''1'']
      in once ''x'' = Some ''2'' \<and> kv_state id history once ''x'' = Some ''3'')"
proof
  show "kv_state id ([KvWrite 1 1 ''x'' ''1''] @ [KvRead 1 2 ''x'']) (kv_state id [KvWrite 1 1 ''x'' ''1''] Map.empty)
     = kv_state id ([KvWrite 1 1 ''x'' ''1''] @ [KvRead 1 2 ''x'']) Map.empty"
    by (rule replay_diverges [THEN conjunct1, THEN mp]) simp
  show "let history = [KvWrite 1 1 ''y'' ''0'', KvCas 1 2 ''x'' ''2'' ''3'', KvRead 2 1 ''y'', KvCas 1 3 ''x'' ''1'' ''2'', KvCas 2 2 ''y'' ''0'' ''5''];
        once = kv_state id history [''x'' \<mapsto> ''1'']
      in once ''x'' = Some ''2'' \<and> kv_state id history once ''x'' = Some ''3''"
    using replay_diverges [THEN conjunct2, of "[''x'' \<mapsto> ''1'']" id "''x''" "''1''" "''2''" "''3''"
        "[KvWrite 1 1 ''y'' ''0'']" "[KvRead 2 1 ''y'']" "[KvCas 2 2 ''y'' ''0'' ''5'']" 1 2 1 3]
    by (simp del: kv_execute.simps kv_state_simps)
qed

end
