(* ===== verification/Maelstrom_Gate.thy ===== *)
theory Maelstrom_Gate
  imports State_File Era_Table Maelstrom_Service
begin

text \<open>
  The boot gate of the Maelstrom node (\<open>Gate\<close> in \<open>src/bin/maelstrom-lin-kv/main.rs\<close>): the state file lent
  to the marker machine for a life. The store's three operations write the markers over the state staged
  beneath them; \<open>'d\<close> is the disk.
\<close>

text \<open>What a marker commit writes beneath the markers; a create's view is the journal the file is born with.\<close>

datatype staged_beneath =
    Staged_Nothing
  | Staged_Create "name list" persisted_progress log_view
  | Staged_State persisted_progress log_view

record gate =
  g_store :: "store option"
  g_staged :: staged_beneath
  g_loaded :: "node_state option"

datatype gate_error = GE_Corrupt corruption | GE_Store store_refusal

definition gate_new :: "store \<Rightarrow> gate" where
  "gate_new st = \<lparr>g_store = Some st, g_staged = Staged_Nothing, g_loaded = None\<rparr>"

definition take_loaded :: "gate \<Rightarrow> node_state option \<times> gate" where
  "take_loaded g = (g_loaded g, g\<lparr>g_loaded := None\<rparr>)"

definition stage_create :: "name list \<Rightarrow> persisted_progress \<Rightarrow> log_view \<Rightarrow> gate \<Rightarrow> gate" where
  "stage_create roster progress v g = g\<lparr>g_staged := Staged_Create roster progress v\<rparr>"

definition stage_state :: "persisted_progress \<Rightarrow> log_view \<Rightarrow> gate \<Rightarrow> gate" where
  "stage_state progress v g = g\<lparr>g_staged := Staged_State progress v\<rparr>"

definition write_through ::
    "(store \<Rightarrow> 'd \<Rightarrow> (store_refusal + unit) \<times> store \<times> 'd) \<Rightarrow> gate \<Rightarrow> 'd \<Rightarrow> (store_refusal + unit) \<times> gate \<times> 'd" where
  "write_through write g d =
     (case g_store g of
        None \<Rightarrow> (Ok (), g, d)
      | Some st \<Rightarrow> (case write st d of (r, st, d) \<Rightarrow> (r, g\<lparr>g_store := Some st\<rparr>, d)))"

definition gate_read_copies ::
    "nat \<Rightarrow> 'd file_ops \<Rightarrow> gate \<times> 'd \<Rightarrow> (gate_error + superblock_copies option) \<times> gate \<times> 'd" where
  "gate_read_copies depth ops s =
     (case s of (g, d) \<Rightarrow>
        (case g_store g of
           None \<Rightarrow> (Ok None, g, d)
         | Some st \<Rightarrow>
             (case sf_load depth ops st d of
                (Inr state, st, d) \<Rightarrow> (Ok (Some (ns_copies state)), g\<lparr>g_store := Some st, g_loaded := Some state\<rparr>, d)
              | (Inl SE_Absent, st, d) \<Rightarrow> (Ok None, g\<lparr>g_store := Some st\<rparr>, d)
              | (Inl (SE_Corrupt e), st, d) \<Rightarrow> (Err (GE_Corrupt e), g\<lparr>g_store := Some st\<rparr>, d))))"

definition gate_commit ::
    "'d file_ops \<Rightarrow> superblock_copies \<Rightarrow> gate \<times> 'd \<Rightarrow> (gate_error + unit) \<times> gate \<times> 'd" where
  "gate_commit ops copies s =
     (case s of (g, d) \<Rightarrow>
        (case g_store g of
           None \<Rightarrow> (Err (GE_Store SR_NoStore), g, d)
         | Some st \<Rightarrow>
             (case (case g_staged g of
                      Staged_Nothing \<Rightarrow> (Err SR_NothingStaged, st, d)
                    | Staged_Create roster progress v \<Rightarrow>
                        (case state_snapshot_of copies roster progress v of
                           Inl e \<Rightarrow> (Err e, st, d)
                         | Inr state \<Rightarrow> sf_create ops state st d)
                    | Staged_State progress v \<Rightarrow> sf_commit ops copies progress v st d) of
                (r, st, d) \<Rightarrow> (map_err GE_Store r, g\<lparr>g_store := Some st\<rparr>, d))))"

definition gate_drain :: "'d file_ops \<Rightarrow> gate \<times> 'd \<Rightarrow> (gate_error + unit) \<times> gate \<times> 'd" where
  "gate_drain ops s =
     (case s of (g, d) \<Rightarrow>
        (case g_store g of
           None \<Rightarrow> (Ok (), g, d)
         | Some st \<Rightarrow> (case sf_drain ops st d of (r, d) \<Rightarrow> (map_err GE_Store r, g, d))))"

definition gate_ops :: "nat \<Rightarrow> 'd file_ops \<Rightarrow> (gate \<times> 'd, gate_error) lifecycle_store" where
  "gate_ops depth ops =
     \<lparr>ls_read_copies = gate_read_copies depth ops, ls_commit = gate_commit ops, ls_drain = gate_drain ops\<rparr>"

text \<open>The era table a later life starts from, folded from the persisted history.\<close>

fun fold_table_from :: "log_entry list \<Rightarrow> slot \<Rightarrow> era_table \<Rightarrow> config_error + era_table" where
  "fold_table_from [] committed table = Ok table"
| "fold_table_from (e # es) committed table =
     (if le_slot e > committed then Ok table
      else case le_payload e of
        P_System op \<Rightarrow> rbind (et_extend table op (le_slot e)) (fold_table_from es committed)
      | P_Operation _ _ \<Rightarrow> fold_table_from es committed table)"

definition fold_table :: "log_entry list \<Rightarrow> slot \<Rightarrow> config_error + era_table" where
  "fold_table entries committed = fold_table_from entries committed et_genesis"

end
