(* ===== verification/Maelstrom_Node.thy ===== *)
theory Maelstrom_Node
  imports Maelstrom_Gate Publish Replica_Plan Message "HOL-Library.List_Lexorder" "HOL-Library.Char_ord"
begin

text \<open>
  The Maelstrom node (\<open>src/bin/maelstrom-lin-kv/main.rs\<close>): one replica, the service, the clients it owes
  an answer, and the loop over messages and ticks. What it is mounted on is a record: the JSON library,
  the state directory, the state file's operations and the stack the entry decoder has. A turn is
  \<open>Inl\<close> when the process has ended in it, by a named refusal or a panic, and a node's output is the
  list of lines it has written. The diagnostics on the error stream are not modelled.
\<close>

section \<open>What the node is mounted on\<close>

text \<open>The JSON library: fields of an object, the readings of a value, and the building of values.\<close>

record 'v json_lib =
  js_field :: "'v \<Rightarrow> string \<Rightarrow> 'v option"
  js_str :: "'v \<Rightarrow> string option"
  js_u64 :: "'v \<Rightarrow> u64 option"
  js_array :: "'v \<Rightarrow> 'v list option"
  js_text :: "'v \<Rightarrow> string"
  js_null :: 'v
  js_of_str :: "string \<Rightarrow> 'v"
  js_of_u64 :: "u64 \<Rightarrow> 'v"
  js_of_array :: "'v list \<Rightarrow> 'v"
  js_object :: "(string \<times> 'v) list \<Rightarrow> 'v"
  js_insert :: "string \<Rightarrow> 'v \<Rightarrow> 'v \<Rightarrow> 'v"
  js_to_vec :: "'v kv_request \<Rightarrow> u8 list option"
  js_from_slice :: "u8 list \<Rightarrow> string + 'v kv_request"

text \<open>Why a node refuses to start; its diagnostic is a text of the formatter.\<close>

datatype start_refusal =
    SF_StateDir
  | SF_Provision lifecycle_refusal
  | SF_Anchor gate_error
  | SF_QuorumLost
  | SF_Store gate_error
  | SF_Exhausted node_id
  | SF_NoState
  | SF_Roster "name list"
  | SF_Position node_id u32
  | SF_FirstSlot slot
  | SF_NotContiguous journal_error
  | SF_Fold config_error
  | SF_Latch gate_error
  | SF_Resume lifecycle_refusal
  | SF_Reincarnate lifecycle_refusal
  | SF_Write store_refusal

text \<open>\<open>me_state_dir\<close> is whether the environment names a state directory, \<open>me_open\<close> whether it is usable.\<close>

record ('v, 'd) mael_env =
  me_json :: "'v json_lib"
  me_start_text :: "start_refusal \<Rightarrow> string"
  me_plan_text :: "plan_refusal \<Rightarrow> string"
  me_state_dir :: bool
  me_open :: "'d \<Rightarrow> bool \<times> 'd"
  me_files :: "'d file_ops"
  me_depth :: nat

record 'v incoming =
  in_src :: string
  in_body :: 'v

record 'v outgoing =
  og_src :: string
  og_dest :: string
  og_body :: 'v

definition kind :: "'v json_lib \<Rightarrow> 'v incoming \<Rightarrow> string" where
  "kind js m = unwrap_or (Option.bind (js_field js (in_body m) ''type'') (js_str js)) []"

definition msg_id :: "'v json_lib \<Rightarrow> 'v incoming \<Rightarrow> u64 option" where
  "msg_id js m = Option.bind (js_field js (in_body m) ''msg_id'') (js_u64 js)"

definition field :: "'v json_lib \<Rightarrow> 'v incoming \<Rightarrow> string \<Rightarrow> 'v option" where
  "field js m name = js_field js (in_body m) name"

fun response_body :: "'v json_lib \<Rightarrow> 'v kv_response \<Rightarrow> 'v" where
  "response_body js (ReadOk client_id request_num v) = js_object js [(''type'', js_of_str js ''read_ok''), (''value'', v)]"
| "response_body js (WriteOk client_id request_num) = js_object js [(''type'', js_of_str js ''write_ok'')]"
| "response_body js (CasOk client_id request_num) = js_object js [(''type'', js_of_str js ''cas_ok'')]"
| "response_body js (Failed client_id request_num code txt) =
     js_object js [(''type'', js_of_str js ''error''), (''code'', js_of_u64 js (ucast code)), (''text'', js_of_str js txt)]"


section \<open>The node\<close>

datatype waiter = W_Client string u64 | W_Forwarded string string u64

record pending_membership =
  pm_watch_era :: era
  pm_slot :: slot
  pm_waiter :: waiter
  pm_reply_kind :: string

record ('v, 'd) runner =
  nr_id :: string
  nr_identity :: identity
  nr_replica :: "replica option"
  nr_kv :: "'v kv"
  nr_next_msg_id :: u64
  nr_tick :: u64
  nr_waiting :: "u64 \<times> u64 \<rightharpoonup> waiter"
  nr_pending :: "pending_membership list"
  nr_store :: "store option"
  nr_session :: "(gate \<times> node_id) option"
  nr_deferred :: "(gate \<times> node_id) option"
  nr_copies :: "superblock_copies option"
  nr_announce :: "node_id option"
  nr_disk :: 'd
  nr_out :: "'v outgoing list"

definition runner_default :: "'d \<Rightarrow> ('v, 'd) runner" where
  "runner_default d =
     \<lparr>nr_id = [], nr_identity = \<lparr>id_roster = [], id_current = Map.empty\<rparr>, nr_replica = None, nr_kv = Map.empty,
      nr_next_msg_id = 0, nr_tick = 0, nr_waiting = Map.empty, nr_pending = [], nr_store = None, nr_session = None,
      nr_deferred = None, nr_copies = None, nr_announce = None, nr_disk = d, nr_out = []\<rparr>"

definition PRIMARY_TIMEOUT_TICKS :: u64 where "PRIMARY_TIMEOUT_TICKS = 25"

definition mael_knobs :: knobs where
  "mael_knobs = \<lparr>kn_primary_timeout = PRIMARY_TIMEOUT_TICKS, kn_view_change_budget = 2 ^ 64 - 1\<rparr>"

type_synonym ('v, 'd) turn = "('v, 'd) runner + ('v, 'd) runner"


section \<open>Output\<close>

definition send :: "('v, 'd) mael_env \<Rightarrow> string \<Rightarrow> 'v \<Rightarrow> ('v, 'd) runner \<Rightarrow> ('v, 'd) runner" where
  "send env dest body node =
     (let n = nr_next_msg_id node + 1; js = me_json env
      in node\<lparr>nr_next_msg_id := n,
              nr_out := nr_out node @ [\<lparr>og_src = nr_id node, og_dest = dest, og_body = js_insert js ''msg_id'' (js_of_u64 js n) body\<rparr>]\<rparr>)"

definition reply :: "('v, 'd) mael_env \<Rightarrow> string \<Rightarrow> u64 \<Rightarrow> 'v \<Rightarrow> ('v, 'd) runner \<Rightarrow> ('v, 'd) runner" where
  "reply env dest in_reply_to body =
     send env dest (js_insert (me_json env) ''in_reply_to'' (js_of_u64 (me_json env) in_reply_to) body)"

fun answer :: "('v, 'd) mael_env \<Rightarrow> waiter \<Rightarrow> 'v \<Rightarrow> ('v, 'd) runner \<Rightarrow> ('v, 'd) runner" where
  "answer env (W_Client node_name n) body node = reply env node_name n body node"
| "answer env (W_Forwarded via client n) body node =
     send env via
       (let js = me_json env
        in js_object js [(''type'', js_of_str js ''proxy_reply''), (''client'', js_of_str js client),
                         (''client_msg_id'', js_of_u64 js n), (''body'', body)]) node"

definition error_body :: "'v json_lib \<Rightarrow> u32 \<Rightarrow> string \<Rightarrow> (string \<times> 'v) list" where
  "error_body js code txt =
     [(''type'', js_of_str js ''error''), (''code'', js_of_u64 js (ucast code)), (''text'', js_of_str js txt)]"

definition refuse :: "('v, 'd) mael_env \<Rightarrow> waiter \<Rightarrow> string \<Rightarrow> ('v, 'd) runner \<Rightarrow> ('v, 'd) runner" where
  "refuse env w txt = answer env w (js_object (me_json env) (error_body (me_json env) TEMPORARILY_UNAVAILABLE txt))"

definition refuse_node :: "('v, 'd) mael_env \<Rightarrow> 'v incoming \<Rightarrow> start_refusal \<Rightarrow> ('v, 'd) runner \<Rightarrow> ('v, 'd) runner" where
  "refuse_node env m why node =
     (case msg_id (me_json env) m of
        None \<Rightarrow> node
      | Some n \<Rightarrow> reply env (in_src m) n
          (js_object (me_json env) (error_body (me_json env) TEMPORARILY_UNAVAILABLE
            (''node refuses to start: '' @ me_start_text env why))) node)"

text \<open>The bytes of a datagram; \<open>None\<close> when they do not pack, and the message is dropped.\<close>

definition wire_bytes :: "message \<Rightarrow> u8 list option" where
  "wire_bytes m =
     Option.bind (packed_len_message m) (\<lambda>len.
       case pack_into pack_message packed_len_message m (replicate len 0) of
         Some (Inr (_, bytes)) \<Rightarrow> Some bytes
       | _ \<Rightarrow> None)"

definition send_peer :: "('v, 'd) mael_env \<Rightarrow> string \<Rightarrow> message \<Rightarrow> ('v, 'd) runner \<Rightarrow> ('v, 'd) runner" where
  "send_peer env peer m node =
     (case wire_bytes m of
        None \<Rightarrow> node
      | Some bytes \<Rightarrow>
          (let js = me_json env
           in send env peer (js_object js [(''type'', js_of_str js ''vrr''), (''wire'', js_of_str js (to_hex bytes))]) node))"


section \<open>Reading the replica\<close>

definition mael_primary :: "('v, 'd) runner \<Rightarrow> node_id option" where
  "mael_primary node =
     Option.bind (nr_replica node) (\<lambda>r.
       let p = rp_progress r; current = p_current p
       in Option.bind (et_record (p_config p) (b_era current)) (\<lambda>record. primary (er_config record) (b_view current)))"

definition leads :: "('v, 'd) runner \<Rightarrow> bool" where
  "leads node =
     (case nr_replica node of
        Some r \<Rightarrow> p_status (rp_progress r) = St_Normal \<and> mael_primary node = Some (rp_own r)
      | None \<Rightarrow> False)"

definition config_view :: "('v, 'd) mael_env \<Rightarrow> ('v, 'd) runner \<Rightarrow> 'v" where
  "config_view env node =
     (let js = me_json env
      in case nr_replica node of
           None \<Rightarrow> js_object js [(''era'', js_of_u64 js 0), (''view_era'', js_of_u64 js 0), (''view'', js_of_u64 js 0),
                                   (''members'', js_of_array js [])]
         | Some r \<Rightarrow>
             (let p = rp_progress r; established = et_current (p_config p);
                  members = map (\<lambda>m. js_object js
                    [(''node'', case string_of (nr_identity node) (m_node m) of None \<Rightarrow> js_null js | Some s \<Rightarrow> js_of_str js s),
                     (''weight'', js_of_u64 js (ucast (m_weight m)))]) (cfg_order (er_config established))
              in js_object js [(''era'', js_of_u64 js (ucast (er_era established))),
                               (''view_era'', js_of_u64 js (ucast (b_era (p_current p)))),
                               (''view'', js_of_u64 js (ucast (b_view (p_current p)))), (''members'', js_of_array js members)]))"

definition membership_error :: "('v, 'd) mael_env \<Rightarrow> waiter \<Rightarrow> u32 \<Rightarrow> string \<Rightarrow> ('v, 'd) runner \<Rightarrow> ('v, 'd) runner" where
  "membership_error env w code txt node =
     answer env w (js_object (me_json env) (error_body (me_json env) code txt @ [(''config'', config_view env node)])) node"

definition pivot_for :: "('v, 'd) runner \<Rightarrow> sysop \<Rightarrow> pivot option" where
  "pivot_for node op =
     Option.bind (nr_replica node) (\<lambda>r.
       let p = rp_progress r; current = et_current (p_config p)
       in Option.bind (slot_next (p_accepted p)) (\<lambda>s.
          case et_extend (p_config p) op s of
            Inl _ \<Rightarrow> None
          | Inr extended \<Rightarrow> construct_pivot weighted_majority (er_config current) (er_config (et_current extended)) (rp_own r)))"


section \<open>Durability\<close>

text \<open>The bytes of a roster's names, as the state file holds them.\<close>

definition name_of :: "string \<Rightarrow> name" where
  "name_of s = map of_char s"

definition write_file ::
    "('v, 'd) mael_env \<Rightarrow> superblock_copies \<Rightarrow> name list \<Rightarrow> persisted_progress \<Rightarrow> log_view \<Rightarrow> store \<Rightarrow> 'd
     \<Rightarrow> (store_refusal + unit) \<times> store \<times> 'd" where
  "write_file env copies roster progress v st d =
     (if armed st then sf_commit (me_files env) copies progress v st d
      else case state_snapshot_of copies roster progress v of
        Inl e \<Rightarrow> (Err e, st, d)
      | Inr state \<Rightarrow> sf_create (me_files env) state st d)"

definition write_state :: "('v, 'd) mael_env \<Rightarrow> ('v, 'd) runner \<Rightarrow> (store_refusal + unit) \<times> ('v, 'd) runner" where
  "write_state env node =
     (case (nr_replica node, nr_copies node) of
        (Some r, Some copies) \<Rightarrow>
          (let write = write_file env copies (map name_of (id_roster (nr_identity node))) (persisted_of (rp_progress r))
                         (log_view_of (rp_journal r))
           in case nr_session node of
                Some (g, n) \<Rightarrow>
                  (case write_through write g (nr_disk node) of
                     (res, g, d) \<Rightarrow> (res, node\<lparr>nr_session := Some (g, n), nr_disk := d\<rparr>))
              | None \<Rightarrow>
                  (case nr_deferred node of
                     Some (g, n) \<Rightarrow>
                       (case write_through write g (nr_disk node) of
                          (res, g, d) \<Rightarrow> (res, node\<lparr>nr_deferred := Some (g, n), nr_disk := d\<rparr>))
                   | None \<Rightarrow>
                       (case nr_store node of
                          Some st \<Rightarrow>
                            (case write st (nr_disk node) of
                               (res, st, d) \<Rightarrow> (res, node\<lparr>nr_store := Some st, nr_disk := d\<rparr>))
                        | None \<Rightarrow> (Ok (), node))))
      | _ \<Rightarrow> (Ok (), node))"

definition persist :: "('v, 'd) mael_env \<Rightarrow> ('v, 'd) runner \<Rightarrow> ('v, 'd) turn" where
  "persist env node =
     (if nr_store node = None \<or> nr_replica node = None then Ok node
      else case write_state env node of
        (Inl _, node) \<Rightarrow> Err node
      | (Inr _, node) \<Rightarrow> Ok node)"


section \<open>One turn of the core\<close>

text \<open>A step returns the plan's refusal or the effects released; \<open>Inl\<close> is the end of the process.\<close>

definition step ::
    "('v, 'd) mael_env \<Rightarrow> input \<Rightarrow> ('v, 'd) runner \<Rightarrow> ('v, 'd) runner + (plan_refusal + effect list) \<times> ('v, 'd) runner" where
  "step env event node =
     (case nr_replica node of
        None \<Rightarrow> Ok (Ok [], node)
      | Some r \<Rightarrow>
          (let node = node\<lparr>nr_tick := nr_tick node + 1\<rparr>;
               timed = \<lparr>ti_at = nr_tick node, ti_event = event\<rparr>
           in case plan r timed (log_view_of (rp_journal r)) of
                Inl PR_Panic \<Rightarrow> Err node
              | Inl e \<Rightarrow> Ok (Err e, node)
              | Inr planned \<Rightarrow>
                  (case publish r planned of
                     (r, Inr (Published revision effects)) \<Rightarrow>
                       rbind (persist env (node\<lparr>nr_replica := Some r\<rparr>)) (\<lambda>node. Ok (Ok effects, node))
                   | (r, Inr (Parked revision effects)) \<Rightarrow> Ok (Ok [], node\<lparr>nr_replica := Some r\<rparr>)
                   | (r, Inl _) \<Rightarrow> Ok (Ok [], node\<lparr>nr_replica := Some r\<rparr>))))"

definition execute ::
    "('v, 'd) mael_env \<Rightarrow> operation_id \<Rightarrow> u8 list \<Rightarrow> ('v, 'd) runner \<Rightarrow> 'v kv_response \<times> ('v, 'd) runner" where
  "execute env operation_id payload node =
     (case js_from_slice (me_json env) payload of
        Inr request \<Rightarrow>
          (if request_ids request = (msb operation_id, lsb operation_id)
           then (case kv_execute (js_text (me_json env)) request (nr_kv node) of (response, kv) \<Rightarrow> (response, node\<lparr>nr_kv := kv\<rparr>))
           else (Failed (msb operation_id) (lsb operation_id) TEMPORARILY_UNAVAILABLE
                   ''replication envelope does not match payload'', node))
      | Inl reason \<Rightarrow> (Failed (msb operation_id) (lsb operation_id) TEMPORARILY_UNAVAILABLE (''undecodable payload: '' @ reason), node))"

text \<open>The queue of released effects, by a bound on how many are taken; \<open>None\<close> is a bound too small.\<close>

fun route_from :: "nat \<Rightarrow> ('v, 'd) mael_env \<Rightarrow> effect list \<Rightarrow> ('v, 'd) runner \<Rightarrow> ('v, 'd) turn option" where
  "route_from fuel env [] node = Some (Ok node)"
| "route_from 0 env (e # es) node = None"
| "route_from (Suc fuel) env (e # es) node =
     (case e of
        Eff_Send target era m \<Rightarrow>
          route_from fuel env es
            (case string_of (nr_identity node) target of None \<Rightarrow> node | Some peer \<Rightarrow> send_peer env peer m node)
      | Eff_Apply s operation_id payload \<Rightarrow>
          (case execute env operation_id payload node of
             (response, node) \<Rightarrow>
               (let key = (msb operation_id, lsb operation_id);
                    node = (case nr_waiting node key of
                              None \<Rightarrow> node
                            | Some w \<Rightarrow> answer env w (response_body (me_json env) response)
                                          (node\<lparr>nr_waiting := (nr_waiting node)(key := None)\<rparr>))
                in case step env (In_Applied s) node of
                     Inl node \<Rightarrow> Some (Err node)
                   | Inr (Inr further, node) \<Rightarrow> route_from fuel env (further @ es) node
                   | Inr (Inl _, node) \<Rightarrow> route_from fuel env es node))
      | _ \<Rightarrow> route_from fuel env es node)"

definition route :: "('v, 'd) mael_env \<Rightarrow> effect list \<Rightarrow> ('v, 'd) runner \<Rightarrow> ('v, 'd) turn option" where
  "route env effects = route_from (length effects) env effects"

definition drive :: "('v, 'd) mael_env \<Rightarrow> input \<Rightarrow> ('v, 'd) runner \<Rightarrow> ('v, 'd) turn option" where
  "drive env event node =
     (case step env event node of
        Inl node \<Rightarrow> Some (Err node)
      | Inr (Inr effects, node) \<Rightarrow> route env effects node
      | Inr (Inl _, node) \<Rightarrow> Some (Ok node))"


section \<open>Clients\<close>

definition forward_or_refuse :: "('v, 'd) mael_env \<Rightarrow> 'v \<Rightarrow> waiter \<Rightarrow> ('v, 'd) runner \<Rightarrow> ('v, 'd) runner" where
  "forward_or_refuse env op w node =
     (let js = me_json env
      in case (w, Option.bind (mael_primary node) (string_of (nr_identity node))) of
           (W_Client client n, Some leader) \<Rightarrow>
             (if leader \<noteq> nr_id node
              then send env leader (js_object js [(''type'', js_of_str js ''proxy''), (''client'', js_of_str js client),
                                                  (''client_msg_id'', js_of_u64 js n), (''op'', op)]) node
              else refuse env w ''not the primary'' node)
         | _ \<Rightarrow> refuse env w ''not the primary'' node)"

definition membership_kind :: "string \<Rightarrow> bool" where
  "membership_kind k \<longleftrightarrow> k \<in> {''join'', ''promote'', ''demote'', ''leave''}"

text \<open>The verb's operation; a kind outside the four is the source's unreachable arm.\<close>

definition membership_op :: "string \<Rightarrow> node_id \<Rightarrow> u32 \<Rightarrow> sysop option" where
  "membership_op k n place =
     (if k = ''join'' then Some (Join n place) else if k = ''promote'' then Some (Increment n)
      else if k = ''demote'' then Some (Decrement n) else if k = ''leave'' then Some (Leave n) else None)"

definition submit_membership ::
    "('v, 'd) mael_env \<Rightarrow> string \<Rightarrow> 'v \<Rightarrow> waiter \<Rightarrow> ('v, 'd) runner \<Rightarrow> ('v, 'd) turn option" where
  "submit_membership env k request w node =
     (let js = me_json env
      in case Option.bind (js_field js request ''node_id'') (js_str js) of
           None \<Rightarrow> Some (Ok (membership_error env w MALFORMED_REQUEST ''membership verb without a node_id'' node))
         | Some target \<Rightarrow>
      (case attributed (nr_identity node) target of
         None \<Rightarrow> Some (Err node)
       | Some None \<Rightarrow>
           Some (Ok (membership_error env w MALFORMED_REQUEST
             (''membership verb names '' @ target @ '', which is not a bench node'') node))
       | Some (Some n) \<Rightarrow>
      (if \<not> leads node then Some (Ok (forward_or_refuse env request w node))
       else case nr_replica node of
         None \<Rightarrow> Some (Err node)
       | Some r \<Rightarrow>
      (case membership_op k n (cfg_len (er_config (et_current (p_config (rp_progress r))))) of
         None \<Rightarrow> Some (Err node)
       | Some op \<Rightarrow>
      (let pivot = (case op of Increment _ \<Rightarrow> pivot_for node op | _ \<Rightarrow> None)
       in case (case step env (In_Reconfigure op pivot) node of
                  Inr (Inl (PR_ReconfigureViewExhausted b), node) \<Rightarrow>
                    (if pivot = None then Ok (Err (PR_ReconfigureViewExhausted b), node)
                     else step env (In_Reconfigure op None) node)
                | stepped \<Rightarrow> stepped) of
            Inl node \<Rightarrow> Some (Err node)
          | Inr (Inl e, node) \<Rightarrow>
              Some (Ok (membership_error env w TEMPORARILY_UNAVAILABLE (''reconfiguration refused: '' @ me_plan_text env e) node))
          | Inr (Inr effects, node) \<Rightarrow>
              Option.bind (route env effects node) (\<lambda>turn.
                Some (rbind turn (\<lambda>node.
                  case nr_replica node of
                    None \<Rightarrow> Err node
                  | Some r \<Rightarrow>
                      (case era_next (b_era (p_current (rp_progress r))) of
                         None \<Rightarrow> Err node
                       | Some e \<Rightarrow>
                           Ok (node\<lparr>nr_pending := nr_pending node @
                             [\<lparr>pm_watch_era = e, pm_slot = p_accepted (rp_progress r), pm_waiter = w, pm_reply_kind = k @ ''_ok''\<rparr>]\<rparr>))))))))))"

definition kv_request_of :: "'v json_lib \<Rightarrow> string \<Rightarrow> u64 \<Rightarrow> u64 \<Rightarrow> 'v \<Rightarrow> 'v kv_request option" where
  "kv_request_of js k client_id request_num op =
     (let part = (\<lambda>f. unwrap_or (js_field js op f) (js_null js)); key = part ''key''
      in if k = ''read'' then Some (KvRead client_id request_num key)
         else if k = ''write'' then Some (KvWrite client_id request_num key (part ''value''))
         else if k = ''cas'' then Some (KvCas client_id request_num key (part ''from'') (part ''to''))
         else None)"

definition submit :: "('v, 'd) mael_env \<Rightarrow> u64 \<Rightarrow> u64 \<Rightarrow> 'v \<Rightarrow> waiter \<Rightarrow> ('v, 'd) runner \<Rightarrow> ('v, 'd) turn option" where
  "submit env client_id request_num op w node =
     (let js = me_json env; k = unwrap_or (Option.bind (js_field js op ''type'') (js_str js)) []
      in if membership_kind k then submit_membership env k op w node
         else case kv_request_of js k client_id request_num op of
           None \<Rightarrow> Some (Ok node)
         | Some request \<Rightarrow>
             (if \<not> leads node then Some (Ok (forward_or_refuse env op w node))
              else case js_to_vec js request of
                None \<Rightarrow> Some (Ok node)
              | Some payload \<Rightarrow>
                  (let key = (client_id, request_num)
                   in case step env (In_Propose \<lparr>op_id = \<lparr>msb = client_id, lsb = request_num\<rparr>, op_payload = payload\<rparr>)
                             (node\<lparr>nr_waiting := (nr_waiting node)(key \<mapsto> w)\<rparr>) of
                        Inl node \<Rightarrow> Some (Err node)
                      | Inr (Inr effects, node) \<Rightarrow> route env effects node
                      | Inr (Inl _, node) \<Rightarrow>
                          Some (Ok (refuse env w ''request refused by primary'' (node\<lparr>nr_waiting := (nr_waiting node)(key := None)\<rparr>))))))"


section \<open>Messages\<close>

definition on_peer :: "('v, 'd) mael_env \<Rightarrow> 'v incoming \<Rightarrow> ('v, 'd) runner \<Rightarrow> ('v, 'd) turn option" where
  "on_peer env m node =
     (let js = me_json env
      in case Option.bind (Option.bind (field js m ''wire'') (js_str js)) from_hex of
           None \<Rightarrow> Some (Ok node)
         | Some wire \<Rightarrow>
             (case unpack_from (unpack_message (me_depth env)) wire of
                None \<Rightarrow> Some (Err node)
              | Some (Inl _) \<Rightarrow> Some (Ok node)
              | Some (Inr decoded) \<Rightarrow>
                  (let attribution = \<lambda>node.
                         (case attributed (nr_identity node) (in_src m) of
                            None \<Rightarrow> Some (Err node)
                          | Some None \<Rightarrow> Some (Ok node)
                          | Some (Some sender) \<Rightarrow> drive env (In_Peer sender decoded) node)
                   in case msg_body decoded of
                        B_Reincarnation old new committed prepared \<Rightarrow>
                          (case remap (nr_identity node) (in_src m) old new of
                             (True, ident) \<Rightarrow> drive env (In_Peer new decoded) (node\<lparr>nr_identity := ident\<rparr>)
                           | (False, _) \<Rightarrow> attribution node)
                      | _ \<Rightarrow> attribution node)))"

definition on_client :: "('v, 'd) mael_env \<Rightarrow> 'v incoming \<Rightarrow> ('v, 'd) runner \<Rightarrow> ('v, 'd) turn option" where
  "on_client env m node =
     (case msg_id (me_json env) m of
        None \<Rightarrow> Some (Ok node)
      | Some n \<Rightarrow>
          (case client_number (in_src m) of
             None \<Rightarrow> Some (Ok node)
           | Some client_id \<Rightarrow> submit env client_id n (in_body m) (W_Client (in_src m) n) node))"

definition on_proxy :: "('v, 'd) mael_env \<Rightarrow> 'v incoming \<Rightarrow> ('v, 'd) runner \<Rightarrow> ('v, 'd) turn option" where
  "on_proxy env m node =
     (let js = me_json env
      in case (Option.bind (field js m ''client'') (js_str js), Option.bind (field js m ''client_msg_id'') (js_u64 js), field js m ''op'') of
           (Some client, Some n, Some op) \<Rightarrow>
             (case client_number client of
                None \<Rightarrow> Some (Ok node)
              | Some client_id \<Rightarrow> submit env client_id n op (W_Forwarded (in_src m) client n) node)
         | _ \<Rightarrow> Some (Ok node))"

definition on_proxy_reply :: "('v, 'd) mael_env \<Rightarrow> 'v incoming \<Rightarrow> ('v, 'd) runner \<Rightarrow> ('v, 'd) runner" where
  "on_proxy_reply env m node =
     (let js = me_json env
      in case (Option.bind (field js m ''client'') (js_str js), Option.bind (field js m ''client_msg_id'') (js_u64 js), field js m ''body'') of
           (Some client, Some n, Some body) \<Rightarrow> reply env client n body node
         | _ \<Rightarrow> node)"

definition on_membership :: "('v, 'd) mael_env \<Rightarrow> 'v incoming \<Rightarrow> ('v, 'd) runner \<Rightarrow> ('v, 'd) turn option" where
  "on_membership env m node =
     (case msg_id (me_json env) m of
        None \<Rightarrow> Some (Ok node)
      | Some n \<Rightarrow> submit_membership env (kind (me_json env) m) (in_body m) (W_Client (in_src m) n) node)"

text \<open>What becomes of a pending verb under an era table: answered, lost, or still waiting.\<close>

datatype verb_fate = Verb_Established | Verb_Lost | Verb_Waiting

definition verb_fate :: "era_table \<Rightarrow> pending_membership \<Rightarrow> verb_fate" where
  "verb_fate table p =
     (case et_record table (pm_watch_era p) of
        None \<Rightarrow> Verb_Waiting
      | Some record \<Rightarrow> if er_established_by record = pm_slot p then Verb_Established else Verb_Lost)"

definition flush_membership :: "('v, 'd) mael_env \<Rightarrow> ('v, 'd) runner \<Rightarrow> ('v, 'd) runner" where
  "flush_membership env node =
     (if nr_pending node = [] then node
      else case nr_replica node of
        None \<Rightarrow> node\<lparr>nr_pending := []\<rparr>
      | Some r \<Rightarrow>
          (let table = p_config (rp_progress r); js = me_json env; config = config_view env node;
               answered = filter (\<lambda>p. verb_fate table p = Verb_Established) (nr_pending node);
               node = node\<lparr>nr_pending := filter (\<lambda>p. verb_fate table p = Verb_Waiting) (nr_pending node)\<rparr>
           in fold (\<lambda>p. answer env (pm_waiter p)
                (js_object js [(''type'', js_of_str js (pm_reply_kind p)), (''config'', config)])) answered node))"


section \<open>Lives\<close>

text \<open>A turn with the value it returns.\<close>

type_synonym ('v, 'd, 'a) turn_of = "('v, 'd) runner + 'a \<times> ('v, 'd) runner"

definition rebuild ::
    "('v, 'd) mael_env \<Rightarrow> node_state \<Rightarrow> 'v incoming \<Rightarrow> ('v, 'd) runner \<Rightarrow> ('v, 'd, segmented_log \<times> era_table) turn_of" where
  "rebuild env state m node =
     rbind (case ns_entries state of
              [] \<Rightarrow> Ok segmented_log_new
            | first # _ \<Rightarrow>
                (if le_slot first \<noteq> VOID_SLOT then Err (refuse_node env m (SF_FirstSlot (le_slot first)) node)
                 else map_err (\<lambda>e. refuse_node env m (SF_NotContiguous e) node)
                        (install_suffix segmented_log_new (le_slot first) (ns_entries state)))) (\<lambda>journal.
     rbind (map_err (\<lambda>e. refuse_node env m (SF_Fold e) node) (fold_table (ns_entries state) (pp_committed (ns_progress state)))) (\<lambda>table.
       let applied = takeWhile (\<lambda>e. le_slot e \<le> pp_applied (ns_progress state)) (ns_entries state)
       in Ok ((journal, table),
              fold (\<lambda>e node. case le_payload e of
                 P_Operation n payload \<Rightarrow> snd (execute env n payload node) | P_System _ \<Rightarrow> node) applied node)))"

text \<open>The reopening both later lives begin with: the state the boot read, under the roster of this cluster.\<close>

definition loaded_state ::
    "('v, 'd) mael_env \<Rightarrow> 'v incoming \<Rightarrow> gate \<Rightarrow> string list \<Rightarrow> ('v, 'd) runner \<Rightarrow> ('v, 'd) runner + node_state \<times> gate" where
  "loaded_state env m g members node =
     (case take_loaded g of
        (None, g) \<Rightarrow> Err (refuse_node env m SF_NoState node)
      | (Some state, g) \<Rightarrow>
          if ns_roster state \<noteq> map name_of members then Err (refuse_node env m (SF_Roster (ns_roster state)) node)
          else Ok (state, g))"

definition mael_identity ::
    "('v, 'd) mael_env \<Rightarrow> 'v incoming \<Rightarrow> node_id \<Rightarrow> nat \<Rightarrow> ('v, 'd) runner \<Rightarrow> ('v, 'd) runner + node_id" where
  "mael_identity env m n index node =
     (if index \<ge> 2 ^ 32 then Err node
      else case id_of n (of_nat index) of
        None \<Rightarrow> Err (refuse_node env m (SF_Position n (of_nat index)) node)
      | Some own \<Rightarrow> Ok own)"

definition reopen_clean ::
    "('v, 'd) mael_env \<Rightarrow> 'v incoming \<Rightarrow> gate \<Rightarrow> node_id \<Rightarrow> nat \<Rightarrow> string list \<Rightarrow> ('v, 'd) runner \<Rightarrow> ('v, 'd) turn" where
  "reopen_clean env m g n index members node =
     rbind (loaded_state env m g members node) (\<lambda>(state, g).
     rbind (mael_identity env m n index node) (\<lambda>own.
     rbind (rebuild env state m node) (\<lambda>((journal, table), node).
       case clean_latch (gate_ops (me_depth env) (me_files env)) (stage_state (ns_progress state) (log_view_of journal) g, nr_disk node) n of
         Inl ((g, d), e) \<Rightarrow> Err (refuse_node env m (SF_Latch e) (node\<lparr>nr_disk := d\<rparr>))
       | Inr (Running (g, d) n, _) \<Rightarrow>
           (let node = node\<lparr>nr_disk := d\<rparr>
            in case resume own weighted_majority journal (ns_progress state) table Volatile mael_knobs of
                 Inl e \<Rightarrow> Err (refuse_node env m (SF_Resume e) node)
               | Inr r \<Rightarrow> Ok (node\<lparr>nr_replica := Some r, nr_session := Some (g, n), nr_copies := Some (four n Mk_Restarting)\<rparr>)))))"

definition reopen_crashed ::
    "('v, 'd) mael_env \<Rightarrow> 'v incoming \<Rightarrow> gate \<Rightarrow> node_id \<Rightarrow> nat \<Rightarrow> string list \<Rightarrow> ('v, 'd) runner \<Rightarrow> ('v, 'd) turn option" where
  "reopen_crashed env m g n index members node =
     (case rbind (loaded_state env m g members node) (\<lambda>(state, g).
           rbind (case crashed_pair n of
                    Inr pair \<Rightarrow> Ok pair
                  | Inl (RR_Exhausted identity) \<Rightarrow> Err (refuse_node env m (SF_Exhausted identity) node)
                  | Inl RR_QuorumLost \<Rightarrow> Err (refuse_node env m SF_QuorumLost node)) (\<lambda>pair.
           rbind (mael_identity env m (bp_new pair) index node) (\<lambda>own.
           rbind (mael_identity env m (bp_old pair) index node) (\<lambda>crashed_identity.
           rbind (rebuild env state m node) (\<lambda>((journal, table), node).
           rbind (map_err (\<lambda>e. refuse_node env m (SF_Reincarnate e) node)
                    (reincarnate own weighted_majority journal (ns_progress state) table Volatile mael_knobs)) (\<lambda>r.
             Ok (crashed_identity,
                 node\<lparr>nr_replica := Some r, nr_announce := Some crashed_identity, nr_deferred := Some (g, n),
                      nr_copies := Some (ns_copies state)\<rparr>))))))) of
        Inl node \<Rightarrow> Some (Err node)
      | Inr (crashed_identity, node) \<Rightarrow> drive env (In_Reincarnate crashed_identity) node)"

text \<open>A provisioned replica; the volatile host and a first life.\<close>

definition provisioned ::
    "('v, 'd) mael_env \<Rightarrow> 'v incoming \<Rightarrow> node_id \<Rightarrow> node_id list \<Rightarrow> ('v, 'd) runner \<Rightarrow> ('v, 'd) runner + replica" where
  "provisioned env m own genesis_order node =
     map_err (\<lambda>e. refuse_node env m (SF_Provision e) node)
       (provision own genesis_order weighted_majority segmented_log_new Volatile mael_knobs)"

definition first_life ::
    "('v, 'd) mael_env \<Rightarrow> 'v incoming \<Rightarrow> gate \<Rightarrow> node_id \<Rightarrow> node_id list \<Rightarrow> string list \<Rightarrow> ('v, 'd) runner \<Rightarrow> ('v, 'd) turn" where
  "first_life env m g own genesis_order members node =
     rbind (provisioned env m own genesis_order node) (\<lambda>r.
       case first_latch (gate_ops (me_depth env) (me_files env))
              (stage_create (map name_of members) (persisted_of (rp_progress r)) (log_view_of (rp_journal r)) g, nr_disk node) own of
         Inl ((g, d), e) \<Rightarrow> Err (refuse_node env m (SF_Anchor e) (node\<lparr>nr_disk := d\<rparr>))
       | Inr (Running (g, d) n) \<Rightarrow>
           Ok (node\<lparr>nr_disk := d, nr_replica := Some r, nr_session := Some (g, n), nr_copies := Some (four own Mk_Joining)\<rparr>))"

text \<open>The store the environment selects, at rest before the boot.\<close>

definition state_store :: "('v, 'd) mael_env \<Rightarrow> 'v incoming \<Rightarrow> ('v, 'd) runner \<Rightarrow> ('v, 'd) turn" where
  "state_store env m node =
     (if me_state_dir env
      then (case me_open env (nr_disk node) of
              (True, d) \<Rightarrow> Ok (node\<lparr>nr_store := Some None, nr_disk := d\<rparr>)
            | (False, d) \<Rightarrow> Err (refuse_node env m SF_StateDir (node\<lparr>nr_disk := d\<rparr>)))
      else Ok (node\<lparr>nr_store := None\<rparr>))"

text \<open>The boot decides over the store it takes.\<close>

definition boot_life ::
    "('v, 'd) mael_env \<Rightarrow> 'v incoming \<Rightarrow> nat \<Rightarrow> node_id list \<Rightarrow> string list \<Rightarrow> ('v, 'd) runner \<Rightarrow> ('v, 'd) turn option" where
  "boot_life env m index genesis_order members node =
     (case id_genesis index of
        None \<Rightarrow> Some (Err node)
      | Some own \<Rightarrow>
          (case nr_store node of
             None \<Rightarrow> Some (rbind (provisioned env m own genesis_order node) (\<lambda>r. Ok (node\<lparr>nr_replica := Some r\<rparr>)))
           | Some st \<Rightarrow>
               (let node = node\<lparr>nr_store := None\<rparr>
                in case boot (gate_ops (me_depth env) (me_files env)) (gate_new st, nr_disk node) of
                     Inr (First (g, d)) \<Rightarrow> Some (first_life env m g own genesis_order members (node\<lparr>nr_disk := d\<rparr>))
                   | Inr (Clean (g, d) n) \<Rightarrow> Some (reopen_clean env m g n index members (node\<lparr>nr_disk := d\<rparr>))
                   | Inr (Crashed (g, d) n) \<Rightarrow> reopen_crashed env m g n index members (node\<lparr>nr_disk := d\<rparr>)
                   | Inl ((g, d), BE_QuorumLost) \<Rightarrow> Some (Err (refuse_node env m SF_QuorumLost (node\<lparr>nr_disk := d\<rparr>)))
                   | Inl ((g, d), BE_Store e) \<Rightarrow> Some (Err (refuse_node env m (SF_Store e) (node\<lparr>nr_disk := d\<rparr>)))
                   | Inl ((g, d), BE_Exhausted n) \<Rightarrow> Some (Err (refuse_node env m (SF_Exhausted n) (node\<lparr>nr_disk := d\<rparr>))))))"

definition on_init :: "('v, 'd) mael_env \<Rightarrow> 'v incoming \<Rightarrow> ('v, 'd) runner \<Rightarrow> ('v, 'd) turn option" where
  "on_init env m node =
     (let js = me_json env;
          node_id = unwrap_or (Option.bind (field js m ''node_id'') (js_str js)) [];
          members = sort (case Option.bind (field js m ''node_ids'') (js_array js) of
                            None \<Rightarrow> [] | Some ids \<Rightarrow> List.map_filter (js_str js) ids);
          node = node\<lparr>nr_id := node_id, nr_identity := \<lparr>id_roster = members, id_current = Map.empty\<rparr>\<rparr>
      in case position (\<lambda>member. member = node_id) members of
           None \<Rightarrow>
             Some (Ok (case msg_id js m of
                         None \<Rightarrow> node
                       | Some n \<Rightarrow> reply env (in_src m) n
                           (js_object js (error_body js TEMPORARILY_UNAVAILABLE ''membership rejected'')) node))
         | Some index \<Rightarrow>
             (case state_store env m node of
                Inl node \<Rightarrow> Some (Err node)
              | Inr node \<Rightarrow>
                  (case those (map id_genesis [0..<length members]) of
                     None \<Rightarrow> Some (Err node)
                   | Some genesis_order \<Rightarrow>
                       Option.bind (boot_life env m index genesis_order members node) (\<lambda>turn.
                         Some (rbind turn (\<lambda>node.
                           case write_state env node of
                             (Inl e, node) \<Rightarrow> Err (refuse_node env m (SF_Write e) node)
                           | (Inr _, node) \<Rightarrow>
                               Ok (case msg_id js m of
                                     None \<Rightarrow> node
                                   | Some n \<Rightarrow> reply env (in_src m) n (js_object js [(''type'', js_of_str js ''init_ok'')]) node))))))) "

definition settle_deferred :: "('v, 'd) mael_env \<Rightarrow> ('v, 'd) runner \<Rightarrow> ('v, 'd) runner" where
  "settle_deferred env node =
     (case (nr_deferred node, nr_replica node) of
        (Some (g, n), Some r) \<Rightarrow>
          (if \<not> rejoined r then node
           else
             case crashed_latch (gate_ops (me_depth env) (me_files env))
                    (stage_state (persisted_of (rp_progress r)) (log_view_of (rp_journal r)) g, nr_disk node) n Rejoined_Witness of
               Inr (Running (g, d) new) \<Rightarrow>
                 node\<lparr>nr_deferred := None, nr_disk := d, nr_copies := Some (four new Mk_Joining), nr_session := Some (g, new)\<rparr>
             | Inl ((g, d), _) \<Rightarrow> node\<lparr>nr_deferred := Some (g, n), nr_disk := d\<rparr>)
      | _ \<Rightarrow> node)"

definition on_tick :: "('v, 'd) mael_env \<Rightarrow> ('v, 'd) runner \<Rightarrow> ('v, 'd) turn option" where
  "on_tick env node =
     (if nr_replica node = None then Some (Ok node)
      else Option.bind (drive env In_Tick node) (\<lambda>turn.
        case turn of
          Inl node \<Rightarrow> Some (Err node)
        | Inr node \<Rightarrow>
            (case nr_announce node of
               None \<Rightarrow> Some (Ok node)
             | Some old \<Rightarrow>
                 (if (case nr_replica node of None \<Rightarrow> False | Some r \<Rightarrow> votes (current_config r) (rp_own r))
                  then Some (Ok (settle_deferred env (node\<lparr>nr_announce := None\<rparr>)))
                  else drive env (In_Reincarnate old) node))))"

text \<open>The clean stop: three rounds over the session, each failure leaving the markers it reached.\<close>

definition clean_shutdown :: "('v, 'd) mael_env \<Rightarrow> ('v, 'd) runner \<Rightarrow> ('v, 'd) runner" where
  "clean_shutdown env node =
     (case (nr_replica node, nr_session node) of
        (Some r, Some (g, n)) \<Rightarrow>
          (let ops = gate_ops (me_depth env) (me_files env);
               session = Running (stage_state (persisted_of (rp_progress r)) (log_view_of (rp_journal r)) g, nr_disk node) n
           in case running_begin_stop ops session of
                Inl (Running (g, d) n, _) \<Rightarrow> node\<lparr>nr_session := Some (g, n), nr_disk := d\<rparr>
              | Inr halting \<Rightarrow>
                  (case halting_drain ops halting of
                     Inl (Halting (g, d) n, _) \<Rightarrow> node\<lparr>nr_session := None, nr_disk := d\<rparr>
                   | Inr draining \<Rightarrow>
                       (case draining_finish_stop ops draining of
                          Inl (Draining (g, d) n, _) \<Rightarrow> node\<lparr>nr_session := None, nr_disk := d\<rparr>
                        | Inr (Halted (g, d)) \<Rightarrow> node\<lparr>nr_session := None, nr_disk := d\<rparr>)))
      | _ \<Rightarrow> node)"

definition on_message :: "('v, 'd) mael_env \<Rightarrow> 'v incoming \<Rightarrow> ('v, 'd) runner \<Rightarrow> ('v, 'd) turn option" where
  "on_message env m node =
     (let k = kind (me_json env) m
      in Option.bind
           (if k = ''init'' then on_init env m node
            else if k = ''vrr'' then on_peer env m node
            else if k = ''proxy'' then on_proxy env m node
            else if k = ''proxy_reply'' then Some (Ok (on_proxy_reply env m node))
            else if k \<in> {''read'', ''write'', ''cas''} then on_client env m node
            else if membership_kind k then on_membership env m node
            else Some (Ok node)) (\<lambda>turn. Some (rbind turn (\<lambda>node. Ok (flush_membership env node)))))"

datatype 'v mael_event = Ev_Message "'v incoming" | Ev_Tick | Ev_Eof

text \<open>The main loop over the events of the channel; \<open>Inl\<close> is the end of the process, the clean stop included.\<close>

fun main_loop :: "('v, 'd) mael_env \<Rightarrow> 'v mael_event list \<Rightarrow> ('v, 'd) runner \<Rightarrow> ('v, 'd) turn option" where
  "main_loop env [] node = Some (Ok node)"
| "main_loop env (Ev_Message m # evs) node =
     Option.bind (on_message env m node) (\<lambda>turn. case turn of Inl node \<Rightarrow> Some (Err node) | Inr node \<Rightarrow> main_loop env evs node)"
| "main_loop env (Ev_Tick # evs) node =
     Option.bind (on_tick env node) (\<lambda>turn. case turn of Inl node \<Rightarrow> Some (Err node) | Inr node \<Rightarrow> main_loop env evs node)"
| "main_loop env (Ev_Eof # evs) node = Some (Err (clean_shutdown env node))"

end
