(* ===== verification/Maelstrom_Turns.thy ===== *)
theory Maelstrom_Turns
  imports Maelstrom_Node Host_Run "HOL-Library.Sublist"
begin

text \<open>
  Turns of the Maelstrom node: every one of them ends, and what holds of a turn is what holds of its
  pieces. A relation between nodes that the bookkeeping keeps, that every driven step keeps with the
  effects it releases routed, holds across any number of messages and ticks.
\<close>

section \<open>Turns end\<close>

text \<open>An acknowledged application releases nothing, so the queue of effects only shrinks.\<close>

lemma step_applied:
  assumes "step env (In_Applied s) node = Inr (Inr es, node')"
  shows "es = []"
  using assms plan_applied_quiet publish_effects
  by (fastforce simp: step_def persist_def Let_def split: option.splits sum.splits prod.splits publish_outcome.splits
      plan_refusal.splits if_splits)

lemma route_from_total: "length es \<le> fuel \<Longrightarrow> route_from fuel env es node \<noteq> None"
proof (induction fuel env es node rule: route_from.induct)
  case (3 fuel env e es node)
  then show ?case
    using step_applied by (fastforce split: effect.splits option.splits prod.splits sum.splits simp: Let_def)
qed simp_all

text \<open>A computation that returns; opaque to the simplifier, so that a handler is taken apart along its code.\<close>

definition returns :: "'a option \<Rightarrow> bool" where
  "returns x \<longleftrightarrow> x \<noteq> None"

lemma returns_Some [simp]: "returns (Some x)"
  by (simp add: returns_def)

lemma returns_bind [intro]: "returns x \<Longrightarrow> (\<And>y. x = Some y \<Longrightarrow> returns (f y)) \<Longrightarrow> returns (Option.bind x f)"
  by (cases x) (simp_all add: returns_def)

lemma route_returns [simp]: "returns (route env es node)"
  by (simp add: returns_def route_def route_from_total del: not_None_eq)

lemma drive_returns [simp]: "returns (drive env i node)"
  by (simp add: drive_def split: sum.split prod.split)

lemma submit_returns [simp]:
  "returns (submit_membership env k request w node)" "returns (submit env client_id request_num op w node)"
  unfolding submit_def submit_membership_def Let_def
  by (auto split: option.split sum.split prod.split)

lemma handlers_return [simp]:
  "returns (on_peer env m node)" "returns (on_client env m node)" "returns (on_proxy env m node)"
  "returns (on_membership env m node)" "returns (on_tick env node)"
  unfolding on_peer_def on_client_def on_proxy_def on_membership_def on_tick_def Let_def
  by (auto split: option.split sum.split prod.split body.split bool.split)

lemma reopen_crashed_returns [simp]: "returns (reopen_crashed env m g n index members node)"
  by (simp add: reopen_crashed_def split: sum.split prod.split)

lemma boot_life_returns [simp]: "returns (boot_life env m index order members node)"
  by (simp add: boot_life_def Let_def split: option.split sum.split prod.split boot_outcome.split boot_error.split)

lemma on_init_returns [simp]: "returns (on_init env m node)"
  unfolding on_init_def Let_def
  by (auto split: option.split sum.split prod.split)

lemma on_message_returns [simp]: "returns (on_message env m node)"
  unfolding on_message_def Let_def by auto

lemma main_loop_returns: "returns (main_loop env evs node)"
  by (induction env evs node rule: main_loop.induct) (auto split: sum.split)


section \<open>Bookkeeping\<close>

text \<open>What neither steps the replica, nor executes, nor writes: it may answer and remember whom to answer.\<close>

definition quiet :: "('v, 'd) runner \<Rightarrow> ('v, 'd) runner \<Rightarrow> bool" where
  "quiet node n \<longleftrightarrow> nr_replica n = nr_replica node \<and> nr_kv n = nr_kv node \<and> nr_store n = nr_store node
     \<and> nr_session n = nr_session node \<and> nr_deferred n = nr_deferred node \<and> nr_disk n = nr_disk node
     \<and> nr_id n = nr_id node \<and> prefix (nr_out node) (nr_out n)"

lemma quiet_refl [simp]: "quiet node node"
  by (simp add: quiet_def)

lemma quiet_trans: "quiet a b \<Longrightarrow> quiet b c \<Longrightarrow> quiet a c"
  by (auto simp: quiet_def)

lemma quiet_update [simp]:
  "quiet node (n\<lparr>nr_waiting := w\<rparr>) = quiet node n" "quiet node (n\<lparr>nr_pending := p\<rparr>) = quiet node n"
  "quiet node (n\<lparr>nr_identity := i\<rparr>) = quiet node n" "quiet node (n\<lparr>nr_announce := a\<rparr>) = quiet node n"
  "quiet node (n\<lparr>nr_copies := c\<rparr>) = quiet node n" "quiet node (n\<lparr>nr_tick := k\<rparr>) = quiet node n"
  by (simp_all add: quiet_def)

lemma quiet_send [intro!]: "quiet node n \<Longrightarrow> quiet node (send env dest body n)"
  by (auto simp: quiet_def send_def Let_def)

lemma quiet_answers [intro!]:
  "quiet node n \<Longrightarrow> quiet node (reply env dest k body n)" "quiet node n \<Longrightarrow> quiet node (answer env w body n)"
  "quiet node n \<Longrightarrow> quiet node (refuse env w txt n)" "quiet node n \<Longrightarrow> quiet node (membership_error env w code txt n)"
  "quiet node n \<Longrightarrow> quiet node (forward_or_refuse env op w n)" "quiet node n \<Longrightarrow> quiet node (send_peer env peer msg n)"
  by (cases w; auto simp: reply_def refuse_def membership_error_def forward_or_refuse_def send_peer_def Let_def split: option.split)+

lemma quiet_proxy_reply [intro!]: "quiet node n \<Longrightarrow> quiet node (on_proxy_reply env m n)"
  by (auto simp: on_proxy_reply_def Let_def split: option.split)

lemma quiet_fold: "(\<And>x n. quiet n (f x n)) \<Longrightarrow> quiet node n \<Longrightarrow> quiet node (fold f xs n)"
proof (induction xs arbitrary: n)
  case (Cons x xs)
  from quiet_trans [OF Cons.prems(2) Cons.prems(1)] show ?case using Cons.IH [OF Cons.prems(1)] by simp
qed simp

lemma quiet_flush [intro!]: "quiet node n \<Longrightarrow> quiet node (flush_membership env n)"
  unfolding flush_membership_def Let_def
  by (auto split: option.split intro!: quiet_fold)


text \<open>Routing taken apart: a datagram sent, an operation executed, its waiter answered and its application
  acknowledged, anything else passed over.\<close>

lemma route_induct [consumes 1, case_names none sent other last applied]:
  assumes "route env es a = Some t"
    and "\<And>a. K [] a (Inr a)"
    and "\<And>target era m es a b t. quiet a b \<Longrightarrow> K es b t \<Longrightarrow> K (Eff_Send target era m # es) a t"
    and other: "\<And>e es a t. (\<forall>s n payload. e \<noteq> Eff_Apply s n payload) \<Longrightarrow> K es a t \<Longrightarrow> K (e # es) a t"
    and last: "\<And>s n payload es a response b c d. execute env n payload a = (response, b) \<Longrightarrow> quiet b c \<Longrightarrow>
      step env (In_Applied s) c = Inl d \<Longrightarrow> K (Eff_Apply s n payload # es) a (Inl d)"
    and applied: "\<And>s n payload es a response b c x d t. execute env n payload a = (response, b) \<Longrightarrow> quiet b c \<Longrightarrow>
      step env (In_Applied s) c = Inr (x, d) \<Longrightarrow> K es d t \<Longrightarrow> K (Eff_Apply s n payload # es) a t"
  shows "K es a t"
proof -
  have "route_from fuel env es a = Some t \<Longrightarrow> K es a t" for fuel
  proof (induction es arbitrary: fuel a)
    case Nil
    then have "t = Inr a" by simp
    then show ?case using assms(2) by simp
  next
    case (Cons e es)
    then obtain k where k: "fuel = Suc k" by (cases fuel) auto
    show ?case
    proof (cases e)
      case (Eff_Send target era m)
      have "quiet a (case string_of (nr_identity a) target of None \<Rightarrow> a | Some peer \<Rightarrow> send_peer env peer m a)"
        by (auto split: option.split)
      then show ?thesis using assms(3) Cons k Eff_Send by simp
    next
      case (Eff_Apply s n payload)
      obtain response b where x: "execute env n payload a = (response, b)" by fastforce
      let ?c = "case nr_waiting b (msb n, lsb n) of None \<Rightarrow> b
        | Some w \<Rightarrow> answer env w (response_body (me_json env) response) (b\<lparr>nr_waiting := (nr_waiting b)((msb n, lsb n) := None)\<rparr>)"
      have q: "quiet b ?c" by (auto split: option.split)
      show ?thesis
      proof (cases "step env (In_Applied s) ?c")
        case (Inl d)
        then show ?thesis using last [OF x q Inl] Cons.prems k Eff_Apply x by (simp add: Let_def)
      next
        case (Inr y)
        obtain z d where y: "y = (z, d)" by fastforce
        have "route_from k env es d = Some t"
          using Cons.prems k Eff_Apply x Inr y step_applied [of env s ?c _ d] by (cases z) (auto simp: Let_def)
        then show ?thesis using applied [OF x q Inr [unfolded y]] Cons.IH Eff_Apply by blast
      qed
    qed (use Cons k other in auto)
  qed
  with assms(1) show ?thesis by (simp add: route_def)
qed


section \<open>What turns keep\<close>

text \<open>Any number of messages and ticks, no life begun nor stopped among them.\<close>

definition serving :: "('v, 'd) mael_env \<Rightarrow> 'v mael_event list \<Rightarrow> bool" where
  "serving env evs \<longleftrightarrow>
     list_all (\<lambda>ev. case ev of Ev_Message m \<Rightarrow> kind (me_json env) m \<noteq> ''init'' | Ev_Tick \<Rightarrow> True | Ev_Eof \<Rightarrow> False) evs"

text \<open>\<open>kept\<close> relates a node to itself after a turn it survives, \<open>ended\<close> to itself when the process ends.\<close>

locale turn_relation =
  fixes env :: "('v, 'd) mael_env"
    and kept :: "('v, 'd) runner \<Rightarrow> ('v, 'd) runner \<Rightarrow> bool"
    and ended :: "('v, 'd) runner \<Rightarrow> ('v, 'd) runner \<Rightarrow> bool"
  assumes quiet_kept: "quiet a b \<Longrightarrow> kept a b"
    and quiet_ended: "quiet a b \<Longrightarrow> ended a b"
    and kept_trans: "kept a b \<Longrightarrow> kept b c \<Longrightarrow> kept a c"
    and kept_ended: "kept a b \<Longrightarrow> ended b c \<Longrightarrow> ended a c"
    and step_refused: "step env i a = Inr (Inl e, b) \<Longrightarrow> kept a b"
    and step_ended: "step env i a = Inl b \<Longrightarrow> ended a b"
    and step_routed: "step env i a = Inr (Inr es, b) \<Longrightarrow> route env es b = Some (Inr c) \<Longrightarrow> kept a c"
    and step_lost: "step env i a = Inr (Inr es, b) \<Longrightarrow> route env es b = Some (Inl c) \<Longrightarrow> ended a c"
    and deferred_kept: "kept a (settle_deferred env a)"
begin

definition leaves :: "('v, 'd) runner \<Rightarrow> ('v, 'd) turn option \<Rightarrow> bool" where
  "leaves a x \<longleftrightarrow> (\<forall>b. (x = Some (Inr b) \<longrightarrow> kept a b) \<and> (x = Some (Inl b) \<longrightarrow> ended a b))"

lemma leaves_simps [simp]: "leaves a None" "leaves a (Some (Inr b)) \<longleftrightarrow> kept a b" "leaves a (Some (Inl b)) \<longleftrightarrow> ended a b"
  by (auto simp: leaves_def)

lemma kept_quiet: "kept a b \<Longrightarrow> quiet b c \<Longrightarrow> kept a c"
  using kept_trans quiet_kept by blast

lemma kept_settle: "quiet a b \<Longrightarrow> kept a (settle_deferred env b)"
  using kept_trans quiet_kept deferred_kept by blast

lemma leaves_from: "kept a b \<Longrightarrow> leaves b x \<Longrightarrow> leaves a x"
  using kept_trans kept_ended by (auto simp: leaves_def)

lemma leaves_routed: "step env i a = Inr (Inr es, b) \<Longrightarrow> leaves a (route env es b)"
  using step_routed step_lost by (auto simp: leaves_def)

lemma leaves_drive: "leaves a (drive env i a)"
  by (auto simp: drive_def step_ended step_refused leaves_routed split: sum.split prod.split)

lemma leaves_drive_from: "quiet a b \<Longrightarrow> leaves a (drive env i b)"
  using leaves_from leaves_drive quiet_kept by blast

lemma leaves_bind:
  assumes "leaves a x" "\<And>b. x = Some (Inr b) \<Longrightarrow> leaves b (f (Inr b))" "\<And>b. f (Inl b) = Some (Inl b)"
  shows "leaves a (Option.bind x f)"
proof (cases x)
  case (Some t)
  then show ?thesis
    using assms by (cases t) (auto intro: leaves_from)
qed simp

lemma leaves_peer: "leaves a (on_peer env m a)"
  by (auto simp: on_peer_def Let_def quiet_kept quiet_ended leaves_drive_from split: option.split sum.split body.split prod.split bool.split)

text \<open>A step about to be routed, or refused.\<close>

definition stepping :: "('v, 'd) runner \<Rightarrow> ('v, 'd) runner + (plan_refusal + effect list) \<times> ('v, 'd) runner \<Rightarrow> bool" where
  "stepping a x \<longleftrightarrow> (\<forall>b. (x = Inl b \<longrightarrow> ended a b) \<and> (\<forall>e. x = Inr (Inl e, b) \<longrightarrow> kept a b)
     \<and> (\<forall>es. x = Inr (Inr es, b) \<longrightarrow> leaves a (route env es b)))"

lemma stepping_step: "quiet a b \<Longrightarrow> stepping a (step env i b)"
  using quiet_kept kept_trans kept_ended leaves_from leaves_routed step_refused step_ended unfolding stepping_def by metis

lemma stepping_again:
  assumes "step env i a = Inr (Inl e, b)"
  shows "stepping a (step env j b)"
  using stepping_step [OF quiet_refl, of b] step_refused [OF assms] kept_trans kept_ended leaves_from
  unfolding stepping_def by metis

lemma leaves_stepping:
  assumes "stepping a x" "\<And>e b. quiet b (g e b)" "\<And>b. f (Inl b) = Some (Inl b)" "\<And>b. leaves b (f (Inr b))"
  shows "leaves a (case x of Inl b \<Rightarrow> Some (Inl b) | Inr (Inl e, b) \<Rightarrow> Some (Inr (g e b))
    | Inr (Inr es, b) \<Rightarrow> Option.bind (route env es b) f)"
  using assms quiet_kept kept_trans unfolding stepping_def
  by (auto intro: leaves_bind split: sum.split prod.split)

lemma leaves_membership: "leaves a (submit_membership env k request w a)"
proof -
  have s: "stepping a (case step env (In_Reconfigure op pivot) a of
                  Inr (Inl (PR_ReconfigureViewExhausted b), node) \<Rightarrow>
                    (if pivot = None then Ok (Err (PR_ReconfigureViewExhausted b), node)
                     else step env (In_Reconfigure op None) node)
                | stepped \<Rightarrow> stepped)" for op pivot
    using stepping_step [OF quiet_refl, of a "In_Reconfigure op pivot"] stepping_again [of "In_Reconfigure op pivot" a]
    by (auto split: sum.split prod.split plan_refusal.split)
  have q: "kept b (b\<lparr>nr_pending := p\<rparr>)" "ended b b" for b p
    by (simp_all add: quiet_kept quiet_ended)
  show ?thesis
    unfolding submit_membership_def Let_def
    by (auto intro!: quiet_kept quiet_ended leaves_stepping [OF s] simp: q split: option.split)
qed

lemma leaves_submit: "leaves a (submit env client_id request_num op w a)"
proof -
  have s: "leaves a (case step env i b of
            Inl c \<Rightarrow> Some (Err c)
          | Inr (Inr es, c) \<Rightarrow> route env es c
          | Inr (Inl e, c) \<Rightarrow> Some (Ok (refuse env w why (c\<lparr>nr_waiting := (nr_waiting c)(k := None)\<rparr>))))" if "quiet a b" for i b why k
    using stepping_step [OF that, of i] unfolding stepping_def
    by (auto elim!: kept_quiet split: sum.split prod.split)
  show ?thesis
    unfolding submit_def Let_def
    by (auto intro!: quiet_kept s simp: leaves_membership split: option.split)
qed

lemma leaves_handlers:
  "leaves a (on_client env m a)" "leaves a (on_proxy env m a)" "leaves a (on_membership env m a)"
  unfolding on_client_def on_proxy_def on_membership_def Let_def
  by (auto simp: leaves_submit leaves_membership quiet_kept split: option.split)

lemma leaves_tick: "leaves a (on_tick env a)"
  unfolding on_tick_def Let_def
  by (auto intro!: leaves_bind leaves_drive simp: kept_settle quiet_kept split: option.split)

lemma leaves_message:
  assumes "kind (me_json env) m \<noteq> ''init''"
  shows "leaves a (on_message env m a)"
  using assms unfolding on_message_def Let_def
  by (auto intro!: leaves_bind quiet_kept simp: leaves_peer leaves_handlers)

lemma leaves_loop: "serving env evs \<Longrightarrow> leaves a (main_loop env evs a)"
proof (induction evs arbitrary: a)
  case (Cons ev evs)
  then show ?case
    by (cases ev) (auto intro!: leaves_bind leaves_message leaves_tick simp: serving_def)
qed (simp add: quiet_kept)

end

end
