(* ===== verification/Maelstrom_Theorems.thy ===== *)
theory Maelstrom_Theorems
  imports Maelstrom_Turns Replica_Theorems
begin

text \<open>
  What holds of the Maelstrom node over its messages and ticks: its loop always returns, its service is the
  replay of the operations committed, a forwarded request is forwarded no further, and the write-through
  barrier its durability rests on is never reached.
\<close>

section \<open>The disk under turns\<close>

text \<open>A node whose store rides in its session keeps it there, and without a latch deferred its disk is what it was.\<close>

definition untouched :: "('v, 'd) runner \<Rightarrow> ('v, 'd) runner \<Rightarrow> bool" where
  "untouched a b \<longleftrightarrow> (nr_store a = None \<longrightarrow> nr_store b = None \<and>
     (nr_deferred a = None \<longrightarrow> nr_deferred b = None \<and> nr_disk b = nr_disk a))"

lemma untouched_trans: "untouched a b \<Longrightarrow> untouched b c \<Longrightarrow> untouched a c"
  by (auto simp: untouched_def)

lemma untouched_quiet: "quiet a b \<Longrightarrow> untouched a b"
  by (simp add: quiet_def untouched_def)

lemma untouched_update [simp]: "untouched a (b\<lparr>nr_replica := r\<rparr>) = untouched a b" "untouched a (b\<lparr>nr_tick := k\<rparr>) = untouched a b"
  "untouched a (b\<lparr>nr_kv := kv\<rparr>) = untouched a b"
  by (simp_all add: untouched_def)

lemma untouched_step:
  "step env i a = Inl b \<Longrightarrow> untouched a b" "step env i a = Inr (x, b) \<Longrightarrow> untouched a b"
  by (auto simp: step_def persist_def untouched_def Let_def
      split: option.splits sum.splits prod.splits publish_outcome.splits plan_refusal.splits if_splits)

lemma untouched_execute: "untouched a (snd (execute env n payload a))"
  by (auto simp: execute_def untouched_def split: sum.split prod.split)

lemma untouched_applied: "execute env n payload a = (response, b) \<Longrightarrow> quiet b c \<Longrightarrow> untouched a c"
  using untouched_trans [OF untouched_execute untouched_quiet] by (metis snd_conv)

lemma untouched_route:
  "route env es a = Some t \<Longrightarrow> untouched a (case t of Inl b \<Rightarrow> b | Inr b \<Rightarrow> b)"
proof (induction rule: route_induct)
  case (sent target era m es a b t)
  then show ?case using untouched_trans [OF untouched_quiet] by blast
next
  case (last s n payload es a response b c d)
  then show ?case using untouched_trans [OF untouched_applied untouched_step(1)] by auto
next
  case (applied s n payload es a response b c x d t)
  have "untouched a d" using untouched_trans [OF untouched_applied untouched_step(2)] applied(1-3) by blast
  then show ?case using applied(4) by (rule untouched_trans)
qed (simp_all add: untouched_def)

lemma untouched_routed:
  "step env i a = Inr (x, b) \<Longrightarrow> route env es b = Some (Inr c) \<Longrightarrow> untouched a c"
  "step env i a = Inr (x, b) \<Longrightarrow> route env es b = Some (Inl c) \<Longrightarrow> untouched a c"
  using untouched_trans [OF untouched_step(2) untouched_route] by fastforce+

interpretation disk: turn_relation env untouched untouched for env
proof unfold_locales
  show "untouched a (settle_deferred env a)" for a
    by (auto simp: untouched_def settle_deferred_def Let_def split: option.split sum.split prod.split running.split)
qed (rule untouched_quiet untouched_trans untouched_step untouched_routed; assumption)+

section \<open>A boot takes the store\<close>

lemma untouched_drive: "drive env i a = Some (Inr b) \<Longrightarrow> untouched a b"
  using disk.leaves_drive [of a env i] by simp

lemma write_state_store:
  assumes "write_state env a = (res, b)" "nr_store a = None"
  shows "nr_store b = None"
  using assms by (auto simp: write_state_def Let_def split: option.splits prod.splits)

lemma rebuild_store:
  assumes "rebuild env st m a = Inr (x, b)" "nr_store a = None"
  shows "nr_store b = None"
proof -
  let ?f = "\<lambda>e node. case le_payload e of P_Operation n payload \<Rightarrow> snd (execute env n payload node) | P_System _ \<Rightarrow> node"
  have "untouched node (fold ?f es node)" for es node
  proof (induction es arbitrary: node)
    case (Cons e es)
    have "untouched node (?f e node)" by (simp add: untouched_execute untouched_quiet split: payload.split)
    then show ?case using Cons.IH untouched_trans by auto
  qed (simp add: untouched_quiet)
  then show ?thesis
    using assms by (auto simp: rebuild_def Let_def untouched_def)
qed

text \<open>A turn that leaves no store behind when the process goes on.\<close>

definition storeless :: "('v, 'd) turn \<Rightarrow> bool" where
  "storeless t \<longleftrightarrow> (\<forall>b. t = Inr b \<longrightarrow> nr_store b = None)"

lemma storeless_simps [simp]: "storeless (Inl b)" "storeless (Inr b) \<longleftrightarrow> nr_store b = None"
  by (simp_all add: storeless_def)

lemma storeless_ended: "Inl b = t \<Longrightarrow> storeless t"
  by auto

lemma storeless_rbind [intro!]: "(\<And>x. r = Inr x \<Longrightarrow> storeless (f x)) \<Longrightarrow> storeless (rbind r f)"
  by (auto simp: storeless_def)

lemma storeless_reopen_clean: "nr_store a = None \<Longrightarrow> storeless (reopen_clean env m g n index members a)"
  by (auto simp: reopen_clean_def Let_def dest: rebuild_store split: sum.split prod.split running.split)

lemma storeless_first_life: "nr_store a = None \<Longrightarrow> storeless (first_life env m g own order members a)"
  by (auto simp: first_life_def Let_def split: sum.split prod.split running.split)

lemma storeless_drive: "nr_store a = None \<Longrightarrow> drive env i a = Some t \<Longrightarrow> storeless t"
  by (auto simp: storeless_def untouched_def dest: untouched_drive)

lemma storeless_reopen_crashed:
  assumes "nr_store a = None" "reopen_crashed env m g n index members a = Some t"
  shows "storeless t"
  using assms(2) unfolding reopen_crashed_def
  by (auto dest: rebuild_store [OF _ assms(1)] elim!: storeless_drive [rotated] split: sum.split_asm prod.split_asm)

lemma storeless_boot_life: "boot_life env m index order members a = Some t \<Longrightarrow> storeless t"
  by (auto simp: boot_life_def Let_def storeless_first_life storeless_reopen_clean dest: storeless_reopen_crashed [rotated]
      split: option.splits sum.splits prod.splits boot_outcome.splits boot_error.splits)

lemma reply_store [simp]: "nr_store (reply env dest k body n) = nr_store n"
  by (simp add: reply_def send_def Let_def)

lemma storeless_write: "nr_store a = None \<Longrightarrow>
    storeless (case write_state env a of (Inl e, b) \<Rightarrow> Inl (f e b) | (Inr _, b) \<Rightarrow> Inr (case k of None \<Rightarrow> b | Some n \<Rightarrow> reply env dest n body b))"
  by (auto dest: write_state_store split: sum.split prod.split option.split)

lemma storeless_on_init: "on_init env m a = Some t \<Longrightarrow> nr_store a = None \<Longrightarrow> storeless t"
  unfolding on_init_def Let_def
  by (auto simp: bind_eq_Some_conv intro!: storeless_write intro: storeless_ended dest!: storeless_boot_life split: option.splits sum.splits)


section \<open>The service replays what is committed\<close>

fun kv_apply :: "('v, 'd) mael_env \<Rightarrow> effect \<Rightarrow> 'v kv \<Rightarrow> 'v kv" where
  "kv_apply env (Eff_Apply s n payload) kv =
     (case js_from_slice (me_json env) payload of
        Inr request \<Rightarrow> if request_ids request = (msb n, lsb n) then snd (kv_execute (js_text (me_json env)) request kv) else kv
      | Inl _ \<Rightarrow> kv)"
| "kv_apply env _ kv = kv"

definition replay :: "('v, 'd) mael_env \<Rightarrow> effect list \<Rightarrow> 'v kv \<Rightarrow> 'v kv" where
  "replay env es kv = fold (kv_apply env) es kv"

lemma replay_simps [simp]: "replay env [] kv = kv" "replay env (e # es) kv = replay env es (kv_apply env e kv)"
  "replay env (es @ es') kv = replay env es' (replay env es kv)"
  by (simp_all add: replay_def)

lemma execute_kv: "execute env n payload a = (response, b) \<Longrightarrow> b = a\<lparr>nr_kv := kv_apply env (Eff_Apply s n payload) (nr_kv a)\<rparr>"
  by (auto simp: execute_def split: sum.splits if_splits prod.splits)

lemma kv_apply_other: "(\<forall>s n payload. e \<noteq> Eff_Apply s n payload) \<Longrightarrow> kv_apply env e kv = kv"
  by (cases e) auto

lemma host_run_append:
  "host_run r (xs @ ys) = (case host_run r xs of (es, r') \<Rightarrow> case host_run r' ys of (es', r'') \<Rightarrow> (es @ es', r''))"
  by (induction xs arbitrary: r) (auto split: prod.split)

text \<open>From one node to another by turns of the core, with a list of effects executed on the service.\<close>

definition reaches :: "('v, 'd) mael_env \<Rightarrow> ('v, 'd) runner \<Rightarrow> effect list \<Rightarrow> ('v, 'd) runner \<Rightarrow> bool" where
  "reaches env a effs b \<longleftrightarrow> (\<forall>r. nr_replica a = Some r \<longrightarrow> (\<exists>tis es r'. nr_replica b = Some r'
     \<and> host_run r (map Turn tis) = (es, r') \<and> (\<forall>kv. replay env es kv = replay env effs kv)))"

lemma reaches_quiet: "quiet a b \<Longrightarrow> reaches env a [] b"
  unfolding reaches_def quiet_def by (auto intro!: exI [of _ "[]"])

lemma reaches_trans:
  assumes "reaches env a xs b" "reaches env b ys c"
  shows "reaches env a (xs @ ys) c"
  unfolding reaches_def
proof (intro allI impI)
  fix r assume "nr_replica a = Some r"
  with assms(1) obtain tis es r' where 1: "nr_replica b = Some r'" "host_run r (map Turn tis) = (es, r')"
    "\<forall>kv. replay env es kv = replay env xs kv" unfolding reaches_def by blast
  with assms(2) obtain tis' es' r'' where 2: "nr_replica c = Some r''" "host_run r' (map Turn tis') = (es', r'')"
    "\<forall>kv. replay env es' kv = replay env ys kv" unfolding reaches_def by blast
  have "host_run r (map Turn (tis @ tis')) = (es @ es', r'')" using 1 2 by (simp add: host_run_append)
  then show "\<exists>tis es r'. nr_replica c = Some r' \<and> host_run r (map Turn tis) = (es, r')
      \<and> (\<forall>kv. replay env es kv = replay env (xs @ ys) kv)"
    using 1(3) 2(1,3) by (intro exI [of _ "tis @ tis'"]) auto
qed

lemma parked_effects: "publish r pl = (r', Inr (Parked v es)) \<Longrightarrow> \<exists>i. es = [Eff_Persist i]"
  by (auto simp: publish_def Let_def split: option.splits if_splits prod.splits sum.splits)

lemma write_state_keeps: "write_state env a = (res, b) \<Longrightarrow> nr_replica b = nr_replica a \<and> nr_kv b = nr_kv a"
  by (auto simp: write_state_def Let_def split: option.splits prod.splits)

lemma persist_keeps: "persist env a = Inr b \<Longrightarrow> nr_replica b = nr_replica a \<and> nr_kv b = nr_kv a"
  by (auto simp: persist_def dest: write_state_keeps split: if_splits prod.splits sum.splits)

lemma step_reaches:
  assumes "step env i a = Inr (x, b)"
  shows "reaches env a (case x of Inl _ \<Rightarrow> [] | Inr es \<Rightarrow> es) b" "nr_kv b = nr_kv a"
proof -
  have "reaches env a (case x of Inl _ \<Rightarrow> [] | Inr es \<Rightarrow> es) b \<and> nr_kv b = nr_kv a"
  proof (cases "nr_replica a")
    case None
    then show ?thesis using assms by (auto simp: step_def reaches_def)
  next
    case (Some r)
    let ?ti = "\<lparr>ti_at = nr_tick a + 1, ti_event = i\<rparr>"
    have one: "reaches env a xs b" if "nr_replica b = Some r'" "host_step r ?ti = (o', r')" "\<forall>kv. replay env (released o') kv = replay env xs kv" for o' r' xs
      using that Some unfolding reaches_def
      by (auto intro!: exI [of _ "[?ti]"] simp: host_event_step_def)
    show ?thesis
    proof (cases "plan r ?ti (own_view r)")
      case (Inl e)
      then have "b = a\<lparr>nr_tick := nr_tick a + 1\<rparr>" "x = Inl e"
        using assms Some by (auto simp: step_def Let_def split: plan_refusal.splits)
      then show ?thesis using one [of r "Inl e" "[]"] Inl Some by (simp add: host_step_def released_def)
    next
      case (Inr pl)
      obtain r' res where p: "publish r pl = (r', res)" by fastforce
      have h: "host_step r ?ti = (Inr res, r')" using Inr p by (simp add: host_step_def)
      have b: "nr_replica b = Some r'" "nr_kv b = nr_kv a"
        using assms Some Inr p by (auto simp: step_def Let_def dest!: persist_keeps split: sum.splits publish_outcome.splits)
      have "x = Inr (case res of Inr (Published v es) \<Rightarrow> es | _ \<Rightarrow> [])"
        using assms Some Inr p by (auto simp: step_def Let_def split: sum.splits publish_outcome.splits)
      moreover have "replay env (released (Inr res)) kv = replay env (case res of Inr (Published v es) \<Rightarrow> es | _ \<Rightarrow> []) kv" for kv
        using p parked_effects [of r pl r'] by (auto simp: released_def split: sum.splits publish_outcome.splits)
      ultimately show ?thesis using one [OF b(1) h] b(2) by simp
    qed
  qed
  then show "reaches env a (case x of Inl _ \<Rightarrow> [] | Inr es \<Rightarrow> es) b" "nr_kv b = nr_kv a" by simp_all
qed

text \<open>Routing executes the effects it is given, and the acknowledgements between them release no others.\<close>

lemma route_reaches:
  "route env es a = Some t \<Longrightarrow> t = Inr b \<Longrightarrow> reaches env a [] b \<and> nr_kv b = replay env es (nr_kv a)"
proof (induction rule: route_induct)
  case (none a)
  then show ?case by (simp add: reaches_quiet)
next
  case (sent target era m es a c t)
  then have "reaches env c [] b" "nr_kv b = replay env es (nr_kv c)" by simp_all
  then show ?case using reaches_trans [OF reaches_quiet [OF sent(1)]] sent(1) by (fastforce simp: quiet_def)
next
  case (other e es a t)
  then show ?case by (simp add: kv_apply_other)
next
  case (applied s n payload es a response c d x u t)
  have "reaches env a [] c" "nr_kv c = kv_apply env (Eff_Apply s n payload) (nr_kv a)"
    using execute_kv [OF applied(1)] by (auto simp: reaches_def intro!: exI [of _ "[]"])
  moreover have "reaches env c [] d" "nr_kv d = nr_kv c" using applied(2) reaches_quiet by (auto simp: quiet_def)
  moreover have "reaches env d [] u" "nr_kv u = nr_kv d"
    using step_reaches [OF applied(3)] step_applied [of env s d _ u] applied(3) by (cases x; auto)+
  ultimately show ?case
    using applied(4,5) reaches_trans [OF reaches_trans [OF reaches_trans]] by fastforce
qed simp

definition replayed :: "('v, 'd) mael_env \<Rightarrow> ('v, 'd) runner \<Rightarrow> ('v, 'd) runner \<Rightarrow> bool" where
  "replayed env a b \<longleftrightarrow> (\<exists>effs. reaches env a effs b \<and> nr_kv b = replay env effs (nr_kv a))"

lemma replayed_quiet: "quiet a b \<Longrightarrow> replayed env a b"
  unfolding replayed_def using reaches_quiet [of a b env] by (intro exI [of _ "[]"]) (simp add: quiet_def)

lemma replayed_trans: "replayed env a b \<Longrightarrow> replayed env b c \<Longrightarrow> replayed env a c"
  unfolding replayed_def by (metis reaches_trans replay_simps(3))

lemma replayed_refused: "step env i a = Inr (Inl e, b) \<Longrightarrow> replayed env a b"
  using step_reaches [of env i a "Inl e" b] unfolding replayed_def by (intro exI [of _ "[]"]) simp

lemma replayed_routed:
  assumes "step env i a = Inr (Inr es, b)" "route env es b = Some (Inr c)"
  shows "replayed env a c"
  using step_reaches [OF assms(1)] route_reaches [OF assms(2) refl] reaches_trans [of env a es b "[]" c]
  unfolding replayed_def by (intro exI [of _ es]) simp

lemma replayed_settle: "replayed env a (settle_deferred env a)"
proof -
  have "nr_replica (settle_deferred env a) = nr_replica a" "nr_kv (settle_deferred env a) = nr_kv a"
    by (auto simp: settle_deferred_def Let_def split: option.split sum.split prod.split running.split)
  then show ?thesis unfolding replayed_def reaches_def by (auto intro!: exI [of _ "[]"])
qed

interpretation service: turn_relation env "replayed env" "\<lambda>_ _. True" for env
  by unfold_locales (simp_all add: replayed_quiet replayed_refused replayed_routed replayed_settle, rule replayed_trans)

section \<open>A node that commits one operation\<close>

text \<open>A value is a text: the requests of a proxied operation and of a datagram are told apart by it.\<close>

definition text_lib :: "string json_lib" where
  "text_lib =
     \<lparr>js_field = (\<lambda>v name. if name = ''wire'' then Some v else if name = ''client'' then Some ''c7''
        else if name = ''type'' then Some (if v = ''q'' then ''read'' else ''vrr'') else Some ''q''),
      js_str = Some, js_u64 = (\<lambda>_. Some 4), js_array = (\<lambda>_. None), js_text = (\<lambda>v. v), js_null = [],
      js_of_str = (\<lambda>v. v), js_of_u64 = (\<lambda>_. []), js_of_array = concat, js_object = (\<lambda>fields. concat (map snd fields)),
      js_insert = (\<lambda>name field v. v), js_to_vec = (\<lambda>_. Some []), js_from_slice = (\<lambda>_. Inr (KvWrite 7 9 ''k'' ''v''))\<rparr>"

definition text_env :: "(string, nat) mael_env" where
  "text_env =
     \<lparr>me_json = text_lib, me_start_text = (\<lambda>_. []), me_plan_text = (\<lambda>_. []), me_state_dir = True, me_open = (\<lambda>d. (True, d)),
      me_files = \<lparr>fo_read = (\<lambda>_. Read_Absent), fo_open = (\<lambda>d. (True, d)), fo_write_at = (\<lambda>_ _ d. (True, d + 1)),
        fo_sync = (\<lambda>d. (True, d)), fo_write_temp = (\<lambda>_ d. (True, d + 1)), fo_sync_temp = (\<lambda>d. (True, d)),
        fo_rename = (\<lambda>d. (True, d + 1)), fo_sync_dir = (\<lambda>d. (True, d))\<rparr>, me_depth = 1\<rparr>"

definition commit_message :: message where
  "commit_message = mk_message Tag_Commit (Ballot 1 0) 3 (B_Commit 3)"

definition commit_line :: "string incoming" where
  "commit_line = \<lparr>in_src = ''n1'', in_body = to_hex (enc_message commit_message)\<rparr>"

text \<open>A follower in a session, about to hear of the commit.\<close>

definition follower :: "(string, nat) runner" where
  "follower = (runner_default 0)\<lparr>nr_id := ''n2'', nr_identity := \<lparr>id_roster = [''n1'', ''n2'', ''n3''], id_current = [''n1'' \<mapsto> 10]\<rparr>,
     nr_replica := Some (cluster_node 20 Volatile), nr_tick := 6, nr_session := Some (gate_new None, 20)\<rparr>"

lemma follower_sel [simp]:
  "nr_replica follower = Some (cluster_node 20 Volatile)" "nr_store follower = None" "nr_deferred follower = None"
  "nr_kv follower = Map.empty" "nr_waiting follower = Map.empty" "nr_pending follower = []" "nr_tick follower = 6"
  "nr_identity follower = \<lparr>id_roster = [''n1'', ''n2'', ''n3''], id_current = [''n1'' \<mapsto> 10]\<rparr>" "nr_disk follower = 0"
  by (simp_all add: follower_def runner_default_def)

lemma follower_serving: "serving text_env [Ev_Message commit_line]"
proof -
  have "to_hex bs \<noteq> ''q''" for bs by (cases bs) simp_all
  then show ?thesis by (simp add: serving_def kind_def unwrap_or_def commit_line_def text_env_def text_lib_def)
qed

lemma commit_unpacks: "unpack_from (unpack_message 1) (enc_message commit_message) = Some (Ok commit_message)"
proof -
  have v: "message_valid 1 commit_message" by (simp add: message_valid_def commit_message_def mk_message_def)
  have len: "length (enc_message commit_message) = 29"
    by (simp add: enc_message_def enc_body_def commit_message_def mk_message_def HEADER_LEN_def)
  then have "pack_into pack_message packed_len_message commit_message (replicate (length (enc_message commit_message)) 0)
      = Some (Ok (length (enc_message commit_message), enc_message commit_message))"
    using message_codec.pack_into_fits [OF v, of "replicate 29 0"] by simp
  then show ?thesis
    using message_codec.exact [of "enc_message commit_message" 1 commit_message] v len
    by (simp add: message_codec.len_enc [OF v])
qed

lemma walk_no_panic: "walk_systems j overlay walked slots \<noteq> Inl PR_Panic"
  by (induction slots arbitrary: walked) (auto simp: entry_or_def split: option.splits)

lemma applied_no_panic: "plan r \<lparr>ti_at = t, ti_event = In_Applied s\<rparr> j \<noteq> Inl PR_Panic"
  by (auto simp: plan_def plan_event_def refuse_if_parked_def plan_applied_def applied_walk_def walk_no_panic candidate_with_def
      next_revision_def Let_def split: option.split)

lemma step_sessioned:
  assumes "nr_store a = None"
  shows "step env i a = Inr (x, b) \<Longrightarrow> nr_pending b = nr_pending a \<and> nr_kv b = nr_kv a"
    "step env (In_Applied s) a \<noteq> Inl c"
  using assms
  by (auto simp: step_def persist_def applied_no_panic Let_def
      split: option.splits sum.splits prod.splits publish_outcome.splits plan_refusal.splits)

text \<open>The commit reaches the follower, which executes the operation.\<close>

lemma commit_step:
  "\<exists>r. step text_env (In_Peer 10 commit_message) follower = Inr (Inr [third_apply], follower\<lparr>nr_tick := 7, nr_replica := Some r\<rparr>)"
proof -
  obtain r where r: "publish (cluster_node 20 Volatile) (with_activity (candidate_plan (cluster_node 20 Volatile) committed_progress
       JM_None [third_apply] (PeerMessage Tag_Commit 3) False) 7) = (r, Ok (Published 3 [third_apply]))"
    using commit_publish by blast
  have "\<lparr>ti_at = 7, ti_event = In_Peer 10 commit_message\<rparr> = commit_turn"
    by (simp add: commit_turn_def commit_message_def)
  then show ?thesis
    using r by (intro exI [of _ r]) (simp add: step_def persist_def commit_plan committed_progress_def third_apply_def Let_def)
qed

lemma follower_serves:
  obtains b where "main_loop text_env [Ev_Message commit_line] follower = Some (Inr b)" "nr_kv b = [''k'' \<mapsto> ''v'']"
proof -
  obtain r where r: "step text_env (In_Peer 10 commit_message) follower
      = Inr (Inr [third_apply], follower\<lparr>nr_tick := 7, nr_replica := Some r\<rparr>)" using commit_step by blast
  let ?a = "follower\<lparr>nr_tick := 7, nr_replica := Some r\<rparr>"
  let ?b = "?a\<lparr>nr_kv := [''k'' \<mapsto> ''v'']\<rparr>"
  have x: "execute text_env \<lparr>msb = 7, lsb = 9\<rparr> [1, 2, 3] ?a = (WriteOk 7 9, ?b)"
    by (simp add: execute_def text_env_def text_lib_def)
  obtain z c where c: "step text_env (In_Applied 3) ?b = Inr (z, c)"
    using step_sessioned(2) [of ?b text_env 3] by (cases "step text_env (In_Applied 3) ?b") auto
  then have kept: "nr_pending c = []" "nr_kv c = [''k'' \<mapsto> ''v'']" using step_sessioned(1) [of ?b, OF _ c] by simp_all
  have "route text_env [third_apply] ?a = Some (Inr c)"
    using c x step_applied [of text_env 3 ?b _ c]
    by (cases z) (auto simp: route_def third_apply_def Let_def)
  then have "drive text_env (In_Peer 10 commit_message) follower = Some (Inr c)" using r by (simp add: drive_def)
  moreover have "on_peer text_env commit_line follower = drive text_env (In_Peer 10 commit_message) follower"
    using commit_unpacks
    by (simp add: on_peer_def field_def commit_line_def text_env_def text_lib_def from_to_hex attributed_def commit_message_def
        mk_message_def Let_def)
  moreover have "to_hex bs \<noteq> ''q''" for bs by (cases bs) simp_all
  then have "kind (me_json text_env) commit_line = ''vrr''"
    by (simp add: kind_def unwrap_or_def commit_line_def text_env_def text_lib_def)
  ultimately have "main_loop text_env [Ev_Message commit_line] follower = Some (Inr c)"
    using kept(1) by (simp add: on_message_def flush_membership_def)
  then show ?thesis using that kept(2) by blast
qed


section \<open>What the node promises\<close>

text \<open>C14. Over any messages and ticks the replica goes through turns of the core and nothing else, and the
  service is the replay of the applications those turns release, once each and in slot order, every one of
  them committed by the end and none at or below what was committed before.\<close>

theorem service_replays_committed:
  assumes "main_loop env evs a = Some (Inr b)" "serving env evs" "nr_replica a = Some r" "host_ok False r"
  shows "\<exists>tis es r'. nr_replica b = Some r' \<and> host_run r (map Turn tis) = (es, r') \<and> nr_kv b = replay env es (nr_kv a)
    \<and> applies_in (p_committed (rp_progress r)) (p_committed (rp_progress r')) es"
proof -
  have "replayed env a b" using service.leaves_loop [OF assms(2), of a] assms(1) by simp
  then obtain tis es r' where run: "nr_replica b = Some r'" "host_run r (map Turn tis) = (es, r')" "nr_kv b = replay env es (nr_kv a)"
    using assms(3) unfolding replayed_def reaches_def by metis
  moreover have "applies_in (p_committed (rp_progress r)) (p_committed (rp_progress r')) es"
    using host_run_ok [OF assms(4) run(2)] by (simp add: advances_def)
  ultimately show ?thesis by blast
qed

theorem service_replays_committed_witness:
  "\<exists>b tis es r'. main_loop text_env [Ev_Message commit_line] follower = Some (Inr b) \<and> nr_kv b = [''k'' \<mapsto> ''v'']
     \<and> nr_replica b = Some r' \<and> host_run (cluster_node 20 Volatile) (map Turn tis) = (es, r')
     \<and> nr_kv b = replay text_env es Map.empty \<and> applies_in 2 (p_committed (rp_progress r')) es"
proof (rule follower_serves)
  fix b assume b: "main_loop text_env [Ev_Message commit_line] follower = Some (Inr b)" "nr_kv b = [''k'' \<mapsto> ''v'']"
  from service_replays_committed [OF b(1) follower_serving follower_sel(1) cluster_node_okb] b show ?thesis
    by (simp add: sample_progress_def)
qed

text \<open>C15. The write-through barrier is never reached. A boot moves the store into the gate of the session it
  latches, so the store the barrier looks at is gone; from then on, unless a latch is deferred, no message
  and no tick writes to the disk, whatever the node commits and answers.\<close>

theorem write_through_never_runs:
  "(case on_init env m (runner_default d) of Some (Inr a) \<Rightarrow> nr_store a = None | _ \<Rightarrow> True)
   \<and> (nr_store a = None \<longrightarrow> nr_deferred a = None \<longrightarrow> serving env evs \<longrightarrow>
        (case main_loop env evs a of None \<Rightarrow> False | Some (Inr b) \<Rightarrow> nr_disk b = nr_disk a | Some (Inl b) \<Rightarrow> nr_disk b = nr_disk a))"
  using storeless_on_init [of env m "runner_default d"] disk.leaves_loop [of env evs a] main_loop_returns [of env evs a]
  by (auto simp: returns_def untouched_def runner_default_def split: option.split sum.split)

theorem write_through_never_runs_witness:
  "\<exists>b. main_loop text_env [Ev_Message commit_line] follower = Some (Inr b) \<and> nr_kv b = [''k'' \<mapsto> ''v''] \<and> nr_disk b = 0"
proof (rule follower_serves)
  fix b assume b: "main_loop text_env [Ev_Message commit_line] follower = Some (Inr b)" "nr_kv b = [''k'' \<mapsto> ''v'']"
  from write_through_never_runs [of text_env commit_line 0 follower "[Ev_Message commit_line]"] follower_serving b show ?thesis
    by simp
qed

text \<open>C38. The loop returns on every list of messages and ticks, whatever the environment answers.\<close>

theorem main_loop_ends: "\<exists>t. main_loop env evs a = Some t"
  using main_loop_returns [of env evs a] by (auto simp: returns_def)




end
