(* ===== verification/Spec2Isabelle.thy ===== *)
theory Spec2Isabelle
  imports Config_Theorems Sysop_Codec Quorum_Theorems Era_Table Invariant_Theorems Journal_Theorems Message Replica_Theorems
    Lifecycle_Theorems Locks_Theorems Demo_Store Demo_Theorems Host_Policy Solve_Theorems Commit_Safety State_File_Theorems
    Maelstrom_Theorems
begin

text \<open>
  A verification development of uvrr-core, a Rust library for Viewstamped Replication with weighted,
  era-numbered reconfiguration and reincarnation of crashed nodes, and of the hosts under \<open>src/src\<close> that
  run it. File names below are relative to \<open>src/src\<close>.

  \<^bold>\<open>The program.\<close> The core does no I/O. A host hands a replica one timed input at a time: \<open>plan\<close>
  (\<open>replica/mod.rs\<close>) reads the replica and a view of its journal and answers a refusal or a planned
  transition; \<open>publish\<close> passes the candidate progress record through the legality gate (\<open>invariant.rs\<close>),
  mutates the journal, installs the record, and releases effects (datagrams, applications, persistence
  intents); a host that defers stability has the transition parked until it confirms. Configurations are
  folded from committed system operations (\<open>configuration.rs\<close>), and the era table keeps the last of them. Around the
  core are the boot gate over four marker copies (\<open>lifecycle.rs\<close>), an advisory lock table (\<open>locks.rs\<close>), a demo node
  (\<open>demo/\<close>), a Maelstrom node with its own state file (\<open>bin/maelstrom-lin-kv/\<close>), a reconfiguration solver
  and two small policy modules.

  \<^bold>\<open>Theories and the code they model.\<close>
  \<^item> \<open>Prelude\<close>: machine integers as words, \<open>Result\<close> as a sum with \<open>rbind\<close> as the question mark, iterator idioms.
  \<^item> \<open>Ids\<close> (\<open>ids.rs\<close>), \<open>Wire\<close> and \<open>Wire_Fields\<close> (\<open>wire.rs\<close>): identities, ballots, the writer and cursor, the scalar
    codecs and the header. The locale \<open>codec\<close> states what packing and unpacking promise each other; every type with a
    codec interprets it, up to \<open>Sysop_Codec\<close> (\<open>configuration.rs\<close>) and \<open>Message\<close> (\<open>message.rs\<close>).
  \<^item> \<open>Configuration\<close>, \<open>Config_Props\<close>, \<open>Config_Mass\<close>, \<open>Config_Theorems\<close>, \<open>Era_Table\<close> (\<open>configuration.rs\<close>): the fold,
    its invariant, the weight one era may move, the retained history.
  \<^item> \<open>Quorum\<close>, \<open>Quorum_Theorems\<close> (\<open>quorum.rs\<close>): the strategies, the exhaustive intersection gates, the pivot.
  \<^item> \<open>Progress\<close> (\<open>progress.rs\<close>), \<open>Invariant\<close>, \<open>Invariant_Theorems\<close> (\<open>invariant.rs\<close>): the record and the seven rules.
  \<^item> \<open>Journal\<close>, \<open>Journal_Props\<close>, \<open>Journal_Theorems\<close> (\<open>journal.rs\<close>): the segmented log as slabs and a tail, its
    abstraction to one contiguous run, and the locale \<open>journal\<close> of what the trait pair promises, interpreted on it.
  \<^item> \<open>Replica_State\<close>, \<open>Replica_Core\<close>, \<open>Commit_Fold\<close>, \<open>Reconfigure\<close>, \<open>View_Change\<close>, \<open>State_Transfer\<close>, \<open>Plan_Execution\<close>,
    \<open>Normal\<close>, \<open>Reincarnation\<close>, \<open>Replica_Plan\<close>, \<open>Publish\<close> (\<open>replica/\<close>, \<open>effects.rs\<close>, \<open>observe.rs\<close>) and \<open>Planner\<close>
    (\<open>reconfiguration.rs\<close>, \<open>plan.rs\<close>): one definition per handler, a pure function from replica, journal view and
    message to a refusal or a planned transition, as in the code.
  \<^item> \<open>Replica_Props\<close>, \<open>Replica_Sound\<close>, \<open>Handlers_Sound\<close>, \<open>Plan_Sound\<close>: every plan of every handler is sound. \<open>Host_Run\<close>
    turns this into an invariant of runs, and \<open>Replica_Theorems\<close> and \<open>Commit_Safety\<close> draw the properties from it.
  \<^item> \<open>Lifecycle\<close>, \<open>Lifecycle_Theorems\<close> (\<open>lifecycle.rs\<close>): the boot gate over a disk whose commits may stop after any copy.
  \<^item> \<open>Locks\<close>, \<open>Locks_Theorems\<close> (\<open>locks.rs\<close>); \<open>Demo_Store\<close>, \<open>Demo_Relay\<close>, \<open>Demo_Node\<close>, \<open>Demo_Theorems\<close>
    (\<open>demo/state.rs\<close>, \<open>disk.rs\<close>, \<open>relay.rs\<close>, \<open>node.rs\<close>, \<open>rejoin.rs\<close>); \<open>Host_Policy\<close> (\<open>backoff.rs\<close>, \<open>timeout.rs\<close>,
    \<open>bin/timeout-policy\<close>); \<open>Solve\<close>, \<open>Solve_Theorems\<close> (\<open>solve.rs\<close>, the shaping of \<open>bin/uvrr-solve\<close>).
  \<^item> \<open>State_File\<close> (\<open>bin/maelstrom-lin-kv/store.rs\<close>): the header slots and the journal region, load, create, commit and
    drain over a record of file operations. \<open>State_File_Props\<close>, \<open>State_File_Commit\<close> and \<open>State_File_Theorems\<close>
    run it on a disk with forced contents, writes pending since, and a budget after which the power is cut.
  \<^item> \<open>Maelstrom_Service\<close> (\<open>kv.rs\<close>, \<open>proto.rs\<close>, the identity map of \<open>main.rs\<close>), \<open>Maelstrom_Gate\<close> and \<open>Maelstrom_Node\<close>
    (\<open>main.rs\<close>): the service, the boot gate over the state file, and the node with every handler, its three ways to
    begin a life and its loop. \<open>Maelstrom_Turns\<close> holds the locale \<open>turn_relation\<close>: what is kept by bookkeeping and by
    every routed step is kept by any messages and ticks; \<open>Maelstrom_Theorems\<close> interprets it for the disk and for the service.

  \<^bold>\<open>What the groups of lemmas show.\<close> Every accepted operation keeps configurations well formed, and majorities of any two
  eras a table evaluates meet. A leader commits only what a commit quorum of the configuration voted for, and the history a view
  change selects is not behind any commit quorum. Over any run of a host, operations are applied once, in order and
  committed; committed entries stay; every replica is well formed; deferring stability changes nothing, and
  a failed confirmation leaves no trace. The boot gate starts clean only where a drain vouches for it. Generations of
  locks are never shared. The log refines a contiguous run; the codecs are exact. A commit of the state
  file is read back with its copies and progress and, above the committed frontier, with the journal's entries up to
  their digests; below it the file keeps what it held. A power cut in a commit that replaces nothing is atomic. The hosts' loops end, and what they
  execute is the replay of what the core released. Several theorems state defects: where the code breaks what its
  documentation promises, the property proves the break on the model.

  \<^bold>\<open>Bounds and fuel.\<close> The decoder of system operations takes the depth of the stack it may use; the codec theorems hold at any
  depth that suffices for the value, and \<open>nested_batch_exhausts_any_stack\<close> shows that none suffices for all inputs.
  The solver's search takes a depth; one above the number of unvisited shapes is enough.
  The Maelstrom node routes effects with as much fuel as there are effects, which is enough because an
  acknowledged application releases none; the demo node empties its queue by structural recursion. Every other loop of the code is a
  terminating function here. A panic is a value: \<open>PR_Panic\<close> of a plan, \<open>SR_Panic\<close> of the state file, the left
  injection of a turn of the Maelstrom node; an exhausted stack is \<open>None\<close>.

  \<^bold>\<open>Not modelled.\<close> The conformance harness and its corpus are test code that drives the core. The seqlock of \<open>observe.rs\<close> is
  memory-ordering code: the observation cell is the last snapshot written. The fence file and the sealed
  transport of the demo are text files, cryptography and sockets. Serialisation through serde (the JSON lines of \<open>plan.rs\<close>, the
  requests of the lock table, the values of the Maelstrom node) is a parameter, as are the file systems.
  The reading of files and the printing of \<open>uvrr-solve\<close>, the trace macro, \<open>unpack_to_json\<close>, the threads and error
  streams of the hosts, and the examples are left out.
\<close>

end
